(* ===== verification/Prelude.thy ===== *)
theory Prelude
  imports Main "HOL-Library.Word" "HOL-Library.Sublist" "HOL-Library.Code_Target_Nat"
begin

text \<open>
  Shared vocabulary of the development: machine integers with the arithmetic
  of Rust's \<open>checked_*\<close> and \<open>saturating_*\<close> methods, the result type
  (\<open>Inl\<close> is \<open>Err\<close>, \<open>Inr\<close> is \<open>Ok\<close>), the state-and-error monad in which the
  stateful components are written, and the relational reasoning about it.

  A computation of the monad is a function from a state to a result and a new
  state. An error keeps the state reached so far: a Rust method that returns
  early with \<open>?\<close> leaves behind every mutation it made before.
\<close>

named_theorems monad_simps "unfolding of the state-and-error monad"
named_theorems obeys_intro "closure rules for state relations along the monad"

section \<open>Machine integers\<close>

type_synonym u8 = "8 word"
type_synonym u32 = "32 word"
type_synonym u64 = "64 word"

definition checked_add :: "'a::len word \<Rightarrow> 'a word \<Rightarrow> 'a word option" where
  "checked_add a b = (if unat a + unat b < 2 ^ LENGTH('a) then Some (a + b) else None)"

definition checked_sub :: "'a::len word \<Rightarrow> 'a word \<Rightarrow> 'a word option" where
  "checked_sub a b = (if b \<le> a then Some (a - b) else None)"

definition checked_mul :: "'a::len word \<Rightarrow> 'a word \<Rightarrow> 'a word option" where
  "checked_mul a b = (if unat a * unat b < 2 ^ LENGTH('a) then Some (a * b) else None)"

definition saturating_add :: "'a::len word \<Rightarrow> 'a word \<Rightarrow> 'a word" where
  "saturating_add a b = (case checked_add a b of Some c \<Rightarrow> c | None \<Rightarrow> - 1)"

definition saturating_sub :: "'a::len word \<Rightarrow> 'a word \<Rightarrow> 'a word" where
  "saturating_sub a b = (case checked_sub a b of Some c \<Rightarrow> c | None \<Rightarrow> 0)"

lemma unat_saturating_sub: "unat (saturating_sub a b) = unat a - unat b"
  by (auto simp: saturating_sub_def checked_sub_def unat_sub word_le_nat_alt)

lemma unat_saturating_add:
  "unat (saturating_add (a :: 'a::len word) b) = min (unat a + unat b) (2 ^ LENGTH('a) - 1)"
proof (cases "unat a + unat b < 2 ^ LENGTH('a)")
  case True
  then show ?thesis
    by (simp add: saturating_add_def checked_add_def unat_word_ariths)
next
  case False
  then show ?thesis
    by (simp add: saturating_add_def checked_add_def unsigned_minus_1_eq_mask mask_eq_exp_minus_1)
qed

lemma checked_add_Some: "checked_add a b = Some c \<Longrightarrow> unat c = unat a + unat b"
  by (auto simp: checked_add_def unat_word_ariths split: if_splits)

lemma checked_sub_Some: "checked_sub a b = Some c \<Longrightarrow> unat c = unat a - unat b \<and> unat b \<le> unat a"
  by (auto simp: checked_sub_def unat_sub word_le_nat_alt split: if_splits)

lemma checked_mul_Some: "checked_mul a b = Some c \<Longrightarrow> unat c = unat a * unat b"
  by (auto simp: checked_mul_def unat_word_ariths split: if_splits)

text \<open>For evaluation: overflow is visible in the wrapped sum.\<close>

lemma no_overflow_iff:
  fixes a b :: "'a::len word"
  shows "unat a + unat b < 2 ^ LENGTH('a) \<longleftrightarrow> a \<le> a + b"
proof -
  have b: "unat b < 2 ^ LENGTH('a)" by (rule unsigned_less)
  have sum: "unat (a + b) = (if unat a + unat b < 2 ^ LENGTH('a) then unat a + unat b
      else unat a + unat b - 2 ^ LENGTH('a))"
    by (rule unat_plus_if')
  show ?thesis
  proof (cases "unat a + unat b < 2 ^ LENGTH('a)")
    case True
    then show ?thesis by (simp add: word_le_nat_alt sum)
  next
    case False
    then have wrapped: "unat (a + b) = unat a + unat b - 2 ^ LENGTH('a)" using sum by (simp only: if_False)
    have "unat (a + b) < unat a" unfolding wrapped using b False by linarith
    then show ?thesis using False by (simp add: word_le_nat_alt)
  qed
qed

lemma saturating_add_code [code]: "saturating_add a b = (let c = a + b in if a \<le> c then c else - 1)"
  by (simp add: saturating_add_def checked_add_def no_overflow_iff Let_def)

lemma checked_add_code [code]: "checked_add a b = (let c = a + b in if a \<le> c then Some c else None)"
  by (simp add: checked_add_def no_overflow_iff Let_def)

lemma saturating_add_1_pos: "0 < unat (saturating_add (a :: u32) 1)"
  by (simp add: unat_saturating_add)

section \<open>Results\<close>

definition result_bind :: "'e + 'a \<Rightarrow> ('a \<Rightarrow> 'e + 'b) \<Rightarrow> 'e + 'b" where
  "result_bind r f = (case r of Inl e \<Rightarrow> Inl e | Inr x \<Rightarrow> f x)"

definition ok_or :: "'a option \<Rightarrow> 'e \<Rightarrow> 'e + 'a" where
  "ok_or x e = (case x of None \<Rightarrow> Inl e | Some a \<Rightarrow> Inr a)"

definition is_ok :: "'e + 'a \<Rightarrow> bool" where
  "is_ok r = (case r of Inl _ \<Rightarrow> False | Inr _ \<Rightarrow> True)"

lemma result_bind_simps [simp]:
  "result_bind (Inl e) f = Inl e" "result_bind (Inr x) f = f x"
  by (simp_all add: result_bind_def)

lemma is_ok_simps [simp]: "\<not> is_ok (Inl e)" "is_ok (Inr x)"
  by (simp_all add: is_ok_def)

lemma result_bind_Inr_iff: "result_bind r f = Inr y \<longleftrightarrow> (\<exists>x. r = Inr x \<and> f x = Inr y)"
  by (cases r) simp_all

lemma ok_or_simps [simp]: "ok_or None e = Inl e" "ok_or (Some a) e = Inr a"
  by (simp_all add: ok_or_def)

text \<open>\<open>iter().map(f).collect::<Result<Vec<_>, _>>()\<close>: the first error wins.\<close>

fun collect_results :: "('a \<Rightarrow> 'e + 'b) \<Rightarrow> 'a list \<Rightarrow> 'e + 'b list" where
  "collect_results f [] = Inr []"
| "collect_results f (x # xs) =
     result_bind (f x) (\<lambda>y. result_bind (collect_results f xs) (\<lambda>ys. Inr (y # ys)))"

lemma collect_results_Inr_iff:
  "collect_results f xs = Inr ys \<longleftrightarrow> list_all2 (\<lambda>x y. f x = Inr y) xs ys"
proof (induction xs arbitrary: ys)
  case Nil
  then show ?case by auto
next
  case (Cons x xs)
  then show ?case by (cases ys) (auto simp: result_bind_Inr_iff)
qed

lemma collect_results_total:
  "(\<And>x. x \<in> set xs \<Longrightarrow> \<exists>y. f x = Inr y) \<Longrightarrow> \<exists>ys. collect_results f xs = Inr ys"
proof (induction xs)
  case Nil
  then show ?case by simp
next
  case (Cons x xs)
  then obtain y ys where "f x = Inr y" "collect_results f xs = Inr ys" by force
  then show ?case by simp
qed

section \<open>The state-and-error monad\<close>

type_synonym ('s, 'e, 'a) smon = "'s \<Rightarrow> ('e + 'a) \<times> 's"

definition ret :: "'a \<Rightarrow> ('s, 'e, 'a) smon" where
  "ret x = (\<lambda>s. (Inr x, s))"

definition throw :: "'e \<Rightarrow> ('s, 'e, 'a) smon" where
  "throw e = (\<lambda>s. (Inl e, s))"

definition bnd :: "('s, 'e, 'a) smon \<Rightarrow> ('a \<Rightarrow> ('s, 'e, 'b) smon) \<Rightarrow> ('s, 'e, 'b) smon" where
  "bnd m f = (\<lambda>s. case m s of (Inl e, s') \<Rightarrow> (Inl e, s') | (Inr x, s') \<Rightarrow> f x s')"

definition gets :: "('s \<Rightarrow> 'a) \<Rightarrow> ('s, 'e, 'a) smon" where
  "gets f = (\<lambda>s. (Inr (f s), s))"

definition upd :: "('s \<Rightarrow> 's) \<Rightarrow> ('s, 'e, unit) smon" where
  "upd f = (\<lambda>s. (Inr (), f s))"

definition lift_result :: "'e + 'a \<Rightarrow> ('s, 'e, 'a) smon" where
  "lift_result r = (\<lambda>s. (r, s))"

definition require_some :: "'a option \<Rightarrow> 'e \<Rightarrow> ('s, 'e, 'a) smon" where
  "require_some x e = (case x of None \<Rightarrow> throw e | Some a \<Rightarrow> ret a)"

definition when_m :: "bool \<Rightarrow> ('s, 'e, unit) smon \<Rightarrow> ('s, 'e, unit) smon" where
  "when_m b m = (if b then m else ret ())"

primrec for_each :: "('a \<Rightarrow> ('s, 'e, unit) smon) \<Rightarrow> 'a list \<Rightarrow> ('s, 'e, unit) smon" where
  "for_each f [] = ret ()"
| "for_each f (x # xs) = bnd (f x) (\<lambda>_. for_each f xs)"

primrec map_each :: "('a \<Rightarrow> ('s, 'e, 'b) smon) \<Rightarrow> 'a list \<Rightarrow> ('s, 'e, 'b list) smon" where
  "map_each f [] = ret []"
| "map_each f (x # xs) = bnd (f x) (\<lambda>y. bnd (map_each f xs) (\<lambda>ys. ret (y # ys)))"

lemmas monad_defs = ret_def throw_def bnd_def gets_def upd_def lift_result_def
  require_some_def when_m_def

declare monad_defs [monad_simps]

lemma bnd_Inr_iff:
  "bnd m f s = (Inr y, t) \<longleftrightarrow> (\<exists>x s'. m s = (Inr x, s') \<and> f x s' = (Inr y, t))"
  by (auto simp: bnd_def split: prod.splits sum.splits)

lemma bnd_InrE:
  assumes "bnd m f s = (Inr y, t)"
  obtains x s' where "m s = (Inr x, s')" "f x s' = (Inr y, t)"
  using assms by (auto simp: bnd_Inr_iff)

lemma run_simps [simp]:
  "ret x s = (Inr x, s)" "throw e s = (Inl e, s)" "gets f s = (Inr (f s), s)"
  "upd g s = (Inr (), g s)" "lift_result r s = (r, s)"
  by (simp_all add: monad_defs)

lemma bnd_run:
  "m s = (Inr x, s') \<Longrightarrow> bnd m f s = f x s'"
  "m s = (Inl e, s') \<Longrightarrow> bnd m f s = (Inl e, s')"
  by (simp_all add: bnd_def)

lemma bnd_run_simps [simp]:
  "bnd (ret x) f s = f x s" "bnd (throw e) f s = (Inl e, s)" "bnd (gets g) f s = f (g s) s"
  "bnd (upd h) k s = k () (h s)"
  by (simp_all add: bnd_def)

lemma require_some_simps [simp]:
  "require_some None e = throw e" "require_some (Some a) e = ret a"
  by (simp_all add: require_some_def)

lemma when_m_simps [simp]: "when_m True m = m" "when_m False m = ret ()"
  by (simp_all add: when_m_def)

section \<open>State relations kept by a computation\<close>

text \<open>
  \<open>obeys R m\<close>: whatever the start state and whether it succeeds or fails, the
  computation ends in a state that \<open>R\<close> relates to the start. \<open>R\<close> is a
  preorder in every use; an invariant \<open>I\<close> is the preorder \<open>\<lambda>s t. I s \<longrightarrow> I t\<close>.
\<close>

definition obeys :: "('s \<Rightarrow> 's \<Rightarrow> bool) \<Rightarrow> ('s, 'e, 'a) smon \<Rightarrow> bool" where
  "obeys R m \<longleftrightarrow> (\<forall>s. R s (snd (m s)))"

definition keeps :: "('s \<Rightarrow> bool) \<Rightarrow> 's \<Rightarrow> 's \<Rightarrow> bool" where
  "keeps I s t \<longleftrightarrow> (I s \<longrightarrow> I t)"

lemma obeysI: "(\<And>s. R s (snd (m s))) \<Longrightarrow> obeys R m"
  by (simp add: obeys_def)

lemma obeysD: "obeys R m \<Longrightarrow> R s (snd (m s))"
  by (simp add: obeys_def)

lemma obeys_runD: "obeys R m \<Longrightarrow> m s = (r, t) \<Longrightarrow> R s t"
  using obeysD [of R m s] by simp

lemma obeys_updI: "(\<And>s. R s (f s)) \<Longrightarrow> obeys R (upd f)"
  by (simp add: obeys_def)

text \<open>The interface of a state relation: what the closure rules need of it.\<close>

locale state_preorder =
  fixes R :: "'s \<Rightarrow> 's \<Rightarrow> bool"
  assumes R_refl: "R s s"
    and R_trans: "R s t \<Longrightarrow> R t u \<Longrightarrow> R s u"
begin

lemma obeys_pure:
  "obeys R (ret x)" "obeys R (throw e)" "obeys R (gets f)" "obeys R (lift_result r)"
  "obeys R (require_some y e)"
  by (auto simp: obeys_def R_refl require_some_def split: option.split)

lemma obeys_bnd:
  assumes "obeys R m" and "\<And>x. obeys R (f x)"
  shows "obeys R (bnd m f)"
proof (rule obeysI)
  fix s
  obtain r s' where m: "m s = (r, s')" by fastforce
  then have "R s s'" using assms(1) by (auto dest: obeys_runD)
  moreover have "\<And>x. R s' (snd (f x s'))" using assms(2) by (auto dest: obeysD)
  ultimately show "R s (snd (bnd m f s))"
    using m by (cases r) (auto simp: bnd_def intro: R_trans)
qed

lemma obeys_when: "obeys R m \<Longrightarrow> obeys R (when_m b m)"
  by (simp add: when_m_def obeys_pure)

lemma obeys_for_each: "(\<And>x. obeys R (f x)) \<Longrightarrow> obeys R (for_each f xs)"
  by (induction xs) (auto intro: obeys_pure obeys_bnd)

lemma obeys_map_each: "(\<And>x. obeys R (f x)) \<Longrightarrow> obeys R (map_each f xs)"
  by (induction xs) (auto intro: obeys_pure obeys_bnd)

lemma obeys_if: "obeys R a \<Longrightarrow> obeys R b \<Longrightarrow> obeys R (if c then a else b)"
  by simp

lemma obeys_case_option:
  "obeys R a \<Longrightarrow> (\<And>x. obeys R (f x)) \<Longrightarrow> obeys R (case y of None \<Rightarrow> a | Some x \<Rightarrow> f x)"
  by (cases y) simp_all

lemma obeys_case_sum:
  "(\<And>x. obeys R (f x)) \<Longrightarrow> (\<And>x. obeys R (g x)) \<Longrightarrow>
   obeys R (case y of Inl x \<Rightarrow> f x | Inr x \<Rightarrow> g x)"
  by (cases y) simp_all

lemma obeys_case_prod: "(\<And>x y. obeys R (f x y)) \<Longrightarrow> obeys R (case p of (x, y) \<Rightarrow> f x y)"
  by (cases p) simp

lemma obeys_let: "(\<And>x. obeys R (f x)) \<Longrightarrow> obeys R (let x = y in f x)"
  by (simp add: Let_def)

lemmas obeys_rules = obeys_pure obeys_bnd obeys_when obeys_for_each obeys_map_each
  obeys_if obeys_case_option obeys_case_sum obeys_case_prod obeys_let

end

text \<open>Every invariant gives a state relation.\<close>

interpretation invariant: state_preorder "keeps I" for I
  by unfold_locales (auto simp: keeps_def)

section \<open>Specifications of a computation\<close>

text \<open>
  \<open>triple P m Q E\<close>: from a state in \<open>P\<close>, a successful run ends with a result and state in \<open>Q\<close>, a
  failing one in a state in \<open>E\<close>. It serves where a value read early is used late; the facts about
  it that hold in between are carried by \<open>P\<close>.
\<close>

definition triple ::
    "('s \<Rightarrow> bool) \<Rightarrow> ('s, 'e, 'a) smon \<Rightarrow> ('a \<Rightarrow> 's \<Rightarrow> bool) \<Rightarrow> ('s \<Rightarrow> bool) \<Rightarrow> bool" where
  "triple P m Q E \<longleftrightarrow>
     (\<forall>s. P s \<longrightarrow> (case m s of (Inr x, t) \<Rightarrow> Q x t | (Inl _, t) \<Rightarrow> E t))"

lemma tripleI:
  "(\<And>s x t. P s \<Longrightarrow> m s = (Inr x, t) \<Longrightarrow> Q x t) \<Longrightarrow> (\<And>s e t. P s \<Longrightarrow> m s = (Inl e, t) \<Longrightarrow> E t) \<Longrightarrow>
   triple P m Q E"
  by (auto simp: triple_def split: prod.split sum.split)

lemma tripleD: "triple P m Q E \<Longrightarrow> P s \<Longrightarrow> m s = (Inr x, t) \<Longrightarrow> Q x t"
  by (auto simp: triple_def dest!: spec [of _ s])

lemma triple_failD: "triple P m Q E \<Longrightarrow> P s \<Longrightarrow> m s = (Inl e, t) \<Longrightarrow> E t"
  by (auto simp: triple_def dest!: spec [of _ s])

lemma triple_bnd:
  assumes "triple P m Q E" and "\<And>x. triple (Q x) (f x) W E"
  shows "triple P (bnd m f) W E"
proof (rule tripleI)
  fix s x t assume P: "P s" and run: "bnd m f s = (Inr x, t)"
  from run obtain y u where "m s = (Inr y, u)" "f y u = (Inr x, t)" by (rule bnd_InrE)
  then show "W x t" using assms P by (blast dest: tripleD)
next
  fix s e t assume P: "P s" and run: "bnd m f s = (Inl e, t)"
  obtain r u where m: "m s = (r, u)" by fastforce
  show "E t"
  proof (cases r)
    case (Inl e')
    then show ?thesis using m run P assms(1) by (auto simp: bnd_def dest: triple_failD)
  next
    case (Inr y)
    then have "Q y u" "f y u = (Inl e, t)" using m run P assms(1) by (auto simp: bnd_def dest: tripleD)
    then show ?thesis using assms(2) by (blast dest: triple_failD)
  qed
qed

lemma triple_bnd_gets:
  "(\<And>x. triple (\<lambda>s. P s \<and> f s = x) (k x) Q E) \<Longrightarrow> triple P (bnd (gets f) k) Q E"
  by (auto simp: triple_def)

lemma triple_bnd_gets_any: "(\<And>x. triple P (k x) Q E) \<Longrightarrow> triple P (bnd (gets f) k) Q E"
  by (auto simp: triple_def)

lemma triple_case_prod: "(\<And>x y. triple P (f x y) Q E) \<Longrightarrow> triple P (case p of (x, y) \<Rightarrow> f x y) Q E"
  by (cases p) simp

lemma triple_if: "(c \<Longrightarrow> triple P a Q E) \<Longrightarrow> (\<not> c \<Longrightarrow> triple P b Q E) \<Longrightarrow> triple P (if c then a else b) Q E"
  by simp

lemma triple_case_option:
  "(y = None \<Longrightarrow> triple P a Q E) \<Longrightarrow> (\<And>x. y = Some x \<Longrightarrow> triple P (f x) Q E) \<Longrightarrow>
   triple P (case y of None \<Rightarrow> a | Some x \<Rightarrow> f x) Q E"
  by (cases y) simp_all

lemma triple_require_some:
  "(\<And>s. P s \<Longrightarrow> E s) \<Longrightarrow> (\<And>x. y = Some x \<Longrightarrow> triple P (k x) Q E) \<Longrightarrow>
   triple P (bnd (require_some y e) k) Q E"
  by (cases y) (auto simp: triple_def)

lemma triple_lift_result:
  "(\<And>s. P s \<Longrightarrow> E s) \<Longrightarrow> (\<And>x. r = Inr x \<Longrightarrow> triple P (k x) Q E) \<Longrightarrow>
   triple P (bnd (lift_result r) k) Q E"
  by (cases r) (auto simp: triple_def bnd_def)

lemma triple_guard_option:
  "(\<And>s. P s \<Longrightarrow> E s) \<Longrightarrow> ((\<And>x. y = Some x \<Longrightarrow> g x) \<Longrightarrow> triple P (k ()) Q E) \<Longrightarrow>
   triple P (bnd (case y of None \<Rightarrow> ret () | Some x \<Rightarrow> if g x then ret () else throw (f x)) k) Q E"
  by (cases y) (auto simp: triple_def)

lemma triple_obeys: "obeys (keeps P) m \<Longrightarrow> (\<And>s. P s \<Longrightarrow> E s) \<Longrightarrow> triple P m (\<lambda>_. P) E"
  by (intro tripleI) (auto simp: keeps_def dest: obeys_runD)

lemma triple_weaken:
  "triple P' m Q' E' \<Longrightarrow> (\<And>s. P s \<Longrightarrow> P' s) \<Longrightarrow> (\<And>x s. Q' x s \<Longrightarrow> Q x s) \<Longrightarrow> (\<And>s. E' s \<Longrightarrow> E s) \<Longrightarrow>
   triple P m Q E"
  by (intro tripleI) (blast dest: tripleD triple_failD)+

lemma triple_kept: "obeys (keeps I) m \<Longrightarrow> (\<And>s. P s \<Longrightarrow> I s) \<Longrightarrow> triple P m (\<lambda>_. I) I"
  by (intro tripleI) (auto simp: keeps_def dest: obeys_runD)

lemma obeys_triple:
  assumes "triple I m (\<lambda>_. I) I"
  shows "obeys (keeps I) m"
proof (rule obeysI)
  fix s
  obtain r t where "m s = (r, t)" by fastforce
  then show "keeps I s (snd (m s))"
    using assms by (cases r) (auto simp: keeps_def dest: tripleD triple_failD)
qed

lemma triple_throw: "(\<And>s. P s \<Longrightarrow> E s) \<Longrightarrow> triple P (throw x) Q E"
  by (auto simp: triple_def)

lemma triple_ret: "(\<And>s. P s \<Longrightarrow> Q x s) \<Longrightarrow> triple P (ret x) Q E"
  by (auto simp: triple_def)

lemma triple_assume: "(\<And>s. P s \<Longrightarrow> b) \<Longrightarrow> (b \<Longrightarrow> triple P m Q E) \<Longrightarrow> triple P m Q E"
  by (auto simp: triple_def)

section \<open>Lists\<close>

text \<open>\<open>iter_mut().find(p)\<close> followed by an update of the element found.\<close>

fun update_first :: "('a \<Rightarrow> bool) \<Rightarrow> ('a \<Rightarrow> 'a) \<Rightarrow> 'a list \<Rightarrow> 'a list" where
  "update_first p f [] = []"
| "update_first p f (x # xs) = (if p x then f x # xs else x # update_first p f xs)"

lemma length_update_first [simp]: "length (update_first p f xs) = length xs"
  by (induction xs) simp_all

lemma map_update_first:
  "(\<And>x. g (f x) = g x) \<Longrightarrow> map g (update_first p f xs) = map g xs"
  by (induction xs) simp_all

lemma find_update_first:
  "(\<And>x. p (f x) = p x) \<Longrightarrow> find p (update_first p f xs) = map_option f (find p xs)"
  by (induction xs) simp_all

lemma find_update_first_other:
  assumes "\<And>x. q (f x) = q x" and "\<And>x. p x \<Longrightarrow> \<not> q x"
  shows "find q (update_first p f xs) = find q xs"
  using assms by (induction xs) auto

text \<open>\<open>position(p)\<close>: the index of the first element that satisfies \<open>p\<close>.\<close>

fun position :: "('a \<Rightarrow> bool) \<Rightarrow> 'a list \<Rightarrow> nat option" where
  "position p [] = None"
| "position p (x # xs) = (if p x then Some 0 else map_option Suc (position p xs))"

lemma position_Some: "position p xs = Some i \<Longrightarrow> i < length xs \<and> p (xs ! i) \<and> (\<forall>j<i. \<not> p (xs ! j))"
  by (induction xs arbitrary: i) (auto split: if_splits simp: less_Suc_eq_0_disj nth_Cons')

lemma position_Some_take:
  "position p xs = Some i \<Longrightarrow> take (Suc i) xs = take i xs @ [xs ! i] \<and> i < length xs"
  by (auto dest: position_Some simp: take_Suc_conv_app_nth)

lemma position_None: "position p xs = None \<longleftrightarrow> (\<forall>x\<in>set xs. \<not> p x)"
  by (induction xs) auto

text \<open>\<open>iter().max()\<close>, with the default given by \<open>unwrap_or\<close>.\<close>

fun max_or :: "'a::linorder \<Rightarrow> 'a list \<Rightarrow> 'a" where
  "max_or d [] = d"
| "max_or d [x] = x"
| "max_or d (x # y # ys) = max x (max_or d (y # ys))"

lemma max_or_ge: "x \<in> set xs \<Longrightarrow> x \<le> max_or d xs"
  by (induction d xs rule: max_or.induct) (auto simp: le_max_iff_disj)

lemma max_or_in: "xs \<noteq> [] \<Longrightarrow> max_or d xs \<in> set xs"
  by (induction d xs rule: max_or.induct) (auto simp: max_def)

text \<open>Keep the first occurrence of every element, in order (a \<open>HashSet::insert\<close> filter).\<close>

fun dedup_first :: "'a list \<Rightarrow> 'a list \<Rightarrow> 'a list" where
  "dedup_first seen [] = []"
| "dedup_first seen (x # xs) =
     (if x \<in> set seen then dedup_first seen xs else x # dedup_first (x # seen) xs)"

lemma set_dedup_first: "set (dedup_first seen xs) = set xs - set seen"
  by (induction seen xs rule: dedup_first.induct) auto

lemma distinct_dedup_first: "distinct (dedup_first seen xs)"
  by (induction seen xs rule: dedup_first.induct) (auto simp: set_dedup_first)

lemma dedup_first_id: "distinct xs \<Longrightarrow> set seen \<inter> set xs = {} \<Longrightarrow> dedup_first seen xs = xs"
  by (induction seen xs rule: dedup_first.induct) auto

lemma subseq_dedup_first: "subseq (dedup_first seen xs) xs"
  by (induction seen xs rule: dedup_first.induct) auto

section \<open>Association lists\<close>

text \<open>Hash maps whose entries are listed: one entry per key.\<close>

definition assoc_insert :: "'k \<Rightarrow> 'v \<Rightarrow> ('k \<times> 'v) list \<Rightarrow> ('k \<times> 'v) list" where
  "assoc_insert k v xs = (k, v) # filter (\<lambda>(k', _). k' \<noteq> k) xs"

definition assoc_remove :: "'k \<Rightarrow> ('k \<times> 'v) list \<Rightarrow> ('k \<times> 'v) list" where
  "assoc_remove k xs = filter (\<lambda>(k', _). k' \<noteq> k) xs"

lemma map_of_assoc_remove [simp]: "map_of (assoc_remove k xs) = (map_of xs)(k := None)"
  by (induction xs) (auto simp: assoc_remove_def fun_eq_iff)

lemma map_of_assoc_insert [simp]: "map_of (assoc_insert k v xs) = (map_of xs)(k \<mapsto> v)"
  using map_of_assoc_remove [of k xs] by (simp add: assoc_insert_def assoc_remove_def)

lemma dom_assoc_insert: "map_of xs k = Some u \<Longrightarrow> dom (map_of (assoc_insert k v xs)) \<subseteq> dom (map_of xs)"
  unfolding map_of_assoc_insert by (metis domI dom_fun_upd insert_subset option.distinct(1) subset_refl)

lemma dom_assoc_remove: "dom (map_of (assoc_remove k xs)) \<subseteq> dom (map_of xs)"
  unfolding map_of_assoc_remove by (simp add: Diff_subset)

lemma distinct_keys_filter: "distinct (map fst xs) \<Longrightarrow> distinct (map fst (filter P xs))"
  by (induction xs) auto

lemma distinct_assoc [intro]:
  "distinct (map fst xs) \<Longrightarrow> distinct (map fst (assoc_insert k v xs))" "distinct (map fst xs) \<Longrightarrow> distinct (map fst (assoc_remove k xs))"
  using distinct_keys_filter [of xs] by (auto simp: assoc_insert_def assoc_remove_def)

end
