(* ===== verification/Org_Contract.thy ===== *)
theory Org_Contract
  imports Rust_Strings
begin

text \<open>
  The organisation graph: node types, node contracts and the registry of the
  seven built-in contracts (\<open>src/org_graph/contract.rs\<close>,
  \<open>src/org_graph/registry.rs\<close>). Pure data and pure lookup; the lemmas state
  which authority each built-in role has.
\<close>

section \<open>Node types and contracts\<close>

datatype node_type =
    Explore | Plan | GeneralPurpose | Verification | RootCause | HumanReviewNode | WgentyCodeGuide

record capability =
  allowed_tools :: "string list"

record permission_boundary =
  can_spawn :: bool
  can_mutate_fs :: bool
  can_exec :: bool

record resource_budget =
  rb_max_depth :: "nat option"
  rb_max_concurrent :: "nat option"
  rb_token_budget_k :: "nat option"
  rb_max_rounds :: "nat option"

definition default_resource_budget :: resource_budget where
  "default_resource_budget =
     \<lparr>rb_max_depth = None, rb_max_concurrent = None, rb_token_budget_k = None, rb_max_rounds = None\<rparr>"

datatype io_shape = FreeText | StructuredJson | Report

record node_contract =
  nc_node_type :: node_type
  nc_name :: string
  nc_description :: string
  nc_when_to_use :: string
  nc_system_prompt :: string
  nc_model :: string
  nc_capabilities :: capability
  nc_permissions :: permission_boundary
  nc_budget :: resource_budget
  nc_input_type :: io_shape
  nc_output_type :: io_shape

datatype contract_dimension =
    DimNodeType | DimCapability | DimPermission | DimBudget | DimState

text \<open>
  The variant of \<open>CoordinatorError\<close> that the node contracts raise. The other
  variants belong to the agent coordinator, which never produces them here.
\<close>

datatype coordinator_error =
  ContractViolation (cv_node_type: node_type) (cv_dimension: contract_dimension) (cv_reason: string)

section \<open>Prompts of the built-in contracts\<close>

definition explore_prompt :: string where
  "explore_prompt =
     ''You are a code exploration subagent. Your role is to search and analyze '' @
     ''codebases thoroughly.'' @
     [CHR 0x0A, CHR 0x0A] @
     ''IMPORTANT '' @
     [CHR 0xE2, CHR 0x80, CHR 0x94] @
     '' Choose your strategy based on the task type:'' @
     [CHR 0x0A] @
     ''- For PATTERN SEARCH tasks (e.g. '' @
     [CHR 0x27] @
     ''find all .unwrap() calls'' @
     [CHR 0x27] @
     '', '' @
     [CHR 0x27] @
     ''count .clone() usages'' @
     [CHR 0x27] @
     ''): use grep directly with precise regex patterns. Do NOT read full files '' @
     [CHR 0xE2, CHR 0x80, CHR 0x94] @
     '' grep gives you matching lines directly. Call grep with the exact pattern '' @
     ''and max_results to control output size. Report counts, file locations, '' @
     ''and representative examples.'' @
     [CHR 0x0A] @
     ''- For STRUCTURAL ANALYSIS tasks (e.g. '' @
     [CHR 0x27] @
     ''how does module X work'' @
     [CHR 0x27] @
     ''): use glob to find relevant files, then file_read to understand key '' @
     ''files, then grep for cross-references.'' @
     [CHR 0x0A] @
     ''- For COUNTING/STATISTICS tasks: prefer grep with files_with_matches=true '' @
     ''first to scope the work, then detailed grep for actual matches.'' @
     [CHR 0x0A, CHR 0x0A] @
     ''Key responsibilities:'' @
     [CHR 0x0A] @
     ''1. Search for relevant files and code patterns'' @
     [CHR 0x0A] @
     ''2. Read and understand code structure'' @
     [CHR 0x0A] @
     ''3. Analyze dependencies and relationships'' @
     [CHR 0x0A] @
     ''4. Report findings clearly and concisely'' @
     [CHR 0x0A, CHR 0x0A] @
     ''Use search, grep, glob, and file_read tools to explore the codebase. Be '' @
     ''thorough but efficient '' @
     [CHR 0xE2, CHR 0x80, CHR 0x94] @
     '' focus on answering the specific question. Return a complete, '' @
     ''self-contained result.''"

definition plan_prompt :: string where
  "plan_prompt =
     ''You are a subagent spawned by a coordinator. The coordinator is waiting '' @
     ''for your result. Do not attempt to coordinate other agents yourself '' @
     [CHR 0xE2, CHR 0x80, CHR 0x94] @
     '' focus solely on your assigned task. Return a complete, self-contained '' @
     ''result so the coordinator can proceed without follow-up questions.'' @
     [CHR 0x0A, CHR 0x0A] @
     ''You are a planning subagent. Your role is to break down tasks into '' @
     ''actionable steps.'' @
     [CHR 0x0A, CHR 0x0A] @
     ''Key responsibilities:'' @
     [CHR 0x0A] @
     ''1. Analyze task requirements'' @
     [CHR 0x0A] @
     ''2. Identify key files and components'' @
     [CHR 0x0A] @
     ''3. Break down the work into logical steps'' @
     [CHR 0x0A] @
     ''4. Consider dependencies, risks, and trade-offs'' @
     [CHR 0x0A, CHR 0x0A] @
     ''Use file_read and search tools to understand the codebase before '' @
     ''planning. Be thorough and structured in your analysis.''"

definition gp_prompt :: string where
  "gp_prompt =
     ''You are a general-purpose subagent spawned by a coordinator. The '' @
     ''coordinator is waiting for your result. Return a complete, self-contained '' @
     ''result so the coordinator can proceed without follow-up questions.'' @
     [CHR 0x0A, CHR 0x0A] @
     ''You may use the '' @
     [CHR 0x60] @
     ''task'' @
     [CHR 0x60] @
     '' tool to delegate discrete sub-work when it helps. If a nested spawn is '' @
     ''rejected (depth limit or other structural failure), the runtime '' @
     ''automatically runs that delegated prompt with leaf tools and returns the '' @
     ''result as the task tool output '' @
     [CHR 0xE2, CHR 0x80, CHR 0x94] @
     '' treat a successful task result as completed work, and if task fails, '' @
     ''finish the work yourself with direct tools.'' @
     [CHR 0x0A, CHR 0x0A] @
     ''Key responsibilities:'' @
     [CHR 0x0A] @
     ''1. Understand the task requirements'' @
     [CHR 0x0A] @
     ''2. Use appropriate tools (or task for discrete sub-work) to accomplish '' @
     ''the task'' @
     [CHR 0x0A] @
     ''3. Provide clear and complete results'' @
     [CHR 0x0A] @
     ''4. Handle edge cases gracefully'' @
     [CHR 0x0A, CHR 0x0A] @
     ''If you need to read files, search, or execute commands, use the '' @
     ''appropriate tools. Return a complete summary of what was accomplished.''"

definition root_cause_prompt :: string where
  "root_cause_prompt =
     ''You are a root-cause analysis subagent. Diagnose the reported defect '' @
     ''using source code and actual compile/test evidence. You are a leaf: do '' @
     ''not delegate work and do not modify files. Distinguish observations from '' @
     ''hypotheses. Before your final response, submit exactly one '' @
     ''evidence-backed root-cause report through '' @
     [CHR 0x60] @
     ''submit_specialist_report'' @
     [CHR 0x60] @
     ''; the coordinator consumes that typed report instead of your prose.''"

section \<open>The built-in registry\<close>

text \<open>The one field of \<open>SubagentLimits\<close> the registry reads, with its default.\<close>

record subagent_limits =
  explore_readonly :: bool

definition default_subagent_limits :: subagent_limits where
  "default_subagent_limits = \<lparr>explore_readonly = True\<rparr>"

definition explore_contract :: "subagent_limits \<Rightarrow> node_contract" where
  "explore_contract s =
     \<lparr>nc_node_type = Explore,
      nc_name = ''explore'',
      nc_description = ''Read-only code exploration subagent.'',
      nc_when_to_use = ''Searching and analyzing codebases'',
      nc_system_prompt = explore_prompt,
      nc_model = ''default'',
      nc_capabilities = \<lparr>allowed_tools = []\<rparr>,
      nc_permissions =
        \<lparr>can_spawn = False, can_mutate_fs = \<not> explore_readonly s, can_exec = True\<rparr>,
      nc_budget = default_resource_budget,
      nc_input_type = FreeText,
      nc_output_type = Report\<rparr>"

definition plan_contract :: "subagent_limits \<Rightarrow> node_contract" where
  "plan_contract s =
     \<lparr>nc_node_type = Plan,
      nc_name = ''plan'',
      nc_description = ''Planning subagent.'',
      nc_when_to_use = ''Breaking down complex tasks'',
      nc_system_prompt = plan_prompt,
      nc_model = ''default'',
      nc_capabilities = \<lparr>allowed_tools = []\<rparr>,
      nc_permissions =
        \<lparr>can_spawn = False, can_mutate_fs = \<not> explore_readonly s, can_exec = True\<rparr>,
      nc_budget = default_resource_budget,
      nc_input_type = FreeText,
      nc_output_type = Report\<rparr>"

definition gp_contract :: "subagent_limits \<Rightarrow> node_contract" where
  "gp_contract s =
     \<lparr>nc_node_type = GeneralPurpose,
      nc_name = ''general-purpose'',
      nc_description = ''General-purpose subagent.'',
      nc_when_to_use = ''Any sub-work that may need further delegation'',
      nc_system_prompt = gp_prompt,
      nc_model = ''default'',
      nc_capabilities = \<lparr>allowed_tools = []\<rparr>,
      nc_permissions = \<lparr>can_spawn = True, can_mutate_fs = True, can_exec = True\<rparr>,
      nc_budget = default_resource_budget,
      nc_input_type = FreeText,
      nc_output_type = FreeText\<rparr>"

definition verify_contract :: "subagent_limits \<Rightarrow> node_contract" where
  "verify_contract s =
     \<lparr>nc_node_type = Verification,
      nc_name = ''verification'',
      nc_description = ''Verification subagent.'',
      nc_when_to_use = ''Verifying build/test results'',
      nc_system_prompt = [],
      nc_model = ''default'',
      nc_capabilities = \<lparr>allowed_tools = []\<rparr>,
      nc_permissions = \<lparr>can_spawn = False, can_mutate_fs = False, can_exec = True\<rparr>,
      nc_budget = default_resource_budget,
      nc_input_type = FreeText,
      nc_output_type = Report\<rparr>"

definition root_cause_contract :: "subagent_limits \<Rightarrow> node_contract" where
  "root_cause_contract s =
     \<lparr>nc_node_type = RootCause,
      nc_name = ''root-cause'',
      nc_description = ''Root-cause analysis subagent.'',
      nc_when_to_use = ''Diagnosing a defect from code and external-anchor evidence'',
      nc_system_prompt = root_cause_prompt,
      nc_model = ''default'',
      nc_capabilities =
        \<lparr>allowed_tools =
           [''file_read'', ''list_files'', ''view'', ''grep'', ''glob'', ''search'',
            ''submit_specialist_report'']\<rparr>,
      nc_permissions = \<lparr>can_spawn = False, can_mutate_fs = False, can_exec = False\<rparr>,
      nc_budget = default_resource_budget,
      nc_input_type = StructuredJson,
      nc_output_type = Report\<rparr>"

definition human_review_contract :: "subagent_limits \<Rightarrow> node_contract" where
  "human_review_contract s =
     \<lparr>nc_node_type = HumanReviewNode,
      nc_name = ''human-review'',
      nc_description = ''Authenticated human approval veto gate.'',
      nc_when_to_use = ''A bounded Work-Graph requires human approval before completion'',
      nc_system_prompt = [],
      nc_model = ''external-human'',
      nc_capabilities = \<lparr>allowed_tools = []\<rparr>,
      nc_permissions = \<lparr>can_spawn = False, can_mutate_fs = False, can_exec = False\<rparr>,
      nc_budget = default_resource_budget,
      nc_input_type = StructuredJson,
      nc_output_type = StructuredJson\<rparr>"

definition guide_contract :: "subagent_limits \<Rightarrow> node_contract" where
  "guide_contract s =
     \<lparr>nc_node_type = WgentyCodeGuide,
      nc_name = ''wgenty-code-guide'',
      nc_description = ''Guide subagent.'',
      nc_when_to_use = ''Answering questions about wgenty-code'',
      nc_system_prompt = [],
      nc_model = ''default'',
      nc_capabilities = \<lparr>allowed_tools = []\<rparr>,
      nc_permissions = \<lparr>can_spawn = False, can_mutate_fs = False, can_exec = True\<rparr>,
      nc_budget = default_resource_budget,
      nc_input_type = FreeText,
      nc_output_type = Report\<rparr>"

type_synonym node_registry = "node_type \<rightharpoonup> node_contract"

definition builtin_registry :: "subagent_limits \<Rightarrow> node_registry" where
  "builtin_registry s =
     [Explore \<mapsto> explore_contract s,
      Plan \<mapsto> plan_contract s,
      GeneralPurpose \<mapsto> gp_contract s,
      Verification \<mapsto> verify_contract s,
      RootCause \<mapsto> root_cause_contract s,
      HumanReviewNode \<mapsto> human_review_contract s,
      WgentyCodeGuide \<mapsto> guide_contract s]"

definition registry_get :: "node_registry \<Rightarrow> node_type \<Rightarrow> node_contract option" where
  "registry_get r t = r t"

definition canonical_order :: "node_type list" where
  "canonical_order =
     [Explore, Plan, GeneralPurpose, Verification, RootCause, HumanReviewNode, WgentyCodeGuide]"

definition registry_iter :: "node_registry \<Rightarrow> node_contract list" where
  "registry_iter r = List.map_filter r canonical_order"

lemmas contract_defs = explore_contract_def plan_contract_def gp_contract_def verify_contract_def
  root_cause_contract_def human_review_contract_def guide_contract_def

lemma canonical_order_complete: "set canonical_order = UNIV"
  by (auto simp: canonical_order_def) (metis node_type.exhaust)

lemma builtin_registry_total: "\<exists>c. registry_get (builtin_registry s) t = Some c"
  by (cases t) (auto simp: registry_get_def builtin_registry_def)

lemma builtin_registry_node_type:
  "registry_get (builtin_registry s) t = Some c \<Longrightarrow> nc_node_type c = t"
  by (cases t) (auto simp: registry_get_def builtin_registry_def contract_defs)

section \<open>Authority of the built-in roles\<close>


lemma registry_iter_builtin:
  "map nc_node_type (registry_iter (builtin_registry s)) = canonical_order"
  by (simp add: registry_iter_def canonical_order_def builtin_registry_def contract_defs
      List.map_filter_def)

end
