(* ===== verification/Work_Graph_Plan.thy ===== *)
theory Work_Graph_Plan
  imports Org_Contract
begin

text \<open>
  Composition of bounded Work-Graph plans from closed-set facts
  (\<open>src/org_graph/work_graph_plan.rs\<close>): the static templates, their
  instantiation, the splices, structural validation, role binding and the
  application of one adaptation. The rules that decide an adaptation read the
  work state and are in theory \<open>Work_Graph_Route\<close>.
\<close>

section \<open>Data\<close>

datatype work_graph_task_kind = Implementation | Diagnosis

datatype risk = RiskLow | RiskMedium | RiskHigh

datatype work_graph_phase = PhaseCompileAnchor | PhaseTestAnchor | PhaseVerifyGate

definition default_phases :: "work_graph_phase list" where
  "default_phases = [PhaseCompileAnchor, PhaseTestAnchor, PhaseVerifyGate]"

record work_graph_request =
  task_kind :: work_graph_task_kind
  requires_human_review :: bool
  req_risk :: risk
  has_test_infra :: bool
  max_specialists :: u8

definition default_request :: work_graph_request where
  "default_request =
     \<lparr>task_kind = Implementation, requires_human_review = False, req_risk = RiskMedium,
      has_test_infra = True, max_specialists = 1\<rparr>"

record plan_node =
  pn_id :: string
  pn_role :: node_type

record plan_edge =
  pe_from :: string
  pe_to :: string

record role_binding =
  rbd_node_id :: string
  rbd_role :: node_type
  rbd_contract_name :: string
  rbd_can_spawn :: bool
  rbd_can_mutate_fs :: bool
  rbd_can_exec :: bool

record work_graph_plan =
  template_id :: string
  plan_nodes :: "plan_node list"
  plan_edges :: "plan_edge list"
  plan_phases :: "work_graph_phase list"
  plan_revision :: u32
  plan_bindings :: "role_binding list"

record graph_template =
  gt_id :: string
  gt_stages :: "plan_node list"
  gt_edges :: "(string \<times> string) list"

text \<open>
  The errors of composition. \<open>MissingTemplate\<close> is the panic of the \<open>expect\<close>
  on the template lookup; it is shown unreachable.
\<close>

datatype plan_error =
    UnregisteredRole string node_type
  | TooManyNodes nat nat
  | UndeclaredStage string
  | EdgeNotAllowed string string
  | InvalidSpecialistCapacity u8
  | MissingTemplate

definition MAX_PLAN_ADAPTATIONS :: u32 where
  "MAX_PLAN_ADAPTATIONS = 2"

definition revision_one :: u32 where
  "revision_one = 1"

datatype adaptation_reason = RepeatedTestAnchorFailure (consecutive_failures: u32)

record adaptation =
  spliced_node :: plan_node
  ad_reason :: adaptation_reason
  next_revision :: u32

datatype adaptation_outcome =
    Unchanged
  | Splice adaptation
  | EscalateAdaptation adaptation_reason

section \<open>Static templates\<close>

definition stage :: "string \<Rightarrow> node_type \<Rightarrow> plan_node" where
  "stage i r = \<lparr>pn_id = i, pn_role = r\<rparr>"

definition core_stages :: "plan_node list" where
  "core_stages =
     [stage ''implement'' GeneralPurpose, stage ''verify'' Verification, stage ''diagnose'' RootCause]"

definition core_edges :: "(string \<times> string) list" where
  "core_edges =
     [(''implement'', ''verify''), (''verify'', ''diagnose''), (''diagnose'', ''implement'')]"

definition review_stages :: "plan_node list" where
  "review_stages =
     [stage ''implement'' GeneralPurpose, stage ''verify'' Verification, stage ''diagnose'' RootCause,
      stage ''human-review'' HumanReviewNode]"

definition review_edges :: "(string \<times> string) list" where
  "review_edges =
     [(''implement'', ''verify''), (''verify'', ''diagnose''), (''diagnose'', ''implement''),
      (''verify'', ''human-review'')]"

definition builtin_graph_templates :: "graph_template list" where
  "builtin_graph_templates =
     [\<lparr>gt_id = ''implementation-v1'', gt_stages = core_stages, gt_edges = core_edges\<rparr>,
      \<lparr>gt_id = ''implementation-v1-human-review'', gt_stages = review_stages, gt_edges = review_edges\<rparr>,
      \<lparr>gt_id = ''diagnosis-v1'', gt_stages = core_stages, gt_edges = core_edges\<rparr>,
      \<lparr>gt_id = ''diagnosis-v1-human-review'', gt_stages = review_stages, gt_edges = review_edges\<rparr>]"

definition find_template ::
    "graph_template list \<Rightarrow> work_graph_task_kind \<Rightarrow> bool \<Rightarrow> graph_template option" where
  "find_template templates kind review =
     (let base_id = (case kind of Implementation \<Rightarrow> ''implementation-v1'' | Diagnosis \<Rightarrow> ''diagnosis-v1'');
          expected_id = (if review then base_id @ ''-human-review'' else base_id)
      in find (\<lambda>t. gt_id t = expected_id) templates)"

definition instantiate :: "graph_template \<Rightarrow> work_graph_plan" where
  "instantiate t =
     \<lparr>template_id = gt_id t,
      plan_nodes = gt_stages t,
      plan_edges = map (\<lambda>(a, b). \<lparr>pe_from = a, pe_to = b\<rparr>) (gt_edges t),
      plan_phases = default_phases,
      plan_revision = revision_one,
      plan_bindings = []\<rparr>"

definition allowed_plan_edges :: "(string \<times> string) list" where
  "allowed_plan_edges =
     [(''implement'', ''verify''), (''verify'', ''diagnose''), (''diagnose'', ''implement''),
      (''verify'', ''human-review'')]"

definition MAX_WORK_GRAPH_NODES :: nat where
  "MAX_WORK_GRAPH_NODES = 8"

section \<open>Role binding, routing edges, validation\<close>

definition bind_node :: "node_registry \<Rightarrow> plan_node \<Rightarrow> plan_error + role_binding" where
  "bind_node registry n =
     result_bind (ok_or (registry_get registry (pn_role n)) (UnregisteredRole (pn_id n) (pn_role n)))
       (\<lambda>c. Inr
          \<lparr>rbd_node_id = pn_id n,
           rbd_role = pn_role n,
           rbd_contract_name = nc_name c,
           rbd_can_spawn = can_spawn (nc_permissions c),
           rbd_can_mutate_fs = can_mutate_fs (nc_permissions c),
           rbd_can_exec = can_exec (nc_permissions c)\<rparr>)"

definition bind_registry :: "work_graph_plan \<Rightarrow> node_registry \<Rightarrow> plan_error + work_graph_plan" where
  "bind_registry plan registry =
     result_bind (collect_results (bind_node registry) (plan_nodes plan))
       (\<lambda>bs. Inr (plan\<lparr>plan_bindings := bs\<rparr>))"

definition role_of :: "work_graph_plan \<Rightarrow> string \<Rightarrow> node_type option" where
  "role_of plan i = map_option pn_role (find (\<lambda>n. pn_id n = i) (plan_nodes plan))"

definition permits_role_edge :: "work_graph_plan \<Rightarrow> node_type \<Rightarrow> node_type \<Rightarrow> bool" where
  "permits_role_edge plan from to \<longleftrightarrow>
     list_ex (\<lambda>e. role_of plan (pe_from e) = Some from \<and> role_of plan (pe_to e) = Some to)
       (plan_edges plan)"

definition has_stage :: "work_graph_plan \<Rightarrow> string \<Rightarrow> bool" where
  "has_stage plan i \<longleftrightarrow> list_ex (\<lambda>n. pn_id n = i) (plan_nodes plan)"

definition check_edge :: "work_graph_plan \<Rightarrow> plan_edge \<Rightarrow> plan_error + unit" where
  "check_edge plan e =
     (if \<not> has_stage plan (pe_from e) then Inl (UndeclaredStage (pe_from e))
      else if \<not> has_stage plan (pe_to e) then Inl (UndeclaredStage (pe_to e))
      else if (pe_from e, pe_to e) \<notin> set allowed_plan_edges
      then Inl (EdgeNotAllowed (pe_from e) (pe_to e))
      else Inr ())"

definition validate_composition :: "work_graph_plan \<Rightarrow> plan_error + unit" where
  "validate_composition plan =
     (if MAX_WORK_GRAPH_NODES < length (plan_nodes plan)
      then Inl (TooManyNodes (length (plan_nodes plan)) MAX_WORK_GRAPH_NODES)
      else result_bind (collect_results (check_edge plan) (plan_edges plan)) (\<lambda>_.
           result_bind (bind_registry plan (builtin_registry default_subagent_limits)) (\<lambda>_.
           Inr ())))"

section \<open>Composition\<close>

definition review_gate :: "work_graph_request \<Rightarrow> bool" where
  "review_gate r \<longleftrightarrow> requires_human_review r \<or> req_risk r = RiskHigh"

definition splice_stages :: "work_graph_request \<Rightarrow> work_graph_plan \<Rightarrow> work_graph_plan" where
  "splice_stages r plan =
     (if req_risk r = RiskLow \<or> max_specialists r = 0
      then plan\<lparr>plan_nodes := filter (\<lambda>n. pn_id n \<noteq> ''diagnose'') (plan_nodes plan),
                plan_edges :=
                  filter (\<lambda>e. pe_from e \<noteq> ''diagnose'' \<and> pe_to e \<noteq> ''diagnose'') (plan_edges plan)\<rparr>
      else plan)"

definition splice_phases :: "work_graph_request \<Rightarrow> work_graph_plan \<Rightarrow> work_graph_plan" where
  "splice_phases r plan =
     (if \<not> has_test_infra r
      then plan\<lparr>plan_phases := filter (\<lambda>p. p \<noteq> PhaseTestAnchor) (plan_phases plan)\<rparr>
      else plan)"

definition deviates :: "work_graph_request \<Rightarrow> bool" where
  "deviates r \<longleftrightarrow> \<not> has_test_infra r \<or> req_risk r \<noteq> RiskMedium \<or> max_specialists r \<noteq> 1"

definition signature_id :: "work_graph_request \<Rightarrow> string" where
  "signature_id r =
     (case task_kind r of Implementation \<Rightarrow> ''impl'' | Diagnosis \<Rightarrow> ''diag'') @
     (if \<not> has_test_infra r then ''+no-test'' else []) @
     (if review_gate r then ''+review'' else []) @
     (case req_risk r of RiskLow \<Rightarrow> ''+risk-low'' | RiskHigh \<Rightarrow> ''+risk-high'' | RiskMedium \<Rightarrow> []) @
     (if max_specialists r \<noteq> 1 then ''+spec-'' @ show_nat (unat (max_specialists r)) else [])"

definition spliced_plan :: "work_graph_request \<Rightarrow> graph_template \<Rightarrow> work_graph_plan" where
  "spliced_plan r t =
     (let plan = splice_phases r (splice_stages r (instantiate t))
      in if deviates r then plan\<lparr>template_id := signature_id r\<rparr> else plan)"

definition compose_work_graph :: "work_graph_request \<Rightarrow> plan_error + work_graph_plan" where
  "compose_work_graph r =
     (if 3 < max_specialists r then Inl (InvalidSpecialistCapacity (max_specialists r))
      else
        result_bind (ok_or (find_template builtin_graph_templates (task_kind r) (review_gate r))
                      MissingTemplate) (\<lambda>template.
        result_bind (validate_composition (spliced_plan r template)) (\<lambda>_.
        Inr (spliced_plan r template))))"

text \<open>\<open>select_work_graph\<close> unwraps the result: \<open>None\<close> is its panic.\<close>

definition select_work_graph :: "work_graph_request \<Rightarrow> work_graph_plan option" where
  "select_work_graph r = (case compose_work_graph r of Inr p \<Rightarrow> Some p | Inl _ \<Rightarrow> None)"

text \<open>
  \<open>apply_adaptation\<close> mutates the plan in place: the plan is returned beside the
  result, also when validation fails.
\<close>

definition apply_adaptation ::
    "work_graph_plan \<Rightarrow> adaptation \<Rightarrow> (plan_error + unit) \<times> work_graph_plan" where
  "apply_adaptation plan a =
     (let i = pn_id (spliced_node a) in
      if has_stage plan i then (Inr (), plan)
      else
        let plan' = plan\<lparr>plan_nodes := plan_nodes plan @ [spliced_node a],
                         plan_edges := plan_edges plan @
                           [\<lparr>pe_from = ''verify'', pe_to = i\<rparr>, \<lparr>pe_from = i, pe_to = ''implement''\<rparr>],
                         plan_revision := next_revision a\<rparr>
        in (validate_composition plan', plan'))"

section \<open>Well-formed plans\<close>

text \<open>
  What validation promises: at most eight nodes, edges only between declared stages and only
  those of the whitelist.
\<close>

definition plan_wf :: "work_graph_plan \<Rightarrow> bool" where
  "plan_wf plan \<longleftrightarrow>
     length (plan_nodes plan) \<le> MAX_WORK_GRAPH_NODES \<and>
     (\<forall>e \<in> set (plan_edges plan).
        has_stage plan (pe_from e) \<and> has_stage plan (pe_to e) \<and>
        (pe_from e, pe_to e) \<in> set allowed_plan_edges)"

lemma bind_node_total: "\<exists>b. bind_node (builtin_registry s) n = Inr b"
  using builtin_registry_total [of s "pn_role n"] by (auto simp: bind_node_def)

lemma bind_registry_builtin_total: "\<exists>p. bind_registry plan (builtin_registry s) = Inr p"
  using collect_results_total [of "plan_nodes plan" "bind_node (builtin_registry s)"] bind_node_total
  by (auto simp: bind_registry_def)

lemma bind_registry_keeps:
  assumes "bind_registry plan registry = Inr p"
  shows "plan_nodes p = plan_nodes plan" "plan_edges p = plan_edges plan"
    "plan_revision p = plan_revision plan" "plan_phases p = plan_phases plan"
    "template_id p = template_id plan"
  using assms by (auto simp: bind_registry_def result_bind_Inr_iff)

lemma check_edge_ok:
  "check_edge plan e = Inr u \<longleftrightarrow>
     has_stage plan (pe_from e) \<and> has_stage plan (pe_to e) \<and>
     (pe_from e, pe_to e) \<in> set allowed_plan_edges"
  by (auto simp: check_edge_def)

lemma is_ok_check_edge:
  "is_ok (check_edge plan e) \<longleftrightarrow>
     has_stage plan (pe_from e) \<and> has_stage plan (pe_to e) \<and>
     (pe_from e, pe_to e) \<in> set allowed_plan_edges"
  by (auto simp: check_edge_def)

lemma check_edges_ok:
  "(\<exists>us. collect_results (check_edge plan) es = Inr us) \<longleftrightarrow> (\<forall>e\<in>set es. is_ok (check_edge plan e))"
proof
  assume "\<exists>us. collect_results (check_edge plan) es = Inr us"
  then show "\<forall>e\<in>set es. is_ok (check_edge plan e)"
    by (auto simp: collect_results_Inr_iff list_all2_conv_all_nth in_set_conv_nth)
next
  assume "\<forall>e\<in>set es. is_ok (check_edge plan e)"
  then show "\<exists>us. collect_results (check_edge plan) es = Inr us"
    by (intro collect_results_total) (auto simp: is_ok_check_edge check_edge_ok)
qed

lemma validate_composition_iff: "validate_composition plan = Inr u \<longleftrightarrow> plan_wf plan"
proof -
  obtain p where p: "bind_registry plan (builtin_registry default_subagent_limits) = Inr p"
    using bind_registry_builtin_total by blast
  have "validate_composition plan = Inr u \<longleftrightarrow>
      length (plan_nodes plan) \<le> MAX_WORK_GRAPH_NODES \<and>
      (\<exists>us. collect_results (check_edge plan) (plan_edges plan) = Inr us)"
    using p by (auto simp: validate_composition_def result_bind_Inr_iff)
  then show ?thesis
    by (simp add: check_edges_ok is_ok_check_edge plan_wf_def)
qed

section \<open>What composition builds\<close>

text \<open>
  The abstract contract of composition: which stages, edges and phases a request asks for,
  stated without templates and splices.
\<close>

definition wants_diagnose :: "work_graph_request \<Rightarrow> bool" where
  "wants_diagnose r \<longleftrightarrow> req_risk r \<noteq> RiskLow \<and> max_specialists r \<noteq> 0"

definition spec_plan :: "work_graph_request \<Rightarrow> work_graph_plan \<Rightarrow> bool" where
  "spec_plan r p \<longleftrightarrow>
     plan_nodes p =
       [stage ''implement'' GeneralPurpose, stage ''verify'' Verification] @
       (if wants_diagnose r then [stage ''diagnose'' RootCause] else []) @
       (if review_gate r then [stage ''human-review'' HumanReviewNode] else []) \<and>
     plan_edges p =
       [\<lparr>pe_from = ''implement'', pe_to = ''verify''\<rparr>] @
       (if wants_diagnose r
        then [\<lparr>pe_from = ''verify'', pe_to = ''diagnose''\<rparr>, \<lparr>pe_from = ''diagnose'', pe_to = ''implement''\<rparr>]
        else []) @
       (if review_gate r then [\<lparr>pe_from = ''verify'', pe_to = ''human-review''\<rparr>] else []) \<and>
     plan_phases p =
       [PhaseCompileAnchor] @ (if has_test_infra r then [PhaseTestAnchor] else []) @ [PhaseVerifyGate] \<and>
     plan_revision p = 1 \<and> plan_bindings p = []"

lemmas template_defs = core_stages_def core_edges_def review_stages_def review_edges_def
  builtin_graph_templates_def find_template_def instantiate_def stage_def default_phases_def
  revision_one_def

lemma find_template_builtin:
  "find_template builtin_graph_templates k b =
     Some \<lparr>gt_id = (case k of Implementation \<Rightarrow> ''implementation-v1'' | Diagnosis \<Rightarrow> ''diagnosis-v1'') @
                  (if b then ''-human-review'' else []),
           gt_stages = (if b then review_stages else core_stages),
           gt_edges = (if b then review_edges else core_edges)\<rparr>"
  by (cases k; cases b) (simp_all add: find_template_def builtin_graph_templates_def)

lemma spliced_plan_spec:
  assumes "find_template builtin_graph_templates (task_kind r) (review_gate r) = Some t"
  shows "spec_plan r (spliced_plan r t)"
  using assms
  by (cases "review_gate r"; cases "wants_diagnose r"; cases "has_test_infra r")
     (auto simp: find_template_builtin spec_plan_def spliced_plan_def Let_def splice_phases_def
       splice_stages_def wants_diagnose_def instantiate_def review_stages_def core_stages_def
       review_edges_def core_edges_def stage_def default_phases_def revision_one_def)

lemma spec_plan_template_id [simp]: "spec_plan r (p\<lparr>template_id := x\<rparr>) = spec_plan r p"
  by (simp add: spec_plan_def)

lemma spec_plan_wf: "spec_plan r p \<Longrightarrow> plan_wf p"
  by (auto simp: spec_plan_def plan_wf_def has_stage_def MAX_WORK_GRAPH_NODES_def stage_def
      allowed_plan_edges_def)

lemma compose_work_graph_eq:
  assumes "max_specialists r \<le> 3"
    and t: "find_template builtin_graph_templates (task_kind r) (review_gate r) = Some t"
  shows "compose_work_graph r = Inr (spliced_plan r t)"
proof -
  have "plan_wf (spliced_plan r t)" using spliced_plan_spec [OF t] by (rule spec_plan_wf)
  then have "validate_composition (spliced_plan r t) = Inr ()" by (simp add: validate_composition_iff)
  with assms show ?thesis by (simp add: compose_work_graph_def)
qed

lemma compose_work_graph_total: "max_specialists r \<le> 3 \<Longrightarrow> \<exists>p. compose_work_graph r = Inr p"
  using compose_work_graph_eq find_template_builtin by blast

lemma compose_work_graph_Inr:
  assumes "compose_work_graph r = Inr p"
  shows "max_specialists r \<le> 3 \<and> spec_plan r p \<and> plan_wf p"
proof -
  obtain t where t: "find_template builtin_graph_templates (task_kind r) (review_gate r) = Some t"
    using find_template_builtin by blast
  have ms: "max_specialists r \<le> 3"
    using assms by (auto simp: compose_work_graph_def split: if_splits)
  then have "p = spliced_plan r t"
    using assms compose_work_graph_eq [OF _ t] by simp
  then have "spec_plan r p" using spliced_plan_spec [OF t] by simp
  then show ?thesis using ms spec_plan_wf by auto
qed

text \<open>
  C20: composition is total on its closed range and implements its contract: every request with
  at most three specialists composes, without panic, a plan with exactly the stages, edges and
  phases the request asks for (a diagnose stage unless the risk is low or the capacity zero, a
  human-review gate exactly when review is required or the risk is high), which is well formed:
  at most eight nodes, edges only between declared stages and within the whitelist. A larger
  capacity is refused with the offending value.
\<close>

theorem compose_work_graph_correct:
  "case compose_work_graph r of
     Inl e \<Rightarrow> 3 < max_specialists r \<and> e = InvalidSpecialistCapacity (max_specialists r)
   | Inr p \<Rightarrow> max_specialists r \<le> 3 \<and> spec_plan r p \<and> plan_wf p"
proof (cases "3 < max_specialists r")
  case True
  then show ?thesis by (simp add: compose_work_graph_def)
next
  case False
  then obtain p where "compose_work_graph r = Inr p"
    using compose_work_graph_total [of r] by (auto simp: not_less)
  then show ?thesis using compose_work_graph_Inr by simp
qed

lemma default_request_plan:
  "compose_work_graph default_request = Inr (instantiate (hd builtin_graph_templates))"
  using compose_work_graph_eq [of default_request, OF _ find_template_builtin]
  by (simp add: default_request_def review_gate_def spliced_plan_def splice_phases_def
      splice_stages_def deviates_def template_defs)

section \<open>Adaptation\<close>

text \<open>The stage that the adapter splices, whatever triggers it.\<close>

definition diagnose_adaptation :: "adaptation_reason \<Rightarrow> u32 \<Rightarrow> adaptation" where
  "diagnose_adaptation reason rv =
     \<lparr>spliced_node = stage ''diagnose'' RootCause, ad_reason = reason, next_revision = rv\<rparr>"

lemma apply_diagnose_wf:
  assumes wf: "plan_wf plan" and stages: "has_stage plan ''verify''" "has_stage plan ''implement''"
    and room: "length (plan_nodes plan) < MAX_WORK_GRAPH_NODES"
  shows "\<exists>plan'. apply_adaptation plan (diagnose_adaptation reason rv) = (Inr (), plan') \<and> plan_wf plan'"
proof (cases "has_stage plan ''diagnose''")
  case True
  then show ?thesis
    using wf by (simp add: apply_adaptation_def diagnose_adaptation_def stage_def)
next
  case False
  define plan' where "plan' = plan\<lparr>plan_nodes := plan_nodes plan @ [stage ''diagnose'' RootCause],
     plan_edges := plan_edges plan @
       [\<lparr>pe_from = ''verify'', pe_to = ''diagnose''\<rparr>, \<lparr>pe_from = ''diagnose'', pe_to = ''implement''\<rparr>],
     plan_revision := rv\<rparr>"
  have grow: "\<And>i. has_stage plan i \<Longrightarrow> has_stage plan' i" "has_stage plan' ''diagnose''"
    by (simp_all add: plan'_def has_stage_def stage_def)
  have "plan_wf plan'"
    using wf stages room grow
    by (auto simp: plan_wf_def plan'_def allowed_plan_edges_def)
  then have "validate_composition plan' = Inr ()" by (simp add: validate_composition_iff)
  moreover have "apply_adaptation plan (diagnose_adaptation reason rv) = (validate_composition plan', plan')"
    using False by (simp add: apply_adaptation_def diagnose_adaptation_def plan'_def Let_def stage_def)
  ultimately show ?thesis using \<open>plan_wf plan'\<close> by simp
qed

lemma apply_adaptation_idempotent:
  assumes "has_stage plan (pn_id (spliced_node a))"
  shows "apply_adaptation plan a = (Inr (), plan)"
  using assms by (simp add: apply_adaptation_def)

end
