(* ===== verification/Work_State.thy ===== *)
theory Work_State
  imports Work_Graph_Plan
begin

text \<open>
  The structured work products of a turn and their permission-checked access
  (\<open>src/org_graph/work_state.rs\<close>), and the summary of the audit trail
  (\<open>src/org_graph/audit.rs\<close>). Every setter is a computation over the work
  state that may be refused; the current time stamp (\<open>chrono::Utc::now\<close>) is an
  argument. The interface \<open>guarded_field\<close> states what the getter and setter of
  one field promise together; all six guarded fields are interpreted.
\<close>

section \<open>Work products\<close>

record generated_diff =
  gd_summary :: string
  gd_files :: "string list"

record compile_result =
  cr_ok :: bool
  cr_stderr :: string

record test_result =
  tr_pass :: bool
  tr_failed_cases :: "string list"

datatype human_review = Approve | Reject

record budget =
  max_iter :: u32
  iter_used :: u32
  token_used :: u64

record child_graph_ref =
  cg_session_id :: string
  cg_root_node_id :: string

record graph_child_binding =
  gcb_node_id :: string
  gcb_attempt :: u32
  gcb_role :: node_type
  gcb_child_agent_id :: string
  gcb_timestamp :: string
  gcb_child_graph :: "child_graph_ref option"

record unit_outcome =
  uo_passed :: bool
  uo_attempts_used :: u32
  uo_summary :: string

record decomposed_unit =
  du_unit_id :: string
  du_goal :: string
  du_request :: work_graph_request
  du_plan :: work_graph_plan
  du_allocation :: budget
  du_verify_commands :: "string list"
  du_expected_files :: "string list"
  du_outcome :: "unit_outcome option"

datatype specialist_report_kind =
  Exploration | RootCauseReport | ImplementationPlan | ImplementationReport

record specialist_evidence =
  ev_path :: string
  ev_detail :: string

record specialist_report =
  rp_producer :: node_type
  rp_kind :: specialist_report_kind
  rp_summary :: string
  rp_evidence :: "specialist_evidence list"
  rp_suspected_files :: "string list"
  rp_recommended_actions :: "string list"

record audit_command_run =
  acr_command :: string
  acr_exit_code :: "int option"
  acr_stderr :: string

record graph_audit_commands =
  gac_compile_commands :: "string list"
  gac_test_commands :: "string list"
  gac_verify_commands :: "string list"

datatype graph_audit_kind = ProfileResolved | AnchorCompleted | RouteSelected | Adapted | Decomposed

datatype graph_audit_anchor = AnchorCompile | AnchorTest | AnchorVerify

datatype graph_audit_route =
    RouteRootCause | RouteImplement | RouteCompileAnchor | RouteTestAnchor | RouteVerifyGate
  | RouteHumanReview | RouteComplete | RouteEscalate

datatype graph_audit_profile = AuditProfileNone | AuditProfileRust

record graph_audit_adaptation =
  gaa_reason :: adaptation_reason
  gaa_revision_from :: u32
  gaa_revision_to :: u32

record graph_audit_event =
  ae_node_id :: string
  ae_attempt :: u32
  ae_kind :: graph_audit_kind
  ae_anchor :: "graph_audit_anchor option"
  ae_commands :: "audit_command_run list"
  ae_route :: "graph_audit_route option"
  ae_profile :: "graph_audit_profile option"
  ae_resolved_commands :: "graph_audit_commands option"
  ae_adapted :: "graph_audit_adaptation option"
  ae_parent_node_id :: "string option"
  ae_budget :: "budget option"
  ae_timestamp :: string

datatype verify_failure_kind =
    KindCommandFailed "int option" string
  | KindBoundaryViolation "string list"

record verify_outcome =
  vo_success :: bool
  vo_fail_reason :: "verify_failure_kind option"

definition verify_outcome_from_parts :: "bool \<Rightarrow> verify_failure_kind option \<Rightarrow> verify_outcome" where
  "verify_outcome_from_parts success fail_kind =
     \<lparr>vo_success = success, vo_fail_reason = fail_kind\<rparr>"

datatype work_field =
    FieldRequirement | FieldGeneratedDiff | FieldCompileResult | FieldTestResult | FieldHumanReview
  | FieldVerifyResult | FieldBudget | FieldSpecialistReports | FieldStepLog

datatype step_action = ActionRead | ActionWrote

record step_record =
  sr_node_type :: node_type
  sr_field :: work_field
  sr_action :: step_action
  sr_timestamp :: string

record work_state =
  ws_requirement :: "string option"
  ws_generated_diff :: "generated_diff option"
  ws_compile_result :: "compile_result option"
  ws_test_result :: "test_result option"
  ws_human_review :: "human_review option"
  ws_verify_result :: "verify_outcome option"
  ws_budget :: "budget option"
  ws_step_log :: "step_record list"
  ws_graph_audit :: "graph_audit_event list"
  ws_specialist_reports :: "specialist_report list"
  ws_graph_child_bindings :: "graph_child_binding list"
  ws_selected_work_graph :: "work_graph_plan option"
  ws_graph_depth :: u32
  ws_decomposed_units :: "decomposed_unit list"
  ws_unit_specialist_reports :: "specialist_report list"
  ws_pre_decompose_budget :: "budget option"

definition default_work_state :: work_state where
  "default_work_state =
     \<lparr>ws_requirement = None, ws_generated_diff = None, ws_compile_result = None,
      ws_test_result = None, ws_human_review = None, ws_verify_result = None, ws_budget = None,
      ws_step_log = [], ws_graph_audit = [], ws_specialist_reports = [],
      ws_graph_child_bindings = [], ws_selected_work_graph = None, ws_graph_depth = 0,
      ws_decomposed_units = [], ws_unit_specialist_reports = [], ws_pre_decompose_budget = None\<rparr>"

section \<open>The field permission matrix\<close>

record field_perms =
  readable :: "work_field set"
  writable :: "work_field set"

definition perms_of :: "node_type \<Rightarrow> field_perms" where
  "perms_of t =
     (case t of
        Verification \<Rightarrow>
          \<lparr>readable = {FieldRequirement, FieldVerifyResult, FieldCompileResult, FieldTestResult,
                       FieldSpecialistReports, FieldStepLog},
           writable = {FieldCompileResult, FieldTestResult, FieldVerifyResult}\<rparr>
      | GeneralPurpose \<Rightarrow>
          \<lparr>readable = {FieldRequirement, FieldGeneratedDiff, FieldVerifyResult, FieldCompileResult,
                       FieldTestResult, FieldHumanReview, FieldBudget, FieldSpecialistReports,
                       FieldStepLog},
           writable = {FieldGeneratedDiff, FieldBudget}\<rparr>
      | RootCause \<Rightarrow>
          \<lparr>readable = {FieldRequirement, FieldGeneratedDiff, FieldVerifyResult, FieldCompileResult,
                       FieldTestResult, FieldSpecialistReports},
           writable = {FieldSpecialistReports}\<rparr>
      | HumanReviewNode \<Rightarrow>
          \<lparr>readable = {FieldRequirement, FieldVerifyResult, FieldHumanReview},
           writable = {FieldHumanReview}\<rparr>
      | Explore \<Rightarrow> \<lparr>readable = {FieldRequirement}, writable = {FieldSpecialistReports}\<rparr>
      | Plan \<Rightarrow> \<lparr>readable = {FieldRequirement}, writable = {FieldSpecialistReports}\<rparr>
      | WgentyCodeGuide \<Rightarrow> \<lparr>readable = {FieldRequirement}, writable = {}\<rparr>)"

definition can_read :: "node_type \<Rightarrow> work_field \<Rightarrow> bool" where
  "can_read t f \<longleftrightarrow> f \<in> readable (perms_of t)"

definition can_write :: "node_type \<Rightarrow> work_field \<Rightarrow> bool" where
  "can_write t f \<longleftrightarrow> f \<in> writable (perms_of t)"

section \<open>Guarded reads and writes\<close>

definition state_violation :: "node_type \<Rightarrow> string \<Rightarrow> coordinator_error" where
  "state_violation t reason = ContractViolation t DimState reason"

definition push_step :: "node_type \<Rightarrow> work_field \<Rightarrow> step_action \<Rightarrow> string \<Rightarrow> work_state \<Rightarrow> work_state" where
  "push_step t f a now ws =
     ws\<lparr>ws_step_log := ws_step_log ws @
          [\<lparr>sr_node_type = t, sr_field = f, sr_action = a, sr_timestamp = now\<rparr>]\<rparr>"

text \<open>The check every getter and setter opens with.\<close>

definition deny_read :: "node_type \<Rightarrow> work_field \<Rightarrow> string \<Rightarrow> coordinator_error + unit" where
  "deny_read t f reason = (if can_read t f then Inr () else Inl (state_violation t reason))"

definition deny_write :: "node_type \<Rightarrow> work_field \<Rightarrow> string \<Rightarrow> coordinator_error + unit" where
  "deny_write t f reason = (if can_write t f then Inr () else Inl (state_violation t reason))"

definition set_verify_result ::
    "node_type \<Rightarrow> verify_outcome \<Rightarrow> string \<Rightarrow> (work_state, coordinator_error, unit) smon" where
  "set_verify_result caller outcome now =
     bnd (lift_result (deny_write caller FieldVerifyResult
            ''node type not permitted to write verify_result'')) (\<lambda>_.
     upd (\<lambda>ws. push_step caller FieldVerifyResult ActionWrote now (ws\<lparr>ws_verify_result := Some outcome\<rparr>)))"

definition get_verify_result ::
    "work_state \<Rightarrow> node_type \<Rightarrow> coordinator_error + verify_outcome option" where
  "get_verify_result ws caller =
     result_bind (deny_read caller FieldVerifyResult ''node type not permitted to read verify_result'')
       (\<lambda>_. Inr (ws_verify_result ws))"

definition set_generated_diff ::
    "node_type \<Rightarrow> generated_diff \<Rightarrow> string \<Rightarrow> (work_state, coordinator_error, unit) smon" where
  "set_generated_diff caller diff now =
     bnd (lift_result (deny_write caller FieldGeneratedDiff
            ''node type not permitted to write generated_diff'')) (\<lambda>_.
     upd (\<lambda>ws. push_step caller FieldGeneratedDiff ActionWrote now (ws\<lparr>ws_generated_diff := Some diff\<rparr>)))"

definition get_generated_diff ::
    "work_state \<Rightarrow> node_type \<Rightarrow> coordinator_error + generated_diff option" where
  "get_generated_diff ws caller =
     result_bind (deny_read caller FieldGeneratedDiff ''node type not permitted to read generated_diff'')
       (\<lambda>_. Inr (ws_generated_diff ws))"

definition set_budget ::
    "node_type \<Rightarrow> budget \<Rightarrow> string \<Rightarrow> (work_state, coordinator_error, unit) smon" where
  "set_budget caller b now =
     bnd (lift_result (deny_write caller FieldBudget ''node type not permitted to write budget'')) (\<lambda>_.
     upd (\<lambda>ws. push_step caller FieldBudget ActionWrote now (ws\<lparr>ws_budget := Some b\<rparr>)))"

definition get_budget :: "work_state \<Rightarrow> node_type \<Rightarrow> coordinator_error + budget option" where
  "get_budget ws caller =
     result_bind (deny_read caller FieldBudget ''node type not permitted to read budget'')
       (\<lambda>_. Inr (ws_budget ws))"

definition set_compile_result ::
    "node_type \<Rightarrow> compile_result \<Rightarrow> string \<Rightarrow> (work_state, coordinator_error, unit) smon" where
  "set_compile_result caller r now =
     bnd (lift_result (deny_write caller FieldCompileResult
            ''node type not permitted to write compile_result'')) (\<lambda>_.
     upd (\<lambda>ws. push_step caller FieldCompileResult ActionWrote now (ws\<lparr>ws_compile_result := Some r\<rparr>)))"

definition get_compile_result ::
    "work_state \<Rightarrow> node_type \<Rightarrow> coordinator_error + compile_result option" where
  "get_compile_result ws caller =
     result_bind (deny_read caller FieldCompileResult ''node type not permitted to read compile_result'')
       (\<lambda>_. Inr (ws_compile_result ws))"

definition set_test_result ::
    "node_type \<Rightarrow> test_result \<Rightarrow> string \<Rightarrow> (work_state, coordinator_error, unit) smon" where
  "set_test_result caller r now =
     bnd (lift_result (deny_write caller FieldTestResult
            ''node type not permitted to write test_result'')) (\<lambda>_.
     upd (\<lambda>ws. push_step caller FieldTestResult ActionWrote now (ws\<lparr>ws_test_result := Some r\<rparr>)))"

definition get_test_result ::
    "work_state \<Rightarrow> node_type \<Rightarrow> coordinator_error + test_result option" where
  "get_test_result ws caller =
     result_bind (deny_read caller FieldTestResult ''node type not permitted to read test_result'')
       (\<lambda>_. Inr (ws_test_result ws))"

definition set_human_review ::
    "node_type \<Rightarrow> human_review \<Rightarrow> string \<Rightarrow> (work_state, coordinator_error, unit) smon" where
  "set_human_review caller review now =
     bnd (lift_result (deny_write caller FieldHumanReview
            ''node type not permitted to write human_review'')) (\<lambda>_.
     upd (\<lambda>ws. push_step caller FieldHumanReview ActionWrote now (ws\<lparr>ws_human_review := Some review\<rparr>)))"

definition get_human_review ::
    "work_state \<Rightarrow> node_type \<Rightarrow> coordinator_error + human_review option" where
  "get_human_review ws caller =
     result_bind (deny_read caller FieldHumanReview ''node type not permitted to read human_review'')
       (\<lambda>_. Inr (ws_human_review ws))"

section \<open>Specialist reports\<close>

definition get_specialist_reports ::
    "work_state \<Rightarrow> node_type \<Rightarrow> coordinator_error + specialist_report list" where
  "get_specialist_reports ws caller =
     result_bind (deny_read caller FieldSpecialistReports
                    ''node type not permitted to read specialist_reports'')
       (\<lambda>_. Inr (ws_specialist_reports ws))"

definition report_kind_allowed :: "node_type \<Rightarrow> specialist_report_kind \<Rightarrow> bool" where
  "report_kind_allowed caller kind \<longleftrightarrow>
     (caller, kind) \<in> {(Explore, Exploration), (RootCause, RootCauseReport), (Plan, ImplementationPlan)}"

definition validate_specialist_report_kind ::
    "node_type \<Rightarrow> specialist_report_kind \<Rightarrow> coordinator_error + unit" where
  "validate_specialist_report_kind caller kind =
     (if report_kind_allowed caller kind then Inr ()
      else Inl (state_violation caller ''specialist report kind is not allowed for node type''))"

definition report_contents_valid :: "specialist_report \<Rightarrow> bool" where
  "report_contents_valid r \<longleftrightarrow>
     \<not> is_blank (rp_summary r) \<and> rp_evidence r \<noteq> [] \<and>
     list_all (\<lambda>e. \<not> is_blank (ev_path e) \<and> \<not> is_blank (ev_detail e)) (rp_evidence r) \<and>
     rp_recommended_actions r \<noteq> [] \<and>
     list_all (\<lambda>a. \<not> is_blank a) (rp_recommended_actions r) \<and>
     list_all (\<lambda>p. \<not> is_blank p) (rp_suspected_files r) \<and> distinct (rp_suspected_files r)"

definition validate_specialist_report_contents ::
    "specialist_report \<Rightarrow> coordinator_error + unit" where
  "validate_specialist_report_contents r =
     (if report_contents_valid r then Inr ()
      else Inl (state_violation (rp_producer r)
        ''specialist report must contain non-empty evidence/actions and unique files''))"

definition same_handoff :: "specialist_report \<Rightarrow> specialist_report \<Rightarrow> bool" where
  "same_handoff r e \<longleftrightarrow> rp_producer e = rp_producer r \<and> rp_kind e = rp_kind r"

definition put_report :: "specialist_report \<Rightarrow> specialist_report list \<Rightarrow> specialist_report list" where
  "put_report r rs =
     (if list_ex (same_handoff r) rs then update_first (same_handoff r) (\<lambda>_. r) rs else rs @ [r])"

definition set_specialist_report ::
    "node_type \<Rightarrow> specialist_report \<Rightarrow> string \<Rightarrow> (work_state, coordinator_error, unit) smon" where
  "set_specialist_report caller r now =
     bnd (lift_result (deny_write caller FieldSpecialistReports
            ''node type not permitted to write specialist_reports'')) (\<lambda>_.
     bnd (lift_result (if rp_producer r = caller then Inr ()
            else Inl (state_violation caller
              ''specialist report producer does not match trusted caller''))) (\<lambda>_.
     bnd (lift_result (validate_specialist_report_kind caller (rp_kind r))) (\<lambda>_.
     bnd (lift_result (validate_specialist_report_contents r)) (\<lambda>_.
     upd (\<lambda>ws. push_step caller FieldSpecialistReports ActionWrote now
                 (ws\<lparr>ws_specialist_reports := put_report r (ws_specialist_reports ws)\<rparr>))))))"

section \<open>Coordinator-owned operations\<close>

definition set_requirement :: "string option \<Rightarrow> work_state \<Rightarrow> work_state" where
  "set_requirement r ws = ws\<lparr>ws_requirement := r\<rparr>"

definition set_graph_depth :: "u32 \<Rightarrow> work_state \<Rightarrow> work_state" where
  "set_graph_depth d ws = ws\<lparr>ws_graph_depth := d\<rparr>"

definition record_unit_outcome ::
    "string \<Rightarrow> unit_outcome \<Rightarrow> budget \<Rightarrow> (work_state, coordinator_error, unit) smon" where
  "record_unit_outcome unit_id outcome allocation =
     bnd (gets ws_decomposed_units) (\<lambda>units.
     if list_ex (\<lambda>u. du_unit_id u = unit_id) units
     then upd (\<lambda>ws. ws\<lparr>ws_decomposed_units :=
            update_first (\<lambda>u. du_unit_id u = unit_id)
              (\<lambda>u. u\<lparr>du_outcome := Some outcome, du_allocation := allocation\<rparr>) units\<rparr>)
     else throw (state_violation GeneralPurpose
            (''record_unit_outcome: unknown unit '' @ [CHR 0x27] @ unit_id @ [CHR 0x27])))"

definition push_unit_report :: "specialist_report \<Rightarrow> work_state \<Rightarrow> work_state" where
  "push_unit_report r ws = ws\<lparr>ws_unit_specialist_reports := ws_unit_specialist_reports ws @ [r]\<rparr>"

definition set_decomposed_units :: "decomposed_unit list \<Rightarrow> work_state \<Rightarrow> work_state" where
  "set_decomposed_units us ws = ws\<lparr>ws_decomposed_units := us\<rparr>"

definition set_pre_decompose_budget :: "budget \<Rightarrow> work_state \<Rightarrow> work_state" where
  "set_pre_decompose_budget b ws = ws\<lparr>ws_pre_decompose_budget := Some b\<rparr>"

definition clear_decomposition :: "work_state \<Rightarrow> work_state" where
  "clear_decomposition ws =
     ws\<lparr>ws_decomposed_units := [], ws_unit_specialist_reports := [], ws_pre_decompose_budget := None\<rparr>"

definition append_graph_child_binding :: "graph_child_binding \<Rightarrow> work_state \<Rightarrow> work_state" where
  "append_graph_child_binding b ws =
     ws\<lparr>ws_graph_child_bindings := ws_graph_child_bindings ws @ [b]\<rparr>"

definition set_selected_work_graph :: "work_graph_plan \<Rightarrow> work_state \<Rightarrow> work_state" where
  "set_selected_work_graph p ws = ws\<lparr>ws_selected_work_graph := Some p\<rparr>"

definition append_graph_audit :: "graph_audit_event \<Rightarrow> work_state \<Rightarrow> work_state" where
  "append_graph_audit e ws = ws\<lparr>ws_graph_audit := ws_graph_audit ws @ [e]\<rparr>"

definition reset_for_new_node :: "work_state \<Rightarrow> work_state" where
  "reset_for_new_node ws =
     ws\<lparr>ws_generated_diff := None, ws_compile_result := None, ws_test_result := None,
        ws_verify_result := None, ws_budget := None, ws_human_review := None,
        ws_specialist_reports := [], ws_selected_work_graph := None, ws_decomposed_units := [],
        ws_unit_specialist_reports := [], ws_pre_decompose_budget := None\<rparr>"

definition reset_for_work_graph_pass :: "work_state \<Rightarrow> work_state" where
  "reset_for_work_graph_pass ws =
     ws\<lparr>ws_generated_diff := None, ws_compile_result := None, ws_test_result := None,
        ws_verify_result := None, ws_human_review := None, ws_specialist_reports := []\<rparr>"

definition inherit_for_new_turn :: "work_state \<Rightarrow> work_state" where
  "inherit_for_new_turn ws =
     \<lparr>ws_requirement = ws_requirement ws, ws_generated_diff = None, ws_compile_result = None,
      ws_test_result = None, ws_human_review = None, ws_verify_result = None, ws_budget = None,
      ws_step_log = [], ws_graph_audit = ws_graph_audit ws,
      ws_specialist_reports = ws_specialist_reports ws,
      ws_graph_child_bindings = ws_graph_child_bindings ws,
      ws_selected_work_graph = ws_selected_work_graph ws, ws_graph_depth = ws_graph_depth ws,
      ws_decomposed_units = ws_decomposed_units ws,
      ws_unit_specialist_reports = ws_unit_specialist_reports ws,
      ws_pre_decompose_budget = None\<rparr>"

lemmas coordinator_op_defs = set_requirement_def set_graph_depth_def push_unit_report_def
  set_decomposed_units_def set_pre_decompose_budget_def clear_decomposition_def
  append_graph_child_binding_def set_selected_work_graph_def append_graph_audit_def
  reset_for_new_node_def reset_for_work_graph_pass_def inherit_for_new_turn_def

lemmas guarded_write_defs = set_verify_result_def set_generated_diff_def set_budget_def
  set_compile_result_def set_test_result_def set_human_review_def

lemmas guarded_read_defs = get_verify_result_def get_generated_diff_def get_budget_def
  get_compile_result_def get_test_result_def get_human_review_def

section \<open>The contract of a guarded field\<close>

text \<open>
  An entry of the step log is authorised when it records a write that the permission matrix
  grants to the node named in it.
\<close>

definition authorised :: "step_record \<Rightarrow> bool" where
  "authorised e \<longleftrightarrow> sr_action e = ActionWrote \<and> can_write (sr_node_type e) (sr_field e)"

definition step_log_sound :: "work_state \<Rightarrow> bool" where
  "step_log_sound ws \<longleftrightarrow> list_all authorised (ws_step_log ws)"

locale guarded_field =
  fixes field :: work_field
    and setter :: "node_type \<Rightarrow> 'v \<Rightarrow> string \<Rightarrow> (work_state, coordinator_error, unit) smon"
    and getter :: "work_state \<Rightarrow> node_type \<Rightarrow> coordinator_error + 'v option"
  assumes set_denied:
      "\<not> can_write c field \<Longrightarrow> \<exists>reason. setter c v now ws = (Inl (ContractViolation c DimState reason), ws)"
    and set_allowed:
      "can_write c field \<Longrightarrow> \<exists>ws'. setter c v now ws = (Inr (), ws') \<and>
         ws_step_log ws' = ws_step_log ws @
           [\<lparr>sr_node_type = c, sr_field = field, sr_action = ActionWrote, sr_timestamp = now\<rparr>]"
    and get_after_set:
      "can_read r field \<Longrightarrow> setter c v now ws = (Inr (), ws') \<Longrightarrow> getter ws' r = Inr (Some v)"
    and get_denied:
      "\<not> can_read r field \<Longrightarrow> \<exists>reason. getter ws r = Inl (ContractViolation r DimState reason)"
    and get_allowed: "can_read r field \<Longrightarrow> \<exists>x. getter ws r = Inr x"
begin

lemma set_succeeds_iff: "is_ok (fst (setter c v now ws)) \<longleftrightarrow> can_write c field"
  using set_denied [of c v now ws] set_allowed [of c v now ws] by (cases "can_write c field") auto

lemma get_succeeds_iff: "is_ok (getter ws r) \<longleftrightarrow> can_read r field"
  using get_denied [of r ws] get_allowed [of r ws] by (cases "can_read r field") auto

lemma rejected_write_unchanged: "fst (setter c v now ws) = Inl e \<Longrightarrow> snd (setter c v now ws) = ws"
  using set_denied [of c v now ws] set_allowed [of c v now ws] by (cases "can_write c field") auto

lemma set_keeps_step_log_sound: "obeys (keeps step_log_sound) (setter c v now)"
proof (rule obeysI)
  fix ws
  show "keeps step_log_sound ws (snd (setter c v now ws))"
    using set_denied [of c v now ws] set_allowed [of c v now ws]
    by (cases "can_write c field") (auto simp: keeps_def step_log_sound_def authorised_def)
qed

end

lemma deny_simps [simp]:
  "can_write c f \<Longrightarrow> deny_write c f reason = Inr ()"
  "\<not> can_write c f \<Longrightarrow> deny_write c f reason = Inl (ContractViolation c DimState reason)"
  "can_read c f \<Longrightarrow> deny_read c f reason = Inr ()"
  "\<not> can_read c f \<Longrightarrow> deny_read c f reason = Inl (ContractViolation c DimState reason)"
  by (simp_all add: deny_write_def deny_read_def state_violation_def)

lemma bnd_lift_result_Inr [simp]: "bnd (lift_result (Inr x)) f s = f x s"
  and bnd_lift_result_Inl [simp]: "bnd (lift_result (Inl e)) f s = (Inl e, s)"
  by (simp_all add: bnd_def)

lemma push_step_step_log [simp]:
  "ws_step_log (push_step t f a now ws) = ws_step_log ws @
     [\<lparr>sr_node_type = t, sr_field = f, sr_action = a, sr_timestamp = now\<rparr>]"
  by (simp add: push_step_def)

lemma push_step_fields [simp]:
  "ws_requirement (push_step t f a now ws) = ws_requirement ws"
  "ws_generated_diff (push_step t f a now ws) = ws_generated_diff ws"
  "ws_compile_result (push_step t f a now ws) = ws_compile_result ws"
  "ws_test_result (push_step t f a now ws) = ws_test_result ws"
  "ws_human_review (push_step t f a now ws) = ws_human_review ws"
  "ws_verify_result (push_step t f a now ws) = ws_verify_result ws"
  "ws_budget (push_step t f a now ws) = ws_budget ws"
  "ws_graph_audit (push_step t f a now ws) = ws_graph_audit ws"
  "ws_specialist_reports (push_step t f a now ws) = ws_specialist_reports ws"
  "ws_graph_child_bindings (push_step t f a now ws) = ws_graph_child_bindings ws"
  "ws_selected_work_graph (push_step t f a now ws) = ws_selected_work_graph ws"
  "ws_graph_depth (push_step t f a now ws) = ws_graph_depth ws"
  "ws_decomposed_units (push_step t f a now ws) = ws_decomposed_units ws"
  "ws_unit_specialist_reports (push_step t f a now ws) = ws_unit_specialist_reports ws"
  "ws_pre_decompose_budget (push_step t f a now ws) = ws_pre_decompose_budget ws"
  by (simp_all add: push_step_def)

lemma guarded_write_run:
  assumes "m = bnd (lift_result (deny_write c f reason)) (\<lambda>_. upd g)"
  shows "m ws = (if can_write c f then (Inr (), g ws) else (Inl (ContractViolation c DimState reason), ws))"
  using assms by simp

lemmas guarded_write_runs =
  guarded_write_run [OF set_verify_result_def] guarded_write_run [OF set_generated_diff_def]
  guarded_write_run [OF set_budget_def] guarded_write_run [OF set_compile_result_def]
  guarded_write_run [OF set_test_result_def] guarded_write_run [OF set_human_review_def]

lemma result_bind_deny_read:
  "result_bind (deny_read c f reason) (\<lambda>_. Inr x) =
     (if can_read c f then Inr x else Inl (ContractViolation c DimState reason))"
  by simp

lemmas guarded_field_simps = guarded_write_runs guarded_read_defs result_bind_deny_read

interpretation verify_field: guarded_field FieldVerifyResult set_verify_result get_verify_result
  by unfold_locales (auto simp: guarded_field_simps split: if_splits)

interpretation diff_field: guarded_field FieldGeneratedDiff set_generated_diff get_generated_diff
  by unfold_locales (auto simp: guarded_field_simps split: if_splits)

interpretation budget_field: guarded_field FieldBudget set_budget get_budget
  by unfold_locales (auto simp: guarded_field_simps split: if_splits)

interpretation compile_field: guarded_field FieldCompileResult set_compile_result get_compile_result
  by unfold_locales (auto simp: guarded_field_simps split: if_splits)

interpretation test_field: guarded_field FieldTestResult set_test_result get_test_result
  by unfold_locales (auto simp: guarded_field_simps split: if_splits)

interpretation review_field: guarded_field FieldHumanReview set_human_review get_human_review
  by unfold_locales (auto simp: guarded_field_simps split: if_splits)

section \<open>Who can write what\<close>

lemma can_write_iff:
  "can_write t f \<longleftrightarrow>
     (case f of
        FieldCompileResult \<Rightarrow> t = Verification
      | FieldTestResult \<Rightarrow> t = Verification
      | FieldVerifyResult \<Rightarrow> t = Verification
      | FieldHumanReview \<Rightarrow> t = HumanReviewNode
      | FieldGeneratedDiff \<Rightarrow> t = GeneralPurpose
      | FieldBudget \<Rightarrow> t = GeneralPurpose
      | FieldSpecialistReports \<Rightarrow> t \<in> {RootCause, Explore, Plan}
      | FieldRequirement \<Rightarrow> False
      | FieldStepLog \<Rightarrow> False)"
  by (cases t; cases f) (simp_all add: can_write_def perms_of_def)

lemma can_read_simps [simp]:
  "can_read Verification FieldCompileResult" "can_read Verification FieldTestResult"
  "can_read Verification FieldVerifyResult" "can_read GeneralPurpose FieldBudget"
  "can_read GeneralPurpose FieldSpecialistReports" "can_read HumanReviewNode FieldHumanReview"
  "can_read HumanReviewNode FieldVerifyResult"
  by (simp_all add: can_read_def perms_of_def)

lemma can_write_simps [simp]:
  "can_write Verification FieldCompileResult" "can_write Verification FieldTestResult"
  "can_write Verification FieldVerifyResult" "can_write GeneralPurpose FieldBudget"
  "can_write GeneralPurpose FieldGeneratedDiff" "can_write HumanReviewNode FieldHumanReview"
  by (simp_all add: can_write_iff)

text \<open>The reads of the runtime, all granted by the matrix.\<close>

lemma trusted_reads [simp]:
  "get_compile_result ws Verification = Inr (ws_compile_result ws)"
  "get_test_result ws Verification = Inr (ws_test_result ws)"
  "get_verify_result ws Verification = Inr (ws_verify_result ws)"
  "get_verify_result ws HumanReviewNode = Inr (ws_verify_result ws)"
  "get_human_review ws HumanReviewNode = Inr (ws_human_review ws)"
  "get_budget ws GeneralPurpose = Inr (ws_budget ws)"
  "get_specialist_reports ws GeneralPurpose = Inr (ws_specialist_reports ws)"
  by (simp_all add: guarded_read_defs get_specialist_reports_def)

lemma trusted_writes [simp]:
  "set_compile_result Verification c now ws =
     (Inr (), push_step Verification FieldCompileResult ActionWrote now (ws\<lparr>ws_compile_result := Some c\<rparr>))"
  "set_test_result Verification t now ws =
     (Inr (), push_step Verification FieldTestResult ActionWrote now (ws\<lparr>ws_test_result := Some t\<rparr>))"
  "set_verify_result Verification v now ws =
     (Inr (), push_step Verification FieldVerifyResult ActionWrote now (ws\<lparr>ws_verify_result := Some v\<rparr>))"
  "set_human_review HumanReviewNode h now ws =
     (Inr (), push_step HumanReviewNode FieldHumanReview ActionWrote now (ws\<lparr>ws_human_review := Some h\<rparr>))"
  "set_budget GeneralPurpose b now ws =
     (Inr (), push_step GeneralPurpose FieldBudget ActionWrote now (ws\<lparr>ws_budget := Some b\<rparr>))"
  "set_generated_diff GeneralPurpose d now ws =
     (Inr (), push_step GeneralPurpose FieldGeneratedDiff ActionWrote now (ws\<lparr>ws_generated_diff := Some d\<rparr>))"
  by (simp_all add: guarded_write_runs)

section \<open>Any sequence of guarded writes\<close>

text \<open>
  One call of the guarded write interface: the node type on whose behalf the call is made, the
  time stamp, and what is written. A refused call leaves the state as it was and later calls go on.
\<close>

datatype field_write =
    WriteVerify verify_outcome
  | WriteDiff generated_diff
  | WriteBudget budget
  | WriteCompile compile_result
  | WriteTest test_result
  | WriteReview human_review
  | WriteReport specialist_report

fun apply_write :: "node_type \<Rightarrow> string \<Rightarrow> field_write \<Rightarrow> (work_state, coordinator_error, unit) smon" where
  "apply_write c now (WriteVerify v) = set_verify_result c v now"
| "apply_write c now (WriteDiff d) = set_generated_diff c d now"
| "apply_write c now (WriteBudget b) = set_budget c b now"
| "apply_write c now (WriteCompile r) = set_compile_result c r now"
| "apply_write c now (WriteTest r) = set_test_result c r now"
| "apply_write c now (WriteReview r) = set_human_review c r now"
| "apply_write c now (WriteReport r) = set_specialist_report c r now"

fun run_writes :: "(node_type \<times> string \<times> field_write) list \<Rightarrow> work_state \<Rightarrow> work_state" where
  "run_writes [] ws = ws"
| "run_writes ((c, now, w) # rest) ws = run_writes rest (snd (apply_write c now w ws))"

lemma set_specialist_report_state:
  "snd (set_specialist_report c r now ws) =
     (if can_write c FieldSpecialistReports \<and> rp_producer r = c \<and> report_kind_allowed c (rp_kind r)
           \<and> report_contents_valid r
      then push_step c FieldSpecialistReports ActionWrote now
              (ws\<lparr>ws_specialist_reports := put_report r (ws_specialist_reports ws)\<rparr>)
      else ws)"
  by (cases "can_write c FieldSpecialistReports")
     (simp_all add: set_specialist_report_def validate_specialist_report_kind_def
       validate_specialist_report_contents_def)

lemma set_specialist_report_ok:
  "is_ok (fst (set_specialist_report c r now ws)) \<longleftrightarrow>
     can_write c FieldSpecialistReports \<and> rp_producer r = c \<and> report_kind_allowed c (rp_kind r)
       \<and> report_contents_valid r"
  by (cases "can_write c FieldSpecialistReports")
     (simp_all add: set_specialist_report_def validate_specialist_report_kind_def
       validate_specialist_report_contents_def)

lemmas apply_write_simps = guarded_write_runs can_write_iff set_specialist_report_state

lemma apply_write_anchors:
  "c \<noteq> Verification \<Longrightarrow> ws_compile_result (snd (apply_write c now w ws)) = ws_compile_result ws"
  "c \<noteq> Verification \<Longrightarrow> ws_test_result (snd (apply_write c now w ws)) = ws_test_result ws"
  "c \<noteq> Verification \<Longrightarrow> ws_verify_result (snd (apply_write c now w ws)) = ws_verify_result ws"
  "c \<noteq> HumanReviewNode \<Longrightarrow> ws_human_review (snd (apply_write c now w ws)) = ws_human_review ws"
  by (cases w; simp add: apply_write_simps)+

lemma apply_write_frame:
  "ws_requirement (snd (apply_write c now w ws)) = ws_requirement ws"
  "ws_graph_audit (snd (apply_write c now w ws)) = ws_graph_audit ws"
  "ws_selected_work_graph (snd (apply_write c now w ws)) = ws_selected_work_graph ws"
  by (cases w; simp add: apply_write_simps)+

lemma set_specialist_report_step_log:
  "obeys (keeps step_log_sound) (set_specialist_report c r now)"
  by (simp add: obeys_def keeps_def set_specialist_report_state step_log_sound_def authorised_def)

lemma apply_write_step_log: "obeys (keeps step_log_sound) (apply_write c now w)"
  by (cases w)
     (auto intro: verify_field.set_keeps_step_log_sound diff_field.set_keeps_step_log_sound
       budget_field.set_keeps_step_log_sound compile_field.set_keeps_step_log_sound
       test_field.set_keeps_step_log_sound review_field.set_keeps_step_log_sound
       set_specialist_report_step_log)

lemma run_writes_anchors:
  "Verification \<notin> fst ` set calls \<Longrightarrow>
     ws_compile_result (run_writes calls ws) = ws_compile_result ws \<and>
     ws_test_result (run_writes calls ws) = ws_test_result ws \<and>
     ws_verify_result (run_writes calls ws) = ws_verify_result ws"
  by (induction calls ws rule: run_writes.induct) (auto simp: apply_write_anchors)

lemma run_writes_review:
  "HumanReviewNode \<notin> fst ` set calls \<Longrightarrow> ws_human_review (run_writes calls ws) = ws_human_review ws"
  by (induction calls ws rule: run_writes.induct) (auto simp: apply_write_anchors)

lemma run_writes_frame:
  "ws_requirement (run_writes calls ws) = ws_requirement ws \<and>
   ws_graph_audit (run_writes calls ws) = ws_graph_audit ws \<and>
   ws_selected_work_graph (run_writes calls ws) = ws_selected_work_graph ws"
  by (induction calls ws rule: run_writes.induct) (auto simp: apply_write_frame)

lemma run_writes_step_log: "step_log_sound ws \<Longrightarrow> step_log_sound (run_writes calls ws)"
  by (induction calls ws rule: run_writes.induct)
     (use obeysD [OF apply_write_step_log] in \<open>auto simp: keeps_def\<close>)

text \<open>
  C35: the anchored results cannot be forged through the guarded interface. However many calls
  are made, in whatever order and with whatever contents, if none is made on behalf of the
  verification role then the compile, test and verify results are untouched; if none is made on
  behalf of the human reviewer, the review decision is untouched; the requirement, the audit trail
  and the selected plan are untouched by every call; and every entry the calls leave in the step
  log records a write the permission matrix grants.
\<close>

theorem guarded_writes_cannot_forge:
  "(Verification \<notin> fst ` set calls \<longrightarrow>
      ws_compile_result (run_writes calls ws) = ws_compile_result ws \<and>
      ws_test_result (run_writes calls ws) = ws_test_result ws \<and>
      ws_verify_result (run_writes calls ws) = ws_verify_result ws) \<and>
   (HumanReviewNode \<notin> fst ` set calls \<longrightarrow>
      ws_human_review (run_writes calls ws) = ws_human_review ws) \<and>
   ws_requirement (run_writes calls ws) = ws_requirement ws \<and>
   ws_graph_audit (run_writes calls ws) = ws_graph_audit ws \<and>
   ws_selected_work_graph (run_writes calls ws) = ws_selected_work_graph ws \<and>
   (step_log_sound ws \<longrightarrow> step_log_sound (run_writes calls ws))"
  using run_writes_anchors run_writes_review run_writes_frame run_writes_step_log by simp

text \<open>A general-purpose node tries to claim a verified result and a reviewer's approval.\<close>

theorem guarded_writes_cannot_forge_witness:
  "let ok = \<lparr>vo_success = True, vo_fail_reason = None\<rparr>;
       ws = run_writes [(GeneralPurpose, ''t0'', WriteVerify ok), (GeneralPurpose, ''t1'', WriteReview Approve)]
              default_work_state
   in ws_verify_result ws = None \<and> ws_human_review ws = None \<and> step_log_sound ws"
  using guarded_writes_cannot_forge
    [of "[(GeneralPurpose, ''t0'', WriteVerify \<lparr>vo_success = True, vo_fail_reason = None\<rparr>),
          (GeneralPurpose, ''t1'', WriteReview Approve)]" default_work_state]
  by (simp add: default_work_state_def step_log_sound_def Let_def)

section \<open>Specialist reports\<close>

text \<open>At most one report per producer and kind, each of a kind and content its producer may file.\<close>

definition reports_ok :: "work_state \<Rightarrow> bool" where
  "reports_ok ws \<longleftrightarrow>
     distinct (map (\<lambda>r. (rp_producer r, rp_kind r)) (ws_specialist_reports ws)) \<and>
     (\<forall>r \<in> set (ws_specialist_reports ws).
        report_kind_allowed (rp_producer r) (rp_kind r) \<and> report_contents_valid r)"

lemma same_handoff_key: "same_handoff r e \<longleftrightarrow> (rp_producer e, rp_kind e) = (rp_producer r, rp_kind r)"
  by (auto simp: same_handoff_def)

lemma map_key_update_first:
  "map (\<lambda>r. (rp_producer r, rp_kind r)) (update_first (same_handoff r) (\<lambda>_. r) rs) =
   map (\<lambda>r. (rp_producer r, rp_kind r)) rs"
  by (induction rs) (auto simp: same_handoff_key)

lemma set_update_first_subset: "set (update_first p (\<lambda>_. r) rs) \<subseteq> insert r (set rs)"
  by (induction rs) auto

lemma put_report_keys:
  "distinct (map (\<lambda>r. (rp_producer r, rp_kind r)) rs) \<Longrightarrow>
   distinct (map (\<lambda>r. (rp_producer r, rp_kind r)) (put_report r rs))"
  by (auto simp: put_report_def map_key_update_first same_handoff_key list_ex_iff)

lemma put_report_subset: "set (put_report r rs) \<subseteq> insert r (set rs)"
  using set_update_first_subset [of "same_handoff r" r rs] by (auto simp: put_report_def)

lemma put_report_member: "r \<in> set (put_report r rs)"
proof -
  have "list_ex (same_handoff r) rs \<Longrightarrow> r \<in> set (update_first (same_handoff r) (\<lambda>_. r) rs)"
    by (induction rs) auto
  then show ?thesis by (auto simp: put_report_def)
qed

text \<open>
  Filing a specialist report is accepted exactly when the matrix lets the caller write
  reports, the caller is the producer, the kind belongs to the role and the contents are complete
  (non-blank summary, evidence and actions, distinct non-blank files). Accepted or not, at most one
  report per producer and kind is kept and every kept report is valid; an accepted report is kept.
\<close>

theorem set_specialist_report_correct:
  assumes "reports_ok ws"
  shows "reports_ok (snd (set_specialist_report c r now ws)) \<and>
     (is_ok (fst (set_specialist_report c r now ws)) \<longleftrightarrow>
        can_write c FieldSpecialistReports \<and> rp_producer r = c \<and> report_kind_allowed c (rp_kind r) \<and>
        report_contents_valid r) \<and>
     (is_ok (fst (set_specialist_report c r now ws)) \<longrightarrow>
        r \<in> set (ws_specialist_reports (snd (set_specialist_report c r now ws))))"
proof -
  have "reports_ok (snd (set_specialist_report c r now ws))"
    using assms put_report_keys [of "ws_specialist_reports ws" r]
      put_report_subset [of r "ws_specialist_reports ws"]
    by (auto simp: reports_ok_def set_specialist_report_state)
  then show ?thesis
    by (simp add: set_specialist_report_ok set_specialist_report_state put_report_member)
qed

theorem set_specialist_report_correct_witness:
  "let r = \<lparr>rp_producer = RootCause, rp_kind = RootCauseReport, rp_summary = ''s'',
            rp_evidence = [\<lparr>ev_path = ''a'', ev_detail = ''b''\<rparr>], rp_suspected_files = [''f''],
            rp_recommended_actions = [''x'']\<rparr>
   in reports_ok default_work_state \<and>
      is_ok (fst (set_specialist_report RootCause r ''t'' default_work_state)) \<and>
      reports_ok (snd (set_specialist_report RootCause r ''t'' default_work_state))"
proof -
  define r where "r = \<lparr>rp_producer = RootCause, rp_kind = RootCauseReport, rp_summary = ''s'',
            rp_evidence = [\<lparr>ev_path = ''a'', ev_detail = ''b''\<rparr>], rp_suspected_files = [''f''],
            rp_recommended_actions = [''x'']\<rparr>"
  have start: "reports_ok default_work_state"
    by (simp add: reports_ok_def default_work_state_def)
  have "report_contents_valid r"
    unfolding r_def by code_simp
  then show ?thesis
    using start set_specialist_report_correct [OF start, of RootCause r "''t''"]
    by (simp add: r_def can_write_iff report_kind_allowed_def)
qed

section \<open>Resets and the audit summary\<close>

text \<open>Coordinator resets never touch the requirement nor the audit trail.\<close>

lemma resets_keep_history:
  "ws_requirement (reset_for_new_node ws) = ws_requirement ws"
  "ws_graph_audit (reset_for_new_node ws) = ws_graph_audit ws"
  "ws_requirement (reset_for_work_graph_pass ws) = ws_requirement ws"
  "ws_graph_audit (reset_for_work_graph_pass ws) = ws_graph_audit ws"
  "ws_requirement (inherit_for_new_turn ws) = ws_requirement ws"
  "ws_graph_audit (inherit_for_new_turn ws) = ws_graph_audit ws"
  "ws_graph_audit (clear_decomposition ws) = ws_graph_audit ws"
  by (simp_all add: coordinator_op_defs)

record audit_summary =
  profiles_resolved :: nat
  anchors_completed :: nat
  compile_failures :: nat
  test_failures :: nat
  verify_failures :: nat
  root_cause_routes :: nat
  implement_routes :: nat
  completed_routes :: nat
  escalated_routes :: nat
  plan_adaptations :: nat
  decompositions :: nat

definition empty_summary :: audit_summary where
  "empty_summary =
     \<lparr>profiles_resolved = 0, anchors_completed = 0, compile_failures = 0, test_failures = 0,
      verify_failures = 0, root_cause_routes = 0, implement_routes = 0, completed_routes = 0,
      escalated_routes = 0, plan_adaptations = 0, decompositions = 0\<rparr>"

definition commands_pass :: "graph_audit_event \<Rightarrow> bool" where
  "commands_pass e \<longleftrightarrow> list_all (\<lambda>c. acr_exit_code c = Some 0) (ae_commands e)"

definition count_event :: "audit_summary \<Rightarrow> graph_audit_event \<Rightarrow> audit_summary" where
  "count_event s e =
     (case ae_kind e of
        ProfileResolved \<Rightarrow> s\<lparr>profiles_resolved := profiles_resolved s + 1\<rparr>
      | AnchorCompleted \<Rightarrow>
          (let s' = s\<lparr>anchors_completed := anchors_completed s + 1\<rparr> in
           if commands_pass e then s'
           else (case ae_anchor e of
                   Some AnchorCompile \<Rightarrow> s'\<lparr>compile_failures := compile_failures s' + 1\<rparr>
                 | Some AnchorTest \<Rightarrow> s'\<lparr>test_failures := test_failures s' + 1\<rparr>
                 | Some AnchorVerify \<Rightarrow> s'\<lparr>verify_failures := verify_failures s' + 1\<rparr>
                 | None \<Rightarrow> s'))
      | RouteSelected \<Rightarrow>
          (case ae_route e of
             Some RouteRootCause \<Rightarrow> s\<lparr>root_cause_routes := root_cause_routes s + 1\<rparr>
           | Some RouteImplement \<Rightarrow> s\<lparr>implement_routes := implement_routes s + 1\<rparr>
           | Some RouteComplete \<Rightarrow> s\<lparr>completed_routes := completed_routes s + 1\<rparr>
           | Some RouteEscalate \<Rightarrow> s\<lparr>escalated_routes := escalated_routes s + 1\<rparr>
           | _ \<Rightarrow> s)
      | Adapted \<Rightarrow> s\<lparr>plan_adaptations := plan_adaptations s + 1\<rparr>
      | Decomposed \<Rightarrow> s\<lparr>decompositions := decompositions s + 1\<rparr>)"

definition summary_from_events :: "graph_audit_event list \<Rightarrow> audit_summary" where
  "summary_from_events events = foldl count_event empty_summary events"

lemma count_event_field:
  "profiles_resolved (count_event s e) = profiles_resolved s + (if ae_kind e = ProfileResolved then 1 else 0)"
  "anchors_completed (count_event s e) = anchors_completed s + (if ae_kind e = AnchorCompleted then 1 else 0)"
  "compile_failures (count_event s e) = compile_failures s + (if ae_kind e = AnchorCompleted \<and> ae_anchor e = Some AnchorCompile \<and> \<not> commands_pass e then 1 else 0)"
  "test_failures (count_event s e) = test_failures s + (if ae_kind e = AnchorCompleted \<and> ae_anchor e = Some AnchorTest \<and> \<not> commands_pass e then 1 else 0)"
  "verify_failures (count_event s e) = verify_failures s + (if ae_kind e = AnchorCompleted \<and> ae_anchor e = Some AnchorVerify \<and> \<not> commands_pass e then 1 else 0)"
  "root_cause_routes (count_event s e) = root_cause_routes s + (if ae_kind e = RouteSelected \<and> ae_route e = Some RouteRootCause then 1 else 0)"
  "implement_routes (count_event s e) = implement_routes s + (if ae_kind e = RouteSelected \<and> ae_route e = Some RouteImplement then 1 else 0)"
  "completed_routes (count_event s e) = completed_routes s + (if ae_kind e = RouteSelected \<and> ae_route e = Some RouteComplete then 1 else 0)"
  "escalated_routes (count_event s e) = escalated_routes s + (if ae_kind e = RouteSelected \<and> ae_route e = Some RouteEscalate then 1 else 0)"
  "plan_adaptations (count_event s e) = plan_adaptations s + (if ae_kind e = Adapted then 1 else 0)"
  "decompositions (count_event s e) = decompositions s + (if ae_kind e = Decomposed then 1 else 0)"
  by (cases "ae_kind e"; simp add: count_event_def Let_def
      split: option.split graph_audit_anchor.split graph_audit_route.split)+

text \<open>Folding a counter over events counts the events that bump it.\<close>

lemma foldl_counter:
  fixes c :: "audit_summary \<Rightarrow> nat"
  assumes "\<And>s e. c (count_event s e) = c s + (if P e then 1 else 0)"
  shows "c (foldl count_event s es) = c s + length (filter P es)"
  by (induction es arbitrary: s) (simp_all add: assms)

text \<open>
  The audit summary is faithful to the trail: each counter equals the number of events of its
  kind, failures are counted per anchor exactly for the completed anchors whose commands did not
  all exit with code 0, and no more failures are reported than anchors completed.
\<close>

theorem summary_from_events_counts:
  "profiles_resolved (summary_from_events es) = length (filter (\<lambda>e. ae_kind e = ProfileResolved) es) \<and>
   anchors_completed (summary_from_events es) = length (filter (\<lambda>e. ae_kind e = AnchorCompleted) es) \<and>
   compile_failures (summary_from_events es) = length (filter (\<lambda>e. ae_kind e = AnchorCompleted \<and> ae_anchor e = Some AnchorCompile \<and> \<not> commands_pass e) es) \<and>
   test_failures (summary_from_events es) = length (filter (\<lambda>e. ae_kind e = AnchorCompleted \<and> ae_anchor e = Some AnchorTest \<and> \<not> commands_pass e) es) \<and>
   verify_failures (summary_from_events es) = length (filter (\<lambda>e. ae_kind e = AnchorCompleted \<and> ae_anchor e = Some AnchorVerify \<and> \<not> commands_pass e) es) \<and>
   root_cause_routes (summary_from_events es) = length (filter (\<lambda>e. ae_kind e = RouteSelected \<and> ae_route e = Some RouteRootCause) es) \<and>
   implement_routes (summary_from_events es) = length (filter (\<lambda>e. ae_kind e = RouteSelected \<and> ae_route e = Some RouteImplement) es) \<and>
   completed_routes (summary_from_events es) = length (filter (\<lambda>e. ae_kind e = RouteSelected \<and> ae_route e = Some RouteComplete) es) \<and>
   escalated_routes (summary_from_events es) = length (filter (\<lambda>e. ae_kind e = RouteSelected \<and> ae_route e = Some RouteEscalate) es) \<and>
   plan_adaptations (summary_from_events es) = length (filter (\<lambda>e. ae_kind e = Adapted) es) \<and>
   decompositions (summary_from_events es) = length (filter (\<lambda>e. ae_kind e = Decomposed) es) \<and>
   compile_failures (summary_from_events es) + test_failures (summary_from_events es) +
     verify_failures (summary_from_events es) \<le> anchors_completed (summary_from_events es)"
proof -
  have c1: "profiles_resolved (summary_from_events es) = length (filter (\<lambda>e. ae_kind e = ProfileResolved) es)"
    unfolding summary_from_events_def by (subst foldl_counter [OF count_event_field(1)]) (simp add: empty_summary_def)
  have c2: "anchors_completed (summary_from_events es) = length (filter (\<lambda>e. ae_kind e = AnchorCompleted) es)"
    unfolding summary_from_events_def by (subst foldl_counter [OF count_event_field(2)]) (simp add: empty_summary_def)
  have c3: "compile_failures (summary_from_events es) = length (filter (\<lambda>e. ae_kind e = AnchorCompleted \<and> ae_anchor e = Some AnchorCompile \<and> \<not> commands_pass e) es)"
    unfolding summary_from_events_def by (subst foldl_counter [OF count_event_field(3)]) (simp add: empty_summary_def)
  have c4: "test_failures (summary_from_events es) = length (filter (\<lambda>e. ae_kind e = AnchorCompleted \<and> ae_anchor e = Some AnchorTest \<and> \<not> commands_pass e) es)"
    unfolding summary_from_events_def by (subst foldl_counter [OF count_event_field(4)]) (simp add: empty_summary_def)
  have c5: "verify_failures (summary_from_events es) = length (filter (\<lambda>e. ae_kind e = AnchorCompleted \<and> ae_anchor e = Some AnchorVerify \<and> \<not> commands_pass e) es)"
    unfolding summary_from_events_def by (subst foldl_counter [OF count_event_field(5)]) (simp add: empty_summary_def)
  have c6: "root_cause_routes (summary_from_events es) = length (filter (\<lambda>e. ae_kind e = RouteSelected \<and> ae_route e = Some RouteRootCause) es)"
    unfolding summary_from_events_def by (subst foldl_counter [OF count_event_field(6)]) (simp add: empty_summary_def)
  have c7: "implement_routes (summary_from_events es) = length (filter (\<lambda>e. ae_kind e = RouteSelected \<and> ae_route e = Some RouteImplement) es)"
    unfolding summary_from_events_def by (subst foldl_counter [OF count_event_field(7)]) (simp add: empty_summary_def)
  have c8: "completed_routes (summary_from_events es) = length (filter (\<lambda>e. ae_kind e = RouteSelected \<and> ae_route e = Some RouteComplete) es)"
    unfolding summary_from_events_def by (subst foldl_counter [OF count_event_field(8)]) (simp add: empty_summary_def)
  have c9: "escalated_routes (summary_from_events es) = length (filter (\<lambda>e. ae_kind e = RouteSelected \<and> ae_route e = Some RouteEscalate) es)"
    unfolding summary_from_events_def by (subst foldl_counter [OF count_event_field(9)]) (simp add: empty_summary_def)
  have c10: "plan_adaptations (summary_from_events es) = length (filter (\<lambda>e. ae_kind e = Adapted) es)"
    unfolding summary_from_events_def by (subst foldl_counter [OF count_event_field(10)]) (simp add: empty_summary_def)
  have c11: "decompositions (summary_from_events es) = length (filter (\<lambda>e. ae_kind e = Decomposed) es)"
    unfolding summary_from_events_def by (subst foldl_counter [OF count_event_field(11)]) (simp add: empty_summary_def)
  have "length (filter (\<lambda>e. ae_kind e = AnchorCompleted \<and> ae_anchor e = Some AnchorCompile \<and> \<not> commands_pass e) es) +
      length (filter (\<lambda>e. ae_kind e = AnchorCompleted \<and> ae_anchor e = Some AnchorTest \<and> \<not> commands_pass e) es) +
      length (filter (\<lambda>e. ae_kind e = AnchorCompleted \<and> ae_anchor e = Some AnchorVerify \<and> \<not> commands_pass e) es)
      \<le> length (filter (\<lambda>e. ae_kind e = AnchorCompleted) es)"
    by (induction es) auto
  with c1 c2 c3 c4 c5 c6 c7 c8 c9 c10 c11 show ?thesis by simp
qed

end
