(* ===== verification/Work_Graph_Route.thy ===== *)
theory Work_Graph_Route
  imports Work_State
begin

text \<open>
  Code-owned routing of the compile, test, verify work graph
  (\<open>src/exec_session/work_graph.rs\<close>) and the anchor-driven adaptation rules
  (\<open>adapt_work_graph\<close> of \<open>src/org_graph/work_graph_plan.rs\<close>). Both are pure
  functions of the persisted work state.
\<close>

section \<open>Routing\<close>

datatype work_graph_step =
    StepRootCause | StepImplement | StepCompileAnchor | StepTestAnchor | StepVerifyGate
  | StepAwaitHumanReview | StepComplete | StepEscalate

definition selected_plan_has_role :: "work_state \<Rightarrow> node_type \<Rightarrow> bool" where
  "selected_plan_has_role ws role \<longleftrightarrow>
     (case ws_selected_work_graph ws of
        None \<Rightarrow> False
      | Some plan \<Rightarrow> list_ex (\<lambda>n. pn_role n = role) (plan_nodes plan))"

text \<open>The \<open>Debug\<close> rendering of a node type, used in the message below.\<close>

fun debug_node_type :: "node_type \<Rightarrow> string" where
  "debug_node_type Explore = ''Explore''"
| "debug_node_type Plan = ''Plan''"
| "debug_node_type GeneralPurpose = ''GeneralPurpose''"
| "debug_node_type Verification = ''Verification''"
| "debug_node_type RootCause = ''RootCause''"
| "debug_node_type HumanReviewNode = ''HumanReview''"
| "debug_node_type WgentyCodeGuide = ''WgentyCodeGuide''"

definition require_plan_edge ::
    "work_state \<Rightarrow> node_type \<Rightarrow> node_type \<Rightarrow> coordinator_error + unit" where
  "require_plan_edge ws from to =
     (case ws_selected_work_graph ws of
        None \<Rightarrow> Inr ()
      | Some plan \<Rightarrow>
          if permits_role_edge plan from to then Inr ()
          else Inl (ContractViolation from DimState
                 (''selected Work-Graph '' @ [CHR 0x27] @ template_id plan @ [CHR 0x27] @
                  '' forbids route to '' @ debug_node_type to)))"

definition budget_remains :: "budget option \<Rightarrow> bool" where
  "budget_remains b \<longleftrightarrow> (case b of None \<Rightarrow> False | Some b \<Rightarrow> iter_used b < max_iter b)"

definition is_root_cause_report :: "specialist_report \<Rightarrow> bool" where
  "is_root_cause_report r \<longleftrightarrow> rp_producer r = RootCause \<and> rp_kind r = RootCauseReport"

definition retry_or_escalate :: "work_state \<Rightarrow> coordinator_error + work_graph_step" where
  "retry_or_escalate ws =
     result_bind (get_budget ws GeneralPurpose) (\<lambda>b.
     if \<not> budget_remains b then Inr StepEscalate
     else
       result_bind (get_specialist_reports ws GeneralPurpose) (\<lambda>reports.
       if list_ex is_root_cause_report reports
       then result_bind (require_plan_edge ws RootCause GeneralPurpose) (\<lambda>_. Inr StepImplement)
       else
         let diagnose_routable =
               (case ws_selected_work_graph ws of
                  Some plan \<Rightarrow> permits_role_edge plan Verification RootCause
                | None \<Rightarrow> True)
         in if diagnose_routable
            then result_bind (require_plan_edge ws Verification RootCause) (\<lambda>_. Inr StepRootCause)
            else Inr StepImplement))"

definition next_step :: "work_state \<Rightarrow> coordinator_error + work_graph_step" where
  "next_step ws =
     result_bind (get_compile_result ws Verification) (\<lambda>compile.
     case compile of
       None \<Rightarrow> Inr StepCompileAnchor
     | Some c \<Rightarrow>
       if \<not> cr_ok c then retry_or_escalate ws
       else result_bind (get_test_result ws Verification) (\<lambda>test.
         case test of
           None \<Rightarrow> Inr StepTestAnchor
         | Some t \<Rightarrow>
           if \<not> tr_pass t then retry_or_escalate ws
           else result_bind (get_verify_result ws Verification) (\<lambda>verify.
             case verify of
               None \<Rightarrow> Inr StepVerifyGate
             | Some v \<Rightarrow>
               if vo_success v
               then
                 if selected_plan_has_role ws HumanReviewNode
                 then result_bind (require_plan_edge ws Verification HumanReviewNode) (\<lambda>_.
                      result_bind (get_human_review ws HumanReviewNode) (\<lambda>review.
                      case review of
                        None \<Rightarrow> Inr StepAwaitHumanReview
                      | Some Approve \<Rightarrow> Inr StepComplete
                      | Some Reject \<Rightarrow> retry_or_escalate ws))
                 else Inr StepComplete
               else
                 (case vo_fail_reason v of
                    Some (KindBoundaryViolation _) \<Rightarrow> Inr StepEscalate
                  | _ \<Rightarrow> retry_or_escalate ws))))"

section \<open>Adaptation\<close>

definition count_test_anchor :: "string \<Rightarrow> u32 \<Rightarrow> graph_audit_event \<Rightarrow> u32" where
  "count_test_anchor node_id streak e =
     (if ae_node_id e \<noteq> node_id then streak
      else if ae_kind e = AnchorCompleted \<and> ae_anchor e = Some AnchorTest
      then if commands_pass e then 0 else streak + 1
      else streak)"

definition consecutive_test_anchor_failures :: "graph_audit_event list \<Rightarrow> string \<Rightarrow> u32" where
  "consecutive_test_anchor_failures events node_id = foldl (count_test_anchor node_id) 0 events"

definition adapt_work_graph ::
    "work_state \<Rightarrow> work_graph_plan \<Rightarrow> string \<Rightarrow> coordinator_error + adaptation_outcome" where
  "adapt_work_graph ws plan node_id =
     result_bind (get_test_result ws Verification) (\<lambda>test.
     let test_failed = (case test of None \<Rightarrow> False | Some t \<Rightarrow> \<not> tr_pass t) in
     if \<not> test_failed then Inr Unchanged
     else
       result_bind (get_budget ws GeneralPurpose) (\<lambda>b.
       if \<not> budget_remains b then Inr Unchanged
       else if list_ex (\<lambda>n. pn_role n = RootCause) (plan_nodes plan) then Inr Unchanged
       else
         let failures = consecutive_test_anchor_failures (ws_graph_audit ws) node_id in
         if failures < 2 then Inr Unchanged
         else
           let reason = RepeatedTestAnchorFailure failures in
           if MAX_PLAN_ADAPTATIONS \<le> saturating_sub (plan_revision plan) 1
           then Inr (EscalateAdaptation reason)
           else Inr (Splice
                  \<lparr>spliced_node = \<lparr>pn_id = ''diagnose'', pn_role = RootCause\<rparr>,
                   ad_reason = reason,
                   next_revision = plan_revision plan + 1\<rparr>)))"

section \<open>What routing promises\<close>

lemma retry_or_escalate_unfold:
  "retry_or_escalate ws =
     (if \<not> budget_remains (ws_budget ws) then Inr StepEscalate
      else if list_ex is_root_cause_report (ws_specialist_reports ws)
      then result_bind (require_plan_edge ws RootCause GeneralPurpose) (\<lambda>_. Inr StepImplement)
      else if (case ws_selected_work_graph ws of
                 Some plan \<Rightarrow> permits_role_edge plan Verification RootCause | None \<Rightarrow> True)
      then Inr StepRootCause
      else Inr StepImplement)"
  by (auto simp: retry_or_escalate_def require_plan_edge_def Let_def split: option.split)

lemma retry_or_escalate_range:
  "retry_or_escalate ws = Inr s \<Longrightarrow> s \<in> {StepEscalate, StepImplement, StepRootCause}"
  by (auto simp: retry_or_escalate_unfold result_bind_Inr_iff split: if_splits)

lemma retry_or_escalate_escalates_iff:
  "retry_or_escalate ws = Inr StepEscalate \<longleftrightarrow> \<not> budget_remains (ws_budget ws)"
  by (auto simp: retry_or_escalate_unfold result_bind_Inr_iff split: if_splits)

text \<open>
  All the evidence completion needs: the three anchors recorded and passed, and the reviewer's
  approval whenever the selected plan has a human-review gate.
\<close>

definition completion_evidence :: "work_state \<Rightarrow> bool" where
  "completion_evidence ws \<longleftrightarrow>
     (\<exists>c t v. ws_compile_result ws = Some c \<and> cr_ok c \<and>
              ws_test_result ws = Some t \<and> tr_pass t \<and>
              ws_verify_result ws = Some v \<and> vo_success v) \<and>
     (selected_plan_has_role ws HumanReviewNode \<longrightarrow> ws_human_review ws = Some Approve)"

lemma next_step_complete: "next_step ws = Inr StepComplete \<Longrightarrow> completion_evidence ws"
  by (auto simp: next_step_def completion_evidence_def result_bind_Inr_iff
      dest: retry_or_escalate_range
      split: option.splits if_splits human_review.splits verify_failure_kind.splits)

lemma completion_evidence_next_step:
  assumes "completion_evidence ws" "is_ok (require_plan_edge ws Verification HumanReviewNode)"
  shows "next_step ws = Inr StepComplete"
  using assms
  by (auto simp: next_step_def completion_evidence_def is_ok_def split: sum.splits)

text \<open>
  C5: the router completes a graph only on external evidence: it selects the terminal step
  \<open>Complete\<close> exactly when the compile, test and verify anchors are all recorded as passed and, if
  the selected plan has a human-review gate, the plan allows the route to it and the reviewer has
  approved. No other content of the work state can lead to completion.
\<close>

theorem next_step_complete_iff:
  "next_step ws = Inr StepComplete \<longleftrightarrow>
     completion_evidence ws \<and>
     (selected_plan_has_role ws HumanReviewNode \<longrightarrow>
        is_ok (require_plan_edge ws Verification HumanReviewNode))"
proof
  assume n: "next_step ws = Inr StepComplete"
  then have e: "completion_evidence ws" by (rule next_step_complete)
  moreover have "selected_plan_has_role ws HumanReviewNode \<Longrightarrow>
      is_ok (require_plan_edge ws Verification HumanReviewNode)"
    using n e by (auto simp: next_step_def completion_evidence_def is_ok_def result_bind_def
        split: sum.splits)
  ultimately show "completion_evidence ws \<and> (selected_plan_has_role ws HumanReviewNode \<longrightarrow>
      is_ok (require_plan_edge ws Verification HumanReviewNode))" by simp
next
  assume "completion_evidence ws \<and> (selected_plan_has_role ws HumanReviewNode \<longrightarrow>
      is_ok (require_plan_edge ws Verification HumanReviewNode))"
  then show "next_step ws = Inr StepComplete"
    by (auto simp: next_step_def completion_evidence_def is_ok_def split: sum.splits)
qed

theorem next_step_complete_iff_witness:
  "next_step (default_work_state\<lparr>ws_compile_result := Some \<lparr>cr_ok = True, cr_stderr = []\<rparr>,
       ws_test_result := Some \<lparr>tr_pass = True, tr_failed_cases = []\<rparr>,
       ws_verify_result := Some \<lparr>vo_success = True, vo_fail_reason = None\<rparr>\<rparr>) = Inr StepComplete"
  by (simp add: next_step_complete_iff completion_evidence_def selected_plan_has_role_def
      default_work_state_def)

text \<open>
  A plan that composition builds never makes the router fail: every route it can take is an edge
  of the plan, before and after the diagnose stage is spliced in.
\<close>

definition routable :: "work_graph_plan \<Rightarrow> bool" where
  "routable p \<longleftrightarrow>
     (list_ex (\<lambda>n. pn_role n = HumanReviewNode) (plan_nodes p) \<longrightarrow>
        permits_role_edge p Verification HumanReviewNode) \<and>
     (permits_role_edge p Verification RootCause \<longrightarrow> permits_role_edge p RootCause GeneralPurpose)"

lemma spec_plan_routable: "spec_plan r p \<Longrightarrow> routable p"
  by (auto simp: spec_plan_def routable_def permits_role_edge_def role_of_def stage_def)

lemma spec_plan_has_review: "spec_plan r p \<Longrightarrow>
   list_ex (\<lambda>n. pn_role n = HumanReviewNode) (plan_nodes p) = review_gate r"
  by (auto simp: spec_plan_def stage_def)

lemma spec_plan_diagnose_edge: "spec_plan r p \<Longrightarrow>
   permits_role_edge p Verification RootCause = wants_diagnose r"
  by (auto simp: spec_plan_def permits_role_edge_def role_of_def stage_def)

lemma routable_bind: "bind_registry p reg = Inr p' \<Longrightarrow> routable p' = routable p"
  by (simp add: routable_def permits_role_edge_def role_of_def bind_registry_keeps)

text \<open>Reports by the root-cause role are only filed on plans that have a diagnose stage.\<close>

definition reports_fit_plan :: "work_state \<Rightarrow> bool" where
  "reports_fit_plan ws \<longleftrightarrow>
     (case ws_selected_work_graph ws of
        None \<Rightarrow> True
      | Some p \<Rightarrow> list_ex is_root_cause_report (ws_specialist_reports ws) \<longrightarrow>
                    permits_role_edge p Verification RootCause)"

lemma next_step_total:
  assumes "\<And>p. ws_selected_work_graph ws = Some p \<Longrightarrow> routable p" and "reports_fit_plan ws"
  shows "\<exists>s. next_step ws = Inr s"
proof -
  have retry: "\<exists>s. retry_or_escalate ws = Inr s"
    using assms by (auto simp: retry_or_escalate_unfold require_plan_edge_def routable_def
        reports_fit_plan_def split: option.splits)
  have review: "selected_plan_has_role ws HumanReviewNode \<Longrightarrow>
      require_plan_edge ws Verification HumanReviewNode = Inr ()"
    using assms(1) by (auto simp: selected_plan_has_role_def require_plan_edge_def routable_def
        split: option.splits)
  show ?thesis
    using retry review
    by (auto simp: next_step_def split: option.split human_review.split verify_failure_kind.split)
qed



section \<open>What adaptation promises\<close>

lemma adapt_work_graph_cases:
  assumes "adapt_work_graph ws plan node_id = Inr (Splice a)"
  shows "\<exists>failures. 2 \<le> failures \<and>
     failures = consecutive_test_anchor_failures (ws_graph_audit ws) node_id \<and>
     a = diagnose_adaptation (RepeatedTestAnchorFailure failures) (plan_revision plan + 1) \<and>
     unat (plan_revision plan) \<le> 2 \<and> budget_remains (ws_budget ws) \<and>
     \<not> list_ex (\<lambda>n. pn_role n = RootCause) (plan_nodes plan)"
  using assms unat_saturating_sub [of "plan_revision plan" 1]
  by (auto simp: adapt_work_graph_def Let_def diagnose_adaptation_def stage_def MAX_PLAN_ADAPTATIONS_def
      word_le_nat_alt word_less_nat_alt split: if_splits option.splits)

text \<open>
  Adaptation is bounded and safe. When the adapter revises a plan that composition built,
  the plan had no diagnose stage, the node has failed the test anchor at least twice in a row,
  iteration budget remains, and the revision grows by exactly one and stays at most three; applying
  the revision succeeds, keeps the plan well formed and gives it the diagnose stage with both its
  edges, after which the adapter never revises the plan again.
\<close>

theorem adaptation_bounded:
  assumes c: "compose_work_graph r = Inr p"
    and a: "adapt_work_graph ws p node_id = Inr (Splice ad)"
  shows "\<exists>p'. apply_adaptation p ad = (Inr (), p') \<and> plan_wf p' \<and> routable p' \<and>
     permits_role_edge p' Verification RootCause \<and> permits_role_edge p' RootCause GeneralPurpose \<and>
     \<not> wants_diagnose r \<and> 2 \<le> consecutive_test_anchor_failures (ws_graph_audit ws) node_id \<and>
     budget_remains (ws_budget ws) \<and>
     unat (plan_revision p') = unat (plan_revision p) + 1 \<and> unat (plan_revision p') \<le> 3 \<and>
     (\<forall>ws' n ad'. adapt_work_graph ws' p' n \<noteq> Inr (Splice ad'))"
proof -
  obtain f where f: "2 \<le> f" "f = consecutive_test_anchor_failures (ws_graph_audit ws) node_id"
      "ad = diagnose_adaptation (RepeatedTestAnchorFailure f) (plan_revision p + 1)"
      "budget_remains (ws_budget ws)" "\<not> list_ex (\<lambda>n. pn_role n = RootCause) (plan_nodes p)"
    using adapt_work_graph_cases [OF a] by auto
  have spec: "spec_plan r p" using compose_work_graph_Inr [OF c] by simp
  then have nd: "\<not> wants_diagnose r" and rev: "plan_revision p = 1"
    using f(5) by (auto simp: spec_plan_def stage_def split: if_splits)
  define p' where "p' = p\<lparr>plan_nodes := plan_nodes p @ [stage ''diagnose'' RootCause],
     plan_edges := plan_edges p @
       [\<lparr>pe_from = ''verify'', pe_to = ''diagnose''\<rparr>, \<lparr>pe_from = ''diagnose'', pe_to = ''implement''\<rparr>],
     plan_revision := 2\<rparr>"
  have stages: "\<not> has_stage p ''diagnose''" "has_stage p ''verify''" "has_stage p ''implement''"
    "length (plan_nodes p) < MAX_WORK_GRAPH_NODES"
    using spec nd by (auto simp: spec_plan_def has_stage_def stage_def MAX_WORK_GRAPH_NODES_def)
  have app: "apply_adaptation p ad = (validate_composition p', p')"
    using stages(1) rev by (simp add: apply_adaptation_def f(3) diagnose_adaptation_def stage_def
        p'_def Let_def)
  have wf: "plan_wf p'"
    using apply_diagnose_wf [OF _ stages(2-4), of "RepeatedTestAnchorFailure f" "plan_revision p + 1"]
      compose_work_graph_Inr [OF c] app f(3) by auto
  then have ok: "validate_composition p' = Inr ()" by (simp add: validate_composition_iff)
  have edges: "permits_role_edge p' Verification RootCause" "permits_role_edge p' RootCause GeneralPurpose"
    "routable p'"
    using spec nd
    by (auto simp: spec_plan_def p'_def permits_role_edge_def role_of_def stage_def routable_def)
  have stop: "\<forall>ws' n ad'. adapt_work_graph ws' p' n \<noteq> Inr (Splice ad')"
    using adapt_work_graph_cases [of _ p'] by (force simp: p'_def stage_def)
  show ?thesis
    using app ok wf edges stop nd f rev by (auto simp: p'_def)
qed

theorem adaptation_bounded_witness:
  "let r = default_request\<lparr>req_risk := RiskLow\<rparr>;
       fail = \<lparr>ae_node_id = ''n1'', ae_attempt = 1, ae_kind = AnchorCompleted,
               ae_anchor = Some AnchorTest,
               ae_commands = [\<lparr>acr_command = ''t'', acr_exit_code = Some 1, acr_stderr = []\<rparr>],
               ae_route = None, ae_profile = None, ae_resolved_commands = None, ae_adapted = None,
               ae_parent_node_id = None, ae_budget = None, ae_timestamp = []\<rparr>;
       ws = default_work_state\<lparr>ws_test_result := Some \<lparr>tr_pass = False, tr_failed_cases = []\<rparr>,
              ws_budget := Some \<lparr>max_iter = 5, iter_used = 2, token_used = 0\<rparr>,
              ws_graph_audit := [fail, fail]\<rparr>
   in \<exists>p ad p'. compose_work_graph r = Inr p \<and> adapt_work_graph ws p ''n1'' = Inr (Splice ad) \<and>
        apply_adaptation p ad = (Inr (), p') \<and> unat (plan_revision p') \<le> 3"
proof -
  let ?r = "default_request\<lparr>req_risk := RiskLow\<rparr>"
  define fail where "fail = \<lparr>ae_node_id = ''n1'', ae_attempt = 1 :: u32, ae_kind = AnchorCompleted,
               ae_anchor = Some AnchorTest,
               ae_commands = [\<lparr>acr_command = ''t'', acr_exit_code = Some 1, acr_stderr = []\<rparr>],
               ae_route = None, ae_profile = None, ae_resolved_commands = None, ae_adapted = None,
               ae_parent_node_id = None, ae_budget = None, ae_timestamp = []\<rparr>"
  define ws where "ws = default_work_state\<lparr>ws_test_result := Some \<lparr>tr_pass = False, tr_failed_cases = []\<rparr>,
              ws_budget := Some \<lparr>max_iter = 5, iter_used = 2, token_used = 0\<rparr>,
              ws_graph_audit := [fail, fail]\<rparr>"
  obtain p where p: "compose_work_graph ?r = Inr p"
    using compose_work_graph_total [of ?r] by (auto simp: default_request_def)
  have spec: "spec_plan ?r p" using compose_work_graph_Inr [OF p] by simp
  have two: "consecutive_test_anchor_failures [fail, fail] ''n1'' = 2"
    by (simp add: consecutive_test_anchor_failures_def count_test_anchor_def commands_pass_def fail_def)
  obtain ad where ad: "adapt_work_graph ws p ''n1'' = Inr (Splice ad)"
    using spec two
    by (auto simp: adapt_work_graph_def ws_def budget_remains_def spec_plan_def stage_def
        wants_diagnose_def review_gate_def default_request_def saturating_sub_def checked_sub_def
        MAX_PLAN_ADAPTATIONS_def Let_def)
  from adaptation_bounded [OF p ad] obtain p' where "apply_adaptation p ad = (Inr (), p')"
      "unat (plan_revision p') \<le> 3" by blast
  then show ?thesis using p ad by (auto simp: Let_def ws_def fail_def)
qed

end
