(* ===== verification/Session_Coordinator.thy ===== *)
theory Session_Coordinator
  imports Work_Graph_Route
begin

text \<open>
  The inner layer of an execution session: session and node records
  (\<open>src/exec_session/node.rs\<close>, \<open>session.rs\<close>, \<open>verification_profile.rs\<close>) and the
  coordinator that owns them (\<open>src/exec_session/coordinator.rs\<close>), with the work-state
  side files of the checkpoint store (\<open>src/tools/checkpoint_store.rs\<close>).

  The outside world is the record \<open>env\<close>: what the clock, the file system, git and the command
  executor answer to the \<open>t\<close>-th question. The state counts the questions asked, so two reads of
  the clock may differ and any single write may fail while the next one succeeds. Nothing is
  assumed about these answers. What a session does to the workspace is recorded, in order, as
  external effects.
\<close>

section \<open>Records\<close>

datatype verification_profile = ProfileNone | ProfileRust

record resolved_commands =
  rc_compile :: "string list"
  rc_test :: "string list"
  rc_verify :: "string list"

definition deduplicate_commands :: "string list \<Rightarrow> string list \<Rightarrow> string list" where
  "deduplicate_commands required supplied = dedup_first [] (required @ supplied)"

definition resolve_profile ::
    "verification_profile \<Rightarrow> string list \<Rightarrow> string list \<Rightarrow> string list \<Rightarrow> resolved_commands" where
  "resolve_profile p compile test verify =
     (case p of
        ProfileNone \<Rightarrow> \<lparr>rc_compile = compile, rc_test = test, rc_verify = verify\<rparr>
      | ProfileRust \<Rightarrow>
          \<lparr>rc_compile = deduplicate_commands [''cargo check''] compile,
           rc_test = deduplicate_commands [''cargo test --all''] test,
           rc_verify = deduplicate_commands [''cargo clippy --all-targets -- -D warnings''] verify\<rparr>)"

record exec_contract =
  xc_goal :: string
  xc_verify_commands :: "string list"
  xc_compile_commands :: "string list"
  xc_test_commands :: "string list"
  xc_profile :: verification_profile
  xc_expected_files :: "string list"

datatype node_status = Pending | Running | Verifying | Verified | NodeFailed

record exec_node =
  xn_id :: string
  xn_contract :: exec_contract
  xn_status :: node_status
  xn_start_turn_id :: string
  xn_retry_count :: u32
  xn_verify_log_path :: string
  xn_created_at :: string

datatype session_source = Comet | AgentSelf | UserDirect

datatype session_status = InProgress | Completed | Unverified | SessionFailed

record turn_record =
  tr_turn_id :: string
  tr_parent :: "string option"
  tr_checkpoint_turn_id :: string
  tr_git_head :: "string option"
  tr_untracked_files :: "string list"
  tr_created_at :: string

record session_state =
  ss_session_id :: string
  ss_source :: session_source
  ss_status :: session_status
  ss_created_at :: string
  ss_updated_at :: string
  ss_turns :: "turn_record list"
  ss_current_turn :: "string option"
  ss_node_states :: "exec_node list"
  ss_current_node :: "string option"

definition new_session :: "string \<Rightarrow> session_source \<Rightarrow> string \<Rightarrow> session_state" where
  "new_session i src now =
     \<lparr>ss_session_id = i, ss_source = src, ss_status = InProgress, ss_created_at = now,
      ss_updated_at = now, ss_turns = [], ss_current_turn = None, ss_node_states = [],
      ss_current_node = None\<rparr>"

definition current_turn_record :: "session_state \<Rightarrow> turn_record option" where
  "current_turn_record s =
     (case ss_current_turn s of
        None \<Rightarrow> None
      | Some i \<Rightarrow> find (\<lambda>t. tr_turn_id t = i) (ss_turns s))"

definition current_node_of :: "session_state \<Rightarrow> exec_node option" where
  "current_node_of s =
     (case ss_current_node s of
        None \<Rightarrow> None
      | Some i \<Rightarrow> find (\<lambda>n. xn_id n = i) (ss_node_states s))"

section \<open>Verification results and hooks\<close>

record command_run =
  run_cmd :: string
  run_exit_code :: "int option"
  run_stdout :: string
  run_stderr :: string

datatype verify_failure =
    CommandFailed string "int option" string
  | BoundaryViolation "string list"

datatype verify_fail_action = AutoRetry nat | EscalateAction | AbortAction | WarnAndContinue

record verify_fail_context =
  vfc_session_id :: string
  vfc_turn_id :: string
  vfc_attempt :: nat
  vfc_failure :: verify_failure

text \<open>The default hook: two retries after the first attempt, then escalation.\<close>

definition default_verify_fail :: "verify_fail_context \<Rightarrow> verify_fail_action" where
  "default_verify_fail ctx =
     (let remaining = (2 + 1) - vfc_attempt ctx
      in if 0 < remaining then AutoRetry remaining else EscalateAction)"

record verify_result =
  vr_success :: bool
  vr_commands_run :: "command_run list"
  vr_actual_changed_files :: "string list"
  vr_expected_changed_files :: "string list"
  vr_out_of_scope :: "string list"
  vr_fail_reason :: "verify_failure option"
  vr_action :: "verify_fail_action option"

datatype verify_log_result = LogCompleted | LogCommandFailed | LogOutOfScope

datatype verify_log_final_status = FinalCompleted | FinalFailed | FinalUnverified

record verify_log_entry =
  vle_attempt :: nat
  vle_timestamp :: string
  vle_commands_run :: "command_run list"
  vle_actual :: "string list"
  vle_expected :: "string list"
  vle_out_of_scope :: "string list"
  vle_result :: verify_log_result

record verify_log =
  vl_attempts :: "verify_log_entry list"
  vl_final_status :: "verify_log_final_status option"

definition empty_verify_log :: verify_log where
  "empty_verify_log = \<lparr>vl_attempts = [], vl_final_status = None\<rparr>"

section \<open>The world and the runtime state\<close>

datatype external_effect =
    GitReset string
  | CheckpointRewind string
  | DeleteUntracked "string list"
  | HookRollback "string option" string
  | HookPreNode string
  | HookPostNode string bool

record env =
  env_now :: "nat \<Rightarrow> string"
  env_uuid :: "nat \<Rightarrow> string"
  env_io_ok :: "nat \<Rightarrow> bool"
  env_git_head :: "nat \<Rightarrow> string option"
  env_git_log :: "nat \<Rightarrow> string \<Rightarrow> string list option"
  env_git_diff :: "nat \<Rightarrow> string \<Rightarrow> string list option"
  env_git_untracked :: "nat \<Rightarrow> string list option"
  env_manifest_files :: "nat \<Rightarrow> string \<Rightarrow> string list"
  env_file_exists :: "nat \<Rightarrow> string \<Rightarrow> bool"
  env_pruned :: "nat \<Rightarrow> string \<Rightarrow> bool"
  env_execute :: "nat \<Rightarrow> string \<Rightarrow> command_run option"
  env_cargo_toml :: "nat \<Rightarrow> bool"
  env_verify_fail :: "verify_fail_context \<Rightarrow> verify_fail_action"
  env_auto_retry_max :: u32

text \<open>
  \<open>rt_session\<close> and \<open>rt_work\<close> are in memory; \<open>rt_disk_session\<close> is \<open>session.json\<close>; \<open>rt_ckpts\<close> is
  the directory of the checkpoint store: \<open>None\<close> for a turn without a directory, otherwise the
  content of its \<open>work_state.json\<close>, if any; \<open>rt_log\<close> is \<open>verify_log.json\<close>; \<open>rt_poisoned\<close> is the
  poison flag of the coordinator's lock, set by a panic of a thread that holds it.
\<close>

record rt =
  rt_session :: session_state
  rt_work :: work_state
  rt_disk_session :: "session_state option"
  rt_ckpts :: "string \<rightharpoonup> work_state option"
  rt_log :: "verify_log option"
  rt_effects :: "external_effect list"
  rt_tick :: nat
  rt_poisoned :: bool

datatype rt_error =
    IoError
  | LockPoisoned
  | Panicked
  | SpawnFailed string
  | SessionMismatch string
  | NoActiveTurn
  | TurnNotFound string
  | WouldDiscardCommits nat
  | NoCurrentNode
  | NodeNotTerminal node_status
  | NodeNotVerifiable node_status
  | NodeIdsExhausted
  | ComposeFailed plan_error
  | AdaptationFailed plan_error
  | ContractFailed coordinator_error
  | BudgetNotInitialised
  | NoPendingUnits
  | NoReviewGate
  | ReviewBeforeVerification
  | NoRollbackAnchor
  | NothingAfterAnchor string
  | VerifyResultMissing
  | InvalidInput
  | DecomposeRejected

type_synonym 'a run = "(rt, rt_error, 'a) smon"

text \<open>Ask the world one question.\<close>

definition ask :: "(nat \<Rightarrow> 'a) \<Rightarrow> 'a run" where
  "ask f = (\<lambda>s. (Inr (f (rt_tick s)), s\<lparr>rt_tick := Suc (rt_tick s)\<rparr>))"

definition io :: "env \<Rightarrow> unit run" where
  "io e = bnd (ask (env_io_ok e)) (\<lambda>ok. if ok then ret () else throw IoError)"

definition effect :: "external_effect \<Rightarrow> unit run" where
  "effect x = upd (\<lambda>s. s\<lparr>rt_effects := rt_effects s @ [x]\<rparr>)"

definition lock :: "unit run" where
  "lock = bnd (gets rt_poisoned) (\<lambda>p. if p then throw LockPoisoned else ret ())"

definition panic :: "'a run" where
  "panic = bnd (upd (\<lambda>s. s\<lparr>rt_poisoned := True\<rparr>)) (\<lambda>_. throw Panicked)"

definition modify_session :: "(session_state \<Rightarrow> session_state) \<Rightarrow> unit run" where
  "modify_session f = upd (\<lambda>s. s\<lparr>rt_session := f (rt_session s)\<rparr>)"

definition modify_work :: "(work_state \<Rightarrow> work_state) \<Rightarrow> unit run" where
  "modify_work f = upd (\<lambda>s. s\<lparr>rt_work := f (rt_work s)\<rparr>)"

text \<open>Run a guarded work-state operation on the coordinator's work state.\<close>

definition on_work :: "(work_state, coordinator_error, 'a) smon \<Rightarrow> 'a run" where
  "on_work m = (\<lambda>s. case m (rt_work s) of
     (Inl e, ws) \<Rightarrow> (Inl (ContractFailed e), s\<lparr>rt_work := ws\<rparr>)
   | (Inr x, ws) \<Rightarrow> (Inr x, s\<lparr>rt_work := ws\<rparr>))"

definition read_work :: "(work_state \<Rightarrow> coordinator_error + 'a) \<Rightarrow> 'a run" where
  "read_work f = bnd (gets rt_work) (\<lambda>ws. case f ws of Inl e \<Rightarrow> throw (ContractFailed e) | Inr x \<Rightarrow> ret x)"

text \<open>
  \<open>record_git_state\<close>: HEAD and the untracked files, degrading to nothing when git fails. The world
  answers with the lines git prints, \<open>None\<close> when the command fails.
\<close>

definition record_git_state :: "env \<Rightarrow> (string option \<times> string list) run" where
  "record_git_state e =
     bnd (ask (env_git_head e)) (\<lambda>head.
     bnd (ask (env_git_untracked e)) (\<lambda>out.
     ret (case head of None \<Rightarrow> None | Some h \<Rightarrow> if h = [] then None else Some h,
          case out of None \<Rightarrow> [] | Some ls \<Rightarrow> filter (\<lambda>l. l \<noteq> []) ls)))"

section \<open>Coordinator operations\<close>

definition save_session :: "env \<Rightarrow> unit run" where
  "save_session e =
     bnd (io e) (\<lambda>_. upd (\<lambda>s. s\<lparr>rt_disk_session := Some (rt_session s)\<rparr>))"

definition touch_and_save :: "env \<Rightarrow> unit run" where
  "touch_and_save e =
     bnd (ask (env_now e)) (\<lambda>now.
     bnd (modify_session (\<lambda>ss. ss\<lparr>ss_updated_at := now\<rparr>)) (\<lambda>_.
     save_session e))"

definition capture_current_work_state :: "env \<Rightarrow> unit run" where
  "capture_current_work_state e =
     bnd (gets rt_session) (\<lambda>ss.
     case ss_current_turn ss of
       None \<Rightarrow> ret ()
     | Some turn_id \<Rightarrow>
         bnd (require_some (find (\<lambda>t. tr_turn_id t = turn_id) (ss_turns ss)) (TurnNotFound turn_id)) (\<lambda>t.
         bnd (io e) (\<lambda>_.
         bnd (gets rt_ckpts) (\<lambda>cs.
         case cs (tr_checkpoint_turn_id t) of
           None \<Rightarrow> throw IoError
         | Some _ \<Rightarrow> upd (\<lambda>s. s\<lparr>rt_ckpts := (rt_ckpts s)(tr_checkpoint_turn_id t \<mapsto> Some (rt_work s))\<rparr>)))))"

definition restore_work_state_for_turn :: "env \<Rightarrow> string \<Rightarrow> unit run" where
  "restore_work_state_for_turn e turn_id =
     bnd (gets rt_session) (\<lambda>ss.
     bnd (require_some (find (\<lambda>t. tr_turn_id t = turn_id) (ss_turns ss)) (TurnNotFound turn_id)) (\<lambda>t.
     bnd (gets rt_ckpts) (\<lambda>cs.
     case cs (tr_checkpoint_turn_id t) of
       Some (Some ws) \<Rightarrow> bnd (io e) (\<lambda>_. modify_work (\<lambda>_. ws))
     | _ \<Rightarrow> modify_work (\<lambda>_. default_work_state))))"

definition coordinator_new :: "env \<Rightarrow> string \<Rightarrow> session_source \<Rightarrow> unit run" where
  "coordinator_new e session_id source =
     bnd (io e) (\<lambda>_.
     bnd (ask (env_now e)) (\<lambda>now.
     bnd (modify_session (\<lambda>_. new_session session_id source now)) (\<lambda>_.
     bnd (modify_work (\<lambda>_. default_work_state)) (\<lambda>_.
     save_session e))))"

definition open_or_create :: "env \<Rightarrow> string \<Rightarrow> session_source \<Rightarrow> unit run" where
  "open_or_create e session_id source =
     bnd (gets rt_disk_session) (\<lambda>d.
     case d of
       None \<Rightarrow> coordinator_new e session_id source
     | Some ss \<Rightarrow>
         bnd (io e) (\<lambda>_.
         if ss_session_id ss \<noteq> session_id then throw (SessionMismatch (ss_session_id ss))
         else
           bnd (modify_session (\<lambda>_. ss)) (\<lambda>_.
           bnd (modify_work (\<lambda>_. default_work_state)) (\<lambda>_.
           case ss_current_turn ss of
             None \<Rightarrow> ret ()
           | Some turn_id \<Rightarrow> restore_work_state_for_turn e turn_id))))"

text \<open>
  \<open>CheckpointStore::begin_turn\<close>: create the directory of the turn; when it is new, older
  directories may be pruned (which ones is a matter of modification times, so the world decides).
  A failing prune is only logged.
\<close>

definition checkpoint_begin_turn :: "env \<Rightarrow> string \<Rightarrow> unit run" where
  "checkpoint_begin_turn e c =
     bnd (io e) (\<lambda>_.
     bnd (gets rt_ckpts) (\<lambda>cs.
     if cs c \<noteq> None then ret ()
     else
       bnd (ask (env_pruned e)) (\<lambda>pruned.
       upd (\<lambda>s. s\<lparr>rt_ckpts := \<lambda>d. if pruned d then None else ((rt_ckpts s)(c \<mapsto> None)) d\<rparr>))))"

definition turn_id_of :: "nat \<Rightarrow> string" where
  "turn_id_of n = ''turn-'' @ show_nat n"

definition begin_turn :: "env \<Rightarrow> turn_record run" where
  "begin_turn e =
     bnd (gets (\<lambda>s. inherit_for_new_turn (rt_work s))) (\<lambda>inherited.
     bnd (gets rt_session) (\<lambda>ss.
     let turn_id = turn_id_of (length (ss_turns ss)); parent = ss_current_turn ss in
     bnd (ask (env_uuid e)) (\<lambda>ckpt.
     bnd (checkpoint_begin_turn e ckpt) (\<lambda>_.
     bnd (record_git_state e) (\<lambda>(head, untracked).
     bnd (ask (env_now e)) (\<lambda>now.
     let turn = \<lparr>tr_turn_id = turn_id, tr_parent = parent, tr_checkpoint_turn_id = ckpt,
                 tr_git_head = head, tr_untracked_files = untracked, tr_created_at = now\<rparr> in
     bnd (modify_session (\<lambda>ss. ss\<lparr>ss_turns := ss_turns ss @ [turn], ss_current_turn := Some turn_id,
                                  ss_updated_at := now\<rparr>)) (\<lambda>_.
     bnd (save_session e) (\<lambda>_.
     bnd (modify_work (\<lambda>_. inherited)) (\<lambda>_.
     bnd (capture_current_work_state e) (\<lambda>_.
     ret turn))))))))))"

definition end_turn :: "env \<Rightarrow> unit run" where
  "end_turn e =
     bnd (gets rt_session) (\<lambda>ss.
     if ss_current_turn ss = None then throw NoActiveTurn else touch_and_save e)"

definition set_status :: "env \<Rightarrow> session_status \<Rightarrow> unit run" where
  "set_status e st =
     bnd (modify_session (\<lambda>ss. ss\<lparr>ss_status := st\<rparr>)) (\<lambda>_. touch_and_save e)"

definition add_node :: "env \<Rightarrow> exec_node \<Rightarrow> unit run" where
  "add_node e n =
     bnd (modify_session (\<lambda>ss. ss\<lparr>ss_node_states := ss_node_states ss @ [n],
                                  ss_current_node := Some (xn_id n)\<rparr>)) (\<lambda>_.
     touch_and_save e)"

definition update_node_status :: "env \<Rightarrow> string \<Rightarrow> node_status \<Rightarrow> unit run" where
  "update_node_status e i st =
     bnd (modify_session (\<lambda>ss. ss\<lparr>ss_node_states :=
            update_first (\<lambda>n. xn_id n = i) (\<lambda>n. n\<lparr>xn_status := st\<rparr>) (ss_node_states ss)\<rparr>)) (\<lambda>_.
     touch_and_save e)"

definition increment_node_retry :: "env \<Rightarrow> string \<Rightarrow> unit run" where
  "increment_node_retry e i =
     bnd (modify_session (\<lambda>ss. ss\<lparr>ss_node_states :=
            update_first (\<lambda>n. xn_id n = i) (\<lambda>n. n\<lparr>xn_retry_count := xn_retry_count n + 1\<rparr>)
              (ss_node_states ss)\<rparr>)) (\<lambda>_.
     touch_and_save e)"

definition truncate_nodes_after :: "env \<Rightarrow> string \<Rightarrow> string list run" where
  "truncate_nodes_after e i =
     bnd (gets rt_session) (\<lambda>ss.
     case position (\<lambda>n. xn_id n = i) (ss_node_states ss) of
       Some idx \<Rightarrow>
         bnd (modify_session (\<lambda>ss. ss\<lparr>ss_node_states := take (idx + 1) (ss_node_states ss),
                                      ss_current_node := Some i\<rparr>)) (\<lambda>_.
         bnd (touch_and_save e) (\<lambda>_.
         ret (map xn_id (drop (idx + 1) (ss_node_states ss)))))
     | None \<Rightarrow> bnd (touch_and_save e) (\<lambda>_. ret []))"

definition truncate_nodes_after_inclusive :: "env \<Rightarrow> string \<Rightarrow> string list run" where
  "truncate_nodes_after_inclusive e i =
     bnd (gets rt_session) (\<lambda>ss.
     case position (\<lambda>n. xn_id n = i) (ss_node_states ss) of
       Some idx \<Rightarrow>
         bnd (modify_session (\<lambda>ss. ss\<lparr>ss_node_states := take idx (ss_node_states ss),
                                      ss_current_node := None\<rparr>)) (\<lambda>_.
         bnd (touch_and_save e) (\<lambda>_.
         ret (map xn_id (drop idx (ss_node_states ss)))))
     | None \<Rightarrow> bnd (touch_and_save e) (\<lambda>_. ret []))"

section \<open>Rollback to a turn\<close>

record rollback_result =
  rr_git_reset :: bool
  rr_restored_files :: "string list"
  rr_deleted_untracked :: "string list"

definition reset_git_head_if_needed :: "env \<Rightarrow> turn_record \<Rightarrow> bool run" where
  "reset_git_head_if_needed e target =
     (case tr_git_head target of
        None \<Rightarrow> ret False
      | Some head \<Rightarrow>
          bnd (ask (env_git_head e)) (\<lambda>current.
          if current = Some head then ret False
          else
            bnd (ask (env_git_log e)) (\<lambda>log.
            bnd (case log head of
                   Some lines \<Rightarrow>
                     let subjects = filter (\<lambda>l. l \<noteq> []) lines in
                     if 1 < length subjects then throw (WouldDiscardCommits (length subjects)) else ret ()
                 | None \<Rightarrow> ret ()) (\<lambda>_.
            bnd (io e) (\<lambda>_.
            bnd (effect (GitReset head)) (\<lambda>_.
            ret True))))))"

text \<open>\<open>CheckpointStore::rewind\<close> reads the manifest of the snapshot: a pruned snapshot is an error.\<close>

definition checkpoint_rewind :: "env \<Rightarrow> string \<Rightarrow> unit run" where
  "checkpoint_rewind e c =
     bnd (io e) (\<lambda>_.
     bnd (gets rt_ckpts) (\<lambda>cs.
     if cs c = None then throw IoError else effect (CheckpointRewind c)))"

definition is_runtime_path :: "string \<Rightarrow> bool" where
  "is_runtime_path p \<longleftrightarrow> prefix ''.wgenty-code/'' p \<or> p = ''.wgenty-code''"

fun delete_files :: "env \<Rightarrow> string list \<Rightarrow> string list \<Rightarrow> string list run" where
  "delete_files e baseline [] = ret []"
| "delete_files e baseline (p # ps) =
     (if p \<in> set baseline \<or> is_runtime_path p then delete_files e baseline ps
      else
        bnd (ask (env_file_exists e)) (\<lambda>exists.
        if exists p
        then bnd (io e) (\<lambda>_.
             bnd (effect (DeleteUntracked [p])) (\<lambda>_.
             bnd (delete_files e baseline ps) (\<lambda>ds. ret (p # ds))))
        else delete_files e baseline ps))"

definition delete_new_untracked :: "env \<Rightarrow> string list \<Rightarrow> string list run" where
  "delete_new_untracked e baseline =
     bnd (record_git_state e) (\<lambda>(_, current). delete_files e baseline current)"

definition rollback_to :: "env \<Rightarrow> string \<Rightarrow> rollback_result run" where
  "rollback_to e turn_id =
     bnd (gets rt_session) (\<lambda>ss.
     bnd (require_some (find (\<lambda>t. tr_turn_id t = turn_id) (ss_turns ss)) (TurnNotFound turn_id)) (\<lambda>target.
     bnd (effect (HookRollback (ss_current_turn ss) turn_id)) (\<lambda>_.
     bnd (reset_git_head_if_needed e target) (\<lambda>reset.
     bnd (ask (env_manifest_files e)) (\<lambda>files.
     bnd (checkpoint_rewind e (tr_checkpoint_turn_id target)) (\<lambda>_.
     bnd (delete_new_untracked e (tr_untracked_files target)) (\<lambda>deleted.
     bnd (modify_session (\<lambda>ss. ss\<lparr>ss_current_turn := Some turn_id\<rparr>)) (\<lambda>_.
     bnd (touch_and_save e) (\<lambda>_.
     bnd (restore_work_state_for_turn e turn_id) (\<lambda>_.
     ret \<lparr>rr_git_reset = reset, rr_restored_files = files (tr_checkpoint_turn_id target),
          rr_deleted_untracked = deleted\<rparr>))))))))))"

section \<open>Relations on runtime states\<close>

text \<open>
  The interfaces of the relations that the runtime's operations obey. Every relation of interest
  ignores the questions asked of the world and the effects on it. Some also ignore the time stamp
  of the session and the writing of \<open>session.json\<close>; some ignore everything but the session; others
  ignore the session.
\<close>

locale world_relation = state_preorder R for R :: "rt \<Rightarrow> rt \<Rightarrow> bool" +
  assumes R_tick: "R s (s\<lparr>rt_tick := t\<rparr>)"
    and R_effect: "R s (s\<lparr>rt_effects := rt_effects s @ xs\<rparr>)"
begin

lemma obeys_ask: "obeys R (ask f)"
  by (auto simp: obeys_def ask_def R_tick)

lemma obeys_effect: "obeys R (effect x)"
  by (auto simp: obeys_def effect_def R_effect)

lemma obeys_io: "obeys R (io e)"
  unfolding io_def by (intro obeys_rules obeys_ask)

lemma obeys_lock: "obeys R lock"
  unfolding lock_def by (intro obeys_rules)

lemma obeys_read_work: "obeys R (read_work f)"
  unfolding read_work_def by (intro obeys_rules)

lemma obeys_record_git_state: "obeys R (record_git_state e)"
  unfolding record_git_state_def by (intro obeys_rules obeys_ask)

lemma obeys_reset_git_head: "obeys R (reset_git_head_if_needed e t)"
  unfolding reset_git_head_if_needed_def by (intro obeys_rules obeys_ask obeys_io obeys_effect)

lemma obeys_checkpoint_rewind: "obeys R (checkpoint_rewind e c)"
  unfolding checkpoint_rewind_def by (intro obeys_rules obeys_io obeys_effect)

lemma obeys_delete_files: "obeys R (delete_files e b ps)"
proof (induction ps)
  case Nil
  show ?case unfolding delete_files.simps by (rule obeys_pure)
next
  case (Cons p ps)
  show ?case
    unfolding delete_files.simps by (intro obeys_rules obeys_ask obeys_io obeys_effect Cons.IH)
qed

lemma obeys_delete_new_untracked: "obeys R (delete_new_untracked e b)"
  unfolding delete_new_untracked_def
  by (intro obeys_rules obeys_record_git_state obeys_delete_files)

lemmas world_rules = obeys_rules obeys_ask obeys_effect obeys_io obeys_lock obeys_read_work
  obeys_record_git_state obeys_reset_git_head obeys_checkpoint_rewind obeys_delete_new_untracked

end

locale rt_relation = world_relation R for R :: "rt \<Rightarrow> rt \<Rightarrow> bool" +
  assumes R_disk: "R s (s\<lparr>rt_disk_session := Some (rt_session s)\<rparr>)"
    and R_touch: "R s (s\<lparr>rt_session := (rt_session s)\<lparr>ss_updated_at := now\<rparr>\<rparr>)"
begin

lemma obeys_save_session: "obeys R (save_session e)"
  unfolding save_session_def by (intro obeys_rules obeys_io obeys_updI R_disk)

lemma obeys_touch_and_save: "obeys R (touch_and_save e)"
  unfolding touch_and_save_def modify_session_def
  by (intro obeys_rules obeys_ask obeys_updI R_touch obeys_save_session)

lemma obeys_end_turn: "obeys R (end_turn e)"
  unfolding end_turn_def by (intro obeys_rules obeys_touch_and_save)

lemmas rt_rules = world_rules obeys_save_session obeys_touch_and_save obeys_end_turn

end

locale log_blind = world_relation R for R :: "rt \<Rightarrow> rt \<Rightarrow> bool" +
  assumes R_log: "R s (s\<lparr>rt_log := l\<rparr>)"

locale gate_relation = rt_relation R + log_blind R for R :: "rt \<Rightarrow> rt \<Rightarrow> bool" +
  assumes R_status: "R s (s\<lparr>rt_session := (rt_session s)\<lparr>ss_status := st\<rparr>\<rparr>)"
begin

lemma obeys_set_status: "obeys R (set_status e st)"
  unfolding set_status_def modify_session_def by (intro rt_rules obeys_updI R_status)

end

locale store_blind = log_blind R for R :: "rt \<Rightarrow> rt \<Rightarrow> bool" +
  assumes R_work: "R s (s\<lparr>rt_work := w\<rparr>)"
    and R_ckpts: "R s (s\<lparr>rt_ckpts := c\<rparr>)"
    and R_poison: "R s (s\<lparr>rt_poisoned := True\<rparr>)"
begin

lemma obeys_modify_work: "obeys R (modify_work f)"
  by (auto simp: obeys_def modify_work_def R_work)

lemma obeys_on_work: "obeys R (on_work m)"
  by (auto simp: obeys_def on_work_def R_work split: prod.split sum.split)

lemma obeys_panic: "obeys R panic"
  unfolding panic_def by (intro obeys_rules obeys_updI R_poison)

lemma obeys_capture: "obeys R (capture_current_work_state e)"
  unfolding capture_current_work_state_def by (intro world_rules obeys_updI R_ckpts)

lemma obeys_restore: "obeys R (restore_work_state_for_turn e t)"
  unfolding restore_work_state_for_turn_def by (intro world_rules obeys_modify_work)

lemma obeys_checkpoint_begin_turn: "obeys R (checkpoint_begin_turn e c)"
  unfolding checkpoint_begin_turn_def by (intro world_rules obeys_updI R_ckpts)

lemmas store_rules = world_rules obeys_modify_work obeys_on_work obeys_panic obeys_capture
  obeys_restore obeys_checkpoint_begin_turn

end

locale session_relation = gate_relation R + store_blind R for R :: "rt \<Rightarrow> rt \<Rightarrow> bool"
begin

lemmas session_rules = store_rules obeys_save_session obeys_touch_and_save obeys_end_turn
  obeys_set_status

end

locale work_relation = gate_relation R for R :: "rt \<Rightarrow> rt \<Rightarrow> bool" +
  assumes R_session: "R s (s\<lparr>rt_session := x\<rparr>)"
    and R_capture: "R s (s\<lparr>rt_ckpts := (rt_ckpts s)(c \<mapsto> Some (rt_work s))\<rparr>)"
begin

lemma obeys_modify_session: "obeys R (modify_session f)"
  by (auto simp: obeys_def modify_session_def R_session)

lemma obeys_add_node: "obeys R (add_node e n)"
  unfolding add_node_def by (intro rt_rules obeys_modify_session)

lemma obeys_update_node_status: "obeys R (update_node_status e i st)"
  unfolding update_node_status_def by (intro rt_rules obeys_modify_session)

lemma obeys_increment_node_retry: "obeys R (increment_node_retry e i)"
  unfolding increment_node_retry_def by (intro rt_rules obeys_modify_session)

lemma obeys_capture_work: "obeys R (capture_current_work_state e)"
  unfolding capture_current_work_state_def by (intro rt_rules obeys_updI R_capture)

lemmas work_rules = rt_rules obeys_set_status obeys_modify_session obeys_add_node
  obeys_update_node_status obeys_increment_node_retry obeys_capture_work

end

section \<open>The session invariant\<close>

definition terminal_node :: "exec_node \<Rightarrow> bool" where
  "terminal_node n \<longleftrightarrow> xn_status n = Verified \<or> xn_status n = NodeFailed"

text \<open>
  Turns are numbered in order and their parents point backwards; the cursors point into the
  session; node ids are distinct and every node starts at a recorded turn; only the last node of
  the chain may be unfinished, and the node cursor, when set, is at that last node.
\<close>

definition turns_wf :: "turn_record list \<Rightarrow> bool" where
  "turns_wf ts \<longleftrightarrow>
     (\<forall>k<length ts. tr_turn_id (ts ! k) = turn_id_of k \<and>
        (\<forall>p. tr_parent (ts ! k) = Some p \<longrightarrow> (\<exists>j<k. p = turn_id_of j)))"

definition nodes_wf :: "turn_record list \<Rightarrow> exec_node list \<Rightarrow> string option \<Rightarrow> bool" where
  "nodes_wf ts ns cur \<longleftrightarrow>
     distinct (map xn_id ns) \<and> (\<forall>n\<in>set ns. xn_start_turn_id n \<in> tr_turn_id ` set ts) \<and>
     (\<forall>n\<in>set (butlast ns). terminal_node n) \<and>
     (case cur of
        None \<Rightarrow> \<forall>n\<in>set ns. terminal_node n
      | Some i \<Rightarrow> ns \<noteq> [] \<and> xn_id (last ns) = i)"

definition session_wf :: "session_state \<Rightarrow> bool" where
  "session_wf ss \<longleftrightarrow>
     turns_wf (ss_turns ss) \<and>
     (\<forall>i. ss_current_turn ss = Some i \<longrightarrow> i \<in> tr_turn_id ` set (ss_turns ss)) \<and>
     nodes_wf (ss_turns ss) (ss_node_states ss) (ss_current_node ss)"

definition rt_wf :: "rt \<Rightarrow> bool" where
  "rt_wf s \<longleftrightarrow> session_wf (rt_session s) \<and> (\<forall>d. rt_disk_session s = Some d \<longrightarrow> session_wf d)"

interpretation wf: session_relation "keeps rt_wf"
  by unfold_locales (auto simp: keeps_def rt_wf_def session_wf_def)

text \<open>The session record held fixed while the work products change.\<close>

definition at_session :: "session_state \<Rightarrow> rt \<Rightarrow> bool" where
  "at_session ss s \<longleftrightarrow> rt_wf s \<and> rt_session s = ss"

interpretation at_session: store_blind "keeps (at_session ss)" for ss
  by unfold_locales (auto simp: keeps_def rt_wf_def at_session_def)

lemma at_session_wf: "at_session ss s \<Longrightarrow> rt_wf s"
  by (simp add: at_session_def)

lemma obeys_modify_session_wf:
  "(\<And>ss. session_wf ss \<Longrightarrow> session_wf (f ss)) \<Longrightarrow> obeys (keeps rt_wf) (modify_session f)"
  by (auto simp: obeys_def keeps_def rt_wf_def modify_session_def)

lemma triple_modify_session:
  "session_wf (f ss) \<Longrightarrow> triple (at_session ss) (modify_session f) (\<lambda>_. at_session (f ss)) E"
  by (auto simp: triple_def at_session_def rt_wf_def modify_session_def)

text \<open>Operations that start from a fixed session and need only keep the invariant.\<close>

lemma obeys_from_session:
  assumes "\<And>ss. session_wf ss \<Longrightarrow> triple (at_session ss) m (\<lambda>_. rt_wf) rt_wf"
  shows "obeys (keeps rt_wf) m"
proof (intro obeys_triple tripleI)
  fix s x t assume "rt_wf s" "m s = (Inr x, t)"
  then show "rt_wf t" using assms [of "rt_session s"] tripleD [of "at_session (rt_session s)" m _ _ s]
    by (fastforce simp: at_session_def rt_wf_def)
next
  fix s e t assume "rt_wf s" "m s = (Inl e, t)"
  then show "rt_wf t" using assms [of "rt_session s"] triple_failD [of "at_session (rt_session s)" m _ _ s]
    by (fastforce simp: at_session_def rt_wf_def)
qed

lemma triple_keep_session:
  "obeys (keeps (at_session ss)) m \<Longrightarrow> triple (at_session ss) m (\<lambda>_. at_session ss) rt_wf"
  by (rule triple_obeys) (auto dest: at_session_wf)

lemma triple_only_wf: "obeys (keeps rt_wf) m \<Longrightarrow> triple (at_session ss) m (\<lambda>_. rt_wf) rt_wf"
  by (rule triple_kept) (auto dest: at_session_wf)

lemma triple_bnd_session:
  "triple (at_session ss) (k ss) Q E \<Longrightarrow> triple (at_session ss) (bnd (gets rt_session) k) Q E"
  by (auto simp: triple_def at_session_def)

section \<open>Every coordinator operation keeps the invariant\<close>

lemma find_in_set: "find p xs = Some x \<Longrightarrow> x \<in> set xs \<and> p x"
  by (auto simp: find_Some_iff)

lemma session_wf_new: "session_wf (new_session i src now)"
  by (simp add: session_wf_def new_session_def turns_wf_def nodes_wf_def)

lemma turns_wf_ids:
  assumes "turns_wf ts"
  shows "tr_turn_id ` set ts = turn_id_of ` {..<length ts}"
proof
  show "tr_turn_id ` set ts \<subseteq> turn_id_of ` {..<length ts}"
    using assms by (auto simp: turns_wf_def in_set_conv_nth)
  show "turn_id_of ` {..<length ts} \<subseteq> tr_turn_id ` set ts"
  proof
    fix x assume "x \<in> turn_id_of ` {..<length ts}"
    then obtain k where k: "k < length ts" "x = turn_id_of k" by auto
    then have "tr_turn_id (ts ! k) = x" using assms by (simp add: turns_wf_def)
    then show "x \<in> tr_turn_id ` set ts" using k by (metis image_eqI nth_mem)
  qed
qed

lemma turn_id_of_inject [simp]: "turn_id_of i = turn_id_of j \<longleftrightarrow> i = j"
  by (auto simp: turn_id_of_def show_nat_inject)

lemma turns_wf_find:
  assumes "turns_wf ts" and "k < length ts"
  shows "find (\<lambda>t. tr_turn_id t = turn_id_of k) ts = Some (ts ! k)"
  using assms by (auto simp: find_Some_iff turns_wf_def intro!: exI [of _ k])

lemma session_wf_begin_turn:
  assumes "session_wf ss" and "tr_turn_id t = turn_id_of (length (ss_turns ss))"
    and "tr_parent t = ss_current_turn ss"
  shows "session_wf (ss\<lparr>ss_turns := ss_turns ss @ [t], ss_current_turn := Some (tr_turn_id t),
                        ss_updated_at := now\<rparr>)"
proof -
  have wf: "turns_wf (ss_turns ss)" using assms(1) by (simp add: session_wf_def)
  have "\<exists>j<length (ss_turns ss). p = turn_id_of j" if "ss_current_turn ss = Some p" for p
    using assms(1) that turns_wf_ids [OF wf] by (auto simp: session_wf_def)
  then have "turns_wf (ss_turns ss @ [t])"
    using wf assms by (auto simp: turns_wf_def nth_append less_Suc_eq)
  then show ?thesis
    using assms(1) by (auto simp: session_wf_def nodes_wf_def split: option.splits)
qed

lemma begin_turn_wf: "obeys (keeps rt_wf) (begin_turn e)"
proof (rule obeys_from_session)
  fix ss assume "session_wf ss"
  then show "triple (at_session ss) (begin_turn e) (\<lambda>_. rt_wf) rt_wf"
    unfolding begin_turn_def Let_def
    by (intro triple_bnd_gets_any triple_bnd_session triple_case_prod
          triple_bnd [OF triple_keep_session [OF at_session.obeys_ask]]
          triple_bnd [OF triple_keep_session [OF at_session.obeys_checkpoint_begin_turn]]
          triple_bnd [OF triple_keep_session [OF at_session.obeys_record_git_state]]
          triple_bnd [OF triple_modify_session] triple_only_wf wf.session_rules)
      (use session_wf_begin_turn in fastforce)
qed

lemma in_set_update_first:
  "x \<in> set (update_first p f xs) \<Longrightarrow> x \<in> set xs \<or> (\<exists>y\<in>set xs. p y \<and> x = f y)"
  by (induction xs) (auto split: if_splits)

lemma update_first_Nil [simp]: "update_first p f xs = [] \<longleftrightarrow> xs = []"
  by (cases xs) auto

lemma last_update_first:
  "xs \<noteq> [] \<Longrightarrow> (\<And>x. g (f x) = g x) \<Longrightarrow> g (last (update_first p f xs)) = g (last xs)"
  by (induction xs) auto

lemma update_first_last:
  assumes "xs \<noteq> []" and "\<And>x. x \<in> set (butlast xs) \<Longrightarrow> \<not> p x" and "p (last xs)"
  shows "update_first p f xs = butlast xs @ [f (last xs)]"
  using assms by (induction xs) auto

lemma butlast_update_first:
  "x \<in> set (butlast (update_first p f xs)) \<Longrightarrow>
   x \<in> set (butlast xs) \<or> (\<exists>y\<in>set (butlast xs). p y \<and> x = f y)"
  by (induction xs) (auto split: if_splits)

text \<open>An update of one node that keeps its identity and does not reopen a finished node.\<close>

lemma nodes_wf_update:
  assumes wf: "nodes_wf ts ns cur"
    and same: "\<And>n. xn_id (f n) = xn_id n" "\<And>n. xn_start_turn_id (f n) = xn_start_turn_id n"
    and fin: "\<And>n. terminal_node n \<Longrightarrow> terminal_node (f n)"
  shows "nodes_wf ts (update_first p f ns) cur"
proof -
  have ids: "map xn_id (update_first p f ns) = map xn_id ns" by (rule map_update_first) (rule same)
  have "\<forall>n\<in>set (update_first p f ns). xn_start_turn_id n \<in> tr_turn_id ` set ts"
    using wf same by (auto simp: nodes_wf_def dest!: in_set_update_first)
  moreover have "\<forall>n\<in>set (butlast (update_first p f ns)). terminal_node n"
    using wf fin by (auto simp: nodes_wf_def dest!: butlast_update_first)
  moreover have "cur = None \<Longrightarrow> \<forall>n\<in>set (update_first p f ns). terminal_node n"
    using wf fin by (auto simp: nodes_wf_def dest!: in_set_update_first)
  ultimately show ?thesis
    using wf ids same by (auto simp: nodes_wf_def last_update_first split: option.splits)
qed

lemma session_wf_nodes:
  "session_wf ss \<Longrightarrow> (nodes_wf (ss_turns ss) (ss_node_states ss) (ss_current_node ss) \<Longrightarrow>
     nodes_wf (ss_turns ss) ns cur) \<Longrightarrow>
   session_wf (ss\<lparr>ss_node_states := ns, ss_current_node := cur\<rparr>)"
  by (simp add: session_wf_def)

lemma session_wf_node_list:
  "session_wf ss \<Longrightarrow> nodes_wf (ss_turns ss) ns (ss_current_node ss) \<Longrightarrow>
   session_wf (ss\<lparr>ss_node_states := ns\<rparr>)"
  by (simp add: session_wf_def)

lemma update_terminal_wf:
  "st = Verified \<or> st = NodeFailed \<Longrightarrow> obeys (keeps rt_wf) (update_node_status e i st)"
  unfolding update_node_status_def
  by (intro wf.session_rules obeys_modify_session_wf session_wf_node_list nodes_wf_update)
    (auto simp: terminal_node_def session_wf_def)

lemma increment_node_retry_wf: "obeys (keeps rt_wf) (increment_node_retry e i)"
  unfolding increment_node_retry_def
  by (intro wf.session_rules obeys_modify_session_wf session_wf_node_list nodes_wf_update)
    (auto simp: terminal_node_def session_wf_def)

lemma nodes_wf_butlast: "nodes_wf ts ns cur \<Longrightarrow> n \<in> set (butlast ns) \<Longrightarrow> terminal_node n"
  by (simp add: nodes_wf_def)

lemma in_take_butlast: "x \<in> set (take i xs) \<Longrightarrow> i < length xs \<Longrightarrow> x \<in> set (butlast xs)"
  using set_take_subset_set_take [of i "length xs - 1" xs] by (fastforce simp: butlast_conv_take)

lemma nodes_wf_take:
  assumes "nodes_wf ts ns cur" and "i < length ns"
  shows "nodes_wf ts (take (Suc i) ns) (Some (xn_id (ns ! i)))" "nodes_wf ts (take i ns) None"
proof -
  have fin: "\<forall>n\<in>set (take i ns). terminal_node n"
    using assms by (auto dest: in_take_butlast nodes_wf_butlast)
  have distinct: "distinct (map xn_id (take k ns))" for k
    using assms(1) by (metis distinct_take nodes_wf_def take_map)
  have start: "\<forall>n\<in>set (take k ns). xn_start_turn_id n \<in> tr_turn_id ` set ts" for k
    using assms(1) by (auto simp: nodes_wf_def dest: in_set_takeD)
  have last: "take (Suc i) ns = take i ns @ [ns ! i]" using assms(2) by (rule take_Suc_conv_app_nth)
  show "nodes_wf ts (take (Suc i) ns) (Some (xn_id (ns ! i)))"
    using fin distinct [of "Suc i"] start [of "Suc i"] by (simp add: nodes_wf_def last)
  show "nodes_wf ts (take i ns) None"
    using fin distinct [of i] start [of i]
    by (auto simp: nodes_wf_def dest: in_set_butlastD)
qed

lemma triple_modify_then:
  assumes "session_wf (f ss)" and "obeys (keeps rt_wf) (k ())"
  shows "triple (at_session ss) (bnd (modify_session f) k) (\<lambda>_. rt_wf) rt_wf"
  by (rule triple_bnd [OF triple_modify_session [of f, OF assms(1)]]) (simp add: triple_only_wf assms(2))

lemma truncate_nodes_after_wf: "obeys (keeps rt_wf) (truncate_nodes_after e i)"
proof (rule obeys_from_session)
  fix ss assume wf: "session_wf ss"
  have "session_wf (ss\<lparr>ss_node_states := take (idx + 1) (ss_node_states ss),
                       ss_current_node := Some i\<rparr>)"
    if "position (\<lambda>n. xn_id n = i) (ss_node_states ss) = Some idx" for idx
    using nodes_wf_take(1) [of "ss_turns ss" "ss_node_states ss" "ss_current_node ss" idx] wf
      position_Some [OF that] by (simp add: session_wf_def)
  then show "triple (at_session ss) (truncate_nodes_after e i) (\<lambda>_. rt_wf) rt_wf"
    unfolding truncate_nodes_after_def
    by (intro triple_bnd_session triple_case_option triple_modify_then triple_only_wf wf.session_rules)
qed

lemma truncate_nodes_after_inclusive_wf: "obeys (keeps rt_wf) (truncate_nodes_after_inclusive e i)"
proof (rule obeys_from_session)
  fix ss assume wf: "session_wf ss"
  have "session_wf (ss\<lparr>ss_node_states := take idx (ss_node_states ss), ss_current_node := None\<rparr>)"
    if "position (\<lambda>n. xn_id n = i) (ss_node_states ss) = Some idx" for idx
    using nodes_wf_take(2) [of "ss_turns ss" "ss_node_states ss" "ss_current_node ss" idx] wf
      position_Some [OF that] by (simp add: session_wf_def)
  then show "triple (at_session ss) (truncate_nodes_after_inclusive e i) (\<lambda>_. rt_wf) rt_wf"
    unfolding truncate_nodes_after_inclusive_def
    by (intro triple_bnd_session triple_case_option triple_modify_then triple_only_wf wf.session_rules)
qed

lemma session_wf_move:
  "session_wf ss \<Longrightarrow> t \<in> set (ss_turns ss) \<Longrightarrow> session_wf (ss\<lparr>ss_current_turn := Some (tr_turn_id t)\<rparr>)"
  by (simp add: session_wf_def)

lemma rollback_to_wf: "obeys (keeps rt_wf) (rollback_to e turn_id)"
proof (rule obeys_from_session)
  fix ss assume wf: "session_wf ss"
  have "session_wf (ss\<lparr>ss_current_turn := Some turn_id\<rparr>)"
    if "find (\<lambda>t. tr_turn_id t = turn_id) (ss_turns ss) = Some t" for t
    using session_wf_move [OF wf] find_in_set [OF that] by fastforce
  then show "triple (at_session ss) (rollback_to e turn_id) (\<lambda>_. rt_wf) rt_wf"
    unfolding rollback_to_def
    by (intro triple_bnd_session triple_require_some
          triple_bnd [OF triple_keep_session [OF at_session.obeys_effect]]
          triple_bnd [OF triple_keep_session [OF at_session.obeys_reset_git_head]]
          triple_bnd [OF triple_keep_session [OF at_session.obeys_ask]]
          triple_bnd [OF triple_keep_session [OF at_session.obeys_checkpoint_rewind]]
          triple_bnd [OF triple_keep_session [OF at_session.obeys_delete_new_untracked]]
          triple_modify_then wf.session_rules)
      (auto dest: at_session_wf)
qed

lemma coordinator_new_wf: "obeys (keeps rt_wf) (coordinator_new e i src)"
  unfolding coordinator_new_def
  by (intro wf.session_rules obeys_modify_session_wf session_wf_new)

lemma open_or_create_wf: "obeys (keeps rt_wf) (open_or_create e i src)"
proof -
  have "triple (\<lambda>s. rt_wf s \<and> rt_disk_session s = d)
     (case d of
       None \<Rightarrow> coordinator_new e i src
     | Some ss \<Rightarrow>
         bnd (io e) (\<lambda>_.
         if ss_session_id ss \<noteq> i then throw (SessionMismatch (ss_session_id ss))
         else
           bnd (modify_session (\<lambda>_. ss)) (\<lambda>_.
           bnd (modify_work (\<lambda>_. default_work_state)) (\<lambda>_.
           case ss_current_turn ss of
             None \<Rightarrow> ret ()
           | Some turn_id \<Rightarrow> restore_work_state_for_turn e turn_id))))
     (\<lambda>_. rt_wf) rt_wf" for d
    by (rule triple_assume [of _ "\<forall>ss. d = Some ss \<longrightarrow> session_wf ss"])
      (auto simp: rt_wf_def [of "_ :: rt"] intro!: triple_kept coordinator_new_wf wf.session_rules
        obeys_modify_session_wf split: option.split)
  then show ?thesis
    unfolding open_or_create_def by (intro obeys_triple triple_bnd_gets)
qed

lemma set_verifying_wf:
  assumes "session_wf ss" and "ss_current_node ss = Some i"
  shows "triple (at_session ss) (update_node_status e i st) (\<lambda>_. rt_wf) rt_wf"
proof -
  let ?ns = "ss_node_states ss" and ?f = "\<lambda>n. n\<lparr>xn_status := st\<rparr>"
  have wf: "nodes_wf (ss_turns ss) ?ns (Some i)" using assms by (simp add: session_wf_def)
  then have ne: "?ns \<noteq> []" and last: "xn_id (last ?ns) = i" by (auto simp: nodes_wf_def)
  have "distinct (map xn_id (butlast ?ns @ [last ?ns]))" using wf ne by (simp add: nodes_wf_def)
  then have "\<And>n. n \<in> set (butlast ?ns) \<Longrightarrow> xn_id n \<noteq> i"
    using last by (simp, metis image_eqI)
  then have upd: "update_first (\<lambda>n. xn_id n = i) ?f ?ns = butlast ?ns @ [?f (last ?ns)]"
    using ne last by (intro update_first_last) auto
  have "nodes_wf (ss_turns ss) (butlast ?ns @ [?f (last ?ns)]) (Some i)"
    using wf ne by (cases ?ns rule: rev_cases) (auto simp: nodes_wf_def)
  then have "session_wf (ss\<lparr>ss_node_states := update_first (\<lambda>n. xn_id n = i) ?f ?ns\<rparr>)"
    using assms by (simp add: session_wf_def upd)
  then show ?thesis
    unfolding update_node_status_def by (intro triple_modify_then wf.session_rules)
qed

lemma add_node_wf:
  assumes "session_wf ss" and "xn_id n \<notin> xn_id ` set (ss_node_states ss)"
    and "xn_start_turn_id n \<in> tr_turn_id ` set (ss_turns ss)"
    and "\<forall>m\<in>set (ss_node_states ss). terminal_node m"
  shows "triple (at_session ss) (add_node e n) (\<lambda>_. rt_wf) rt_wf"
  unfolding add_node_def
  by (intro triple_modify_then wf.session_rules) (use assms in \<open>auto simp: session_wf_def nodes_wf_def\<close>)

section \<open>What a rollback does\<close>

text \<open>
  A step that only talks to the world leaves a state that differs in the clock and in the
  effects it appended.
\<close>

definition acted :: "rt \<Rightarrow> external_effect list \<Rightarrow> rt \<Rightarrow> bool" where
  "acted s xs t \<longleftrightarrow> t = s\<lparr>rt_tick := rt_tick t, rt_effects := rt_effects s @ xs\<rparr>"

lemma acted_refl [simp]: "acted s [] s"
  by (simp add: acted_def)

lemma acted_trans: "acted s xs t \<Longrightarrow> acted t ys u \<Longrightarrow> acted s (xs @ ys) u"
  by (cases s; cases t; cases u) (auto simp: acted_def)

lemma acted_fields:
  assumes "acted s xs t"
  shows "rt_session t = rt_session s" "rt_work t = rt_work s" "rt_ckpts t = rt_ckpts s"
    "rt_disk_session t = rt_disk_session s" "rt_log t = rt_log s" "rt_effects t = rt_effects s @ xs"
    "rt_poisoned t = rt_poisoned s"
  using assms by (cases s; cases t; auto simp: acted_def)+

lemma ask_run: "ask f s = (Inr x, t) \<Longrightarrow> x = f (rt_tick s) \<and> acted s [] t"
  by (auto simp: ask_def acted_def)

lemma io_run: "io e s = (Inr x, t) \<Longrightarrow> acted s [] t"
  by (auto simp: io_def bnd_Inr_iff dest!: ask_run split: if_splits)

lemma effect_run: "effect y s = (Inr x, t) \<Longrightarrow> acted s [y] t"
  by (auto simp: effect_def acted_def)

lemma record_git_state_run: "record_git_state e s = (Inr x, t) \<Longrightarrow> acted s [] t"
  by (auto simp: record_git_state_def bnd_Inr_iff dest!: ask_run dest: acted_trans)

lemma checkpoint_rewind_run:
  "checkpoint_rewind e c s = (Inr x, t) \<Longrightarrow> acted s [CheckpointRewind c] t \<and> rt_ckpts s c \<noteq> None"
  by (auto simp: checkpoint_rewind_def bnd_Inr_iff acted_fields(3)
      dest!: io_run effect_run dest: acted_trans split: if_splits)

lemma reset_git_head_run:
  assumes "reset_git_head_if_needed e g s = (Inr b, t)"
  shows "acted s (if b then [GitReset (the (tr_git_head g))] else []) t \<and> (b \<longrightarrow> tr_git_head g \<noteq> None)"
proof (cases "tr_git_head g")
  case None
  then show ?thesis using assms by (simp add: reset_git_head_if_needed_def)
next
  case (Some head)
  have eff: "effect y u = (Inr (), v) \<longleftrightarrow> v = u\<lparr>rt_effects := rt_effects u @ [y]\<rparr>" for y u v
    by (auto simp: effect_def)
  show ?thesis
    using assms Some
    by (auto simp: reset_git_head_if_needed_def bnd_Inr_iff io_def ask_def acted_def eff Let_def
        split: if_splits option.splits)
qed

lemma delete_files_run:
  "delete_files e b ps s = (Inr ds, t) \<Longrightarrow>
   acted s (map (\<lambda>p. DeleteUntracked [p]) ds) t \<and> set ds \<subseteq> set ps \<and>
   (\<forall>p\<in>set ds. p \<notin> set b \<and> \<not> is_runtime_path p)"
proof (induction ps arbitrary: s ds t)
  case Nil
  then show ?case by simp
next
  case (Cons p ps)
  show ?case
  proof (cases "p \<in> set b \<or> is_runtime_path p")
    case True
    then show ?thesis using Cons by fastforce
  next
    case False
    obtain ex u where ask: "ask (env_file_exists e) s = (Inr ex, u)"
      and rest: "(if ex p
        then bnd (io e) (\<lambda>_. bnd (effect (DeleteUntracked [p])) (\<lambda>_.
             bnd (delete_files e b ps) (\<lambda>ds. ret (p # ds))))
        else delete_files e b ps) u = (Inr ds, t)"
      using False Cons.prems by (auto simp: bnd_Inr_iff)
    have su: "acted s [] u" using ask_run [OF ask] by simp
    show ?thesis
    proof (cases "ex p")
      case True
      then obtain u1 u2 ds' where run: "io e u = (Inr (), u1)"
        "effect (DeleteUntracked [p]) u1 = (Inr (), u2)" "delete_files e b ps u2 = (Inr ds', t)"
        "ds = p # ds'"
        using rest by (auto simp: bnd_Inr_iff)
      have "acted s [DeleteUntracked [p]] u2"
        using acted_trans [OF acted_trans [OF su io_run [OF run(1)]] effect_run [OF run(2)]] by simp
      then show ?thesis using Cons.IH [OF run(3)] run(4) False acted_trans by fastforce
    next
      case no: False
      then show ?thesis using Cons.IH [of u ds t] rest acted_trans [OF su] by fastforce
    qed
  qed
qed

lemma delete_new_untracked_run:
  assumes "delete_new_untracked e b s = (Inr ds, t)"
  shows "acted s (map (\<lambda>p. DeleteUntracked [p]) ds) t \<and> (\<forall>p\<in>set ds. p \<notin> set b \<and> \<not> is_runtime_path p)"
proof -
  obtain g u where g: "record_git_state e s = (Inr g, u)" "delete_files e b (snd g) u = (Inr ds, t)"
    using assms by (auto simp: delete_new_untracked_def bnd_Inr_iff)
  show ?thesis
    using record_git_state_run [OF g(1)] delete_files_run [OF g(2)] by (metis acted_trans append_Nil)
qed

lemma touch_and_save_run:
  "touch_and_save e s = (Inr x, t) \<Longrightarrow>
   \<exists>now. rt_session t = (rt_session s)\<lparr>ss_updated_at := now\<rparr> \<and> rt_disk_session t = Some (rt_session t) \<and>
     rt_work t = rt_work s \<and> rt_ckpts t = rt_ckpts s \<and> rt_log t = rt_log s \<and>
     rt_effects t = rt_effects s \<and> rt_poisoned t = rt_poisoned s"
  by (auto simp: touch_and_save_def save_session_def modify_session_def bnd_Inr_iff io_def ask_def
      split: if_splits)

lemma restore_work_state_run:
  assumes "restore_work_state_for_turn e i s = (Inr x, t)"
    and "find (\<lambda>t. tr_turn_id t = i) (ss_turns (rt_session s)) = Some g"
  shows "t = s\<lparr>rt_tick := rt_tick t,
               rt_work := (case rt_ckpts s (tr_checkpoint_turn_id g) of
                             Some (Some ws) \<Rightarrow> ws | _ \<Rightarrow> default_work_state)\<rparr>"
  using assms
  by (auto simp: restore_work_state_for_turn_def bnd_Inr_iff modify_work_def io_def ask_def
      split: if_splits option.splits)

definition restored_work :: "rt \<Rightarrow> turn_record \<Rightarrow> work_state" where
  "restored_work s g = (case rt_ckpts s (tr_checkpoint_turn_id g) of
     Some (Some ws) \<Rightarrow> ws | _ \<Rightarrow> default_work_state)"

lemma rollback_to_run:
  assumes "rollback_to e i s = (Inr r, t)"
  shows "\<exists>g now. g \<in> set (ss_turns (rt_session s)) \<and> tr_turn_id g = i \<and>
    rt_effects t = rt_effects s @ [HookRollback (ss_current_turn (rt_session s)) i] @
      (if rr_git_reset r then [GitReset (the (tr_git_head g))] else []) @
      [CheckpointRewind (tr_checkpoint_turn_id g)] @
      map (\<lambda>p. DeleteUntracked [p]) (rr_deleted_untracked r) \<and>
    (rr_git_reset r \<longrightarrow> tr_git_head g \<noteq> None) \<and>
    (\<forall>p\<in>set (rr_deleted_untracked r). p \<notin> set (tr_untracked_files g) \<and> \<not> is_runtime_path p) \<and>
    rt_ckpts s (tr_checkpoint_turn_id g) \<noteq> None \<and> rt_work t = restored_work s g \<and>
    rt_session t = (rt_session s)\<lparr>ss_current_turn := Some i, ss_updated_at := now\<rparr> \<and>
    rt_disk_session t = Some (rt_session t) \<and> rt_ckpts t = rt_ckpts s \<and> rt_log t = rt_log s"
proof -
  let ?turns = "ss_turns (rt_session s)"
  obtain g where g: "find (\<lambda>t. tr_turn_id t = i) ?turns = Some g"
    using assms by (cases "find (\<lambda>t. tr_turn_id t = i) ?turns") (auto simp: rollback_to_def)
  obtain s1 reset s2 fs s3 s4 del s5 s6 s7 where run:
    "effect (HookRollback (ss_current_turn (rt_session s)) i) s = (Inr (), s1)"
    "reset_git_head_if_needed e g s1 = (Inr reset, s2)"
    "ask (env_manifest_files e) s2 = (Inr fs, s3)"
    "checkpoint_rewind e (tr_checkpoint_turn_id g) s3 = (Inr (), s4)"
    "delete_new_untracked e (tr_untracked_files g) s4 = (Inr del, s5)"
    "touch_and_save e (s5\<lparr>rt_session := (rt_session s5)\<lparr>ss_current_turn := Some i\<rparr>\<rparr>) = (Inr (), s6)"
    "restore_work_state_for_turn e i s6 = (Inr (), t)"
    "r = \<lparr>rr_git_reset = reset, rr_restored_files = fs (tr_checkpoint_turn_id g), rr_deleted_untracked = del\<rparr>"
    using assms g by (auto simp: rollback_to_def modify_session_def bnd_Inr_iff)
  note acts = effect_run [OF run(1)] reset_git_head_run [OF run(2)] ask_run [OF run(3)]
    checkpoint_rewind_run [OF run(4)] delete_new_untracked_run [OF run(5)]
  note same = acted_fields [OF acts(1)] acted_fields [OF conjunct1 [OF acts(2)]]
    acted_fields [OF conjunct2 [OF acts(3)]] acted_fields [OF conjunct1 [OF acts(4)]]
    acted_fields [OF conjunct1 [OF acts(5)]]
  obtain now where touch: "rt_session s6 = (rt_session s)\<lparr>ss_current_turn := Some i, ss_updated_at := now\<rparr>"
    "rt_disk_session s6 = Some (rt_session s6)" "rt_ckpts s6 = rt_ckpts s" "rt_log s6 = rt_log s"
    "rt_effects s6 = rt_effects s5"
    using touch_and_save_run [OF run(6)] same by auto
  have t: "t = s6\<lparr>rt_tick := rt_tick t, rt_work := restored_work s g\<rparr>"
    using restore_work_state_run [OF run(7)] g touch by (simp add: restored_work_def)
  then have fields: "rt_session t = rt_session s6" "rt_disk_session t = rt_disk_session s6"
    "rt_ckpts t = rt_ckpts s6" "rt_log t = rt_log s6" "rt_effects t = rt_effects s6"
    "rt_work t = restored_work s g"
    by (metis rt.ext_inject rt.surjective rt.update_convs)+
  show ?thesis
    using find_in_set [OF g] acts same touch fields run(8)
    by (intro exI [of _ g] exI [of _ now]) auto
qed

text \<open>
  C9: a successful rollback to a recorded turn runs, in this order, the hook, at most one
  \<open>git reset\<close> (to the commit recorded for the turn), the rewind of the turn's checkpoint and the
  deletion of untracked files; none of the deleted files was untracked at the start of the turn
  and none is under \<open>.wgenty-code\<close>. The turn becomes current, in memory and on disk; the work
  state is the one last captured for the turn (the default for a turn without one); turns,
  nodes, checkpoints and the verification log stay as they are.
\<close>

theorem rollback_to_correct:
  assumes "rollback_to e i s = (Inr r, t)"
  shows "\<exists>g now. g \<in> set (ss_turns (rt_session s)) \<and> tr_turn_id g = i \<and>
    rt_effects t = rt_effects s @ [HookRollback (ss_current_turn (rt_session s)) i] @
      (if rr_git_reset r then [GitReset (the (tr_git_head g))] else []) @
      [CheckpointRewind (tr_checkpoint_turn_id g)] @
      map (\<lambda>p. DeleteUntracked [p]) (rr_deleted_untracked r) \<and>
    (rr_git_reset r \<longrightarrow> tr_git_head g \<noteq> None) \<and>
    (\<forall>p\<in>set (rr_deleted_untracked r). p \<notin> set (tr_untracked_files g) \<and> \<not> is_runtime_path p) \<and>
    rt_ckpts s (tr_checkpoint_turn_id g) \<noteq> None \<and> rt_work t = restored_work s g \<and>
    rt_session t = (rt_session s)\<lparr>ss_current_turn := Some i, ss_updated_at := now\<rparr> \<and>
    rt_disk_session t = Some (rt_session t) \<and> rt_ckpts t = rt_ckpts s \<and> rt_log t = rt_log s"
  by (rule rollback_to_run [OF assms])

section \<open>A concrete world\<close>

text \<open>
  A world in which every write succeeds, every command exits with 0, git knows one commit and
  nothing is untracked; and a session with one open turn in it. Later theories evaluate their
  examples in this world or in variants of it.
\<close>

definition calm_env :: env where
  "calm_env = \<lparr>env_now = (\<lambda>_. ''now''), env_uuid = (\<lambda>t. ''ckpt-'' @ show_nat t), env_io_ok = (\<lambda>_. True),
     env_git_head = (\<lambda>_. Some ''c0''), env_git_log = (\<lambda>_ _. Some []), env_git_diff = (\<lambda>_ _. Some []),
     env_git_untracked = (\<lambda>_. Some []), env_manifest_files = (\<lambda>_ _. []),
     env_file_exists = (\<lambda>_ _. True), env_pruned = (\<lambda>_ _. False),
     env_execute = (\<lambda>_ c. Some \<lparr>run_cmd = c, run_exit_code = Some 0, run_stdout = [], run_stderr = []\<rparr>),
     env_cargo_toml = (\<lambda>_. True), env_verify_fail = default_verify_fail, env_auto_retry_max = 3\<rparr>"

definition blank_rt :: rt where
  "blank_rt = \<lparr>rt_session = new_session ''s'' UserDirect ''now'', rt_work = default_work_state,
     rt_disk_session = None, rt_ckpts = (\<lambda>_. None), rt_log = None, rt_effects = [], rt_tick = 0,
     rt_poisoned = False\<rparr>"

definition open_turn_rt :: rt where
  "open_turn_rt = snd (begin_turn calm_env blank_rt)"

lemma rt_wf_blank: "rt_wf blank_rt"
  by (simp add: rt_wf_def blank_rt_def session_wf_new)

theorem rollback_to_correct_witness:
  "\<exists>r t g. rollback_to calm_env ''turn-0'' open_turn_rt = (Inr r, t) \<and>
     g \<in> set (ss_turns (rt_session open_turn_rt)) \<and> tr_turn_id g = ''turn-0'' \<and>
     rt_work t = restored_work open_turn_rt g"
proof -
  have "is_ok (fst (rollback_to calm_env ''turn-0'' open_turn_rt))" by code_simp
  then obtain r t where run: "rollback_to calm_env ''turn-0'' open_turn_rt = (Inr r, t)"
    by (cases "rollback_to calm_env ''turn-0'' open_turn_rt") (auto simp: is_ok_def split: sum.splits)
  then show ?thesis using rollback_to_correct [OF run] by blast
qed

end
