(* ===== verification/Rust_Paths.thy ===== *)
theory Rust_Paths
  imports Rust_Strings "HOL-Library.Char_ord" "HOL-Library.List_Lexorder"
begin

text \<open>
  Paths as \<open>std::path\<close> sees them on Unix: a path is compared, hashed and ordered by its
  components, so \<open>a//b\<close>, \<open>a/./b\<close> and \<open>a/b/\<close> are the same path, while \<open>./a\<close> and \<open>a\<close> differ. A
  \<open>HashSet<PathBuf>\<close> is a list without two equal paths.
\<close>

datatype path_component = RootDir | CurDir | ParentDir | Normal string

fun component_rank :: "path_component \<Rightarrow> nat" where
  "component_rank RootDir = 0"
| "component_rank CurDir = 1"
| "component_rank ParentDir = 2"
| "component_rank (Normal _) = 3"

fun component_name :: "path_component \<Rightarrow> string" where
  "component_name (Normal s) = s"
| "component_name _ = []"

text \<open>The derived order of \<open>std::path::Component\<close>.\<close>

instantiation path_component :: linorder
begin

definition less_eq_path_component :: "path_component \<Rightarrow> path_component \<Rightarrow> bool" where
  "less_eq_path_component a b \<longleftrightarrow>
     component_rank a < component_rank b \<or>
     component_rank a = component_rank b \<and> component_name a \<le> component_name b"

definition less_path_component :: "path_component \<Rightarrow> path_component \<Rightarrow> bool" where
  "less_path_component a b \<longleftrightarrow> a \<le> b \<and> \<not> b \<le> (a :: path_component)"

instance
proof
  fix a b c :: path_component
  show "a < b \<longleftrightarrow> a \<le> b \<and> \<not> b \<le> a" by (rule less_path_component_def)
  show "a \<le> a" by (simp add: less_eq_path_component_def)
  show "a \<le> c" if "a \<le> b" "b \<le> c"
    using that by (auto simp: less_eq_path_component_def)
  show "a = b" if "a \<le> b" "b \<le> a"
    using that by (cases a; cases b) (auto simp: less_eq_path_component_def)
  show "a \<le> b \<or> b \<le> a"
    by (auto simp: less_eq_path_component_def)
qed

end

text \<open>\<open>str::split\<close> at a single byte.\<close>

fun split_char :: "char \<Rightarrow> string \<Rightarrow> string list" where
  "split_char d [] = [[]]"
| "split_char d (c # cs) =
     (if c = d then [] # split_char d cs
      else (case split_char d cs of [] \<Rightarrow> [[c]] | w # ws \<Rightarrow> (c # w) # ws))"

lemma split_char_nonempty [simp]: "split_char d s \<noteq> []"
  by (induction s) (auto split: list.split)

lemma split_char_join: "join_with [d] (split_char d s) = s"
proof (induction s)
  case (Cons c cs)
  then show ?case by (cases "split_char d cs"; cases "tl (split_char d cs)") auto
qed simp

definition component_of :: "string \<Rightarrow> path_component" where
  "component_of s = (if s = ''..'' then ParentDir else Normal s)"

definition path_components :: "string \<Rightarrow> path_component list" where
  "path_components p =
     (let segs = split_char (CHR ''/'') p;
          body = map component_of (filter (\<lambda>s. s \<noteq> [] \<and> s \<noteq> ''.'') segs)
      in if prefix ''/'' p then RootDir # body
         else if hd segs = ''.'' then CurDir # body
         else body)"

definition same_path :: "string \<Rightarrow> string \<Rightarrow> bool" where
  "same_path p q \<longleftrightarrow> path_components p = path_components q"

definition path_mem :: "string \<Rightarrow> string list \<Rightarrow> bool" where
  "path_mem p ps \<longleftrightarrow> list_ex (same_path p) ps"

definition insert_path :: "string list \<Rightarrow> string \<Rightarrow> string list" where
  "insert_path ps p = (if path_mem p ps then ps else ps @ [p])"

definition collect_paths :: "string list \<Rightarrow> string list" where
  "collect_paths ps = foldl insert_path [] ps"

definition sort_paths :: "string list \<Rightarrow> string list" where
  "sort_paths ps = sort_key path_components ps"

lemma sort_paths_code [code]:
  "sort_paths [] = []"
  "sort_paths (p # ps) = insort_key path_components p (sort_paths ps)"
  by (simp_all add: sort_paths_def)

lemma path_mem_iff: "path_mem p ps \<longleftrightarrow> path_components p \<in> path_components ` set ps"
  by (auto simp: path_mem_def same_path_def list_ex_iff)

lemma foldl_insert_path:
  "distinct (map path_components acc) \<Longrightarrow>
   distinct (map path_components (foldl insert_path acc ps)) \<and>
   path_components ` set (foldl insert_path acc ps) = path_components ` (set acc \<union> set ps) \<and>
   set (foldl insert_path acc ps) \<subseteq> set acc \<union> set ps"
proof (induction ps arbitrary: acc)
  case (Cons p ps)
  have "distinct (map path_components (insert_path acc p))"
    using Cons.prems by (auto simp: insert_path_def path_mem_iff)
  moreover have "path_components ` set (insert_path acc p) = path_components ` (set acc \<union> {p})"
    "set (insert_path acc p) \<subseteq> set acc \<union> {p}"
    by (auto simp: insert_path_def path_mem_iff)
  ultimately show ?case using Cons.IH [of "insert_path acc p"] by auto
qed simp

lemma collect_paths:
  "distinct (map path_components (collect_paths ps))"
  "path_components ` set (collect_paths ps) = path_components ` set ps"
  "set (collect_paths ps) \<subseteq> set ps"
  using foldl_insert_path [of "[]" ps] by (simp_all add: collect_paths_def)

lemma set_sort_paths [simp]: "set (sort_paths ps) = set ps"
  by (simp add: sort_paths_def)

lemma sorted_sort_paths: "sorted (map path_components (sort_paths ps))"
  by (simp add: sort_paths_def)

lemma distinct_sort_paths: "distinct (map path_components ps) \<Longrightarrow> distinct (map path_components (sort_paths ps))"
  by (simp add: sort_paths_def distinct_map)

end
