(* ===== verification/Verify_Gate.thy ===== *)
theory Verify_Gate
  imports Session_Coordinator Rust_Paths
begin

text \<open>
  The verification gate (\<open>src/exec_session/verify_gate.rs\<close>): the runtime executes the declared
  commands itself, collects the files that really changed, compares them with the declared ones,
  writes the attempt to the verification log and moves session and log to a terminal status
  together.
\<close>

section \<open>Running commands\<close>

definition execute_command :: "env \<Rightarrow> string \<Rightarrow> command_run run" where
  "execute_command e c =
     bnd (ask (env_execute e)) (\<lambda>answer.
     case answer c of None \<Rightarrow> throw (SpawnFailed c) | Some r \<Rightarrow> ret r)"

definition run_anchor_commands :: "env \<Rightarrow> string list \<Rightarrow> command_run list run" where
  "run_anchor_commands e commands = bnd lock (\<lambda>_. map_each (execute_command e) commands)"

definition run_ok :: "command_run \<Rightarrow> bool" where
  "run_ok r \<longleftrightarrow> run_exit_code r = Some 0"

text \<open>The first command that did not exit with 0, named by the string that was declared.\<close>

fun first_command_failure :: "string list \<Rightarrow> command_run list \<Rightarrow> verify_failure option" where
  "first_command_failure (c # cs) (r # rs) =
     (if run_ok r then first_command_failure cs rs
      else Some (CommandFailed c (run_exit_code r) (run_stderr r)))"
| "first_command_failure _ _ = None"

section \<open>What really changed\<close>

definition git_lines :: "string list option \<Rightarrow> string list" where
  "git_lines out = (case out of None \<Rightarrow> [] | Some ls \<Rightarrow> filter (\<lambda>l. l \<noteq> []) ls)"

definition compute_actual_changed_files :: "env \<Rightarrow> string list run" where
  "compute_actual_changed_files e =
     bnd lock (\<lambda>_.
     bnd (gets (\<lambda>s. ss_turns (rt_session s))) (\<lambda>turns.
     bnd (map_each (\<lambda>t. bnd (ask (env_manifest_files e)) (\<lambda>m. ret (m (tr_checkpoint_turn_id t)))) turns) (\<lambda>manifests.
     case turns of
       [] \<Rightarrow> ret (sort_paths (collect_paths (concat manifests)))
     | first # _ \<Rightarrow>
         (case tr_git_head first of
            None \<Rightarrow> ret (sort_paths (collect_paths (concat manifests)))
          | Some head \<Rightarrow>
              bnd (ask (env_git_diff e)) (\<lambda>diff.
              bnd (ask (env_git_untracked e)) (\<lambda>others.
              ret (sort_paths (collect_paths (concat manifests @ git_lines (diff head) @
                filter (\<lambda>l. l \<notin> set (tr_untracked_files first)) (git_lines others))))))))))"

section \<open>The verification log\<close>

text \<open>An unreadable log counts as an empty one.\<close>

definition read_verify_log :: "env \<Rightarrow> verify_log run" where
  "read_verify_log e =
     bnd (ask (env_io_ok e)) (\<lambda>ok.
     gets (\<lambda>s. if ok then (case rt_log s of None \<Rightarrow> empty_verify_log | Some l \<Rightarrow> l) else empty_verify_log))"

definition write_verify_log :: "env \<Rightarrow> verify_log \<Rightarrow> unit run" where
  "write_verify_log e l = bnd (io e) (\<lambda>_. upd (\<lambda>s. s\<lparr>rt_log := Some l\<rparr>))"

definition log_result_of :: "verify_failure option \<Rightarrow> verify_log_result" where
  "log_result_of f =
     (case f of
        None \<Rightarrow> LogCompleted
      | Some (CommandFailed _ _ _) \<Rightarrow> LogCommandFailed
      | Some (BoundaryViolation _) \<Rightarrow> LogOutOfScope)"

definition append_verify_log ::
    "env \<Rightarrow> command_run list \<Rightarrow> string list \<Rightarrow> string list \<Rightarrow> string list \<Rightarrow> verify_failure option \<Rightarrow> nat run" where
  "append_verify_log e runs actual expected out_of_scope fail_reason =
     bnd (read_verify_log e) (\<lambda>log.
     bnd (ask (env_now e)) (\<lambda>now.
     let attempt_num = length (vl_attempts log) + 1;
         entry = \<lparr>vle_attempt = attempt_num, vle_timestamp = now, vle_commands_run = runs,
                  vle_actual = actual, vle_expected = expected, vle_out_of_scope = out_of_scope,
                  vle_result = log_result_of fail_reason\<rparr> in
     bnd (write_verify_log e (log\<lparr>vl_final_status := None, vl_attempts := vl_attempts log @ [entry]\<rparr>)) (\<lambda>_.
     ret attempt_num)))"

definition set_verify_log_final_status :: "env \<Rightarrow> verify_log_final_status \<Rightarrow> unit run" where
  "set_verify_log_final_status e st =
     bnd (read_verify_log e) (\<lambda>log. write_verify_log e (log\<lparr>vl_final_status := Some st\<rparr>))"

section \<open>The gate\<close>

definition transition_terminal :: "env \<Rightarrow> session_status \<Rightarrow> verify_log_final_status \<Rightarrow> unit run" where
  "transition_terminal e st fs =
     bnd lock (\<lambda>_. bnd (set_status e st) (\<lambda>_. set_verify_log_final_status e fs))"

definition mark_failed :: "env \<Rightarrow> unit run" where
  "mark_failed e = transition_terminal e SessionFailed FinalFailed"

definition mark_completed :: "env \<Rightarrow> unit run" where
  "mark_completed e = transition_terminal e Completed FinalCompleted"

definition out_of_scope_files :: "string list \<Rightarrow> string list \<Rightarrow> string list" where
  "out_of_scope_files actual expected = filter (\<lambda>f. \<not> path_mem f expected) actual"

definition verification_failure ::
    "string list \<Rightarrow> command_run list \<Rightarrow> string list \<Rightarrow> verify_failure option" where
  "verification_failure commands runs out_of_scope =
     (case first_command_failure commands runs of
        Some f \<Rightarrow> Some f
      | None \<Rightarrow> if out_of_scope = [] then None else Some (BoundaryViolation out_of_scope))"

definition run_verification_attempt ::
    "env \<Rightarrow> string list \<Rightarrow> string list \<Rightarrow> (verify_result \<times> nat) run" where
  "run_verification_attempt e commands expected =
     bnd lock (\<lambda>_.
     bnd (map_each (execute_command e) commands) (\<lambda>runs.
     bnd (compute_actual_changed_files e) (\<lambda>actual.
     let out_of_scope = out_of_scope_files actual expected;
         fail_reason = verification_failure commands runs out_of_scope in
     bnd lock (\<lambda>_.
     bnd (append_verify_log e runs actual expected out_of_scope fail_reason) (\<lambda>attempt_num.
     ret (\<lparr>vr_success = (fail_reason = None), vr_commands_run = runs, vr_actual_changed_files = actual,
           vr_expected_changed_files = expected, vr_out_of_scope = out_of_scope,
           vr_fail_reason = fail_reason, vr_action = None\<rparr>, attempt_num))))))"

text \<open>The terminal transition each decision of the hook causes; \<open>None\<close> leaves the session open.\<close>

fun action_transition :: "verify_fail_action \<Rightarrow> (session_status \<times> verify_log_final_status) option" where
  "action_transition (AutoRetry n) = (if n = 0 then Some (SessionFailed, FinalFailed) else None)"
| "action_transition EscalateAction = Some (SessionFailed, FinalFailed)"
| "action_transition AbortAction = Some (SessionFailed, FinalFailed)"
| "action_transition WarnAndContinue = Some (Completed, FinalCompleted)"

definition verify_and_complete :: "env \<Rightarrow> string list \<Rightarrow> string list \<Rightarrow> verify_result run" where
  "verify_and_complete e commands expected =
     bnd (run_verification_attempt e commands expected) (\<lambda>(result, attempt_num).
     if vr_success result
     then bnd (mark_completed e) (\<lambda>_. ret (result\<lparr>vr_action := None\<rparr>))
     else
       bnd lock (\<lambda>_.
       bnd (gets rt_session) (\<lambda>ss.
       bnd (require_some (vr_fail_reason result) Panicked) (\<lambda>failure.
       let decided = env_verify_fail e
             \<lparr>vfc_session_id = ss_session_id ss,
              vfc_turn_id = (case ss_current_turn ss of None \<Rightarrow> [] | Some i \<Rightarrow> i),
              vfc_attempt = attempt_num, vfc_failure = failure\<rparr> in
       bnd (case action_transition decided of
              None \<Rightarrow> ret ()
            | Some (st, fs) \<Rightarrow> transition_terminal e st fs) (\<lambda>_.
       ret (result\<lparr>vr_action := Some decided\<rparr>))))))"

definition verify_for_work_graph :: "env \<Rightarrow> string list \<Rightarrow> string list \<Rightarrow> verify_result run" where
  "verify_for_work_graph e commands expected =
     bnd (run_verification_attempt e commands expected) (\<lambda>(result, _). ret result)"

datatype unverified_outcome = MarkedUnverified | AlreadyTerminal session_status

definition mark_unverified_if_incomplete :: "env \<Rightarrow> unverified_outcome run" where
  "mark_unverified_if_incomplete e =
     bnd lock (\<lambda>_.
     bnd (gets (\<lambda>s. ss_status (rt_session s))) (\<lambda>st.
     if st = InProgress
     then bnd (transition_terminal e Unverified FinalUnverified) (\<lambda>_. ret MarkedUnverified)
     else ret (AlreadyTerminal st)))"

text \<open>The attempts of the session so far, as the log has them.\<close>

definition logged_attempts :: "rt \<Rightarrow> verify_log_entry list" where
  "logged_attempts s = (case rt_log s of None \<Rightarrow> [] | Some l \<Rightarrow> vl_attempts l)"

section \<open>Relations the gate obeys\<close>

context world_relation
begin

lemma obeys_execute_command: "obeys R (execute_command e c)"
  unfolding execute_command_def by (intro world_rules)

lemma obeys_run_anchor_commands: "obeys R (run_anchor_commands e cs)"
  unfolding run_anchor_commands_def by (intro world_rules obeys_execute_command)

lemma obeys_compute_actual: "obeys R (compute_actual_changed_files e)"
  unfolding compute_actual_changed_files_def
  by (intro world_rules) (auto split: list.split intro!: world_rules)

lemma obeys_read_verify_log: "obeys R (read_verify_log e)"
  unfolding read_verify_log_def by (intro world_rules)

end

context log_blind
begin

lemma obeys_write_verify_log: "obeys R (write_verify_log e l)"
  unfolding write_verify_log_def by (intro world_rules obeys_updI R_log)

lemma obeys_append_verify_log: "obeys R (append_verify_log e rs a x out f)"
  unfolding append_verify_log_def Let_def
  by (intro world_rules obeys_read_verify_log obeys_write_verify_log)

lemma obeys_final_status: "obeys R (set_verify_log_final_status e st)"
  unfolding set_verify_log_final_status_def
  by (intro world_rules obeys_read_verify_log obeys_write_verify_log)

lemma obeys_run_verification_attempt: "obeys R (run_verification_attempt e cs fs)"
  unfolding run_verification_attempt_def Let_def
  by (intro world_rules obeys_execute_command obeys_compute_actual obeys_append_verify_log)

lemma obeys_verify_for_work_graph: "obeys R (verify_for_work_graph e cs fs)"
  unfolding verify_for_work_graph_def by (intro world_rules obeys_run_verification_attempt)

end

context gate_relation
begin

lemma obeys_transition_terminal: "obeys R (transition_terminal e st fs)"
  unfolding transition_terminal_def by (intro rt_rules obeys_set_status obeys_final_status)

lemma obeys_mark: "obeys R (mark_failed e)" "obeys R (mark_completed e)"
  unfolding mark_failed_def mark_completed_def by (intro obeys_transition_terminal)+

lemma obeys_verify_and_complete: "obeys R (verify_and_complete e cs fs)"
  unfolding verify_and_complete_def Let_def
  by (intro rt_rules obeys_run_verification_attempt obeys_mark obeys_transition_terminal)

lemma obeys_mark_unverified: "obeys R (mark_unverified_if_incomplete e)"
  unfolding mark_unverified_if_incomplete_def by (intro rt_rules obeys_transition_terminal)

lemmas gate_rules = obeys_run_anchor_commands obeys_verify_for_work_graph obeys_mark
  obeys_verify_and_complete obeys_mark_unverified

end

section \<open>Functional behaviour\<close>

lemma lock_run: "lock s = (Inr x, t) \<longleftrightarrow> \<not> rt_poisoned s \<and> t = s"
  by (auto simp: lock_def)

lemma execute_command_run:
  "execute_command e c s = (Inr r, t) \<longleftrightarrow>
   env_execute e (rt_tick s) c = Some r \<and> t = s\<lparr>rt_tick := Suc (rt_tick s)\<rparr>"
  by (auto simp: execute_command_def bnd_def ask_def split: option.split)

text \<open>One answer of the executor per command, in order, each command run exactly once.\<close>

lemma execute_all_run:
  "map_each (execute_command e) cs s = (Inr rs, t) \<Longrightarrow>
   length rs = length cs \<and> (\<forall>i<length cs. env_execute e (rt_tick s + i) (cs ! i) = Some (rs ! i)) \<and>
   t = s\<lparr>rt_tick := rt_tick s + length cs\<rparr>"
proof (induction cs arbitrary: s rs t)
  case Nil
  then show ?case by simp
next
  case (Cons c cs)
  then obtain r rs' where r: "env_execute e (rt_tick s) c = Some r" "rs = r # rs'"
    "map_each (execute_command e) cs (s\<lparr>rt_tick := Suc (rt_tick s)\<rparr>) = (Inr rs', t)"
    by (auto simp: bnd_Inr_iff execute_command_run)
  show ?case using Cons.IH [OF r(3)] r by (auto simp: nth_Cons split: nat.split)
qed

lemma first_command_failure_None:
  "length rs = length cs \<Longrightarrow> first_command_failure cs rs = None \<longleftrightarrow> (\<forall>r\<in>set rs. run_ok r)"
  by (induction cs rs rule: first_command_failure.induct) auto

lemma verification_failure_None:
  "length rs = length cs \<Longrightarrow>
   verification_failure cs rs out = None \<longleftrightarrow> (\<forall>r\<in>set rs. run_ok r) \<and> out = []"
  using first_command_failure_None [of rs cs]
  by (auto simp: verification_failure_def split: option.split)

text \<open>Computations that only ask the world questions.\<close>

interpretation quiet: state_preorder "\<lambda>s t. acted s [] t"
  by unfold_locales (auto dest: acted_trans)

lemma quiet_ask: "obeys (\<lambda>s t. acted s [] t) (ask f)"
  by (simp add: obeys_def ask_def acted_def)

lemma quiet_compute_actual: "obeys (\<lambda>s t. acted s [] t) (compute_actual_changed_files e)"
  unfolding compute_actual_changed_files_def lock_def
  by (intro quiet.obeys_rules quiet_ask) (auto split: list.split intro!: quiet.obeys_rules quiet_ask)

lemma compute_actual_run:
  assumes "compute_actual_changed_files e s = (Inr fs, t)"
  shows "acted s [] t" "sorted (map path_components fs)" "distinct (map path_components fs)"
proof -
  show "acted s [] t" using obeys_runD [OF quiet_compute_actual assms] .
  have "\<exists>ps. fs = sort_paths (collect_paths ps)"
    using assms
    by (cases "ss_turns (rt_session s)"; cases "tr_git_head (hd (ss_turns (rt_session s)))")
      (auto simp: compute_actual_changed_files_def bnd_Inr_iff lock_run)
  then show "sorted (map path_components fs)" "distinct (map path_components fs)"
    by (auto intro: sorted_sort_paths distinct_sort_paths collect_paths(1))
qed

text \<open>What one attempt returns and what it leaves in the log.\<close>

lemma run_verification_attempt_run:
  assumes "run_verification_attempt e cs fs s = (Inr (r, n), t)"
  shows "length (vr_commands_run r) = length cs"
    and "\<forall>i<length cs. env_execute e (rt_tick s + i) (cs ! i) = Some (vr_commands_run r ! i)"
    and "sorted (map path_components (vr_actual_changed_files r))"
    and "vr_out_of_scope r = out_of_scope_files (vr_actual_changed_files r) fs"
    and "vr_fail_reason r = verification_failure cs (vr_commands_run r) (vr_out_of_scope r)"
    and "vr_success r \<longleftrightarrow> vr_fail_reason r = None"
    and "vr_expected_changed_files r = fs" and "vr_action r = None"
    and "\<exists>l old entry. rt_log t = Some l \<and> (old = logged_attempts s \<or> old = [] \<and> \<not> (\<forall>k. env_io_ok e k)) \<and>
       n = Suc (length old) \<and> vl_final_status l = None \<and> vl_attempts l = old @ [entry] \<and>
       vle_attempt entry = n \<and> vle_commands_run entry = vr_commands_run r \<and>
       vle_result entry = log_result_of (vr_fail_reason r)"
    and "rt_session t = rt_session s" and "rt_work t = rt_work s" and "rt_effects t = rt_effects s"
    and "rt_disk_session t = rt_disk_session s" and "\<not> rt_poisoned t"
proof -
  obtain runs s1 actual s2 where run: "\<not> rt_poisoned s"
    "map_each (execute_command e) cs s = (Inr runs, s1)"
    "compute_actual_changed_files e s1 = (Inr actual, s2)"
    "append_verify_log e runs actual fs (out_of_scope_files actual fs)
       (verification_failure cs runs (out_of_scope_files actual fs)) s2 = (Inr n, t)"
    and r: "r = \<lparr>vr_success = (verification_failure cs runs (out_of_scope_files actual fs) = None),
      vr_commands_run = runs, vr_actual_changed_files = actual, vr_expected_changed_files = fs,
      vr_out_of_scope = out_of_scope_files actual fs,
      vr_fail_reason = verification_failure cs runs (out_of_scope_files actual fs), vr_action = None\<rparr>"
    using assms by (auto simp: run_verification_attempt_def Let_def bnd_Inr_iff lock_run)
  note ex = execute_all_run [OF run(2)] and ac = compute_actual_run [OF run(3)]
  note same = acted_fields [OF ac(1)]
  show "length (vr_commands_run r) = length cs"
    "\<forall>i<length cs. env_execute e (rt_tick s + i) (cs ! i) = Some (vr_commands_run r ! i)"
    using ex r by simp_all
  show "sorted (map path_components (vr_actual_changed_files r))" using ac(2) r by simp
  show "vr_out_of_scope r = out_of_scope_files (vr_actual_changed_files r) fs"
    "vr_fail_reason r = verification_failure cs (vr_commands_run r) (vr_out_of_scope r)"
    "vr_success r \<longleftrightarrow> vr_fail_reason r = None" "vr_expected_changed_files r = fs" "vr_action r = None"
    using r by simp_all
  show "\<exists>l old entry. rt_log t = Some l \<and> (old = logged_attempts s \<or> old = [] \<and> \<not> (\<forall>k. env_io_ok e k)) \<and>
       n = Suc (length old) \<and> vl_final_status l = None \<and> vl_attempts l = old @ [entry] \<and>
       vle_attempt entry = n \<and> vle_commands_run entry = vr_commands_run r \<and>
       vle_result entry = log_result_of (vr_fail_reason r)"
    using run(4) same ex r
    by (auto simp: append_verify_log_def read_verify_log_def write_verify_log_def io_def ask_def
        bnd_Inr_iff Let_def empty_verify_log_def logged_attempts_def split: if_splits option.splits)
  show "rt_session t = rt_session s" "rt_work t = rt_work s" "rt_effects t = rt_effects s"
    "rt_disk_session t = rt_disk_session s" "\<not> rt_poisoned t"
    using run(1,4) same ex
    by (auto simp: append_verify_log_def read_verify_log_def write_verify_log_def io_def ask_def
        bnd_Inr_iff Let_def split: if_splits)
qed

lemma transition_terminal_run:
  assumes "transition_terminal e st fs s = (Inr x, t)"
  shows "ss_status (rt_session t) = st" "rt_work t = rt_work s"
    "\<exists>l. rt_log t = Some l \<and> vl_final_status l = Some fs \<and>
       (vl_attempts l = logged_attempts s \<or> \<not> (\<forall>k. env_io_ok e k))"
    "ss_node_states (rt_session t) = ss_node_states (rt_session s)"
    "ss_current_node (rt_session t) = ss_current_node (rt_session s)"
    "ss_status (the (rt_disk_session t)) = st"
  using assms
  by (auto simp: transition_terminal_def set_status_def touch_and_save_def save_session_def
      modify_session_def set_verify_log_final_status_def read_verify_log_def write_verify_log_def
      lock_run io_def ask_def bnd_Inr_iff empty_verify_log_def logged_attempts_def split: if_splits option.splits)


lemma success_iff:
  assumes "run_verification_attempt e cs fs s = (Inr (r, n), t)"
  shows "vr_success r \<longleftrightarrow> (\<forall>x\<in>set (vr_commands_run r). run_ok x) \<and>
           (\<forall>f\<in>set (vr_actual_changed_files r). path_mem f fs)"
  using run_verification_attempt_run(1,4,5,6) [OF assms] verification_failure_None
  by (auto simp: out_of_scope_files_def filter_empty_conv)

lemma verify_and_complete_cases:
  assumes "verify_and_complete e cs fs s = (Inr r, t)"
  obtains (success) r' n u where "run_verification_attempt e cs fs s = (Inr (r', n), u)"
      "vr_success r'" "r = r'\<lparr>vr_action := None\<rparr>" "transition_terminal e Completed FinalCompleted u = (Inr (), t)"
    | (failed) r' n u f d where "run_verification_attempt e cs fs s = (Inr (r', n), u)"
      "\<not> vr_success r'" "vr_fail_reason r' = Some f" "r = r'\<lparr>vr_action := Some d\<rparr>"
      "d = env_verify_fail e \<lparr>vfc_session_id = ss_session_id (rt_session u),
             vfc_turn_id = (case ss_current_turn (rt_session u) of None \<Rightarrow> [] | Some i \<Rightarrow> i),
             vfc_attempt = n, vfc_failure = f\<rparr>"
      "case action_transition d of None \<Rightarrow> t = u
       | Some (st, fs) \<Rightarrow> transition_terminal e st fs u = (Inr (), t)"
proof -
  obtain r' n u where att: "run_verification_attempt e cs fs s = (Inr (r', n), u)"
    using assms by (auto simp: verify_and_complete_def bnd_Inr_iff)
  show ?thesis
  proof (cases "vr_success r'")
    case True
    then show ?thesis
      using success [OF att True] assms att
      by (auto simp: verify_and_complete_def bnd_Inr_iff mark_completed_def)
  next
    case False
    then obtain f where "vr_fail_reason r' = Some f"
      using run_verification_attempt_run(6) [OF att] by auto
    then show ?thesis
      using failed [OF att False, of f] assms att False
      by (auto simp: verify_and_complete_def bnd_Inr_iff lock_run Let_def split: option.splits)
  qed
qed


text \<open>
  The retry budget of the default hook is one budget for the whole session: what a failed
  verification gets depends only on how many attempts the log already holds, of whatever node
  and whether or not they succeeded. With fewer than two of them it gets a retry, otherwise the
  session fails.
\<close>

theorem default_hook_session_wide:
  assumes "verify_and_complete e cs fs s = (Inr r, t)"
    and "env_verify_fail e = default_verify_fail" and "\<forall>k. env_io_ok e k" and "\<not> vr_success r"
  shows "vr_action r = Some (if length (logged_attempts s) < 2
                             then AutoRetry (2 - length (logged_attempts s)) else EscalateAction) \<and>
    ss_status (rt_session t) =
      (if length (logged_attempts s) < 2 then ss_status (rt_session s) else SessionFailed) \<and>
    length (logged_attempts t) = Suc (length (logged_attempts s))"
  using assms(1)
proof (cases rule: verify_and_complete_cases)
  case (success r' n u)
  then show ?thesis using assms(4) by simp
next
  case (failed r' n u f d)
  note att = run_verification_attempt_run [OF failed(1)]
  have n: "n = Suc (length (logged_attempts s))" and u: "length (logged_attempts u) = n"
    using att(9) assms(3) by (auto simp: logged_attempts_def)
  have d: "d = (if length (logged_attempts s) < 2
                then AutoRetry (2 - length (logged_attempts s)) else EscalateAction)"
    using failed(5) assms(2) n by (simp add: default_verify_fail_def)
  show ?thesis
  proof (cases "length (logged_attempts s) < 2")
    case True
    then have "t = u" using failed(6) d by simp
    then show ?thesis using d failed(4) True n u att(10) by simp
  next
    case False
    then have "transition_terminal e SessionFailed FinalFailed u = (Inr (), t)" using failed(6) d by simp
    note tr = transition_terminal_run(1,3) [OF this]
    have "logged_attempts t = logged_attempts u" using tr(2) assms(3) by (auto simp: logged_attempts_def)
    then show ?thesis using tr(1) d failed(4) False n u by simp
  qed
qed

text \<open>A world in which every command fails.\<close>

definition failing_env :: env where
  "failing_env = calm_env\<lparr>env_execute :=
     \<lambda>_ c. Some \<lparr>run_cmd = c, run_exit_code = Some 1, run_stdout = [], run_stderr = ''boom''\<rparr>\<rparr>"

lemma is_ok_obtain: "is_ok (fst p) \<Longrightarrow> (\<And>x t. p = (Inr x, t) \<Longrightarrow> P) \<Longrightarrow> P"
  by (cases p) (auto simp: is_ok_def split: sum.splits)


theorem default_hook_session_wide_witness:
  "\<exists>r t. verify_and_complete failing_env [''cargo test''] [] open_turn_rt = (Inr r, t) \<and>
     vr_action r = Some (AutoRetry 2)"
proof -
  let ?p = "verify_and_complete failing_env [''cargo test''] [] open_turn_rt"
  have "is_ok (fst ?p)" by code_simp
  then obtain r t where run: "?p = (Inr r, t)" by (rule is_ok_obtain)
  have "(case fst ?p of Inl _ \<Rightarrow> False | Inr r \<Rightarrow> \<not> vr_success r)" by code_simp
  then have fail: "\<not> vr_success r" using run by simp
  have "length (logged_attempts open_turn_rt) = 0" by code_simp
  then show ?thesis
    using default_hook_session_wide [OF run _ _ fail] run by (auto simp: failing_env_def calm_env_def)
qed

end
