(* ===== verification/Node_Runtime.thy ===== *)
theory Node_Runtime
  imports Verify_Gate
begin

text \<open>
  The node-level state machine (\<open>src/exec_session/node_runtime.rs\<close>): beginning a node, the fixed
  compile, test, verify pass with its audit trail and iteration budget, decomposed units, the
  human-review decision, legacy verification and rollback. Every handler is a computation over
  the runtime state, in the order of the calls of the source; the pass mutex
  (\<open>work_graph_gate\<close>) makes one handler one uninterrupted sequence.
\<close>

section \<open>Projections and audit events\<close>

record node_verify_result =
  nvr_status :: node_status
  nvr_retry_count :: u32
  nvr_failure_reason :: "verify_failure_kind option"

record node_rollback_result =
  nrr_rolled_back_to :: string
  nrr_removed_nodes :: "string list"

record unit_run_outcome =
  uro_unit_id :: string
  uro_passed :: bool
  uro_attempts_used :: u32

record units_run_result =
  urr_outcomes :: "unit_run_outcome list"
  urr_parent_route :: work_graph_step

datatype verification_outcome = OutcomeLegacy node_verify_result | OutcomeWorkGraph work_graph_step

fun project_failure :: "verify_failure \<Rightarrow> verify_failure_kind" where
  "project_failure (CommandFailed _ exit_code stderr) = KindCommandFailed exit_code stderr"
| "project_failure (BoundaryViolation files) = KindBoundaryViolation files"

definition project_outcome :: "verify_result \<Rightarrow> verify_outcome" where
  "project_outcome r =
     verify_outcome_from_parts (vr_success r) (map_option project_failure (vr_fail_reason r))"

definition collect_stderr :: "command_run list \<Rightarrow> string" where
  "collect_stderr runs = join_with [CHR 0x0A] (filter (\<lambda>s. s \<noteq> []) (map run_stderr runs))"

record audit_context =
  ac_node_id :: string
  ac_attempt :: u32

definition numeric_node_id :: "string \<Rightarrow> nat option" where
  "numeric_node_id node_id =
     (case node_id of
        c # ds \<Rightarrow> if c = CHR ''n'' \<and> ds \<noteq> [] then parse_u64 ds else None
      | [] \<Rightarrow> None)"

definition known_node_ids :: "session_state \<Rightarrow> work_state \<Rightarrow> string list" where
  "known_node_ids ss ws = map xn_id (ss_node_states ss) @ map ae_node_id (ws_graph_audit ws)"

definition next_node_id :: "session_state \<Rightarrow> work_state \<Rightarrow> rt_error + string" where
  "next_node_id ss ws =
     (let max_id = max_or 0 (List.map_filter numeric_node_id (known_node_ids ss ws))
      in if max_id + 1 < 2 ^ 64 then Inr (''n'' @ show_nat (max_id + 1)) else Inl NodeIdsExhausted)"

fun project_audit_profile :: "verification_profile \<Rightarrow> graph_audit_profile" where
  "project_audit_profile ProfileNone = AuditProfileNone"
| "project_audit_profile ProfileRust = AuditProfileRust"

fun project_audit_route :: "work_graph_step \<Rightarrow> graph_audit_route" where
  "project_audit_route StepRootCause = RouteRootCause"
| "project_audit_route StepImplement = RouteImplement"
| "project_audit_route StepCompileAnchor = RouteCompileAnchor"
| "project_audit_route StepTestAnchor = RouteTestAnchor"
| "project_audit_route StepVerifyGate = RouteVerifyGate"
| "project_audit_route StepAwaitHumanReview = RouteHumanReview"
| "project_audit_route StepComplete = RouteComplete"
| "project_audit_route StepEscalate = RouteEscalate"

definition AUDIT_STDERR_LIMIT_BYTES :: nat where
  "AUDIT_STDERR_LIMIT_BYTES = 8192"

definition AUDIT_STDERR_TRUNCATION_MARKER :: string where
  "AUDIT_STDERR_TRUNCATION_MARKER = CHR 0x0A # ''...[stderr truncated]''"

primrec floor_char_boundary :: "string \<Rightarrow> nat \<Rightarrow> nat" where
  "floor_char_boundary s 0 = 0"
| "floor_char_boundary s (Suc n) =
     (if is_char_boundary s (Suc n) then Suc n else floor_char_boundary s n)"

definition truncate_audit_stderr :: "string \<Rightarrow> string" where
  "truncate_audit_stderr stderr =
     (if length stderr \<le> AUDIT_STDERR_LIMIT_BYTES then stderr
      else take (floor_char_boundary stderr
                  (AUDIT_STDERR_LIMIT_BYTES - length AUDIT_STDERR_TRUNCATION_MARKER)) stderr @
           AUDIT_STDERR_TRUNCATION_MARKER)"

lemma truncate_audit_stderr_code [code]:
  "truncate_audit_stderr [] = []"
  "truncate_audit_stderr (c # cs) =
     (if length (c # cs) \<le> AUDIT_STDERR_LIMIT_BYTES then c # cs
      else take (floor_char_boundary (c # cs)
                  (AUDIT_STDERR_LIMIT_BYTES - length AUDIT_STDERR_TRUNCATION_MARKER)) (c # cs) @
           AUDIT_STDERR_TRUNCATION_MARKER)"
  by (simp_all add: truncate_audit_stderr_def AUDIT_STDERR_LIMIT_BYTES_def)

definition project_audit_commands :: "command_run list \<Rightarrow> audit_command_run list" where
  "project_audit_commands runs =
     map (\<lambda>r. \<lparr>acr_command = run_cmd r, acr_exit_code = run_exit_code r,
               acr_stderr = truncate_audit_stderr (run_stderr r)\<rparr>) runs"

definition base_audit_event :: "audit_context \<Rightarrow> graph_audit_kind \<Rightarrow> string \<Rightarrow> graph_audit_event" where
  "base_audit_event ctx kind now =
     \<lparr>ae_node_id = ac_node_id ctx, ae_attempt = ac_attempt ctx, ae_kind = kind, ae_anchor = None,
      ae_commands = [], ae_route = None, ae_profile = None, ae_resolved_commands = None,
      ae_adapted = None, ae_parent_node_id = None, ae_budget = None, ae_timestamp = now\<rparr>"

definition anchor_audit_event ::
    "audit_context \<Rightarrow> graph_audit_anchor \<Rightarrow> audit_command_run list \<Rightarrow> string \<Rightarrow> graph_audit_event" where
  "anchor_audit_event ctx anchor commands now =
     (base_audit_event ctx AnchorCompleted now)\<lparr>ae_anchor := Some anchor, ae_commands := commands\<rparr>"

definition route_audit_event ::
    "audit_context \<Rightarrow> work_graph_step \<Rightarrow> budget option \<Rightarrow> string \<Rightarrow> graph_audit_event" where
  "route_audit_event ctx route budget now =
     (base_audit_event ctx RouteSelected now)\<lparr>ae_route := Some (project_audit_route route),
                                               ae_budget := budget\<rparr>"

definition profile_audit_event ::
    "audit_context \<Rightarrow> graph_audit_profile \<Rightarrow> graph_audit_commands \<Rightarrow> string \<Rightarrow> graph_audit_event" where
  "profile_audit_event ctx profile commands now =
     (base_audit_event ctx ProfileResolved now)\<lparr>ae_profile := Some profile,
                                                 ae_resolved_commands := Some commands\<rparr>"

text \<open>Stamp an event with the current time and append it to the audit trail.\<close>

definition append_audit :: "env \<Rightarrow> (string \<Rightarrow> graph_audit_event) \<Rightarrow> unit run" where
  "append_audit e event =
     bnd (ask (env_now e)) (\<lambda>now. modify_work (append_graph_audit (event now)))"

text \<open>A guarded write, stamped with the current time.\<close>

definition write_field ::
    "env \<Rightarrow> (string \<Rightarrow> (work_state, coordinator_error, unit) smon) \<Rightarrow> unit run" where
  "write_field e setter = bnd (ask (env_now e)) (\<lambda>now. on_work (setter now))"

section \<open>Adaptation and budget\<close>

definition apply_anchor_adaptation :: "env \<Rightarrow> audit_context \<Rightarrow> work_graph_step option run" where
  "apply_anchor_adaptation e ctx =
     bnd (gets (\<lambda>s. ws_selected_work_graph (rt_work s))) (\<lambda>selected.
     case selected of
       None \<Rightarrow> ret None
     | Some plan \<Rightarrow>
         bnd (read_work (\<lambda>ws. adapt_work_graph ws plan (ac_node_id ctx))) (\<lambda>outcome.
         case outcome of
           Unchanged \<Rightarrow> ret None
         | EscalateAdaptation _ \<Rightarrow> ret (Some StepEscalate)
         | Splice a \<Rightarrow>
             (case apply_adaptation plan a of
                (Inl err, _) \<Rightarrow> throw (AdaptationFailed err)
              | (Inr _, plan') \<Rightarrow>
                  bnd (modify_work (set_selected_work_graph plan')) (\<lambda>_.
                  bnd (append_audit e (\<lambda>now. (base_audit_event ctx Adapted now)\<lparr>ae_adapted :=
                         Some \<lparr>gaa_reason = ad_reason a, gaa_revision_from = plan_revision plan,
                               gaa_revision_to = next_revision a\<rparr>\<rparr>)) (\<lambda>_.
                  bnd (capture_current_work_state e) (\<lambda>_.
                  ret None))))))"

definition consume_iteration_budget :: "env \<Rightarrow> unit run" where
  "consume_iteration_budget e =
     bnd (read_work (\<lambda>ws. get_budget ws GeneralPurpose)) (\<lambda>b.
     bnd (require_some b BudgetNotInitialised) (\<lambda>budget.
     write_field e (set_budget GeneralPurpose
       (budget\<lparr>iter_used := saturating_add (iter_used budget) 1\<rparr>))))"

section \<open>One pass of the work graph\<close>

definition complete_work_graph_route :: "env \<Rightarrow> work_graph_step \<Rightarrow> work_graph_step run" where
  "complete_work_graph_route e step =
     (case step of
        StepComplete \<Rightarrow> bnd (mark_completed e) (\<lambda>_. ret step)
      | StepEscalate \<Rightarrow>
          bnd (mark_failed e) (\<lambda>_.
          bnd lock (\<lambda>_.
          bnd (gets (\<lambda>s. current_node_of (rt_session s))) (\<lambda>n.
          bnd (require_some n NoCurrentNode) (\<lambda>node.
          bnd (update_node_status e (xn_id node) NodeFailed) (\<lambda>_.
          ret step)))))
      | _ \<Rightarrow> ret step)"

definition escalate_current_work_graph :: "env \<Rightarrow> unit run" where
  "escalate_current_work_graph e = bnd (complete_work_graph_route e StepEscalate) (\<lambda>_. ret ())"

text \<open>The tail that every anchor shares: route, record the route, persist it.\<close>

definition record_route :: "env \<Rightarrow> audit_context \<Rightarrow> work_graph_step \<Rightarrow> unit run" where
  "record_route e ctx step =
     bnd (read_work (\<lambda>ws. get_budget ws GeneralPurpose)) (\<lambda>budget.
     bnd (append_audit e (route_audit_event ctx step budget)) (\<lambda>_.
     capture_current_work_state e))"

definition record_compile_result ::
    "env \<Rightarrow> audit_context \<Rightarrow> compile_result \<Rightarrow> command_run list \<Rightarrow> work_graph_step run" where
  "record_compile_result e ctx result runs =
     bnd lock (\<lambda>_.
     bnd (write_field e (set_compile_result Verification result)) (\<lambda>_.
     bnd (when_m (\<not> cr_ok result) (consume_iteration_budget e)) (\<lambda>_.
     bnd (append_audit e (anchor_audit_event ctx AnchorCompile (project_audit_commands runs))) (\<lambda>_.
     bnd (capture_current_work_state e) (\<lambda>_.
     bnd (read_work next_step) (\<lambda>step.
     bnd (record_route e ctx step) (\<lambda>_.
     ret step)))))))"

definition record_test_result ::
    "env \<Rightarrow> audit_context \<Rightarrow> test_result \<Rightarrow> command_run list \<Rightarrow> work_graph_step run" where
  "record_test_result e ctx result runs =
     bnd lock (\<lambda>_.
     bnd (write_field e (set_test_result Verification result)) (\<lambda>_.
     bnd (when_m (\<not> tr_pass result) (consume_iteration_budget e)) (\<lambda>_.
     bnd (append_audit e (anchor_audit_event ctx AnchorTest (project_audit_commands runs))) (\<lambda>_.
     bnd (capture_current_work_state e) (\<lambda>_.
     bnd (if tr_pass result then ret None else apply_anchor_adaptation e ctx) (\<lambda>override.
     bnd (case override of Some step \<Rightarrow> ret step | None \<Rightarrow> read_work next_step) (\<lambda>step.
     bnd (record_route e ctx step) (\<lambda>_.
     ret step))))))))"

definition record_verify_result ::
    "env \<Rightarrow> audit_context \<Rightarrow> verify_result \<Rightarrow> work_graph_step run" where
  "record_verify_result e ctx result =
     bnd lock (\<lambda>_.
     bnd (write_field e (set_generated_diff GeneralPurpose
            \<lparr>gd_summary = show_nat (length (vr_actual_changed_files result)) @ '' files observed by verification'',
             gd_files = vr_actual_changed_files result\<rparr>)) (\<lambda>_.
     bnd (write_field e (set_verify_result Verification (project_outcome result))) (\<lambda>_.
     bnd (when_m (case vr_fail_reason result of Some (CommandFailed _ _ _) \<Rightarrow> True | _ \<Rightarrow> False)
            (consume_iteration_budget e)) (\<lambda>_.
     bnd (append_audit e (anchor_audit_event ctx AnchorVerify
            (project_audit_commands (vr_commands_run result)))) (\<lambda>_.
     bnd (capture_current_work_state e) (\<lambda>_.
     bnd (read_work next_step) (\<lambda>step.
     bnd (record_route e ctx step) (\<lambda>_.
     ret step))))))))"

definition pass_attempt :: "work_state \<Rightarrow> string \<Rightarrow> u32" where
  "pass_attempt ws node_id =
     saturating_add
       (max_or 0 (map ae_attempt
          (filter (\<lambda>ev. ae_node_id ev = node_id \<and> ae_kind ev \<noteq> ProfileResolved) (ws_graph_audit ws))))
       1"

definition prepare_work_graph_pass :: "env \<Rightarrow> audit_context run" where
  "prepare_work_graph_pass e =
     bnd lock (\<lambda>_.
     bnd (gets rt_session) (\<lambda>ss.
     bnd (require_some (current_turn_record ss) NoActiveTurn) (\<lambda>_.
     bnd (require_some (current_node_of ss) NoCurrentNode) (\<lambda>node.
     bnd (gets (\<lambda>s. pass_attempt (rt_work s) (xn_id node))) (\<lambda>attempt.
     bnd (modify_work reset_for_work_graph_pass) (\<lambda>_.
     bnd (read_work (\<lambda>ws. get_budget ws GeneralPurpose)) (\<lambda>b.
     bnd (when_m (b = None) (write_field e (set_budget GeneralPurpose
            \<lparr>max_iter = env_auto_retry_max e, iter_used = 0, token_used = 0\<rparr>))) (\<lambda>_.
     bnd (capture_current_work_state e) (\<lambda>_.
     ret \<lparr>ac_node_id = xn_id node, ac_attempt = attempt\<rparr>)))))))))"

definition run_work_graph ::
    "env \<Rightarrow> string list \<Rightarrow> string list \<Rightarrow> string list \<Rightarrow> string list \<Rightarrow> work_graph_step run" where
  "run_work_graph e compile test verify expected =
     bnd (prepare_work_graph_pass e) (\<lambda>ctx.
     bnd (run_anchor_commands e compile) (\<lambda>compile_runs.
     bnd (record_compile_result e ctx
            \<lparr>cr_ok = list_all run_ok compile_runs, cr_stderr = collect_stderr compile_runs\<rparr>
            compile_runs) (\<lambda>step1.
     if step1 \<noteq> StepTestAnchor then complete_work_graph_route e step1
     else
       bnd (run_anchor_commands e test) (\<lambda>test_runs.
       bnd (record_test_result e ctx
              \<lparr>tr_pass = list_all run_ok test_runs,
               tr_failed_cases = map run_cmd (filter (\<lambda>r. \<not> run_ok r) test_runs)\<rparr>
              test_runs) (\<lambda>step2.
       if step2 \<noteq> StepVerifyGate then complete_work_graph_route e step2
       else
         bnd (verify_for_work_graph e verify expected) (\<lambda>result.
         bnd (record_verify_result e ctx result) (\<lambda>step3.
         complete_work_graph_route e step3)))))))"

section \<open>Decomposed units\<close>

text \<open>
  The attempts of one unit: at most as many as its allocation grants (the first argument counts
  them down), stopping at the first one whose commands all exit with 0. Returns whether it
  passed, the attempts used and the last standard error.
\<close>

primrec unit_attempts ::
    "nat \<Rightarrow> env \<Rightarrow> string \<Rightarrow> string list \<Rightarrow> u32 \<Rightarrow> string \<Rightarrow> (bool \<times> u32 \<times> string) run" where
  "unit_attempts 0 e node_id commands used last_stderr = ret (False, used, last_stderr)"
| "unit_attempts (Suc k) e node_id commands used last_stderr =
     bnd (run_anchor_commands e commands) (\<lambda>runs.
     let used' = used + 1;
         passed = list_all run_ok runs;
         last' = (if passed then last_stderr else collect_stderr runs) in
     bnd lock (\<lambda>_.
     bnd (append_audit e (\<lambda>now.
            (base_audit_event \<lparr>ac_node_id = node_id, ac_attempt = used'\<rparr> Decomposed now)
              \<lparr>ae_commands := project_audit_commands runs, ae_parent_node_id := Some node_id\<rparr>)) (\<lambda>_.
     if passed then ret (True, used', last')
     else unit_attempts k e node_id commands used' last')))"

definition unit_summary :: "string \<Rightarrow> bool \<Rightarrow> u32 \<Rightarrow> string \<Rightarrow> string" where
  "unit_summary unit_id passed used last_stderr =
     (if passed
      then ''unit '' @ unit_id @ '' passed its anchors ('' @ show_nat (unat used) @ '' attempt'' @
           (if used = 1 then [] else ''s'') @ '')''
      else ''unit '' @ unit_id @ '' failed after '' @ show_nat (unat used) @ '' attempts: '' @
           truncate_audit_stderr last_stderr)"

definition unit_report :: "decomposed_unit \<Rightarrow> string \<Rightarrow> specialist_report" where
  "unit_report u summary =
     \<lparr>rp_producer = GeneralPurpose, rp_kind = ImplementationReport, rp_summary = summary,
      rp_evidence = map (\<lambda>p. \<lparr>ev_path = p, ev_detail = ''expected by the accepted unit contract''\<rparr>)
                      (du_expected_files u),
      rp_suspected_files = [], rp_recommended_actions = []\<rparr>"

definition run_unit :: "env \<Rightarrow> string \<Rightarrow> decomposed_unit \<Rightarrow> unit_run_outcome run" where
  "run_unit e node_id u =
     bnd (unit_attempts (unat (max_iter (du_allocation u))) e node_id (du_verify_commands u) 0 [])
       (\<lambda>(passed, used, last_stderr).
     let summary = unit_summary (du_unit_id u) passed used last_stderr in
     bnd lock (\<lambda>_.
     bnd (on_work (record_unit_outcome (du_unit_id u)
            \<lparr>uo_passed = passed, uo_attempts_used = used, uo_summary = summary\<rparr>
            ((du_allocation u)\<lparr>iter_used := min used (max_iter (du_allocation u))\<rparr>))) (\<lambda>_.
     bnd (when_m passed (modify_work (push_unit_report (unit_report u summary)))) (\<lambda>_.
     bnd (capture_current_work_state e) (\<lambda>_.
     ret \<lparr>uro_unit_id = du_unit_id u, uro_passed = passed, uro_attempts_used = used\<rparr>)))))"

definition run_decomposed_units :: "env \<Rightarrow> units_run_result run" where
  "run_decomposed_units e =
     bnd lock (\<lambda>_.
     bnd (gets (\<lambda>s. current_node_of (rt_session s))) (\<lambda>n.
     bnd (require_some n NoCurrentNode) (\<lambda>node.
     bnd (gets (\<lambda>s. ws_decomposed_units (rt_work s))) (\<lambda>units.
     if units = [] then throw NoPendingUnits
     else
       bnd (map_each (run_unit e (xn_id node)) units) (\<lambda>outcomes.
       bnd lock (\<lambda>_.
       bnd (when_m (\<not> list_ex uro_passed outcomes) (consume_iteration_budget e)) (\<lambda>_.
       bnd (read_work next_step) (\<lambda>step.
       ret \<lparr>urr_outcomes = outcomes, urr_parent_route = step\<rparr>))))))))"

section \<open>Human review\<close>

definition review_attempt :: "work_state \<Rightarrow> string \<Rightarrow> u32" where
  "review_attempt ws node_id =
     max_or 1 (map ae_attempt (filter (\<lambda>ev. ae_node_id ev = node_id) (ws_graph_audit ws)))"

text \<open>Reset the session and mark the current node verified after a completed graph.\<close>

definition finish_verified :: "env \<Rightarrow> unit run" where
  "finish_verified e =
     bnd lock (\<lambda>_.
     bnd (gets (\<lambda>s. current_node_of (rt_session s))) (\<lambda>n.
     bnd (require_some n NoCurrentNode) (\<lambda>node.
     bnd (set_status e InProgress) (\<lambda>_.
     update_node_status e (xn_id node) Verified))))"

definition record_human_review :: "env \<Rightarrow> human_review \<Rightarrow> work_graph_step run" where
  "record_human_review e review =
     bnd lock (\<lambda>_.
     bnd (gets (\<lambda>s. current_node_of (rt_session s))) (\<lambda>n.
     bnd (require_some n NoCurrentNode) (\<lambda>node.
     bnd (gets (\<lambda>s. selected_plan_has_role (rt_work s) HumanReviewNode)) (\<lambda>requires_review.
     if \<not> requires_review then throw NoReviewGate
     else
       bnd (read_work (\<lambda>ws. get_verify_result ws HumanReviewNode)) (\<lambda>outcome.
       if \<not> (case outcome of None \<Rightarrow> False | Some v \<Rightarrow> vo_success v) then throw ReviewBeforeVerification
       else
         bnd (write_field e (set_human_review HumanReviewNode review)) (\<lambda>_.
         bnd (read_work next_step) (\<lambda>step.
         bnd (gets (\<lambda>s. review_attempt (rt_work s) (xn_id node))) (\<lambda>attempt.
         bnd (record_route e \<lparr>ac_node_id = xn_id node, ac_attempt = attempt\<rparr> step) (\<lambda>_.
         bnd (complete_work_graph_route e step) (\<lambda>result.
         bnd (when_m (result = StepComplete) (finish_verified e)) (\<lambda>_.
         ret result)))))))))))"

section \<open>Beginning a node\<close>

definition detect_profile :: "env \<Rightarrow> verification_profile run" where
  "detect_profile e =
     bnd (ask (env_cargo_toml e)) (\<lambda>exists. ret (if exists then ProfileRust else ProfileNone))"

definition compose_and_bind :: "work_graph_request \<Rightarrow> plan_error + work_graph_plan" where
  "compose_and_bind r =
     result_bind (compose_work_graph r) (\<lambda>p. bind_registry p (builtin_registry default_subagent_limits))"

text \<open>
  Beginning a node: its guards, then, in \<open>install_node\<close>, the hook, the persisted node, the reset
  work products, the composed and bound plan, and the audit of the resolved commands.
\<close>

definition install_node :: "env \<Rightarrow> exec_node \<Rightarrow> work_graph_request \<Rightarrow> string run" where
  "install_node e node request =
     bnd (effect (HookPreNode (xn_id node))) (\<lambda>_.
     bnd (add_node e node) (\<lambda>_.
     bnd (modify_work reset_for_new_node) (\<lambda>_.
     bnd (case compose_and_bind request of Inl err \<Rightarrow> throw (ComposeFailed err) | Inr p \<Rightarrow> ret p) (\<lambda>plan.
     bnd (modify_work (set_selected_work_graph plan)) (\<lambda>_.
     bnd (capture_current_work_state e) (\<lambda>_.
     bnd (gets (\<lambda>s. current_node_of (rt_session s))) (\<lambda>current.
     bnd (require_some current NoCurrentNode) (\<lambda>persisted.
     bnd (append_audit e (profile_audit_event \<lparr>ac_node_id = xn_id persisted, ac_attempt = 1\<rparr>
            (project_audit_profile (xc_profile (xn_contract persisted)))
            \<lparr>gac_compile_commands = xc_compile_commands (xn_contract persisted),
             gac_test_commands = xc_test_commands (xn_contract persisted),
             gac_verify_commands = xc_verify_commands (xn_contract persisted)\<rparr>)) (\<lambda>_.
     bnd (capture_current_work_state e) (\<lambda>_.
     ret (xn_id node)))))))))))"

definition begin_node_with_work_graph ::
    "env \<Rightarrow> string \<Rightarrow> string list \<Rightarrow> string list \<Rightarrow> string list \<Rightarrow> string list \<Rightarrow> work_graph_request \<Rightarrow> string run" where
  "begin_node_with_work_graph e goal compile test verify expected request =
     bnd lock (\<lambda>_.
     bnd (detect_profile e) (\<lambda>profile.
     let commands = resolve_profile profile compile test verify in
     bnd lock (\<lambda>_.
     bnd (gets rt_session) (\<lambda>ss.
     bnd (require_some (current_turn_record ss) NoActiveTurn) (\<lambda>turn.
     bnd (case current_node_of ss of
            None \<Rightarrow> ret ()
          | Some n \<Rightarrow> if xn_status n \<in> {Verified, NodeFailed} then ret () else throw (NodeNotTerminal (xn_status n))) (\<lambda>_.
     bnd (gets rt_work) (\<lambda>ws.
     bnd (lift_result (next_node_id ss ws)) (\<lambda>node_id.
     bnd (ask (env_now e)) (\<lambda>now.
     install_node e
       \<lparr>xn_id = node_id,
        xn_contract = \<lparr>xc_goal = goal, xc_verify_commands = rc_verify commands,
                       xc_compile_commands = rc_compile commands, xc_test_commands = rc_test commands,
                       xc_profile = profile, xc_expected_files = expected\<rparr>,
        xn_status = Running, xn_start_turn_id = tr_turn_id turn, xn_retry_count = 0,
        xn_verify_log_path = [], xn_created_at = now\<rparr>
       request)))))))))"

definition begin_node_with_anchors ::
    "env \<Rightarrow> string \<Rightarrow> string list \<Rightarrow> string list \<Rightarrow> string list \<Rightarrow> string list \<Rightarrow> string run" where
  "begin_node_with_anchors e goal compile test verify expected =
     begin_node_with_work_graph e goal compile test verify expected default_request"

definition begin_node :: "env \<Rightarrow> string \<Rightarrow> string list \<Rightarrow> string list \<Rightarrow> string run" where
  "begin_node e goal verify expected = begin_node_with_anchors e goal [] [] verify expected"

section \<open>Verification of a node\<close>

definition verify_node :: "env \<Rightarrow> node_verify_result run" where
  "verify_node e =
     bnd lock (\<lambda>_.
     bnd (gets (\<lambda>s. current_node_of (rt_session s))) (\<lambda>n.
     bnd (require_some n NoCurrentNode) (\<lambda>node.
     if xn_status node \<noteq> Running \<and> xn_status node \<noteq> NodeFailed
     then throw (NodeNotVerifiable (xn_status node))
     else
       bnd lock (\<lambda>_.
       bnd (update_node_status e (xn_id node) Verifying) (\<lambda>_.
       bnd (verify_and_complete e (xc_verify_commands (xn_contract node))
              (xc_expected_files (xn_contract node))) (\<lambda>result.
       bnd lock (\<lambda>_.
       if vr_success result
       then
         bnd (set_status e InProgress) (\<lambda>_.
         bnd (update_node_status e (xn_id node) Verified) (\<lambda>_.
         bnd (gets (\<lambda>s. current_node_of (rt_session s))) (\<lambda>cur.
         case cur of
           None \<Rightarrow> panic
         | Some n' \<Rightarrow>
             bnd (write_field e (set_verify_result Verification (project_outcome result))) (\<lambda>_.
             bnd (capture_current_work_state e) (\<lambda>_.
             bnd (effect (HookPostNode (xn_id n') True)) (\<lambda>_.
             ret \<lparr>nvr_status = Verified, nvr_retry_count = 0, nvr_failure_reason = None\<rparr>))))))
       else
         bnd (update_node_status e (xn_id node) NodeFailed) (\<lambda>_.
         bnd (increment_node_retry e (xn_id node)) (\<lambda>_.
         bnd (gets (\<lambda>s. current_node_of (rt_session s))) (\<lambda>cur.
         case cur of
           None \<Rightarrow> panic
         | Some n' \<Rightarrow>
             bnd (write_field e (set_verify_result Verification (project_outcome result))) (\<lambda>_.
             bnd (capture_current_work_state e) (\<lambda>_.
             bnd (read_work (\<lambda>ws. get_verify_result ws Verification)) (\<lambda>outcome.
             bnd (require_some outcome VerifyResultMissing) (\<lambda>v.
             bnd (when_m (env_auto_retry_max e \<le> xn_retry_count n') (set_status e SessionFailed)) (\<lambda>_.
             bnd (effect (HookPostNode (xn_id n') False)) (\<lambda>_.
             ret \<lparr>nvr_status = NodeFailed, nvr_retry_count = xn_retry_count n',
                  nvr_failure_reason = vo_fail_reason v\<rparr>))))))))))))))))"

definition has_pending_units :: "work_state \<Rightarrow> bool" where
  "has_pending_units ws \<longleftrightarrow> list_ex (\<lambda>u. du_outcome u = None) (ws_decomposed_units ws)"

text \<open>The units of the node, when some are pending; true when the node escalated on them.\<close>

definition verify_pending_units :: "env \<Rightarrow> bool \<Rightarrow> bool run" where
  "verify_pending_units e pending =
     (if \<not> pending then ret False
      else
        bnd (run_decomposed_units e) (\<lambda>units.
        if urr_parent_route units \<noteq> StepEscalate then ret False
        else
          bnd (complete_work_graph_route e StepEscalate) (\<lambda>_.
          bnd lock (\<lambda>_.
          bnd (gets (\<lambda>s. current_node_of (rt_session s))) (\<lambda>n.
          bnd (case n of None \<Rightarrow> ret () | Some node \<Rightarrow> update_node_status e (xn_id node) NodeFailed) (\<lambda>_.
          ret True))))))"

definition verify_current_node :: "env \<Rightarrow> verification_outcome run" where
  "verify_current_node e =
     bnd lock (\<lambda>_.
     bnd (gets (\<lambda>s. current_node_of (rt_session s))) (\<lambda>n.
     bnd (require_some n NoCurrentNode) (\<lambda>node.
     bnd (gets (\<lambda>s. has_pending_units (rt_work s))) (\<lambda>pending.
     bnd (verify_pending_units e pending) (\<lambda>escalated.
     if escalated then ret (OutcomeWorkGraph StepEscalate)
     else if xc_compile_commands (xn_contract node) = [] \<and> xc_test_commands (xn_contract node) = []
     then bnd (verify_node e) (\<lambda>r. ret (OutcomeLegacy r))
     else
       bnd (run_work_graph e (xc_compile_commands (xn_contract node)) (xc_test_commands (xn_contract node))
              (xc_verify_commands (xn_contract node)) (xc_expected_files (xn_contract node))) (\<lambda>step.
       bnd (when_m (step = StepComplete) (finish_verified e)) (\<lambda>_.
       ret (OutcomeWorkGraph step))))))))"

section \<open>Rollback of a node\<close>

definition rollback_anchor :: "exec_node list \<Rightarrow> exec_node option" where
  "rollback_anchor ns = find (\<lambda>n. xn_status n \<in> {Verified, NodeFailed}) (rev ns)"

definition rollback_turn :: "exec_node list \<Rightarrow> string \<Rightarrow> rt_error + string" where
  "rollback_turn ns anchor =
     (case position (\<lambda>n. xn_id n = anchor) ns of
        Some idx \<Rightarrow>
          if idx + 1 < length ns then Inr (xn_start_turn_id (ns ! (idx + 1)))
          else if xn_status (ns ! idx) = NodeFailed then Inr (xn_start_turn_id (ns ! idx))
          else Inl (NothingAfterAnchor anchor)
      | None \<Rightarrow> Inl (NothingAfterAnchor anchor))"

definition reapply_audit :: "graph_audit_event list \<Rightarrow> work_state \<Rightarrow> work_state" where
  "reapply_audit before ws =
     fold append_graph_audit (filter (\<lambda>ev. ev \<notin> set (ws_graph_audit ws)) before) ws"

definition rollback_node :: "env \<Rightarrow> node_rollback_result run" where
  "rollback_node e =
     bnd lock (\<lambda>_.
     bnd (gets (\<lambda>s. ss_node_states (rt_session s))) (\<lambda>ns.
     bnd (require_some (rollback_anchor ns) NoRollbackAnchor) (\<lambda>anchor.
     bnd (lift_result (rollback_turn ns (xn_id anchor))) (\<lambda>turn.
     bnd (gets rt_work) (\<lambda>before.
     bnd (rollback_to e turn) (\<lambda>_.
     bnd (gets (\<lambda>s. find (\<lambda>n. xn_id n = xn_id anchor) (ss_node_states (rt_session s)))) (\<lambda>again.
     bnd (if (case again of None \<Rightarrow> False | Some n \<Rightarrow> xn_status n = NodeFailed)
          then truncate_nodes_after_inclusive e (xn_id anchor)
          else truncate_nodes_after e (xn_id anchor)) (\<lambda>removed.
     bnd (when_m (ws_decomposed_units before \<noteq> [])
            (write_field e (set_budget GeneralPurpose
               (case ws_pre_decompose_budget before of
                  Some b \<Rightarrow> b
                | None \<Rightarrow> \<lparr>max_iter = 1, iter_used = 0, token_used = 0\<rparr>)))) (\<lambda>_.
     bnd (modify_work clear_decomposition) (\<lambda>_.
     bnd (modify_work (reapply_audit (ws_graph_audit before))) (\<lambda>_.
     ret \<lparr>nrr_rolled_back_to = xn_id anchor, nrr_removed_nodes = removed\<rparr>)))))))))))"

section \<open>Every handler keeps the session invariant\<close>

context store_blind
begin

lemma obeys_append_audit: "obeys R (append_audit e ev)"
  unfolding append_audit_def by (intro store_rules)

lemma obeys_write_field: "obeys R (write_field e f)"
  unfolding write_field_def by (intro store_rules)

lemma obeys_consume: "obeys R (consume_iteration_budget e)"
  unfolding consume_iteration_budget_def by (intro store_rules obeys_write_field)

lemma obeys_adaptation_case:
  "obeys R a \<Longrightarrow> (\<And>x. obeys R (f x)) \<Longrightarrow> (\<And>x. obeys R (g x)) \<Longrightarrow>
   obeys R (case y of Unchanged \<Rightarrow> a | EscalateAdaptation x \<Rightarrow> f x | Splice x \<Rightarrow> g x)"
  by (cases y) simp_all

lemma obeys_apply_anchor_adaptation: "obeys R (apply_anchor_adaptation e ctx)"
  unfolding apply_anchor_adaptation_def
  by (intro store_rules obeys_adaptation_case obeys_append_audit)

lemma obeys_record_route: "obeys R (record_route e ctx st)"
  unfolding record_route_def by (intro store_rules obeys_append_audit)

lemma obeys_record_anchor:
  "obeys R (record_compile_result e ctx cr rs)" "obeys R (record_test_result e ctx tr rs)"
  "obeys R (record_verify_result e ctx vr)"
  unfolding record_compile_result_def record_test_result_def record_verify_result_def
  by (intro store_rules obeys_write_field obeys_consume obeys_append_audit
      obeys_apply_anchor_adaptation obeys_record_route)+

lemma obeys_prepare_pass: "obeys R (prepare_work_graph_pass e)"
  unfolding prepare_work_graph_pass_def by (intro store_rules obeys_write_field)

lemma obeys_unit_attempts: "obeys R (unit_attempts k e i cs used l)"
proof (induction k arbitrary: used l)
  case 0
  show ?case unfolding unit_attempts.simps by (rule obeys_pure)
next
  case (Suc k)
  show ?case
    unfolding unit_attempts.simps Let_def
    by (intro store_rules obeys_run_anchor_commands obeys_append_audit Suc.IH)
qed

lemma obeys_run_unit: "obeys R (run_unit e i u)"
  unfolding run_unit_def Let_def by (intro store_rules obeys_unit_attempts)

lemma obeys_run_decomposed_units: "obeys R (run_decomposed_units e)"
  unfolding run_decomposed_units_def by (intro store_rules obeys_run_unit obeys_consume)

lemmas node_store_rules = store_rules obeys_append_audit obeys_write_field obeys_consume
  obeys_record_route obeys_record_anchor obeys_prepare_pass obeys_run_anchor_commands
  obeys_verify_for_work_graph obeys_run_decomposed_units

end

lemma complete_work_graph_route_wf: "obeys (keeps rt_wf) (complete_work_graph_route e st)"
  unfolding complete_work_graph_route_def
  by (cases st) (auto intro!: wf.session_rules wf.gate_rules update_terminal_wf)

lemma escalate_current_work_graph_wf: "obeys (keeps rt_wf) (escalate_current_work_graph e)"
  unfolding escalate_current_work_graph_def
  by (intro invariant.obeys_rules complete_work_graph_route_wf)

lemma run_work_graph_wf: "obeys (keeps rt_wf) (run_work_graph e c t v x)"
  unfolding run_work_graph_def by (intro wf.node_store_rules complete_work_graph_route_wf)

lemma finish_verified_wf: "obeys (keeps rt_wf) (finish_verified e)"
  unfolding finish_verified_def by (intro wf.session_rules update_terminal_wf) simp

lemma record_human_review_wf: "obeys (keeps rt_wf) (record_human_review e r)"
  unfolding record_human_review_def
  by (intro wf.node_store_rules complete_work_graph_route_wf finish_verified_wf)

lemma verify_pending_units_wf: "obeys (keeps rt_wf) (verify_pending_units e b)"
  unfolding verify_pending_units_def
  by (intro wf.node_store_rules complete_work_graph_route_wf update_terminal_wf) simp

lemma current_node_of_id: "current_node_of ss = Some n \<Longrightarrow> ss_current_node ss = Some (xn_id n)"
  by (auto simp: current_node_of_def dest: find_in_set split: option.splits)

lemma triple_bnd_session_field:
  "triple (at_session ss) (k (f ss)) Q E \<Longrightarrow>
   triple (at_session ss) (bnd (gets (\<lambda>s. f (rt_session s))) k) Q E"
  by (auto simp: triple_def at_session_def)

lemma triple_set_verifying:
  assumes "session_wf ss" and "current_node_of ss = Some n" and "\<And>x. obeys (keeps rt_wf) (k x)"
  shows "triple (at_session ss) (bnd (update_node_status e (xn_id n) Verifying) k) (\<lambda>_. rt_wf) rt_wf"
  by (intro triple_bnd [OF set_verifying_wf [OF assms(1) current_node_of_id [OF assms(2)]]] triple_kept assms(3))

lemma verify_node_wf: "obeys (keeps rt_wf) (verify_node e)"
proof (rule obeys_from_session)
  fix ss assume "session_wf ss"
  then show "triple (at_session ss) (verify_node e) (\<lambda>_. rt_wf) rt_wf"
    unfolding verify_node_def
    by (intro triple_bnd [OF triple_keep_session [OF at_session.obeys_lock]] triple_bnd_session_field
          triple_require_some triple_if triple_throw triple_set_verifying
          wf.node_store_rules wf.session_rules wf.gate_rules update_terminal_wf increment_node_retry_wf)
      (auto dest: at_session_wf)
qed

lemma verify_current_node_wf: "obeys (keeps rt_wf) (verify_current_node e)"
  unfolding verify_current_node_def
  by (intro wf.session_rules verify_pending_units_wf verify_node_wf run_work_graph_wf finish_verified_wf)

lemma rollback_node_wf: "obeys (keeps rt_wf) (rollback_node e)"
  unfolding rollback_node_def
  by (intro wf.node_store_rules rollback_to_wf truncate_nodes_after_wf truncate_nodes_after_inclusive_wf)

section \<open>Fresh node identities\<close>

lemma numeric_node_id_show: "n < 2 ^ 64 \<Longrightarrow> numeric_node_id (''n'' @ show_nat n) = Some n"
  by (simp add: numeric_node_id_def parse_u64_show show_nat_nonempty)

lemma max_or_map_filter_ge:
  assumes "x \<in> set xs" and "f x = Some (n :: nat)"
  shows "n \<le> max_or 0 (List.map_filter f xs)"
proof -
  have "n \<in> set (List.map_filter f xs)" using assms by (force simp: List.map_filter_def)
  then show ?thesis by (rule max_or_ge)
qed

lemma next_node_id_fresh:
  assumes "next_node_id ss ws = Inr i"
  shows "i \<notin> set (known_node_ids ss ws)"
proof
  assume known: "i \<in> set (known_node_ids ss ws)"
  let ?m = "max_or 0 (List.map_filter numeric_node_id (known_node_ids ss ws))"
  have i: "i = ''n'' @ show_nat (?m + 1)" and bound: "?m + 1 < 2 ^ 64"
    using assms by (auto simp: next_node_id_def Let_def split: if_splits)
  have "?m + 1 \<le> ?m" using max_or_map_filter_ge [OF known] i numeric_node_id_show [OF bound] by metis
  then show False by simp
qed

lemma current_node_terminal:
  assumes "session_wf ss" and "\<And>n. current_node_of ss = Some n \<Longrightarrow> terminal_node n"
  shows "\<forall>m\<in>set (ss_node_states ss). terminal_node m"
proof (cases "ss_current_node ss")
  case None
  then show ?thesis using assms(1) by (simp add: session_wf_def nodes_wf_def)
next
  case (Some i)
  let ?ns = "ss_node_states ss"
  have wf: "nodes_wf (ss_turns ss) ?ns (Some i)" using assms(1) Some by (simp add: session_wf_def)
  then have ne: "?ns \<noteq> []" and i: "xn_id (last ?ns) = i" by (auto simp: nodes_wf_def)
  have "last ?ns \<in> set ?ns" using ne by simp
  then have "find (\<lambda>n. xn_id n = i) ?ns \<noteq> None" using i by (subst find_None_iff) blast
  then obtain n where n: "find (\<lambda>n. xn_id n = i) ?ns = Some n" by auto
  then have "n \<in> set ?ns" "xn_id n = xn_id (last ?ns)" using i find_in_set by fastforce+
  then have "n = last ?ns" using wf ne by (auto simp: nodes_wf_def distinct_map inj_on_def)
  moreover have "terminal_node n" using assms(2) n Some by (simp add: current_node_of_def)
  ultimately show ?thesis
    using wf ne by (metis Some append_butlast_last_id in_set_conv_decomp_last nodes_wf_butlast
        rotate1.simps(2) set_ConsD set_rotate1)
qed

lemma obeys_detect_profile: "obeys (keeps (at_session ss)) (detect_profile e)"
  unfolding detect_profile_def by (intro at_session.store_rules)

lemma install_node_wf:
  assumes "session_wf ss" and "current_turn_record ss = Some turn"
    and "xn_start_turn_id n = tr_turn_id turn" and "next_node_id ss ws = Inr (xn_id n)"
    and "\<And>m. current_node_of ss = Some m \<Longrightarrow> xn_status m \<in> {Verified, NodeFailed}"
  shows "triple (at_session ss) (install_node e n r) (\<lambda>_. rt_wf) rt_wf"
proof -
  have start: "xn_start_turn_id n \<in> tr_turn_id ` set (ss_turns ss)"
    using assms(2,3) by (auto simp: current_turn_record_def dest: find_in_set split: option.splits)
  have fresh: "xn_id n \<notin> xn_id ` set (ss_node_states ss)"
    using next_node_id_fresh [OF assms(4)] by (auto simp: known_node_ids_def)
  have fin: "\<forall>m\<in>set (ss_node_states ss). terminal_node m"
    using assms(5) by (intro current_node_terminal [OF assms(1)]) (auto simp: terminal_node_def)
  show ?thesis
    unfolding install_node_def
    by (intro triple_bnd [OF triple_keep_session [OF at_session.obeys_effect]]
        triple_bnd [OF add_node_wf [OF assms(1) fresh start fin]] triple_kept wf.node_store_rules)
qed

lemma begin_node_with_work_graph_wf:
  "obeys (keeps rt_wf) (begin_node_with_work_graph e goal c t v x r)"
proof (rule obeys_from_session)
  fix ss assume "session_wf ss"
  then show "triple (at_session ss) (begin_node_with_work_graph e goal c t v x r) (\<lambda>_. rt_wf) rt_wf"
    unfolding begin_node_with_work_graph_def Let_def
    by (intro triple_bnd [OF triple_keep_session [OF at_session.obeys_lock]] triple_bnd_session
          triple_bnd [OF triple_keep_session [OF obeys_detect_profile]] triple_bnd_gets_any
          triple_require_some triple_guard_option triple_lift_result
          triple_bnd [OF triple_keep_session [OF at_session.obeys_ask]] install_node_wf)
      (auto dest: at_session_wf)
qed

end
