(* ===== verification/Node_Lifecycle.thy ===== *)
theory Node_Lifecycle
  imports Node_Runtime
begin

text \<open>
  What the node-level handlers achieve: the audit trail only grows, a finished pass of the work
  graph is charged to the iteration budget and completes only on evidence, a human-review gate
  is never bypassed, and what rollback and begin-node leave behind.
\<close>

section \<open>Handlers only append to the ledger\<close>

text \<open>
  The ledger of a session: the audit trail, the requirement, the child bindings and the graph
  depth. No handler but a rollback may rewrite it.
\<close>

definition same_ledger :: "work_state \<Rightarrow> work_state \<Rightarrow> bool" where
  "same_ledger w w' \<longleftrightarrow>
     ws_graph_audit w' = ws_graph_audit w \<and> ws_requirement w' = ws_requirement w \<and>
     ws_graph_child_bindings w' = ws_graph_child_bindings w \<and> ws_graph_depth w' = ws_graph_depth w"

locale handler_relation = work_relation R for R :: "rt \<Rightarrow> rt \<Rightarrow> bool" +
  assumes R_audit: "R s (s\<lparr>rt_work := append_graph_audit ev (rt_work s)\<rparr>)"
    and R_products: "same_ledger (rt_work s) w \<Longrightarrow> R s (s\<lparr>rt_work := w\<rparr>)"
    and R_poison: "R s (s\<lparr>rt_poisoned := True\<rparr>)"
begin

lemma obeys_panic: "obeys R panic"
  unfolding panic_def by (intro work_rules obeys_updI R_poison)

lemma obeys_modify_products: "(\<And>w. same_ledger w (f w)) \<Longrightarrow> obeys R (modify_work f)"
  by (auto simp: obeys_def modify_work_def R_products)

lemma obeys_on_products: "(\<And>w. same_ledger w (snd (m w))) \<Longrightarrow> obeys R (on_work m)"
  unfolding obeys_def on_work_def
  by (metis (mono_tags, lifting) R_products prod.case_eq_if sum.case_eq_if snd_conv)

lemma obeys_append_audit: "obeys R (append_audit e ev)"
  unfolding append_audit_def modify_work_def by (intro work_rules obeys_updI R_audit)

lemma obeys_write_field:
  "(\<And>now w. same_ledger w (snd (f now w))) \<Longrightarrow> obeys R (write_field e f)"
  unfolding write_field_def by (intro work_rules obeys_on_products)

lemma same_ledger_setters:
  "same_ledger w (snd (set_compile_result c cr now w))" "same_ledger w (snd (set_test_result c tr now w))"
  "same_ledger w (snd (set_verify_result c vr now w))" "same_ledger w (snd (set_budget c b now w))"
  "same_ledger w (snd (set_human_review c h now w))" "same_ledger w (snd (set_generated_diff c d now w))"
  by (simp_all add: guarded_write_runs same_ledger_def)

lemma same_ledger_ops:
  "same_ledger w (set_selected_work_graph p w)" "same_ledger w (reset_for_work_graph_pass w)"
  "same_ledger w (reset_for_new_node w)" "same_ledger w (push_unit_report r w)"
  "same_ledger w (clear_decomposition w)" "same_ledger w (snd (record_unit_outcome i o' a w))"
  by (simp_all add: same_ledger_def coordinator_op_defs record_unit_outcome_def)

lemmas product_rules = obeys_append_audit obeys_write_field [OF same_ledger_setters(1)]
  obeys_write_field [OF same_ledger_setters(2)] obeys_write_field [OF same_ledger_setters(3)]
  obeys_write_field [OF same_ledger_setters(4)] obeys_write_field [OF same_ledger_setters(5)]
  obeys_write_field [OF same_ledger_setters(6)] obeys_modify_products [OF same_ledger_ops(1)]
  obeys_modify_products [OF same_ledger_ops(2)] obeys_modify_products [OF same_ledger_ops(3)]
  obeys_modify_products [OF same_ledger_ops(4)] obeys_on_products [OF same_ledger_ops(6)]

lemma obeys_consume: "obeys R (consume_iteration_budget e)"
  unfolding consume_iteration_budget_def by (intro work_rules product_rules)

lemma obeys_adaptation_case:
  "obeys R a \<Longrightarrow> (\<And>x. obeys R (f x)) \<Longrightarrow> (\<And>x. obeys R (g x)) \<Longrightarrow>
   obeys R (case y of Unchanged \<Rightarrow> a | EscalateAdaptation x \<Rightarrow> f x | Splice x \<Rightarrow> g x)"
  by (cases y) simp_all

lemma obeys_apply_anchor_adaptation: "obeys R (apply_anchor_adaptation e ctx)"
  unfolding apply_anchor_adaptation_def
  by (intro work_rules obeys_adaptation_case product_rules)

lemma obeys_record_route: "obeys R (record_route e ctx st)"
  unfolding record_route_def by (intro work_rules product_rules)

lemma obeys_record_anchor:
  "obeys R (record_compile_result e ctx cr rs)" "obeys R (record_test_result e ctx tr rs)"
  "obeys R (record_verify_result e ctx vr)"
  unfolding record_compile_result_def record_test_result_def record_verify_result_def
  by (intro work_rules product_rules obeys_consume obeys_apply_anchor_adaptation obeys_record_route)+

lemma obeys_complete_route: "obeys R (complete_work_graph_route e st)"
  unfolding complete_work_graph_route_def by (cases st) (auto intro!: work_rules gate_rules)

lemma obeys_run_work_graph: "obeys R (run_work_graph e c t v x)"
  unfolding run_work_graph_def prepare_work_graph_pass_def
  by (intro work_rules product_rules gate_rules obeys_record_anchor obeys_complete_route)

lemma obeys_unit_attempts: "obeys R (unit_attempts k e i cs used l)"
proof (induction k arbitrary: used l)
  case 0
  show ?case unfolding unit_attempts.simps by (rule obeys_pure)
next
  case (Suc k)
  show ?case
    unfolding unit_attempts.simps Let_def by (intro work_rules gate_rules product_rules Suc.IH)
qed

lemma obeys_run_decomposed_units: "obeys R (run_decomposed_units e)"
  unfolding run_decomposed_units_def run_unit_def Let_def
  by (intro work_rules obeys_unit_attempts product_rules obeys_consume)

lemma obeys_finish_verified: "obeys R (finish_verified e)"
  unfolding finish_verified_def by (intro work_rules)

lemma obeys_record_human_review: "obeys R (record_human_review e r)"
  unfolding record_human_review_def
  by (intro work_rules product_rules obeys_record_route obeys_complete_route obeys_finish_verified)

lemma obeys_begin_node: "obeys R (begin_node_with_work_graph e g c t v x r)"
  unfolding begin_node_with_work_graph_def install_node_def detect_profile_def Let_def
  by (intro work_rules product_rules)

lemma obeys_verify_node: "obeys R (verify_node e)"
  unfolding verify_node_def by (intro work_rules gate_rules product_rules obeys_panic)

lemma obeys_verify_current_node: "obeys R (verify_current_node e)"
  unfolding verify_current_node_def verify_pending_units_def
  by (intro work_rules obeys_verify_node obeys_run_work_graph obeys_run_decomposed_units
      obeys_finish_verified obeys_complete_route)

lemma obeys_escalate: "obeys R (escalate_current_work_graph e)"
  unfolding escalate_current_work_graph_def by (intro work_rules obeys_complete_route)

end

definition audit_grows :: "rt \<Rightarrow> rt \<Rightarrow> bool" where
  "audit_grows s t \<longleftrightarrow>
     prefix (ws_graph_audit (rt_work s)) (ws_graph_audit (rt_work t)) \<and>
     ws_requirement (rt_work t) = ws_requirement (rt_work s) \<and>
     ws_graph_child_bindings (rt_work t) = ws_graph_child_bindings (rt_work s) \<and>
     ws_graph_depth (rt_work t) = ws_graph_depth (rt_work s)"

interpretation ledger: handler_relation audit_grows
  by unfold_locales (auto simp: audit_grows_def same_ledger_def append_graph_audit_def)

interpretation fixed_work: work_relation "keeps (\<lambda>s. rt_work s = w)" for w
  by unfold_locales (auto simp: keeps_def)

text \<open>A new turn replaces the work state by the inherited one, or fails before or after doing so.\<close>

lemma fixed_work_step:
  assumes "obeys (keeps (\<lambda>s. rt_work s = w)) m" and "\<And>s. rt_work s = w \<Longrightarrow> E s"
    and "\<And>x. triple (\<lambda>s. rt_work s = w) (k x) Q E"
  shows "triple (\<lambda>s. rt_work s = w) (bnd m k) Q E"
  using assms by (intro triple_bnd [OF triple_obeys])

lemma fixed_work_checkpoint: "obeys (keeps (\<lambda>s. rt_work s = w)) (checkpoint_begin_turn e c)"
  unfolding checkpoint_begin_turn_def
  by (intro fixed_work.work_rules obeys_updI) (simp add: keeps_def)

lemma inherit_and_capture:
  "triple (\<lambda>s. rt_work s = w)
     (bnd (modify_work (\<lambda>_. w')) (\<lambda>_. bnd (capture_current_work_state e) (\<lambda>_. ret x)))
     (\<lambda>_ t. rt_work t = w') (\<lambda>t. rt_work t = w \<or> rt_work t = w')"
proof (rule triple_bnd [where Q = "\<lambda>_ s. rt_work s = w'"])
  show "triple (\<lambda>s. rt_work s = w) (modify_work (\<lambda>_. w')) (\<lambda>_ s. rt_work s = w')
      (\<lambda>t. rt_work t = w \<or> rt_work t = w')"
    by (simp add: triple_def modify_work_def)
  show "triple (\<lambda>s. rt_work s = w') (bnd (capture_current_work_state e) (\<lambda>_. ret x))
      (\<lambda>_ t. rt_work t = w') (\<lambda>t. rt_work t = w \<or> rt_work t = w')"
    by (intro triple_obeys fixed_work.work_rules) simp
qed

lemma triple_bnd_work:
  "triple (\<lambda>s. rt_work s = w) (k (f w)) Q E \<Longrightarrow>
   triple (\<lambda>s. rt_work s = w) (bnd (gets (\<lambda>s. f (rt_work s))) k) Q E"
  by (auto simp: triple_def)

lemma begin_turn_work:
  "triple (\<lambda>s. rt_work s = w) (begin_turn e) (\<lambda>_ t. rt_work t = inherit_for_new_turn w)
     (\<lambda>t. rt_work t = w \<or> rt_work t = inherit_for_new_turn w)"
  unfolding begin_turn_def Let_def
  apply (rule triple_bnd_work)
  apply (rule triple_bnd_gets_any)
  apply (rule fixed_work_step [OF fixed_work.obeys_ask], simp)
  apply (rule fixed_work_step [OF fixed_work_checkpoint], simp)
  apply (rule fixed_work_step [OF fixed_work.obeys_record_git_state], simp)
  apply (rule triple_case_prod)
  apply (rule fixed_work_step [OF fixed_work.obeys_ask], simp)
  apply (rule fixed_work_step [OF fixed_work.obeys_modify_session], simp)
  apply (rule fixed_work_step [OF fixed_work.obeys_save_session], simp)
  apply (rule inherit_and_capture)
  done

lemma begin_turn_ledger: "obeys audit_grows (begin_turn e)"
proof (rule obeysI)
  fix s
  have led: "audit_grows s t" if "rt_work t = rt_work s \<or> rt_work t = inherit_for_new_turn (rt_work s)" for t
    using that by (auto simp: audit_grows_def inherit_for_new_turn_def)
  obtain r t where run: "begin_turn e s = (r, t)" by fastforce
  show "audit_grows s (snd (begin_turn e s))"
  proof (cases r)
    case (Inl err)
    then show ?thesis using run led triple_failD [OF begin_turn_work refl] by simp
  next
    case (Inr turn)
    then show ?thesis using run led tripleD [OF begin_turn_work refl] by simp
  qed
qed

text \<open>
  C16: whatever a handler does, and whether it returns or fails half way, the audit trail of the
  session keeps all its events in order and only gets new ones at its end; the requirement, the
  child bindings and the graph depth are left alone. (Rolling back is the exception.)
\<close>

theorem handlers_append_only:
  "audit_grows s (snd (begin_turn e s)) \<and>
   audit_grows s (snd (begin_node_with_work_graph e goal cs ts vs fs req s)) \<and>
   audit_grows s (snd (run_work_graph e cs ts vs fs s)) \<and>
   audit_grows s (snd (run_decomposed_units e s)) \<and>
   audit_grows s (snd (verify_node e s)) \<and>
   audit_grows s (snd (verify_current_node e s)) \<and>
   audit_grows s (snd (record_human_review e review s)) \<and>
   audit_grows s (snd (escalate_current_work_graph e s)) \<and>
   audit_grows s (snd (mark_unverified_if_incomplete e s))"
  by (intro conjI obeysD [OF begin_turn_ledger] obeysD [OF ledger.obeys_begin_node]
      obeysD [OF ledger.obeys_run_work_graph] obeysD [OF ledger.obeys_run_decomposed_units]
      obeysD [OF ledger.obeys_verify_node] obeysD [OF ledger.obeys_verify_current_node]
      obeysD [OF ledger.obeys_record_human_review] obeysD [OF ledger.obeys_escalate]
      obeysD [OF ledger.obeys_mark_unverified])

section \<open>Runs of the building blocks\<close>

definition charge :: "budget \<Rightarrow> budget" where
  "charge b = b\<lparr>iter_used := saturating_add (iter_used b) 1\<rparr>"

text \<open>States that agree up to the clock and the checkpoint directory.\<close>

definition saved :: "rt \<Rightarrow> rt \<Rightarrow> bool" where
  "saved s t \<longleftrightarrow> t = s\<lparr>rt_tick := rt_tick t, rt_ckpts := rt_ckpts t\<rparr>"

lemma saved_fields:
  assumes "saved s t"
  shows "rt_work t = rt_work s" "rt_session t = rt_session s" "rt_log t = rt_log s"
    "rt_poisoned t = rt_poisoned s" "rt_effects t = rt_effects s" "rt_disk_session t = rt_disk_session s"
  using assms by (cases s; cases t; simp add: saved_def)+

lemma capture_run: "capture_current_work_state e s = (Inr x, t) \<Longrightarrow> saved s t"
  by (auto simp: capture_current_work_state_def saved_def bnd_Inr_iff io_def ask_def require_some_def
      split: option.splits if_splits)

lemma append_audit_run:
  "append_audit e ev s =
     (Inr (), s\<lparr>rt_tick := Suc (rt_tick s), rt_work := append_graph_audit (ev (env_now e (rt_tick s))) (rt_work s)\<rparr>)"
  by (simp add: append_audit_def bnd_def ask_def modify_work_def)

lemma write_field_run:
  "write_field e f s = (case f (env_now e (rt_tick s)) (rt_work s) of
     (Inl er, w) \<Rightarrow> (Inl (ContractFailed er), s\<lparr>rt_tick := Suc (rt_tick s), rt_work := w\<rparr>)
   | (Inr x, w) \<Rightarrow> (Inr x, s\<lparr>rt_tick := Suc (rt_tick s), rt_work := w\<rparr>))"
  by (simp add: write_field_def bnd_def ask_def on_work_def split: prod.split sum.split)

lemma read_work_run: "read_work f s = (Inr x, t) \<longleftrightarrow> f (rt_work s) = Inr x \<and> t = s"
  by (auto simp: read_work_def split: sum.splits)

lemma consume_run:
  "consume_iteration_budget e s = (Inr x, t) \<longleftrightarrow>
   (\<exists>b. ws_budget (rt_work s) = Some b \<and>
     t = s\<lparr>rt_tick := Suc (rt_tick s), rt_work := push_step GeneralPurpose FieldBudget ActionWrote
            (env_now e (rt_tick s)) ((rt_work s)\<lparr>ws_budget := Some (charge b)\<rparr>)\<rparr>)"
  by (auto simp: consume_iteration_budget_def bnd_Inr_iff read_work_run write_field_run charge_def
      require_some_def split: option.splits)

text \<open>What routing looks at.\<close>

definition route_view :: "work_state \<Rightarrow> _" where
  "route_view w = (ws_compile_result w, ws_test_result w, ws_verify_result w, ws_human_review w,
     ws_budget w, ws_specialist_reports w, ws_selected_work_graph w)"

lemma next_step_view:
  assumes "route_view w = route_view w'"
  shows "next_step w = next_step w'"
proof -
  have edge: "require_plan_edge w = require_plan_edge w'"
    using assms by (intro ext) (simp add: route_view_def require_plan_edge_def)
  then have retry: "retry_or_escalate w = retry_or_escalate w'"
    using assms by (simp add: route_view_def retry_or_escalate_unfold)
  have role: "selected_plan_has_role w = selected_plan_has_role w'"
    using assms by (intro ext) (simp add: route_view_def selected_plan_has_role_def)
  have reads: "get_compile_result w Verification = get_compile_result w' Verification"
    "get_test_result w Verification = get_test_result w' Verification"
    "get_verify_result w Verification = get_verify_result w' Verification"
    "get_human_review w HumanReviewNode = get_human_review w' HumanReviewNode"
    using assms by (simp_all add: route_view_def)
  show ?thesis unfolding next_step_def reads edge retry role ..
qed

lemma record_route_run:
  assumes "record_route e ctx st s = (Inr x, t)"
  shows "\<exists>now. rt_work t = append_graph_audit (route_audit_event ctx st (ws_budget (rt_work s)) now) (rt_work s)"
    "rt_session t = rt_session s" "rt_log t = rt_log s" "rt_poisoned t = rt_poisoned s"
  using assms
  by (auto simp: record_route_def bnd_Inr_iff read_work_run append_audit_run saved_fields
      dest!: capture_run)

lemma route_view_append [simp]: "route_view (append_graph_audit ev w) = route_view w"
  by (simp add: route_view_def append_graph_audit_def)

section \<open>The three anchors\<close>

lemma require_some_run: "require_some y er s = (Inr x, t) \<longleftrightarrow> y = Some x \<and> t = s"
  by (cases y) auto

lemma when_run: "when_m b m s = (Inr x, t) \<longleftrightarrow> (if b then m s = (Inr x, t) else t = s)"
  by (cases x) (auto simp: when_m_def)

lemma record_compile_run:
  assumes "record_compile_result e ctx cr rs s = (Inr st, t)"
  shows "next_step (rt_work t) = Inr st"
    "route_view (rt_work t) = (Some cr, ws_test_result (rt_work s), ws_verify_result (rt_work s),
       ws_human_review (rt_work s),
       (if cr_ok cr then ws_budget (rt_work s) else map_option charge (ws_budget (rt_work s))),
       ws_specialist_reports (rt_work s), ws_selected_work_graph (rt_work s))"
    "rt_session t = rt_session s" "rt_log t = rt_log s"
proof -
  obtain s2 s3 s4 now where
    budget: "when_m (\<not> cr_ok cr) (consume_iteration_budget e)
      (s\<lparr>rt_tick := Suc (rt_tick s), rt_work := push_step Verification FieldCompileResult ActionWrote
          (env_now e (rt_tick s)) ((rt_work s)\<lparr>ws_compile_result := Some cr\<rparr>)\<rparr>) = (Inr (), s2)"
    and cap: "capture_current_work_state e (s2\<lparr>rt_tick := Suc (rt_tick s2),
        rt_work := append_graph_audit (anchor_audit_event ctx AnchorCompile (project_audit_commands rs) now) (rt_work s2)\<rparr>) = (Inr (), s3)"
    and step: "next_step (rt_work s3) = Inr st" and route: "record_route e ctx st s3 = (Inr (), t)"
    using assms
    by (auto simp: record_compile_result_def bnd_Inr_iff lock_run write_field_run append_audit_run read_work_run)
  note same = saved_fields [OF capture_run [OF cap]] record_route_run(2-4) [OF route]
  have view: "route_view (rt_work t) = route_view (rt_work s3)"
    using record_route_run(1) [OF route] by auto
  then show "next_step (rt_work t) = Inr st" using step next_step_view by metis
  have s3: "route_view (rt_work s3) = route_view (rt_work s2)" using same(1) by simp
  show "route_view (rt_work t) = (Some cr, ws_test_result (rt_work s), ws_verify_result (rt_work s),
       ws_human_review (rt_work s),
       (if cr_ok cr then ws_budget (rt_work s) else map_option charge (ws_budget (rt_work s))),
       ws_specialist_reports (rt_work s), ws_selected_work_graph (rt_work s))"
    unfolding view s3 using budget by (auto simp: when_run consume_run route_view_def split: if_splits)
  show "rt_session t = rt_session s" "rt_log t = rt_log s"
    using same budget by (auto simp: when_run consume_run split: if_splits)
qed

lemma apply_adaptation_roles:
  assumes "apply_adaptation plan a = (r, plan')"
  shows "list_ex (\<lambda>n. pn_role n = role) (plan_nodes plan) \<Longrightarrow> list_ex (\<lambda>n. pn_role n = role) (plan_nodes plan')"
  using assms by (auto simp: apply_adaptation_def Let_def split: if_splits)

lemma apply_anchor_adaptation_cases:
  assumes "apply_anchor_adaptation e ctx s = (Inr r, t)"
  obtains (same) "t = s" "r \<in> {None, Some StepEscalate}"
    | (spliced) plan a plan' ev k where "ws_selected_work_graph (rt_work s) = Some plan"
      "apply_adaptation plan a = (Inr (), plan')" "r = None"
      "saved (s\<lparr>rt_tick := k, rt_work := append_graph_audit ev (set_selected_work_graph plan' (rt_work s))\<rparr>) t"
proof (cases "ws_selected_work_graph (rt_work s)")
  case None
  then show ?thesis using assms same by (simp add: apply_anchor_adaptation_def)
next
  case (Some plan)
  then obtain outcome where adapt: "adapt_work_graph (rt_work s) plan (ac_node_id ctx) = Inr outcome"
    using assms by (auto simp: apply_anchor_adaptation_def bnd_Inr_iff read_work_run)
  show ?thesis
  proof (cases outcome)
    case Unchanged
    then show ?thesis using assms Some adapt same
      by (simp add: apply_anchor_adaptation_def bnd_Inr_iff read_work_run)
  next
    case (EscalateAdaptation x)
    then show ?thesis using assms Some adapt same
      by (simp add: apply_anchor_adaptation_def bnd_Inr_iff read_work_run)
  next
    case (Splice a)
    obtain res plan' where pl: "apply_adaptation plan a = (res, plan')" by fastforce
    show ?thesis
    proof (cases res)
      case (Inl err)
      then show ?thesis using assms Some adapt Splice pl
        by (simp add: apply_anchor_adaptation_def bnd_Inr_iff read_work_run)
    next
      case (Inr u)
      then show ?thesis using assms Some adapt Splice pl spliced [OF Some]
        by (auto simp: apply_anchor_adaptation_def bnd_Inr_iff read_work_run append_audit_run
            modify_work_def dest!: capture_run)
    qed
  qed
qed

lemma apply_anchor_adaptation_run:
  assumes "apply_anchor_adaptation e ctx s = (Inr r, t)"
  shows "r \<in> {None, Some StepEscalate}" "rt_session t = rt_session s" "rt_log t = rt_log s"
    "\<exists>sel. route_view (rt_work t) = (ws_compile_result (rt_work s), ws_test_result (rt_work s),
       ws_verify_result (rt_work s), ws_human_review (rt_work s), ws_budget (rt_work s),
       ws_specialist_reports (rt_work s), sel)"
    "selected_plan_has_role (rt_work s) role \<Longrightarrow> selected_plan_has_role (rt_work t) role"
  using assms
  by (cases rule: apply_anchor_adaptation_cases;
      auto simp: saved_fields route_view_def set_selected_work_graph_def append_graph_audit_def
        selected_plan_has_role_def dest: apply_adaptation_roles)+

lemma record_test_run:
  assumes "record_test_result e ctx tr rs s = (Inr st, t)"
  shows "next_step (rt_work t) = Inr st \<or> st = StepEscalate \<and> \<not> tr_pass tr"
    "\<exists>sel. route_view (rt_work t) = (ws_compile_result (rt_work s), Some tr, ws_verify_result (rt_work s),
       ws_human_review (rt_work s),
       (if tr_pass tr then ws_budget (rt_work s) else map_option charge (ws_budget (rt_work s))),
       ws_specialist_reports (rt_work s), sel)"
    "selected_plan_has_role (rt_work s) role \<Longrightarrow> selected_plan_has_role (rt_work t) role"
    "rt_session t = rt_session s" "rt_log t = rt_log s"
proof -
  obtain s2 s3 s4 now override where
    budget: "when_m (\<not> tr_pass tr) (consume_iteration_budget e)
      (s\<lparr>rt_tick := Suc (rt_tick s), rt_work := push_step Verification FieldTestResult ActionWrote
          (env_now e (rt_tick s)) ((rt_work s)\<lparr>ws_test_result := Some tr\<rparr>)\<rparr>) = (Inr (), s2)"
    and cap: "capture_current_work_state e (s2\<lparr>rt_tick := Suc (rt_tick s2),
        rt_work := append_graph_audit (anchor_audit_event ctx AnchorTest (project_audit_commands rs) now) (rt_work s2)\<rparr>) = (Inr (), s3)"
    and adapt: "(if tr_pass tr then ret None else apply_anchor_adaptation e ctx) s3 = (Inr override, s4)"
    and step: "(case override of Some x \<Rightarrow> st = x | None \<Rightarrow> next_step (rt_work s4) = Inr st)"
    and route: "record_route e ctx st s4 = (Inr (), t)"
    using assms
    by (auto simp: record_test_result_def bnd_Inr_iff lock_run write_field_run append_audit_run
        read_work_run split: option.splits)
  note same = saved_fields [OF capture_run [OF cap]] record_route_run(2-4) [OF route]
  have view: "route_view (rt_work t) = route_view (rt_work s4)"
    using record_route_run(1) [OF route] by auto
  have ov: "override = None \<or> override = Some StepEscalate \<and> \<not> tr_pass tr"
    using adapt apply_anchor_adaptation_run(1) by (auto split: if_splits)
  then show "next_step (rt_work t) = Inr st \<or> st = StepEscalate \<and> \<not> tr_pass tr"
    using step next_step_view [OF view] by auto
  have s4: "rt_session s4 = rt_session s3" "rt_log s4 = rt_log s3"
    "\<exists>sel. route_view (rt_work s4) = (ws_compile_result (rt_work s3), ws_test_result (rt_work s3),
       ws_verify_result (rt_work s3), ws_human_review (rt_work s3), ws_budget (rt_work s3),
       ws_specialist_reports (rt_work s3), sel)"
    "selected_plan_has_role (rt_work s3) role \<Longrightarrow> selected_plan_has_role (rt_work s4) role"
    using adapt apply_anchor_adaptation_run(2-5) by (auto simp: route_view_def split: if_splits)
  have s3: "ws_compile_result (rt_work s3) = ws_compile_result (rt_work s)"
    "ws_test_result (rt_work s3) = Some tr" "ws_verify_result (rt_work s3) = ws_verify_result (rt_work s)"
    "ws_human_review (rt_work s3) = ws_human_review (rt_work s)"
    "ws_specialist_reports (rt_work s3) = ws_specialist_reports (rt_work s)"
    "ws_budget (rt_work s3) =
       (if tr_pass tr then ws_budget (rt_work s) else map_option charge (ws_budget (rt_work s)))"
    "ws_selected_work_graph (rt_work s3) = ws_selected_work_graph (rt_work s)"
    "rt_session s3 = rt_session s" "rt_log s3 = rt_log s"
    using same(1-3) budget
    by (auto simp: when_run consume_run append_graph_audit_def split: if_splits)
  show "\<exists>sel. route_view (rt_work t) = (ws_compile_result (rt_work s), Some tr, ws_verify_result (rt_work s),
       ws_human_review (rt_work s),
       (if tr_pass tr then ws_budget (rt_work s) else map_option charge (ws_budget (rt_work s))),
       ws_specialist_reports (rt_work s), sel)"
    unfolding view using s4(3) unfolding s3 .
  show "rt_session t = rt_session s" "rt_log t = rt_log s" using same s3 s4 by simp_all
  show "selected_plan_has_role (rt_work t) role" if "selected_plan_has_role (rt_work s) role"
    using s4(4) that s3(7) view by (simp add: selected_plan_has_role_def route_view_def)
qed

definition command_failure :: "verify_result \<Rightarrow> bool" where
  "command_failure r \<longleftrightarrow> (case vr_fail_reason r of Some (CommandFailed _ _ _) \<Rightarrow> True | _ \<Rightarrow> False)"

lemma record_verify_run:
  assumes "record_verify_result e ctx vr s = (Inr st, t)"
  shows "next_step (rt_work t) = Inr st"
    "route_view (rt_work t) = (ws_compile_result (rt_work s), ws_test_result (rt_work s),
       Some (project_outcome vr), ws_human_review (rt_work s),
       (if command_failure vr then map_option charge (ws_budget (rt_work s)) else ws_budget (rt_work s)),
       ws_specialist_reports (rt_work s), ws_selected_work_graph (rt_work s))"
    "rt_session t = rt_session s" "rt_log t = rt_log s"
proof -
  define s1 where "s1 = s\<lparr>rt_tick := Suc (Suc (rt_tick s)),
     rt_work := push_step Verification FieldVerifyResult ActionWrote (env_now e (Suc (rt_tick s)))
       ((push_step GeneralPurpose FieldGeneratedDiff ActionWrote (env_now e (rt_tick s))
          ((rt_work s)\<lparr>ws_generated_diff := Some
             \<lparr>gd_summary = show_nat (length (vr_actual_changed_files vr)) @ '' files observed by verification'',
              gd_files = vr_actual_changed_files vr\<rparr>\<rparr>))\<lparr>ws_verify_result := Some (project_outcome vr)\<rparr>)\<rparr>"
  obtain s2 s3 now where
    budget: "when_m (command_failure vr) (consume_iteration_budget e) s1 = (Inr (), s2)"
    and cap: "capture_current_work_state e (s2\<lparr>rt_tick := Suc (rt_tick s2),
        rt_work := append_graph_audit (anchor_audit_event ctx AnchorVerify
          (project_audit_commands (vr_commands_run vr)) now) (rt_work s2)\<rparr>) = (Inr (), s3)"
    and step: "next_step (rt_work s3) = Inr st" and route: "record_route e ctx st s3 = (Inr (), t)"
    using assms unfolding s1_def
    by (auto simp: record_verify_result_def command_failure_def bnd_Inr_iff lock_run write_field_run
        append_audit_run read_work_run)
  have w: "ws_compile_result (rt_work s1) = ws_compile_result (rt_work s)"
      "ws_test_result (rt_work s1) = ws_test_result (rt_work s)"
      "ws_verify_result (rt_work s1) = Some (project_outcome vr)"
      "ws_human_review (rt_work s1) = ws_human_review (rt_work s)"
      "ws_budget (rt_work s1) = ws_budget (rt_work s)"
      "ws_specialist_reports (rt_work s1) = ws_specialist_reports (rt_work s)"
      "ws_selected_work_graph (rt_work s1) = ws_selected_work_graph (rt_work s)"
      "rt_session s1 = rt_session s" "rt_log s1 = rt_log s"
    by (simp_all add: s1_def)
  note same = saved_fields [OF capture_run [OF cap]] record_route_run(2-4) [OF route]
  have view: "route_view (rt_work t) = route_view (rt_work s3)"
    using record_route_run(1) [OF route] by auto
  then show "next_step (rt_work t) = Inr st" using step next_step_view by metis
  have s3: "route_view (rt_work s3) = route_view (rt_work s2)" using same(1) by simp
  show "route_view (rt_work t) = (ws_compile_result (rt_work s), ws_test_result (rt_work s),
       Some (project_outcome vr), ws_human_review (rt_work s),
       (if command_failure vr then map_option charge (ws_budget (rt_work s)) else ws_budget (rt_work s)),
       ws_specialist_reports (rt_work s), ws_selected_work_graph (rt_work s))"
    unfolding view s3 using budget w by (auto simp: when_run consume_run route_view_def split: if_splits)
  show "rt_session t = rt_session s" "rt_log t = rt_log s"
    using same budget w by (auto simp: when_run consume_run split: if_splits)
qed

text \<open>The budget a pass works with: the one in force, or a fresh one.\<close>

definition pass_budget :: "env \<Rightarrow> work_state \<Rightarrow> budget" where
  "pass_budget e w = (case ws_budget w of
     Some b \<Rightarrow> b | None \<Rightarrow> \<lparr>max_iter = env_auto_retry_max e, iter_used = 0, token_used = 0\<rparr>)"

lemma prepare_run:
  assumes "prepare_work_graph_pass e s = (Inr ctx, t)"
  shows "route_view (rt_work t) =
      (None, None, None, None, Some (pass_budget e (rt_work s)), [], ws_selected_work_graph (rt_work s))"
    "rt_session t = rt_session s" "rt_log t = rt_log s"
    "\<exists>n. current_node_of (rt_session s) = Some n \<and> ac_node_id ctx = xn_id n"
proof -
  let ?fresh = "\<lparr>max_iter = env_auto_retry_max e, iter_used = 0, token_used = 0\<rparr>"
  obtain n s2 where n: "current_node_of (rt_session s) = Some n"
    and budget: "when_m (ws_budget (rt_work s) = None) (write_field e (set_budget GeneralPurpose ?fresh))
        (s\<lparr>rt_work := reset_for_work_graph_pass (rt_work s)\<rparr>) = (Inr (), s2)"
    and cap: "capture_current_work_state e s2 = (Inr (), t)"
    and ctx: "ctx = \<lparr>ac_node_id = xn_id n, ac_attempt = pass_attempt (rt_work s) (xn_id n)\<rparr>"
    using assms
    by (cases "current_turn_record (rt_session s)"; cases "current_node_of (rt_session s)")
      (auto simp: prepare_work_graph_pass_def bnd_Inr_iff lock_run read_work_run modify_work_def
        reset_for_work_graph_pass_def)
  note same = saved_fields [OF capture_run [OF cap]]
  show "\<exists>n. current_node_of (rt_session s) = Some n \<and> ac_node_id ctx = xn_id n" using n ctx by simp
  show "rt_session t = rt_session s" "rt_log t = rt_log s"
    using budget same by (auto simp: when_run write_field_run split: if_splits)
  show "route_view (rt_work t) =
      (None, None, None, None, Some (pass_budget e (rt_work s)), [], ws_selected_work_graph (rt_work s))"
    using budget same
    by (auto simp: when_run write_field_run route_view_def pass_budget_def reset_for_work_graph_pass_def
        split: if_splits)
qed

lemma run_anchor_commands_run:
  "run_anchor_commands e cs s = (Inr rs, t) \<Longrightarrow>
   length rs = length cs \<and> (\<forall>i<length cs. env_execute e (rt_tick s + i) (cs ! i) = Some (rs ! i)) \<and>
   t = s\<lparr>rt_tick := rt_tick s + length cs\<rparr>"
  by (auto simp: run_anchor_commands_def bnd_Inr_iff lock_run dest!: execute_all_run)

lemma update_node_status_run:
  "update_node_status e i st s = (Inr x, t) \<Longrightarrow>
   rt_work t = rt_work s \<and> rt_log t = rt_log s \<and> ss_status (rt_session t) = ss_status (rt_session s) \<and>
   ss_current_node (rt_session t) = ss_current_node (rt_session s) \<and>
   ss_node_states (rt_session t) =
     update_first (\<lambda>n. xn_id n = i) (\<lambda>n. n\<lparr>xn_status := st\<rparr>) (ss_node_states (rt_session s))"
  by (auto simp: update_node_status_def modify_session_def dest!: touch_and_save_run)

lemma current_node_updated:
  assumes "current_node_of ss = Some n" and "ss_current_node ss' = ss_current_node ss"
    and "ss_node_states ss' = update_first (\<lambda>m. xn_id m = xn_id n) (\<lambda>m. m\<lparr>xn_status := st\<rparr>) (ss_node_states ss)"
  shows "current_node_of ss' = Some (n\<lparr>xn_status := st\<rparr>)"
proof -
  have cur: "ss_current_node ss = Some (xn_id n)" using assms(1) by (rule current_node_of_id)
  then have "find (\<lambda>m. xn_id m = xn_id n) (ss_node_states ss) = Some n"
    using assms(1) by (simp add: current_node_of_def)
  then show ?thesis
    using assms(2,3) cur by (simp add: current_node_of_def find_update_first)
qed

text \<open>What the end of a pass does to session, log and node.\<close>

lemma complete_route_run:
  assumes "complete_work_graph_route e st s = (Inr r, t)"
  shows "r = st" "rt_work t = rt_work s"
    "st = StepComplete \<Longrightarrow> ss_status (rt_session t) = Completed \<and>
       map_option vl_final_status (rt_log t) = Some (Some FinalCompleted)"
    "st = StepEscalate \<Longrightarrow> ss_status (rt_session t) = SessionFailed \<and>
       map_option vl_final_status (rt_log t) = Some (Some FinalFailed) \<and>
       map_option xn_status (current_node_of (rt_session t)) = Some NodeFailed"
    "st \<notin> {StepComplete, StepEscalate} \<Longrightarrow> t = s"
proof -
  show "r = st"
    using assms by (cases st) (auto simp: complete_work_graph_route_def bnd_Inr_iff)
  show "rt_work t = rt_work s"
    using assms
    by (cases st) (auto simp: complete_work_graph_route_def bnd_Inr_iff mark_completed_def
        mark_failed_def lock_run require_some_def transition_terminal_run(2)
        dest!: update_node_status_run split: option.splits)
  show "ss_status (rt_session t) = Completed \<and> map_option vl_final_status (rt_log t) = Some (Some FinalCompleted)"
    if "st = StepComplete"
  proof -
    have "transition_terminal e Completed FinalCompleted s = (Inr (), t)"
      using assms that by (auto simp: complete_work_graph_route_def bnd_Inr_iff mark_completed_def)
    then show ?thesis using transition_terminal_run(1,3) by fastforce
  qed
  show "t = s" if "st \<notin> {StepComplete, StepEscalate}"
    using assms that by (cases st) (auto simp: complete_work_graph_route_def)
  show "ss_status (rt_session t) = SessionFailed \<and> map_option vl_final_status (rt_log t) = Some (Some FinalFailed) \<and>
      map_option xn_status (current_node_of (rt_session t)) = Some NodeFailed" if esc: "st = StepEscalate"
  proof -
    obtain u n where u: "transition_terminal e SessionFailed FinalFailed s = (Inr (), u)"
      and n: "current_node_of (rt_session u) = Some n"
      and upd: "update_node_status e (xn_id n) NodeFailed u = (Inr (), t)"
      using assms esc
      by (auto simp: complete_work_graph_route_def bnd_Inr_iff mark_failed_def lock_run require_some_run)
    note up = update_node_status_run [OF upd]
    have "current_node_of (rt_session t) = Some (n\<lparr>xn_status := NodeFailed\<rparr>)"
      using up by (intro current_node_updated [OF n]) auto
    then show ?thesis using transition_terminal_run(1,3) [OF u] up by auto
  qed
qed

section \<open>A whole pass\<close>

lemma next_step_failed_anchor:
  "ws_compile_result w = Some c \<Longrightarrow> \<not> cr_ok c \<Longrightarrow> next_step w = retry_or_escalate w"
  "ws_compile_result w = Some c \<Longrightarrow> cr_ok c \<Longrightarrow> ws_test_result w = None \<Longrightarrow> next_step w = Inr StepTestAnchor"
  "ws_compile_result w = Some c \<Longrightarrow> cr_ok c \<Longrightarrow> ws_test_result w = Some tr \<Longrightarrow> \<not> tr_pass tr \<Longrightarrow>
   next_step w = retry_or_escalate w"
  "ws_compile_result w = Some c \<Longrightarrow> cr_ok c \<Longrightarrow> ws_test_result w = Some tr \<Longrightarrow> tr_pass tr \<Longrightarrow>
   ws_verify_result w = None \<Longrightarrow> next_step w = Inr StepVerifyGate"
  "ws_compile_result w = Some c \<Longrightarrow> cr_ok c \<Longrightarrow> ws_test_result w = Some tr \<Longrightarrow> tr_pass tr \<Longrightarrow>
   ws_verify_result w = Some v \<Longrightarrow> \<not> vo_success v \<Longrightarrow>
   next_step w = (case vo_fail_reason v of Some (KindBoundaryViolation _) \<Rightarrow> Inr StepEscalate
                  | _ \<Rightarrow> retry_or_escalate w)"
  by (simp_all add: next_step_def)

lemma retry_outcome:
  assumes "retry_or_escalate w = Inr st"
  shows "st = StepEscalate \<or> st \<in> {StepImplement, StepRootCause} \<and> budget_remains (ws_budget w)"
  using retry_or_escalate_range [OF assms] retry_or_escalate_escalates_iff [of w] assms
  by (auto simp: retry_or_escalate_unfold split: if_splits)

text \<open>The part of a pass behind the compile anchor, and behind the test anchor.\<close>

definition verify_tail :: "env \<Rightarrow> audit_context \<Rightarrow> string list \<Rightarrow> string list \<Rightarrow> work_graph_step run" where
  "verify_tail e ctx vs fs =
     bnd (verify_for_work_graph e vs fs) (\<lambda>result.
     bnd (record_verify_result e ctx result) (\<lambda>step. complete_work_graph_route e step))"

definition test_tail ::
    "env \<Rightarrow> audit_context \<Rightarrow> string list \<Rightarrow> string list \<Rightarrow> string list \<Rightarrow> work_graph_step run" where
  "test_tail e ctx ts vs fs =
     bnd (run_anchor_commands e ts) (\<lambda>runs.
     bnd (record_test_result e ctx
            \<lparr>tr_pass = list_all run_ok runs, tr_failed_cases = map run_cmd (filter (\<lambda>r. \<not> run_ok r) runs)\<rparr>
            runs) (\<lambda>step.
     if step \<noteq> StepVerifyGate then complete_work_graph_route e step else verify_tail e ctx vs fs))"

lemma run_work_graph_tails:
  "run_work_graph e cs ts vs fs =
     bnd (prepare_work_graph_pass e) (\<lambda>ctx.
     bnd (run_anchor_commands e cs) (\<lambda>runs.
     bnd (record_compile_result e ctx \<lparr>cr_ok = list_all run_ok runs, cr_stderr = collect_stderr runs\<rparr> runs) (\<lambda>step.
     if step \<noteq> StepTestAnchor then complete_work_graph_route e step else test_tail e ctx ts vs fs)))"
  unfolding run_work_graph_def test_tail_def verify_tail_def ..

text \<open>
  The three ways a pass with budget \<open>pb\<close> ends: an anchor command failed, so the pass is charged
  and retried or escalated; everything passed and the pass is free of charge; or it escalates.
\<close>

definition pass_charged :: "budget \<Rightarrow> work_graph_step \<Rightarrow> work_state \<Rightarrow> bool" where
  "pass_charged pb st w \<longleftrightarrow> retry_or_escalate w = Inr st \<and> ws_budget w = Some (charge pb)"

definition pass_passed :: "budget \<Rightarrow> work_graph_step \<Rightarrow> work_state \<Rightarrow> bool" where
  "pass_passed pb st w \<longleftrightarrow> next_step w = Inr st \<and> ws_budget w = Some pb \<and> ws_human_review w = None \<and>
     (\<exists>c tr v. ws_compile_result w = Some c \<and> cr_ok c \<and> ws_test_result w = Some tr \<and> tr_pass tr \<and>
        ws_verify_result w = Some v \<and> vo_success v)"

definition anchors_so_far :: "work_state \<Rightarrow> budget \<Rightarrow> bool" where
  "anchors_so_far w pb \<longleftrightarrow> (\<exists>c tr. ws_compile_result w = Some c \<and> cr_ok c \<and> ws_test_result w = Some tr \<and> tr_pass tr) \<and>
     ws_verify_result w = None \<and> ws_human_review w = None \<and> ws_budget w = Some pb"

lemma verify_for_work_graph_run:
  assumes "verify_for_work_graph e vs fs s = (Inr r, t)"
  shows "vr_success r \<longleftrightarrow> vr_fail_reason r = None" "rt_work t = rt_work s" "rt_session t = rt_session s"
proof -
  obtain n where "run_verification_attempt e vs fs s = (Inr (r, n), t)"
    using assms by (auto simp: verify_for_work_graph_def bnd_Inr_iff)
  note att = run_verification_attempt_run [OF this]
  show "vr_success r \<longleftrightarrow> vr_fail_reason r = None" "rt_work t = rt_work s" "rt_session t = rt_session s"
    by (rule att)+
qed

lemma verify_tail_run:
  assumes run: "verify_tail e ctx vs fs s = (Inr st, t)" and pre: "anchors_so_far (rt_work s) pb"
  shows "pass_charged pb st (rt_work t) \<or> pass_passed pb st (rt_work t) \<or> st = StepEscalate"
    "ws_selected_work_graph (rt_work t) = ws_selected_work_graph (rt_work s)"
proof -
  obtain r u step v where ver: "verify_for_work_graph e vs fs s = (Inr r, u)"
    and rec: "record_verify_result e ctx r u = (Inr step, v)"
    and comp: "complete_work_graph_route e step v = (Inr st, t)"
    using run by (auto simp: verify_tail_def bnd_Inr_iff)
  note vr = verify_for_work_graph_run [OF ver] and rv = record_verify_run(1,2) [OF rec]
  have st: "step = st" and w: "rt_work t = rt_work v" using complete_route_run(1,2) [OF comp] by auto
  have view: "route_view (rt_work t) = (ws_compile_result (rt_work s), ws_test_result (rt_work s),
       Some (project_outcome r), None, Some (if command_failure r then charge pb else pb),
       ws_specialist_reports (rt_work s), ws_selected_work_graph (rt_work s))"
    using rv(2) pre vr(2) w by (auto simp: anchors_so_far_def)
  then show "ws_selected_work_graph (rt_work t) = ws_selected_work_graph (rt_work s)"
    by (simp add: route_view_def)
  have step: "next_step (rt_work t) = Inr st" using rv(1) st w by simp
  obtain c tr where ct: "ws_compile_result (rt_work t) = Some c" "cr_ok c"
    "ws_test_result (rt_work t) = Some tr" "tr_pass tr"
    using pre view by (auto simp: anchors_so_far_def route_view_def)
  have vres: "ws_verify_result (rt_work t) = Some (project_outcome r)" using view by (simp add: route_view_def)
  show "pass_charged pb st (rt_work t) \<or> pass_passed pb st (rt_work t) \<or> st = StepEscalate"
  proof (cases "vr_fail_reason r")
    case None
    then have "\<not> command_failure r" "vo_success (project_outcome r)"
      using vr(1) by (auto simp: command_failure_def project_outcome_def verify_outcome_from_parts_def)
    moreover from this have "ws_budget (rt_work t) = Some pb" "ws_human_review (rt_work t) = None"
      using view by (simp_all add: route_view_def)
    ultimately have "pass_passed pb st (rt_work t)"
      using step ct vres unfolding pass_passed_def by blast
    then show ?thesis by simp
  next
    case (Some f)
    then have fail: "\<not> vo_success (project_outcome r)" "vo_fail_reason (project_outcome r) = Some (project_failure f)"
      using vr(1) by (auto simp: project_outcome_def verify_outcome_from_parts_def)
    note ns = next_step_failed_anchor(5) [OF ct vres fail(1)]
    show ?thesis
    proof (cases f)
      case (CommandFailed c1 c2 c3)
      then show ?thesis using ns step fail(2) view Some
        by (simp add: pass_charged_def route_view_def command_failure_def)
    next
      case (BoundaryViolation x)
      then show ?thesis using ns step fail(2) by simp
    qed
  qed
qed

lemma test_tail_run:
  assumes run: "test_tail e ctx ts vs fs s = (Inr st, t)"
    and pre: "route_view (rt_work s) = (Some c, None, None, None, Some pb, [], sel)" "cr_ok c"
  shows "pass_charged pb st (rt_work t) \<or> pass_passed pb st (rt_work t) \<or> st = StepEscalate"
    "selected_plan_has_role (rt_work s) role \<Longrightarrow> selected_plan_has_role (rt_work t) role"
proof -
  obtain runs u step v where cmds: "run_anchor_commands e ts s = (Inr runs, u)"
    and rec: "record_test_result e ctx \<lparr>tr_pass = list_all run_ok runs,
        tr_failed_cases = map run_cmd (filter (\<lambda>r. \<not> run_ok r) runs)\<rparr> runs u = (Inr step, v)"
    and rest: "(if step \<noteq> StepVerifyGate then complete_work_graph_route e step else verify_tail e ctx vs fs) v = (Inr st, t)"
    using run by (auto simp: test_tail_def bnd_Inr_iff)
  let ?tr = "\<lparr>tr_pass = list_all run_ok runs, tr_failed_cases = map run_cmd (filter (\<lambda>r. \<not> run_ok r) runs)\<rparr>"
  note rt = record_test_run(1-3) [OF rec]
  have w: "rt_work u = rt_work s" using run_anchor_commands_run [OF cmds] by simp
  obtain sel' where view: "route_view (rt_work v) = (Some c, Some ?tr, None, None,
      Some (if tr_pass ?tr then pb else charge pb), [], sel')"
    using rt(2) pre(1) w by (auto simp: route_view_def)
  have role: "selected_plan_has_role (rt_work s) role \<Longrightarrow> selected_plan_has_role (rt_work v) role"
    using rt(3) w by simp
  have "(pass_charged pb st (rt_work t) \<or> pass_passed pb st (rt_work t) \<or> st = StepEscalate) \<and>
    (selected_plan_has_role (rt_work s) role \<longrightarrow> selected_plan_has_role (rt_work t) role)"
  proof (cases "tr_pass ?tr")
    case True
    then have "step = StepVerifyGate"
      using rt(1) view pre(2) next_step_failed_anchor(4) by (auto simp: route_view_def)
    then have "verify_tail e ctx vs fs v = (Inr st, t)" using rest by simp
    moreover have "anchors_so_far (rt_work v) pb" using view pre(2) True by (simp add: anchors_so_far_def route_view_def)
    ultimately show ?thesis using verify_tail_run role by (auto simp: selected_plan_has_role_def)
  next
    case False
    then have step: "retry_or_escalate (rt_work v) = Inr step \<or> step = StepEscalate"
      using rt(1) view pre(2) next_step_failed_anchor(3) by (auto simp: route_view_def)
    then have "step \<noteq> StepVerifyGate" using retry_or_escalate_range by blast
    then have "complete_work_graph_route e step v = (Inr st, t)" using rest by simp
    then have "st = step" "rt_work t = rt_work v" using complete_route_run(1,2) by blast+
    then show ?thesis using step view False role by (auto simp: pass_charged_def route_view_def)
  qed
  then show "pass_charged pb st (rt_work t) \<or> pass_passed pb st (rt_work t) \<or> st = StepEscalate"
    "selected_plan_has_role (rt_work s) role \<Longrightarrow> selected_plan_has_role (rt_work t) role"
    by blast+
qed

lemma run_work_graph_run:
  assumes "run_work_graph e cs ts vs fs s = (Inr st, t)"
  shows "pass_charged (pass_budget e (rt_work s)) st (rt_work t) \<or>
      pass_passed (pass_budget e (rt_work s)) st (rt_work t) \<or> st = StepEscalate"
    "selected_plan_has_role (rt_work s) role \<Longrightarrow> selected_plan_has_role (rt_work t) role"
proof -
  obtain ctx s1 runs s2 step s3 where prep: "prepare_work_graph_pass e s = (Inr ctx, s1)"
    and cmds: "run_anchor_commands e cs s1 = (Inr runs, s2)"
    and rec: "record_compile_result e ctx \<lparr>cr_ok = list_all run_ok runs, cr_stderr = collect_stderr runs\<rparr> runs s2 = (Inr step, s3)"
    and rest: "(if step \<noteq> StepTestAnchor then complete_work_graph_route e step else test_tail e ctx ts vs fs) s3 = (Inr st, t)"
    using assms by (auto simp: run_work_graph_tails bnd_Inr_iff)
  let ?cr = "\<lparr>cr_ok = list_all run_ok runs, cr_stderr = collect_stderr runs\<rparr>" and ?pb = "pass_budget e (rt_work s)"
  note pr = prepare_run(1) [OF prep] and r1 = record_compile_run [OF rec]
  have w2: "rt_work s2 = rt_work s1" using run_anchor_commands_run [OF cmds] by simp
  have v3: "route_view (rt_work s3) = (Some ?cr, None, None, None,
      Some (if cr_ok ?cr then ?pb else charge ?pb), [], ws_selected_work_graph (rt_work s))"
    using r1(2) pr w2 by (auto simp: route_view_def)
  have sel: "selected_plan_has_role (rt_work s3) r = selected_plan_has_role (rt_work s) r" for r
    using v3 by (simp add: route_view_def selected_plan_has_role_def)
  have "(pass_charged ?pb st (rt_work t) \<or> pass_passed ?pb st (rt_work t) \<or> st = StepEscalate) \<and>
    (selected_plan_has_role (rt_work s) role \<longrightarrow> selected_plan_has_role (rt_work t) role)"
  proof (cases "cr_ok ?cr")
    case True
    then have "step = StepTestAnchor"
      using r1(1) v3 next_step_failed_anchor(2) by (auto simp: route_view_def)
    then have "test_tail e ctx ts vs fs s3 = (Inr st, t)" using rest by simp
    note tt = test_tail_run [OF this _ True, of ?pb "ws_selected_work_graph (rt_work s)"]
    show ?thesis using tt v3 True sel by simp
  next
    case False
    then have retry: "retry_or_escalate (rt_work s3) = Inr step"
      using r1(1) v3 next_step_failed_anchor(1) by (auto simp: route_view_def)
    then have "step \<noteq> StepTestAnchor" using retry_or_escalate_range by blast
    then have "complete_work_graph_route e step s3 = (Inr st, t)" using rest by simp
    then have "st = step" "rt_work t = rt_work s3" using complete_route_run(1,2) by blast+
    then show ?thesis using retry v3 False sel by (auto simp: pass_charged_def route_view_def)
  qed
  then show "pass_charged ?pb st (rt_work t) \<or> pass_passed ?pb st (rt_work t) \<or> st = StepEscalate"
    "selected_plan_has_role (rt_work s) role \<Longrightarrow> selected_plan_has_role (rt_work t) role"
    by blast+
qed

lemma run_work_graph_ends:
  assumes "run_work_graph e cs ts vs fs s = (Inr st, t)"
  shows "\<exists>u. complete_work_graph_route e st u = (Inr st, t)"
  using assms
  by (auto simp: run_work_graph_tails test_tail_def verify_tail_def bnd_Inr_iff
      dest: complete_route_run(1) split: if_splits)

lemma pass_passed_step:
  assumes "pass_passed pb st w"
  shows "st = (if selected_plan_has_role w HumanReviewNode then StepAwaitHumanReview else StepComplete)"
  using assms by (auto simp: pass_passed_def next_step_def result_bind_Inr_iff split: if_splits)

lemma run_work_graph_retry:
  assumes "run_work_graph e cs ts vs fs s = (Inr st, t)" and "st \<in> {StepImplement, StepRootCause}"
  shows "\<exists>b. ws_budget (rt_work t) = Some b \<and> b = charge (pass_budget e (rt_work s)) \<and> iter_used b < max_iter b"
  using run_work_graph_run(1) [OF assms(1)] assms(2)
  by (auto simp: pass_charged_def budget_remains_def dest!: retry_outcome pass_passed_step split: if_splits)

text \<open>
  C1: one pass of the work graph. It never stops between anchors: it returns complete, waiting
  for review, another attempt, or escalation. It completes only with all evidence recorded, and
  then session and log are completed; if it waits or completes, nothing is charged. It grants
  another attempt only after charging exactly one iteration, and only while iterations remain.
  When it escalates, session, log and node are failed.
\<close>

theorem work_graph_pass_correct:
  assumes "run_work_graph e cs ts vs fs s = (Inr st, t)"
  shows "st \<in> {StepComplete, StepAwaitHumanReview, StepImplement, StepRootCause, StepEscalate} \<and>
    (st = StepComplete \<longrightarrow> completion_evidence (rt_work t) \<and> ss_status (rt_session t) = Completed \<and>
       map_option vl_final_status (rt_log t) = Some (Some FinalCompleted)) \<and>
    (st \<in> {StepComplete, StepAwaitHumanReview} \<longrightarrow> ws_budget (rt_work t) = Some (pass_budget e (rt_work s))) \<and>
    (st \<in> {StepImplement, StepRootCause} \<longrightarrow>
       (\<exists>b. ws_budget (rt_work t) = Some b \<and> b = charge (pass_budget e (rt_work s)) \<and> iter_used b < max_iter b)) \<and>
    (st = StepEscalate \<longrightarrow> ss_status (rt_session t) = SessionFailed \<and>
       map_option vl_final_status (rt_log t) = Some (Some FinalFailed) \<and>
       map_option xn_status (current_node_of (rt_session t)) = Some NodeFailed)"
proof -
  obtain u where u: "complete_work_graph_route e st u = (Inr st, t)"
    using run_work_graph_ends [OF assms] by auto
  note ends = complete_route_run(3,4) [OF u]
  consider "pass_charged (pass_budget e (rt_work s)) st (rt_work t)"
    | "pass_passed (pass_budget e (rt_work s)) st (rt_work t)" | "st = StepEscalate"
    using run_work_graph_run(1) [OF assms] by blast
  then show ?thesis
  proof cases
    case 1
    then have "st = StepEscalate \<or> st \<in> {StepImplement, StepRootCause} \<and> budget_remains (ws_budget (rt_work t))"
      by (auto simp: pass_charged_def dest: retry_outcome)
    then show ?thesis using 1 ends by (auto simp: pass_charged_def budget_remains_def)
  next
    case 2
    then have "next_step (rt_work t) = Inr st" by (simp add: pass_passed_def)
    then have "st = StepComplete \<Longrightarrow> completion_evidence (rt_work t)" using next_step_complete by blast
    then show ?thesis using 2 ends pass_passed_step [OF 2] by (auto simp: pass_passed_def split: if_splits)
  next
    case 3
    then show ?thesis using ends by simp
  qed
qed


text \<open>
  Consecutive passes that each ask for another attempt. Between two passes the agent works: the
  state may change in any way that leaves the budget alone.
\<close>

inductive failing_passes :: "env \<Rightarrow> nat \<Rightarrow> rt \<Rightarrow> rt \<Rightarrow> bool" for e where
  none: "failing_passes e 0 s s"
| again: "failing_passes e (Suc n) s v"
  if "failing_passes e n s t" and "ws_budget (rt_work u) = ws_budget (rt_work t)"
    and "run_work_graph e cs ts vs fs u = (Inr st, v)" and "st \<in> {StepImplement, StepRootCause}"

inductive_cases failing_passes_zeroE: "failing_passes e 0 s t"

lemma charge_unat:
  assumes "iter_used (charge b) < max_iter (charge b)"
  shows "unat (iter_used (charge b)) = Suc (unat (iter_used b))" "max_iter (charge b) = max_iter b"
proof -
  have "unat (iter_used (charge b)) < unat (max_iter b)" using assms by (simp add: charge_def word_less_nat_alt)
  moreover have "unat (max_iter b) < 2 ^ 32" using unsigned_less [of "max_iter b"] by simp
  ultimately show "unat (iter_used (charge b)) = Suc (unat (iter_used b))"
    by (simp add: charge_def unat_saturating_add)
  show "max_iter (charge b) = max_iter b" by (simp add: charge_def)
qed

lemma failing_passes_budget:
  assumes "failing_passes e n s t" and "0 < n"
  shows "\<exists>b. ws_budget (rt_work t) = Some b \<and> max_iter b = max_iter (pass_budget e (rt_work s)) \<and>
    unat (iter_used b) = unat (iter_used (pass_budget e (rt_work s))) + n \<and> iter_used b < max_iter b"
  using assms
proof (induction rule: failing_passes.induct)
  case (none s)
  then show ?case by simp
next
  case (again n s t u cs ts vs fs st v)
  obtain b where b: "ws_budget (rt_work v) = Some b" "b = charge (pass_budget e (rt_work u))"
    "iter_used b < max_iter b"
    using run_work_graph_retry [OF again.hyps(3,4)] by auto
  show ?case
  proof (cases n)
    case 0
    then have "t = s" using again.hyps(1) by (auto elim: failing_passes_zeroE)
    then have "pass_budget e (rt_work u) = pass_budget e (rt_work s)"
      using again.hyps(2) by (simp add: pass_budget_def)
    then show ?thesis using b charge_unat 0 by auto
  next
    case (Suc k)
    then obtain b' where b': "ws_budget (rt_work t) = Some b'"
      "max_iter b' = max_iter (pass_budget e (rt_work s))"
      "unat (iter_used b') = unat (iter_used (pass_budget e (rt_work s))) + n"
      using again.IH by auto
    then have "pass_budget e (rt_work u) = b'" using again.hyps(2) by (simp add: pass_budget_def)
    then show ?thesis using b b' charge_unat by auto
  qed
qed


section \<open>Examples of passes\<close>

definition node_rt :: "env \<Rightarrow> work_graph_request \<Rightarrow> rt" where
  "node_rt e r = snd (begin_node_with_work_graph e ''goal'' [] [] [] [] r open_turn_rt)"

definition review_request :: work_graph_request where
  "review_request = default_request\<lparr>requires_human_review := True\<rparr>"

theorem work_graph_pass_correct_witness:
  "\<exists>t b. run_work_graph failing_env [''a''] [''b''] [''c''] [] (node_rt failing_env default_request) =
       (Inr StepRootCause, t) \<and> ws_budget (rt_work t) = Some b \<and> iter_used b < max_iter b"
proof -
  let ?p = "run_work_graph failing_env [''a''] [''b''] [''c''] [] (node_rt failing_env default_request)"
  have "(case fst ?p of Inl _ \<Rightarrow> False | Inr st \<Rightarrow> st = StepRootCause)" by code_simp
  then obtain t where run: "?p = (Inr StepRootCause, t)"
    by (cases ?p) (auto split: sum.splits)
  show ?thesis using work_graph_pass_correct [OF run] run by auto
qed



end
