(* ===== verification/Node_Recovery.thy ===== *)
theory Node_Recovery
  imports Node_Lifecycle
begin

text \<open>
  The edges of a node's life: what beginning a node leaves behind, when it succeeds and when the
  plan cannot be composed; what rolling back removes and keeps; where a node gets stuck; and the
  bounds on units and on recorded standard error.
\<close>

section \<open>Beginning a node\<close>

lemma capture_stores:
  assumes "capture_current_work_state e s = (Inr x, t)" and "current_turn_record (rt_session s) = Some g"
  shows "rt_ckpts t (tr_checkpoint_turn_id g) = Some (Some (rt_work t))"
  using assms
  by (auto simp: capture_current_work_state_def current_turn_record_def bnd_Inr_iff io_def ask_def
      split: option.splits if_splits)

lemma add_node_run:
  assumes "add_node e n s = (Inr x, t)"
  shows "rt_work t = rt_work s" "ss_node_states (rt_session t) = ss_node_states (rt_session s) @ [n]"
    "ss_current_node (rt_session t) = Some (xn_id n)" "ss_turns (rt_session t) = ss_turns (rt_session s)"
    "ss_current_turn (rt_session t) = ss_current_turn (rt_session s)" "rt_disk_session t = Some (rt_session t)"
  using assms by (auto simp: add_node_def modify_session_def dest!: touch_and_save_run)

lemma begin_node_enters:
  assumes "begin_node_with_work_graph e goal cs ts vs fs req s = (Inr i, t)"
  shows "\<exists>node g k. install_node e node req (s\<lparr>rt_tick := k\<rparr>) = (Inr i, t) \<and>
    current_turn_record (rt_session s) = Some g \<and>
    (\<forall>m. current_node_of (rt_session s) = Some m \<longrightarrow> xn_status m \<in> {Verified, NodeFailed}) \<and>
    next_node_id (rt_session s) (rt_work s) = Inr (xn_id node) \<and> xn_status node = Running \<and>
    xn_start_turn_id node = tr_turn_id g \<and>
    xc_verify_commands (xn_contract node) = rc_verify (resolve_profile (if env_cargo_toml e (rt_tick s) then ProfileRust else ProfileNone) cs ts vs) \<and>
    xc_compile_commands (xn_contract node) = rc_compile (resolve_profile (if env_cargo_toml e (rt_tick s) then ProfileRust else ProfileNone) cs ts vs) \<and>
    xc_test_commands (xn_contract node) = rc_test (resolve_profile (if env_cargo_toml e (rt_tick s) then ProfileRust else ProfileNone) cs ts vs) \<and>
    xc_expected_files (xn_contract node) = fs"
proof -
  obtain g where g: "current_turn_record (rt_session s) = Some g"
    using assms by (auto simp: begin_node_with_work_graph_def detect_profile_def Let_def bnd_Inr_iff
        lock_run ask_def require_some_run)
  have guard: "\<forall>m. current_node_of (rt_session s) = Some m \<longrightarrow> xn_status m \<in> {Verified, NodeFailed}"
    using assms by (auto simp: begin_node_with_work_graph_def detect_profile_def Let_def bnd_Inr_iff
        lock_run ask_def require_some_run split: option.splits if_splits)
  then have ok: "(case current_node_of (rt_session s) of
            None \<Rightarrow> ret ()
          | Some n \<Rightarrow> if xn_status n \<in> {Verified, NodeFailed} then ret () else throw (NodeNotTerminal (xn_status n))) = (ret () :: unit run)"
    by (auto split: option.split)
  show ?thesis
    using assms g guard ok
    by (fastforce simp: begin_node_with_work_graph_def detect_profile_def Let_def bnd_Inr_iff
        lock_run ask_def require_some_run)
qed
lemma find_fresh_last: "k x \<notin> k ` set xs \<Longrightarrow> find (\<lambda>m. k m = k x) (xs @ [x]) = Some x"
  by (induction xs) auto

lemma install_node_run:
  assumes "install_node e node req s = (Inr i, t)" and "current_turn_record (rt_session s) = Some g"
    and "xn_id node \<notin> xn_id ` set (ss_node_states (rt_session s))"
  shows "i = xn_id node" "ss_node_states (rt_session t) = ss_node_states (rt_session s) @ [node]"
    "ss_current_node (rt_session t) = Some i" "rt_disk_session t = Some (rt_session t)"
    "\<exists>plan ev. compose_and_bind req = Inr plan \<and> ae_node_id ev = i \<and> ae_kind ev = ProfileResolved \<and>
       rt_work t = append_graph_audit ev (set_selected_work_graph plan (reset_for_new_node (rt_work s)))"
    "rt_ckpts t (tr_checkpoint_turn_id g) = Some (Some (rt_work t))"
proof -
  obtain s1 plan s2 s3 persisted now where
    add: "add_node e node (s\<lparr>rt_effects := rt_effects s @ [HookPreNode (xn_id node)]\<rparr>) = (Inr (), s1)"
    and plan: "compose_and_bind req = Inr plan"
    and cap1: "capture_current_work_state e
        (s1\<lparr>rt_work := set_selected_work_graph plan (reset_for_new_node (rt_work s1))\<rparr>) = (Inr (), s2)"
    and cur: "current_node_of (rt_session s2) = Some persisted"
    and s3: "s3 = s2\<lparr>rt_tick := Suc (rt_tick s2), rt_work := append_graph_audit
        (profile_audit_event \<lparr>ac_node_id = xn_id persisted, ac_attempt = 1\<rparr>
            (project_audit_profile (xc_profile (xn_contract persisted)))
            \<lparr>gac_compile_commands = xc_compile_commands (xn_contract persisted),
             gac_test_commands = xc_test_commands (xn_contract persisted),
             gac_verify_commands = xc_verify_commands (xn_contract persisted)\<rparr> now) (rt_work s2)\<rparr>"
    and cap2: "capture_current_work_state e s3 = (Inr (), t)" and i: "i = xn_id node"
    using assms(1)
    by (auto simp: install_node_def bnd_Inr_iff effect_def modify_work_def append_audit_run
        require_some_run split: sum.splits)
  note ad = add_node_run [OF add] and c1 = saved_fields [OF capture_run [OF cap1]]
    and c2 = saved_fields [OF capture_run [OF cap2]]
  show "i = xn_id node" by (rule i)
  have session: "rt_session t = rt_session s1" using c1 c2 s3 by simp
  then show "ss_node_states (rt_session t) = ss_node_states (rt_session s) @ [node]"
    "ss_current_node (rt_session t) = Some i"
    using ad i by simp_all
  show "rt_disk_session t = Some (rt_session t)" using ad c1 c2 s3 session by simp
  have "find (\<lambda>m. xn_id m = xn_id node) (ss_node_states (rt_session s) @ [node]) = Some node"
    using assms(3) by (rule find_fresh_last)
  then have "persisted = node" using cur ad c1 by (simp add: current_node_of_def)
  then show "\<exists>plan ev. compose_and_bind req = Inr plan \<and> ae_node_id ev = i \<and> ae_kind ev = ProfileResolved \<and>
       rt_work t = append_graph_audit ev (set_selected_work_graph plan (reset_for_new_node (rt_work s)))"
    using c1 c2 s3 ad i plan
    by (intro exI [of _ plan] exI [of _ "profile_audit_event \<lparr>ac_node_id = i, ac_attempt = 1\<rparr>
        (project_audit_profile (xc_profile (xn_contract node)))
        \<lparr>gac_compile_commands = xc_compile_commands (xn_contract node),
         gac_test_commands = xc_test_commands (xn_contract node),
         gac_verify_commands = xc_verify_commands (xn_contract node)\<rparr> now"])
      (simp add: profile_audit_event_def base_audit_event_def)
  have "current_turn_record (rt_session s3) = Some g"
    using assms(2) c1(2) s3 ad(4,5) by (simp add: current_turn_record_def split: option.splits)
  then show "rt_ckpts t (tr_checkpoint_turn_id g) = Some (Some (rt_work t))"
    using capture_stores [OF cap2] by blast
qed

text \<open>
  A node begins only in an open turn and only when the current node, if any, is finished.
  It gets an identity that neither a node of the chain nor any event of the audit trail carries,
  is appended as the running current node with the commands resolved for the profile the project
  has (Rust exactly when there is a \<open>Cargo.toml\<close>), and starts
  with empty work products and the plan composed for the request; session and work state are on
  disk when the call returns.
\<close>

theorem begin_node_correct:
  assumes "begin_node_with_work_graph e goal cs ts vs fs req s = (Inr i, t)"
  shows "i \<notin> set (known_node_ids (rt_session s) (rt_work s)) \<and>
    (\<forall>m. current_node_of (rt_session s) = Some m \<longrightarrow> terminal_node m) \<and>
    (\<exists>n g. current_turn_record (rt_session s) = Some g \<and>
       ss_node_states (rt_session t) = ss_node_states (rt_session s) @ [n] \<and>
       ss_current_node (rt_session t) = Some i \<and> xn_id n = i \<and> xn_status n = Running \<and>
       xn_start_turn_id n = tr_turn_id g \<and>
       xc_compile_commands (xn_contract n) = rc_compile (resolve_profile (if env_cargo_toml e (rt_tick s) then ProfileRust else ProfileNone) cs ts vs) \<and>
       xc_test_commands (xn_contract n) = rc_test (resolve_profile (if env_cargo_toml e (rt_tick s) then ProfileRust else ProfileNone) cs ts vs) \<and>
       xc_verify_commands (xn_contract n) = rc_verify (resolve_profile (if env_cargo_toml e (rt_tick s) then ProfileRust else ProfileNone) cs ts vs) \<and>
       rt_disk_session t = Some (rt_session t) \<and>
       rt_ckpts t (tr_checkpoint_turn_id g) = Some (Some (rt_work t))) \<and>
    (\<exists>plan. compose_and_bind req = Inr plan \<and>
       route_view (rt_work t) = (None, None, None, None, None, [], Some plan))"
proof -
  obtain node g k where run: "install_node e node req (s\<lparr>rt_tick := k\<rparr>) = (Inr i, t)"
    and g: "current_turn_record (rt_session s) = Some g"
    and fin: "\<forall>m. current_node_of (rt_session s) = Some m \<longrightarrow> xn_status m \<in> {Verified, NodeFailed}"
    and nid: "next_node_id (rt_session s) (rt_work s) = Inr (xn_id node)"
    and node: "xn_status node = Running" "xn_start_turn_id node = tr_turn_id g"
      "xc_verify_commands (xn_contract node) = rc_verify (resolve_profile (if env_cargo_toml e (rt_tick s) then ProfileRust else ProfileNone) cs ts vs)"
      "xc_compile_commands (xn_contract node) = rc_compile (resolve_profile (if env_cargo_toml e (rt_tick s) then ProfileRust else ProfileNone) cs ts vs)"
      "xc_test_commands (xn_contract node) = rc_test (resolve_profile (if env_cargo_toml e (rt_tick s) then ProfileRust else ProfileNone) cs ts vs)"
    using begin_node_enters [OF assms] by blast
  have fresh: "xn_id node \<notin> set (known_node_ids (rt_session s) (rt_work s))"
    using nid by (rule next_node_id_fresh)
  then have "xn_id node \<notin> xn_id ` set (ss_node_states (rt_session (s\<lparr>rt_tick := k\<rparr>)))"
    by (auto simp: known_node_ids_def)
  note inst = install_node_run [OF run _ this]
  have view: "\<exists>plan. compose_and_bind req = Inr plan \<and>
      route_view (rt_work t) = (None, None, None, None, None, [], Some plan)"
    using inst(5) g by (auto simp: route_view_def append_graph_audit_def set_selected_work_graph_def
        reset_for_new_node_def)
  show ?thesis
    using fresh fin g node view inst(1-4,6) by (auto simp: terminal_node_def)
qed

lemma touch_and_save_ok:
  assumes "\<forall>k. env_io_ok e k"
  shows "\<exists>now k. touch_and_save e s = (Inr (), s\<lparr>rt_tick := k, rt_session := (rt_session s)\<lparr>ss_updated_at := now\<rparr>,
      rt_disk_session := Some ((rt_session s)\<lparr>ss_updated_at := now\<rparr>)\<rparr>)"
  using assms
  by (auto simp: touch_and_save_def save_session_def modify_session_def bnd_def io_def ask_def
      intro!: exI [of _ "env_now e (rt_tick s)"] exI [of _ "Suc (Suc (rt_tick s))"])

text \<open>A node that is neither running nor failed cannot be verified, one that is not finished cannot
  be followed by another.\<close>

lemma verify_node_refuses:
  assumes "current_node_of (rt_session s) = Some n" and "xn_status n \<notin> {Running, NodeFailed}" and "\<not> rt_poisoned s"
  shows "verify_node e s = (Inl (NodeNotVerifiable (xn_status n)), s)"
  using assms by (simp add: verify_node_def lock_def bnd_def require_some_def)

lemma begin_node_refuses:
  assumes "current_node_of (rt_session s) = Some n" and "\<not> terminal_node n" and "\<not> rt_poisoned s"
    and "current_turn_record (rt_session s) = Some g"
  shows "fst (begin_node_with_work_graph e goal cs ts vs fs req s) = Inl (NodeNotTerminal (xn_status n))"
  using assms
  by (simp add: begin_node_with_work_graph_def detect_profile_def lock_def bnd_def ask_def Let_def terminal_node_def)

text \<open>
  A request whose plan cannot be composed is refused too late. The call fails, but the
  running node is already appended, current and on disk; the next attempt to begin a node is
  refused because of it.
\<close>

theorem begin_node_compose_failure:
  assumes "current_turn_record (rt_session s) = Some g" and "\<not> rt_poisoned s"
    and "\<forall>m. current_node_of (rt_session s) = Some m \<longrightarrow> terminal_node m"
    and "next_node_id (rt_session s) (rt_work s) = Inr i" and "\<forall>k. env_io_ok e k"
    and "3 < max_specialists req"
  shows "\<exists>err t n. begin_node_with_work_graph e goal cs ts vs fs req s = (Inl (ComposeFailed err), t) \<and>
    ss_node_states (rt_session t) = ss_node_states (rt_session s) @ [n] \<and> xn_id n = i \<and>
    xn_status n = Running \<and> rt_disk_session t = Some (rt_session t) \<and>
    fst (begin_node_with_work_graph e' goal' cs' ts' vs' fs' req' t) = Inl (NodeNotTerminal Running)"
proof -
  have compose: "compose_and_bind req = Inl (InvalidSpecialistCapacity (max_specialists req))"
    using assms(6) by (simp add: compose_and_bind_def compose_work_graph_def)
  have ok: "(case current_node_of (rt_session s) of
            None \<Rightarrow> ret ()
          | Some n \<Rightarrow> if xn_status n \<in> {Verified, NodeFailed} then ret () else throw (NodeNotTerminal (xn_status n))) = (ret () :: unit run)"
    using assms(3) by (auto simp: terminal_node_def split: option.split)
  obtain node k where enter: "begin_node_with_work_graph e goal cs ts vs fs req s = install_node e node req (s\<lparr>rt_tick := k\<rparr>)"
    and node: "xn_id node = i" "xn_status node = Running"
    using assms(1,2,4) ok
    by (simp add: begin_node_with_work_graph_def detect_profile_def lock_def bnd_def ask_def Let_def)
  define u where "u = s\<lparr>rt_tick := k, rt_effects := rt_effects s @ [HookPreNode i],
      rt_session := (rt_session s)\<lparr>ss_node_states := ss_node_states (rt_session s) @ [node], ss_current_node := Some i\<rparr>\<rparr>"
  obtain now k' where touch: "touch_and_save e u = (Inr (), u\<lparr>rt_tick := k',
      rt_session := (rt_session u)\<lparr>ss_updated_at := now\<rparr>, rt_disk_session := Some ((rt_session u)\<lparr>ss_updated_at := now\<rparr>)\<rparr>)"
    using touch_and_save_ok [OF assms(5)] by blast
  define t where "t = u\<lparr>rt_tick := k', rt_session := (rt_session u)\<lparr>ss_updated_at := now\<rparr>,
      rt_disk_session := Some ((rt_session u)\<lparr>ss_updated_at := now\<rparr>), rt_work := reset_for_new_node (rt_work s)\<rparr>"
  have run: "begin_node_with_work_graph e goal cs ts vs fs req s =
      (Inl (ComposeFailed (InvalidSpecialistCapacity (max_specialists req))), t)"
    unfolding enter using touch compose node
    by (simp add: install_node_def add_node_def effect_def modify_session_def modify_work_def bnd_def t_def u_def)
  have fresh: "xn_id node \<notin> xn_id ` set (ss_node_states (rt_session s))"
    using next_node_id_fresh [OF assms(4)] node by (auto simp: known_node_ids_def)
  have "current_node_of (rt_session t) = Some node"
    using find_fresh_last [OF fresh] node by (simp add: current_node_of_def t_def u_def)
  moreover have "current_turn_record (rt_session t) = Some g"
    using assms(1) by (simp add: current_turn_record_def t_def u_def split: option.splits)
  ultimately have "fst (begin_node_with_work_graph e' goal' cs' ts' vs' fs' req' t) = Inl (NodeNotTerminal Running)"
    using begin_node_refuses [of t node g e'] node assms(2) by (simp add: terminal_node_def t_def u_def)
  then show ?thesis using run node by (auto simp: t_def u_def)
qed

section \<open>The theorems at concrete runs\<close>

definition oversized_request :: work_graph_request where
  "oversized_request = default_request\<lparr>max_specialists := 4\<rparr>"

theorem begin_node_correct_witness:
  "\<exists>i t. begin_node_with_work_graph calm_env ''goal'' [] [] [] [] default_request open_turn_rt = (Inr i, t) \<and>
     i \<notin> set (known_node_ids (rt_session open_turn_rt) (rt_work open_turn_rt)) \<and>
     ss_current_node (rt_session t) = Some i"
proof -
  have "is_ok (fst (begin_node_with_work_graph calm_env ''goal'' [] [] [] [] default_request open_turn_rt))"
    by code_simp
  then obtain i t where run:
    "begin_node_with_work_graph calm_env ''goal'' [] [] [] [] default_request open_turn_rt = (Inr i, t)"
    by (rule is_ok_obtain)
  then show ?thesis using begin_node_correct [OF run] by blast
qed

theorem begin_node_compose_failure_witness:
  "\<exists>err t n. begin_node_with_work_graph calm_env ''goal'' [] [] [] [] oversized_request open_turn_rt =
       (Inl (ComposeFailed err), t) \<and> ss_node_states (rt_session t) = [n] \<and> xn_status n = Running"
proof -
  have idle: "ss_node_states (rt_session open_turn_rt) = []" "current_node_of (rt_session open_turn_rt) = None"
    "\<not> rt_poisoned open_turn_rt" by code_simp+
  have turn: "current_turn_record (rt_session open_turn_rt) \<noteq> None"
    "is_ok (next_node_id (rt_session open_turn_rt) (rt_work open_turn_rt))" by code_simp+
  then obtain g i where "current_turn_record (rt_session open_turn_rt) = Some g"
    "next_node_id (rt_session open_turn_rt) (rt_work open_turn_rt) = Inr i"
    by (auto simp: is_ok_def split: sum.splits)
  moreover have "\<forall>k. env_io_ok calm_env k" by (simp add: calm_env_def)
  moreover have "3 < max_specialists oversized_request" by code_simp
  ultimately show ?thesis
    using begin_node_compose_failure [of open_turn_rt g i calm_env oversized_request] idle by fastforce
qed

end
