(* ===== verification/Node_Rollback.thy ===== *)
theory Node_Rollback
  imports Node_Recovery
begin

text \<open>
  What rolling back a node removes and what it keeps: the chain of nodes, the audit trail and the
  budget of \<open>NodeRuntime::rollback_node\<close>.
\<close>

section \<open>The anchor of a rollback\<close>

lemma position_key:
  "distinct (map k (xs @ y # ys)) \<Longrightarrow> position (\<lambda>n. k n = k y) (xs @ y # ys) = Some (length xs)"
  by (induction xs) auto

lemma find_key: "distinct (map k xs) \<Longrightarrow> y \<in> set xs \<Longrightarrow> find (\<lambda>n. k n = k y) xs = Some y"
  by (induction xs) auto

lemma rollback_anchor_snoc:
  "rollback_anchor (xs @ [l]) = (if terminal_node l then Some l else rollback_anchor xs)"
  by (simp add: rollback_anchor_def terminal_node_def)

text \<open>In a well-formed chain the anchor is the last node, when it failed, or the one before it.\<close>

lemma rollback_chain:
  assumes wf: "nodes_wf ts ns cur" and a: "rollback_anchor ns = Some a"
    and turn: "rollback_turn ns (xn_id a) = Inr turn"
  obtains kept where "ns = kept @ [a]" "xn_status a = NodeFailed" "turn = xn_start_turn_id a"
  | kept l where "ns = kept @ [a, l]" "terminal_node a" "\<not> terminal_node l" "turn = xn_start_turn_id l"
proof -
  have "ns \<noteq> []" using a by (auto simp: rollback_anchor_def)
  then obtain xs l where ns: "ns = xs @ [l]" by (cases ns rule: rev_cases) auto
  have dist: "distinct (map xn_id ns)" using wf by (simp add: nodes_wf_def)
  show ?thesis
  proof (cases "terminal_node l")
    case True
    then have al: "a = l" using a ns by (simp add: rollback_anchor_snoc)
    have "position (\<lambda>n. xn_id n = xn_id a) ns = Some (length xs)"
      using position_key [of xn_id xs l "[]"] dist ns al by simp
    then show ?thesis using turn ns al by (intro that(1) [of xs]) (auto simp: rollback_turn_def split: if_splits)
  next
    case False
    then have xs: "rollback_anchor xs = Some a" using a ns by (simp add: rollback_anchor_snoc)
    then have "xs \<noteq> []" by (auto simp: rollback_anchor_def)
    then obtain ys m where ys: "xs = ys @ [m]" by (cases xs rule: rev_cases) auto
    have fin: "terminal_node m" using wf ns ys by (auto simp: nodes_wf_def butlast_append)
    then have am: "a = m" using xs ys by (simp add: rollback_anchor_snoc)
    have "position (\<lambda>n. xn_id n = xn_id a) ns = Some (length ys)"
      using position_key [of xn_id ys m "[l]"] dist ns ys am by simp
    then show ?thesis
      using turn ns ys am fin False by (intro that(2) [of ys l]) (auto simp: rollback_turn_def nth_append)
  qed
qed

section \<open>Truncation and re-application\<close>

lemma truncate_nodes_after_run:
  assumes "truncate_nodes_after e i s = (Inr removed, t)"
    and "position (\<lambda>n. xn_id n = i) (ss_node_states (rt_session s)) = Some k"
  shows "\<exists>now. rt_session t = (rt_session s)\<lparr>ss_node_states := take (k + 1) (ss_node_states (rt_session s)),
      ss_current_node := Some i, ss_updated_at := now\<rparr> \<and>
    removed = map xn_id (drop (k + 1) (ss_node_states (rt_session s))) \<and>
    rt_work t = rt_work s \<and> rt_disk_session t = Some (rt_session t)"
  using assms by (fastforce simp: truncate_nodes_after_def modify_session_def bnd_Inr_iff dest!: touch_and_save_run)

lemma truncate_nodes_after_inclusive_run:
  assumes "truncate_nodes_after_inclusive e i s = (Inr removed, t)"
    and "position (\<lambda>n. xn_id n = i) (ss_node_states (rt_session s)) = Some k"
  shows "\<exists>now. rt_session t = (rt_session s)\<lparr>ss_node_states := take k (ss_node_states (rt_session s)),
      ss_current_node := None, ss_updated_at := now\<rparr> \<and>
    removed = map xn_id (drop k (ss_node_states (rt_session s))) \<and>
    rt_work t = rt_work s \<and> rt_disk_session t = Some (rt_session t)"
  using assms
  by (fastforce simp: truncate_nodes_after_inclusive_def modify_session_def bnd_Inr_iff dest!: touch_and_save_run)

lemma fold_append_graph_audit:
  "fold append_graph_audit es ws = ws\<lparr>ws_graph_audit := ws_graph_audit ws @ es\<rparr>"
  by (induction es arbitrary: ws) (auto simp: append_graph_audit_def)

lemma reapply_audit_eq:
  "reapply_audit before ws = ws\<lparr>ws_graph_audit := ws_graph_audit ws @
     filter (\<lambda>ev. ev \<notin> set (ws_graph_audit ws)) before\<rparr>"
  by (simp add: reapply_audit_def fold_append_graph_audit)

text \<open>The state a rollback leaves, in terms of the run of \<open>rollback_to\<close> inside it.\<close>

definition restored_budget :: "work_state \<Rightarrow> budget" where
  "restored_budget before = (case ws_pre_decompose_budget before of
     Some b \<Rightarrow> b | None \<Rightarrow> \<lparr>max_iter = 1, iter_used = 0, token_used = 0\<rparr>)"

definition rollback_cleanup :: "env \<Rightarrow> work_state \<Rightarrow> unit run" where
  "rollback_cleanup e before =
     bnd (when_m (ws_decomposed_units before \<noteq> []) (write_field e (set_budget GeneralPurpose (restored_budget before)))) (\<lambda>_.
     bnd (modify_work clear_decomposition) (\<lambda>_.
     modify_work (reapply_audit (ws_graph_audit before))))"

lemma rollback_node_phases:
  assumes "rollback_node e s = (Inr r, t)"
  shows "\<exists>a turn rr s1 removed s2.
    rollback_anchor (ss_node_states (rt_session s)) = Some a \<and>
    rollback_turn (ss_node_states (rt_session s)) (xn_id a) = Inr turn \<and>
    rollback_to e turn s = (Inr rr, s1) \<and>
    (if (case find (\<lambda>n. xn_id n = xn_id a) (ss_node_states (rt_session s1)) of
            None \<Rightarrow> False | Some n \<Rightarrow> xn_status n = NodeFailed)
      then truncate_nodes_after_inclusive e (xn_id a) else truncate_nodes_after e (xn_id a)) s1 = (Inr removed, s2) \<and>
    rollback_cleanup e (rt_work s) s2 = (Inr (), t) \<and>
    r = \<lparr>nrr_rolled_back_to = xn_id a, nrr_removed_nodes = removed\<rparr>"
  using assms
  unfolding rollback_node_def rollback_cleanup_def restored_budget_def bnd_Inr_iff lock_run require_some_run
  by (fastforce simp: bnd_Inr_iff)

lemma rollback_cleanup_run:
  assumes "rollback_cleanup e before s = (Inr (), t)"
  shows "rt_session t = rt_session s" "rt_disk_session t = rt_disk_session s" "rt_ckpts t = rt_ckpts s"
    "ws_graph_audit (rt_work t) = ws_graph_audit (rt_work s) @
       filter (\<lambda>ev. ev \<notin> set (ws_graph_audit (rt_work s))) (ws_graph_audit before)"
    "ws_decomposed_units (rt_work t) = []" "ws_pre_decompose_budget (rt_work t) = None"
    "ws_budget (rt_work t) = (if ws_decomposed_units before = [] then ws_budget (rt_work s)
                              else Some (restored_budget before))"
proof -
  obtain u where u: "when_m (ws_decomposed_units before \<noteq> [])
      (write_field e (set_budget GeneralPurpose (restored_budget before))) s = (Inr (), u)"
    and t: "t = u\<lparr>rt_work := reapply_audit (ws_graph_audit before) (clear_decomposition (rt_work u))\<rparr>"
    using assms by (auto simp: rollback_cleanup_def bnd_Inr_iff modify_work_def)
  have f: "rt_session u = rt_session s \<and> rt_disk_session u = rt_disk_session s \<and> rt_ckpts u = rt_ckpts s \<and>
      ws_graph_audit (rt_work u) = ws_graph_audit (rt_work s) \<and>
      ws_budget (rt_work u) = (if ws_decomposed_units before = [] then ws_budget (rt_work s)
                               else Some (restored_budget before))"
    using u by (cases "ws_decomposed_units before = []") (auto simp: when_run write_field_run push_step_def)
  show "rt_session t = rt_session s" "rt_disk_session t = rt_disk_session s" "rt_ckpts t = rt_ckpts s"
    "ws_graph_audit (rt_work t) = ws_graph_audit (rt_work s) @
       filter (\<lambda>ev. ev \<notin> set (ws_graph_audit (rt_work s))) (ws_graph_audit before)"
    "ws_decomposed_units (rt_work t) = []" "ws_pre_decompose_budget (rt_work t) = None"
    "ws_budget (rt_work t) = (if ws_decomposed_units before = [] then ws_budget (rt_work s)
                              else Some (restored_budget before))"
    using f t by (simp_all add: reapply_audit_eq clear_decomposition_def)
qed

section \<open>Rolling back a node\<close>

lemma rollback_truncates:
  assumes wf: "nodes_wf ts ns cur" and a: "rollback_anchor ns = Some a"
    and turn: "rollback_turn ns (xn_id a) = Inr turn" and ns: "ss_node_states (rt_session s1) = ns"
    and cut: "(if (case find (\<lambda>n. xn_id n = xn_id a) (ss_node_states (rt_session s1)) of
            None \<Rightarrow> False | Some n \<Rightarrow> xn_status n = NodeFailed)
      then truncate_nodes_after_inclusive e (xn_id a) else truncate_nodes_after e (xn_id a)) s1 = (Inr ids, s2)"
  shows "\<exists>kept removed now. ns = kept @ removed \<and> removed \<noteq> [] \<and> ids = map xn_id removed \<and>
    turn = xn_start_turn_id (last removed) \<and> rt_work s2 = rt_work s1 \<and> rt_disk_session s2 = Some (rt_session s2) \<and>
    rt_session s2 = (rt_session s1)\<lparr>ss_node_states := kept,
      ss_current_node := (if xn_status a = Verified then Some (xn_id a) else None), ss_updated_at := now\<rparr> \<and>
    (if xn_status a = Verified then kept \<noteq> [] \<and> last kept = a \<and> (\<exists>l. removed = [l] \<and> \<not> terminal_node l)
     else xn_status a = NodeFailed \<and> (removed = [a] \<or> (\<exists>l. removed = [a, l] \<and> \<not> terminal_node l)))"
proof -
  have dist: "distinct (map xn_id ns)" using wf by (simp add: nodes_wf_def)
  have "a \<in> set ns" using find_in_set [of _ "rev ns" a] a by (auto simp: rollback_anchor_def)
  then have again: "find (\<lambda>n. xn_id n = xn_id a) (ss_node_states (rt_session s1)) = Some a"
    using find_key [OF dist] ns by simp
  from rollback_chain [OF wf a turn] show ?thesis
  proof cases
    case (1 kept)
    have "position (\<lambda>n. xn_id n = xn_id a) ns = Some (length kept)"
      using position_key [of xn_id kept a "[]"] dist 1 by simp
    then show ?thesis
      using truncate_nodes_after_inclusive_run [of e "xn_id a" s1 ids s2 "length kept"] cut again ns 1
      by (intro exI [of _ kept] exI [of _ "[a]"]) auto
  next
    case (2 kept l)
    have pos: "position (\<lambda>n. xn_id n = xn_id a) ns = Some (length kept)"
      using position_key [of xn_id kept a "[l]"] dist 2 by simp
    show ?thesis
    proof (cases "xn_status a = Verified")
      case True
      then show ?thesis
        using truncate_nodes_after_run [of e "xn_id a" s1 ids s2 "length kept"] cut again ns 2 pos
        by (intro exI [of _ "kept @ [a]"] exI [of _ "[l]"]) auto
    next
      case False
      then show ?thesis
        using truncate_nodes_after_inclusive_run [of e "xn_id a" s1 ids s2 "length kept"] cut again ns 2 pos
        by (intro exI [of _ kept] exI [of _ "[a, l]"]) (auto simp: terminal_node_def)
    qed
  qed
qed

text \<open>
  Rolling back a node removes the end of the chain: an unfinished last node after a verified
  one, which becomes current again; or a failed node with the unfinished one after it, if any, and
  then no node is current. The workspace goes back to the turn in which the last removed node
  began, and with it the work state; but no event of the audit trail is lost, the units of the
  removed node are dropped and the budget from before its decomposition is back.
\<close>

theorem rollback_node_correct:
  assumes "rollback_node e s = (Inr r, t)" and "rt_wf s"
  shows "\<exists>kept removed a. ss_node_states (rt_session s) = kept @ removed \<and> removed \<noteq> [] \<and>
    ss_node_states (rt_session t) = kept \<and> nrr_removed_nodes r = map xn_id removed \<and>
    nrr_rolled_back_to r = xn_id a \<and>
    ss_current_turn (rt_session t) = Some (xn_start_turn_id (last removed)) \<and>
    (if xn_status a = Verified
     then kept \<noteq> [] \<and> last kept = a \<and> ss_current_node (rt_session t) = Some (xn_id a) \<and>
          (\<exists>l. removed = [l] \<and> \<not> terminal_node l)
     else xn_status a = NodeFailed \<and> ss_current_node (rt_session t) = None \<and>
          (removed = [a] \<or> (\<exists>l. removed = [a, l] \<and> \<not> terminal_node l))) \<and>
    rt_disk_session t = Some (rt_session t) \<and>
    set (ws_graph_audit (rt_work s)) \<subseteq> set (ws_graph_audit (rt_work t)) \<and>
    ws_decomposed_units (rt_work t) = [] \<and>
    (ws_decomposed_units (rt_work s) \<noteq> [] \<longrightarrow> ws_budget (rt_work t) = Some (restored_budget (rt_work s)))"
proof -
  obtain a turn rr s1 ids s2 where
    a: "rollback_anchor (ss_node_states (rt_session s)) = Some a"
    and turn: "rollback_turn (ss_node_states (rt_session s)) (xn_id a) = Inr turn"
    and rewound: "rollback_to e turn s = (Inr rr, s1)"
    and cut: "(if (case find (\<lambda>n. xn_id n = xn_id a) (ss_node_states (rt_session s1)) of
            None \<Rightarrow> False | Some n \<Rightarrow> xn_status n = NodeFailed)
      then truncate_nodes_after_inclusive e (xn_id a) else truncate_nodes_after e (xn_id a)) s1 = (Inr ids, s2)"
    and clean: "rollback_cleanup e (rt_work s) s2 = (Inr (), t)"
    and r: "r = \<lparr>nrr_rolled_back_to = xn_id a, nrr_removed_nodes = ids\<rparr>"
    using rollback_node_phases [OF assms(1)] by blast
  obtain now where s1: "rt_session s1 = (rt_session s)\<lparr>ss_current_turn := Some turn, ss_updated_at := now\<rparr>"
    using rollback_to_run [OF rewound] by blast
  have wf: "nodes_wf (ss_turns (rt_session s)) (ss_node_states (rt_session s)) (ss_current_node (rt_session s))"
    using assms(2) by (simp add: rt_wf_def session_wf_def)
  obtain kept removed now' where chain: "ss_node_states (rt_session s) = kept @ removed" "removed \<noteq> []"
    "ids = map xn_id removed" "turn = xn_start_turn_id (last removed)" "rt_disk_session s2 = Some (rt_session s2)"
    "rt_session s2 = (rt_session s1)\<lparr>ss_node_states := kept,
      ss_current_node := (if xn_status a = Verified then Some (xn_id a) else None), ss_updated_at := now'\<rparr>"
    "if xn_status a = Verified then kept \<noteq> [] \<and> last kept = a \<and> (\<exists>l. removed = [l] \<and> \<not> terminal_node l)
     else xn_status a = NodeFailed \<and> (removed = [a] \<or> (\<exists>l. removed = [a, l] \<and> \<not> terminal_node l))"
    using rollback_truncates [OF wf a turn _ cut] s1 by auto
  show ?thesis
    using chain s1 r rollback_cleanup_run [OF clean]
    by (intro exI [of _ kept] exI [of _ removed] exI [of _ a]) (auto split: if_splits)
qed

lemma keepsD: "obeys (keeps I) m \<Longrightarrow> I s \<Longrightarrow> I (snd (m s))"
  by (simp add: obeys_def keeps_def)

text \<open>A session with one failed node.\<close>

definition failed_node :: exec_node where
  "failed_node = \<lparr>xn_id = ''node-1'',
     xn_contract = \<lparr>xc_goal = ''goal'', xc_verify_commands = [''a''], xc_compile_commands = [], xc_test_commands = [],
                    xc_profile = ProfileNone, xc_expected_files = []\<rparr>,
     xn_status = NodeFailed, xn_start_turn_id = ''turn-0'', xn_retry_count = 1, xn_verify_log_path = [],
     xn_created_at = ''now''\<rparr>"

definition failed_node_rt :: rt where
  "failed_node_rt = open_turn_rt\<lparr>rt_session := (rt_session open_turn_rt)
     \<lparr>ss_node_states := [failed_node], ss_current_node := Some ''node-1''\<rparr>\<rparr>"

lemma failed_node_rt_wf: "rt_wf failed_node_rt"
proof -
  have "rt_wf open_turn_rt" unfolding open_turn_rt_def by (intro keepsD [OF begin_turn_wf] rt_wf_blank)
  moreover have "map tr_turn_id (ss_turns (rt_session open_turn_rt)) = [''turn-0'']" by code_simp
  then have "''turn-0'' \<in> tr_turn_id ` set (ss_turns (rt_session open_turn_rt))"
    by (metis list.set_intros(1) list.set_map)
  ultimately show ?thesis
    by (simp add: failed_node_rt_def failed_node_def rt_wf_def session_wf_def nodes_wf_def)
qed

theorem rollback_node_correct_witness:
  "\<exists>r t. rollback_node calm_env failed_node_rt = (Inr r, t) \<and>
     ss_node_states (rt_session failed_node_rt) = [failed_node] \<and> ss_node_states (rt_session t) = [] \<and>
     nrr_removed_nodes r = [''node-1'']"
proof -
  have "is_ok (fst (rollback_node calm_env failed_node_rt))" by code_simp
  then obtain r t where run: "rollback_node calm_env failed_node_rt = (Inr r, t)" by (rule is_ok_obtain)
  have "ss_node_states (rt_session failed_node_rt) = [failed_node]" by (simp add: failed_node_rt_def)
  moreover have "xn_status failed_node = NodeFailed" "xn_id failed_node = ''node-1''"
    by (simp_all add: failed_node_def)
  ultimately show ?thesis
    using rollback_node_correct [OF run failed_node_rt_wf] run
    by (auto simp: append_eq_Cons_conv terminal_node_def split: if_splits)
qed

end
