(* ===== verification/Node_Verify.thy ===== *)
theory Node_Verify
  imports Node_Rollback
begin

text \<open>
  \<open>NodeRuntime::verify_node\<close>, the verification of a node without compile and test commands: what a
  completed call does, and what an executor that fails in the middle of it leaves behind.
\<close>

section \<open>The chain of nodes under the gate\<close>

definition node_view :: "rt \<Rightarrow> _" where
  "node_view s = (ss_node_states (rt_session s), ss_current_node (rt_session s), ss_turns (rt_session s),
     ss_current_turn (rt_session s), rt_work s, rt_poisoned s)"

interpretation fixed_nodes: gate_relation "keeps (\<lambda>s. node_view s = v)" for v
  by unfold_locales (auto simp: keeps_def node_view_def)

lemma node_view_kept:
  "obeys (keeps (\<lambda>s. node_view s = node_view a)) m \<Longrightarrow> m a = (x, b) \<Longrightarrow> node_view b = node_view a"
  using keepsD [of "\<lambda>s. node_view s = node_view a" m a] by simp

lemma node_viewD:
  assumes "node_view b = node_view a"
  shows "current_node_of (rt_session b) = current_node_of (rt_session a)" "rt_work b = rt_work a"
    "current_turn_record (rt_session b) = current_turn_record (rt_session a)" "rt_poisoned b = rt_poisoned a"
    "ss_node_states (rt_session b) = ss_node_states (rt_session a)"
    "ss_current_node (rt_session b) = ss_current_node (rt_session a)"
  using assms by (simp_all add: node_view_def current_node_of_def current_turn_record_def split: option.split)

lemmas gate_view = node_view_kept [OF fixed_nodes.obeys_verify_and_complete]
lemmas status_view = node_view_kept [OF fixed_nodes.obeys_set_status]

lemma set_status_run: "set_status e st s = (Inr x, t) \<Longrightarrow> ss_status (rt_session t) = st"
  by (auto simp: set_status_def modify_session_def dest!: touch_and_save_run)

lemma current_node_retried:
  assumes "increment_node_retry e (xn_id n) s = (Inr x, t)" and "current_node_of (rt_session s) = Some n"
  shows "current_node_of (rt_session t) = Some (n\<lparr>xn_retry_count := xn_retry_count n + 1\<rparr>)"
    "rt_work t = rt_work s" "ss_status (rt_session t) = ss_status (rt_session s)"
proof -
  have step: "ss_node_states (rt_session t) = update_first (\<lambda>m. xn_id m = xn_id n)
      (\<lambda>m. m\<lparr>xn_retry_count := xn_retry_count m + 1\<rparr>) (ss_node_states (rt_session s))"
    "ss_current_node (rt_session t) = ss_current_node (rt_session s)"
    using assms(1) by (auto simp: increment_node_retry_def modify_session_def dest!: touch_and_save_run)
  show "rt_work t = rt_work s" "ss_status (rt_session t) = ss_status (rt_session s)"
    using assms(1) by (auto simp: increment_node_retry_def modify_session_def dest!: touch_and_save_run)
  have cur: "ss_current_node (rt_session s) = Some (xn_id n)" using assms(2) by (rule current_node_of_id)
  then have "find (\<lambda>m. xn_id m = xn_id n) (ss_node_states (rt_session s)) = Some n"
    using assms(2) by (simp add: current_node_of_def)
  then show "current_node_of (rt_session t) = Some (n\<lparr>xn_retry_count := xn_retry_count n + 1\<rparr>)"
    using step cur by (simp add: current_node_of_def find_update_first)
qed

section \<open>A completed verification\<close>

definition verified_end :: "env \<Rightarrow> string \<Rightarrow> verify_result \<Rightarrow> node_verify_result run" where
  "verified_end e i result =
     bnd (set_status e InProgress) (\<lambda>_.
     bnd (update_node_status e i Verified) (\<lambda>_.
     bnd (gets (\<lambda>s. current_node_of (rt_session s))) (\<lambda>cur.
     case cur of
       None \<Rightarrow> panic
     | Some n' \<Rightarrow>
         bnd (write_field e (set_verify_result Verification (project_outcome result))) (\<lambda>_.
         bnd (capture_current_work_state e) (\<lambda>_.
         bnd (effect (HookPostNode (xn_id n') True)) (\<lambda>_.
         ret \<lparr>nvr_status = Verified, nvr_retry_count = 0, nvr_failure_reason = None\<rparr>))))))"

definition failed_end :: "env \<Rightarrow> string \<Rightarrow> verify_result \<Rightarrow> node_verify_result run" where
  "failed_end e i result =
     bnd (update_node_status e i NodeFailed) (\<lambda>_.
     bnd (increment_node_retry e i) (\<lambda>_.
     bnd (gets (\<lambda>s. current_node_of (rt_session s))) (\<lambda>cur.
     case cur of
       None \<Rightarrow> panic
     | Some n' \<Rightarrow>
         bnd (write_field e (set_verify_result Verification (project_outcome result))) (\<lambda>_.
         bnd (capture_current_work_state e) (\<lambda>_.
         bnd (read_work (\<lambda>ws. get_verify_result ws Verification)) (\<lambda>outcome.
         bnd (require_some outcome VerifyResultMissing) (\<lambda>v.
         bnd (when_m (env_auto_retry_max e \<le> xn_retry_count n') (set_status e SessionFailed)) (\<lambda>_.
         bnd (effect (HookPostNode (xn_id n') False)) (\<lambda>_.
         ret \<lparr>nvr_status = NodeFailed, nvr_retry_count = xn_retry_count n',
              nvr_failure_reason = vo_fail_reason v\<rparr>)))))))))"

lemma verify_node_phases:
  assumes "verify_node e s = (Inr r, t)"
  shows "\<exists>n u result v. current_node_of (rt_session s) = Some n \<and> xn_status n \<in> {Running, NodeFailed} \<and>
    update_node_status e (xn_id n) Verifying s = (Inr (), u) \<and>
    verify_and_complete e (xc_verify_commands (xn_contract n)) (xc_expected_files (xn_contract n)) u = (Inr result, v) \<and>
    (if vr_success result then verified_end e (xn_id n) result v else failed_end e (xn_id n) result v) = (Inr r, t)"
  using assms
  unfolding verify_node_def verified_end_def [symmetric] failed_end_def [symmetric]
  by (auto simp: bnd_Inr_iff lock_run require_some_run split: if_splits) metis+

definition reviewed_fields :: "work_state \<Rightarrow> _" where
  "reviewed_fields w = (ws_human_review w, ws_selected_work_graph w, ws_budget w, ws_compile_result w,
     ws_test_result w, ws_graph_audit w)"

lemma record_outcome_run:
  assumes "write_field e (set_verify_result Verification v) s = (Inr x, u)" and "capture_current_work_state e u = (Inr y, w)"
  shows "rt_session w = rt_session s" "ws_verify_result (rt_work w) = Some v"
    "reviewed_fields (rt_work w) = reviewed_fields (rt_work s)"
  using assms(1) saved_fields [OF capture_run [OF assms(2)]]
  by (auto simp: write_field_run push_step_def reviewed_fields_def)

lemma verified_end_run:
  assumes "verified_end e (xn_id n) result s = (Inr r, t)" and "current_node_of (rt_session s) = Some n"
  shows "current_node_of (rt_session t) = Some (n\<lparr>xn_status := Verified\<rparr>)"
    "ss_status (rt_session t) = InProgress" "nvr_status r = Verified"
    "ws_verify_result (rt_work t) = Some (project_outcome result)"
    "reviewed_fields (rt_work t) = reviewed_fields (rt_work s)"
proof -
  obtain a b n' c d where st: "set_status e InProgress s = (Inr (), a)"
    and up: "update_node_status e (xn_id n) Verified a = (Inr (), b)"
    and n': "current_node_of (rt_session b) = Some n'"
    and wr: "write_field e (set_verify_result Verification (project_outcome result)) b = (Inr (), c)"
    and cp: "capture_current_work_state e c = (Inr (), d)"
    and t: "t = d\<lparr>rt_effects := rt_effects d @ [HookPostNode (xn_id n') True]\<rparr>"
    and r: "r = \<lparr>nvr_status = Verified, nvr_retry_count = 0, nvr_failure_reason = None\<rparr>"
    using assms(1) by (auto simp: verified_end_def bnd_Inr_iff effect_def panic_def split: option.splits)
  note view = node_viewD [OF status_view [OF st]] and upd = update_node_status_run [OF up]
    and out = record_outcome_run [OF wr cp]
  have "current_node_of (rt_session b) = Some (n\<lparr>xn_status := Verified\<rparr>)"
    using current_node_updated [of "rt_session a" n "rt_session b" Verified] upd view assms(2) by simp
  then show "current_node_of (rt_session t) = Some (n\<lparr>xn_status := Verified\<rparr>)"
    "ss_status (rt_session t) = InProgress" "nvr_status r = Verified"
    "ws_verify_result (rt_work t) = Some (project_outcome result)"
    "reviewed_fields (rt_work t) = reviewed_fields (rt_work s)"
    using out upd view set_status_run [OF st] t r by simp_all
qed

lemma failed_end_run:
  assumes "failed_end e (xn_id n) result s = (Inr r, t)" and "current_node_of (rt_session s) = Some n"
  shows "current_node_of (rt_session t) = Some (n\<lparr>xn_status := NodeFailed, xn_retry_count := xn_retry_count n + 1\<rparr>)"
    "ss_status (rt_session t) = (if env_auto_retry_max e \<le> xn_retry_count n + 1 then SessionFailed
                                 else ss_status (rt_session s))"
    "nvr_status r = NodeFailed" "ws_verify_result (rt_work t) = Some (project_outcome result)"
    "reviewed_fields (rt_work t) = reviewed_fields (rt_work s)"
proof -
  obtain a b n' c d f where up: "update_node_status e (xn_id n) NodeFailed s = (Inr (), a)"
    and inc: "increment_node_retry e (xn_id n) a = (Inr (), b)"
    and n': "current_node_of (rt_session b) = Some n'"
    and wr: "write_field e (set_verify_result Verification (project_outcome result)) b = (Inr (), c)"
    and cp: "capture_current_work_state e c = (Inr (), d)"
    and fail: "when_m (env_auto_retry_max e \<le> xn_retry_count n') (set_status e SessionFailed) d = (Inr (), f)"
    and t: "t = f\<lparr>rt_effects := rt_effects f @ [HookPostNode (xn_id n') False]\<rparr>"
    and r: "nvr_status r = NodeFailed"
    using assms(1)
    by (auto simp: failed_end_def bnd_Inr_iff effect_def panic_def read_work_run require_some_run split: option.splits)
  note upd = update_node_status_run [OF up] and out = record_outcome_run [OF wr cp]
  have "current_node_of (rt_session a) = Some (n\<lparr>xn_status := NodeFailed\<rparr>)"
    using current_node_updated [of "rt_session s" n "rt_session a" NodeFailed] upd assms(2) by simp
  note inc = current_node_retried [of e "n\<lparr>xn_status := NodeFailed\<rparr>", simplified, OF inc this]
  have n'_eq: "n' = n\<lparr>xn_status := NodeFailed, xn_retry_count := xn_retry_count n + 1\<rparr>" using n' inc by simp
  have f: "node_view f = node_view d \<and> ss_status (rt_session f) =
      (if env_auto_retry_max e \<le> xn_retry_count n' then SessionFailed else ss_status (rt_session d))"
    using fail status_view [of e SessionFailed d] set_status_run [of e SessionFailed d]
    by (auto simp: when_run split: if_splits)
  note view = node_viewD [OF conjunct1 [OF f]]
  show "current_node_of (rt_session t) = Some (n\<lparr>xn_status := NodeFailed, xn_retry_count := xn_retry_count n + 1\<rparr>)"
    "ss_status (rt_session t) = (if env_auto_retry_max e \<le> xn_retry_count n + 1 then SessionFailed
                                 else ss_status (rt_session s))"
    "nvr_status r = NodeFailed" "ws_verify_result (rt_work t) = Some (project_outcome result)"
    "reviewed_fields (rt_work t) = reviewed_fields (rt_work s)"
    using view f out upd inc t r n'_eq by simp_all
qed

text \<open>
  A call of \<open>verify_node\<close> that returns has run the node's verification commands through the
  gate, and the verdict of the gate is the status of the node: verified, with the session open
  again, or failed with one more retry on its count, and then the session fails as well once the
  count reaches the limit. It consults neither the plan nor the reviewer: plan, review decision,
  iteration budget and audit trail are the same afterwards, so a plan with a human-review stage
  does not keep a node on this path from being verified.
\<close>

theorem verify_node_correct:
  assumes "verify_node e s = (Inr r, t)"
  shows "\<exists>n u result v. current_node_of (rt_session s) = Some n \<and> xn_status n \<in> {Running, NodeFailed} \<and>
    verify_and_complete e (xc_verify_commands (xn_contract n)) (xc_expected_files (xn_contract n)) u = (Inr result, v) \<and>
    current_node_of (rt_session t) = Some (n\<lparr>xn_status := nvr_status r,
      xn_retry_count := (if vr_success result then xn_retry_count n else xn_retry_count n + 1)\<rparr>) \<and>
    nvr_status r = (if vr_success result then Verified else NodeFailed) \<and>
    (vr_success result \<longrightarrow> ss_status (rt_session t) = InProgress) \<and>
    (\<not> vr_success result \<and> env_auto_retry_max e \<le> xn_retry_count n + 1 \<longrightarrow> ss_status (rt_session t) = SessionFailed) \<and>
    ws_verify_result (rt_work t) = Some (project_outcome result) \<and>
    reviewed_fields (rt_work t) = reviewed_fields (rt_work s)"
proof -
  obtain n u result v where n: "current_node_of (rt_session s) = Some n" "xn_status n \<in> {Running, NodeFailed}"
    and up: "update_node_status e (xn_id n) Verifying s = (Inr (), u)"
    and gate: "verify_and_complete e (xc_verify_commands (xn_contract n)) (xc_expected_files (xn_contract n)) u = (Inr result, v)"
    and tail: "(if vr_success result then verified_end e (xn_id n) result v else failed_end e (xn_id n) result v) = (Inr r, t)"
    using verify_node_phases [OF assms] by blast
  note upd = update_node_status_run [OF up] and view = node_viewD [OF gate_view [OF gate]]
  have cur: "current_node_of (rt_session v) = Some (n\<lparr>xn_status := Verifying\<rparr>)"
    using current_node_updated [of "rt_session s" n "rt_session u" Verifying] upd view n by simp
  have same: "rt_work v = rt_work s" using upd view by simp
  show ?thesis
  proof (cases "vr_success result")
    case True
    then show ?thesis
      using verified_end_run [of e "n\<lparr>xn_status := Verifying\<rparr>" result v r t] tail cur same n gate
      by (intro exI [of _ n] exI [of _ u] exI [of _ result] exI [of _ v]) auto
  next
    case False
    then show ?thesis
      using failed_end_run [of e "n\<lparr>xn_status := Verifying\<rparr>" result v r t] tail cur same n gate
      by (intro exI [of _ n] exI [of _ u] exI [of _ result] exI [of _ v]) auto
  qed
qed

section \<open>An executor that fails\<close>

lemma update_node_status_ok:
  assumes "\<forall>k. env_io_ok e k"
  shows "\<exists>u. update_node_status e i st s = (Inr (), u) \<and> rt_poisoned u = rt_poisoned s \<and>
    rt_disk_session u = Some (rt_session u) \<and> ss_current_turn (rt_session u) = ss_current_turn (rt_session s) \<and>
    ss_turns (rt_session u) = ss_turns (rt_session s)"
  using touch_and_save_ok [OF assms, of "s\<lparr>rt_session := (rt_session s)\<lparr>ss_node_states :=
      update_first (\<lambda>n. xn_id n = i) (\<lambda>n. n\<lparr>xn_status := st\<rparr>) (ss_node_states (rt_session s))\<rparr>\<rparr>"]
  by (auto simp: update_node_status_def modify_session_def bnd_def)

lemma verify_and_complete_no_executor:
  assumes "\<forall>k. env_execute e k c = None" and "\<not> rt_poisoned s"
  shows "\<exists>er k. verify_and_complete e (c # cs) fs s = (Inl er, s\<lparr>rt_tick := k\<rparr>)"
  using assms
  by (auto simp: verify_and_complete_def run_verification_attempt_def run_anchor_commands_def
      execute_command_def bnd_def ask_def lock_def)

lemma rollback_node_refuses:
  assumes "ss_node_states (rt_session s) = [n]" and "\<not> terminal_node n" and "\<not> rt_poisoned s"
  shows "rollback_node e s = (Inl NoRollbackAnchor, s)"
  using assms by (simp add: rollback_node_def lock_def bnd_def require_some_def rollback_anchor_def terminal_node_def)

text \<open>
  An executor that cannot run the node's first command leaves the node stuck. The call fails,
  but the node stays in the state of being verified, in memory and on disk; it can neither be
  verified again nor be followed by another node, and if it is the only node of the session, it
  cannot be rolled back either.
\<close>

theorem verify_node_stuck:
  assumes "current_node_of (rt_session s) = Some n" and "xn_status n \<in> {Running, NodeFailed}"
    and "\<not> rt_poisoned s" and "current_turn_record (rt_session s) = Some g"
    and "xc_verify_commands (xn_contract n) = c # cs"
    and "\<forall>k. env_execute e k c = None" and "\<forall>k. env_io_ok e k"
  shows "\<exists>er t. verify_node e s = (Inl er, t) \<and>
    current_node_of (rt_session t) = Some (n\<lparr>xn_status := Verifying\<rparr>) \<and> rt_disk_session t = Some (rt_session t) \<and>
    verify_node e' t = (Inl (NodeNotVerifiable Verifying), t) \<and>
    fst (begin_node_with_work_graph e' goal cps ts vs fs req t) = Inl (NodeNotTerminal Verifying) \<and>
    (ss_node_states (rt_session s) = [n] \<longrightarrow> rollback_node e' t = (Inl NoRollbackAnchor, t))"
proof -
  obtain u where up: "update_node_status e (xn_id n) Verifying s = (Inr (), u)" and np: "\<not> rt_poisoned u"
    and disk: "rt_disk_session u = Some (rt_session u)"
    and turns: "ss_current_turn (rt_session u) = ss_current_turn (rt_session s)" "ss_turns (rt_session u) = ss_turns (rt_session s)"
    using update_node_status_ok [OF assms(7), of "xn_id n" Verifying s] assms(3) by auto
  have cur: "current_node_of (rt_session u) = Some (n\<lparr>xn_status := Verifying\<rparr>)"
    using current_node_updated [OF assms(1), of "rt_session u"] update_node_status_run [OF up] by blast
  have g: "current_turn_record (rt_session u) = Some g"
    using assms(4) turns by (simp add: current_turn_record_def split: option.splits)
  obtain er k where gate: "verify_and_complete e (c # cs) (xc_expected_files (xn_contract n)) u = (Inl er, u\<lparr>rt_tick := k\<rparr>)"
    using verify_and_complete_no_executor [OF assms(6) np] by blast
  define t where "t = u\<lparr>rt_tick := k\<rparr>"
  have t: "current_node_of (rt_session t) = Some (n\<lparr>xn_status := Verifying\<rparr>)" "\<not> rt_poisoned t"
    "current_turn_record (rt_session t) = Some g" "rt_disk_session t = Some (rt_session t)"
    using cur np g disk by (simp_all add: t_def)
  have run: "verify_node e s = (Inl er, t)"
    using assms(1-3,5) up gate by (auto simp: verify_node_def bnd_def lock_def require_some_def t_def)
  have "ss_node_states (rt_session s) = [n] \<Longrightarrow> ss_node_states (rt_session t) = [n\<lparr>xn_status := Verifying\<rparr>]"
    using update_node_status_run [OF up] by (simp add: t_def)
  then show ?thesis
    using run t verify_node_refuses [OF t(1), of e'] begin_node_refuses [OF t(1) _ t(2,3), of e']
      rollback_node_refuses [of t "n\<lparr>xn_status := Verifying\<rparr>" e']
    by (auto simp: terminal_node_def)
qed

section \<open>The theorems at concrete runs\<close>

definition running_node_rt :: rt where
  "running_node_rt = failed_node_rt\<lparr>rt_session := (rt_session failed_node_rt)
     \<lparr>ss_node_states := [failed_node\<lparr>xn_status := Running\<rparr>]\<rparr>\<rparr>"

definition no_executor_env :: env where
  "no_executor_env = calm_env\<lparr>env_execute := \<lambda>_ _. None\<rparr>"

theorem verify_node_correct_witness:
  "\<exists>r t. verify_node failing_env running_node_rt = (Inr r, t) \<and>
     reviewed_fields (rt_work t) = reviewed_fields (rt_work running_node_rt)"
proof -
  have "is_ok (fst (verify_node failing_env running_node_rt))" by code_simp
  then obtain r t where run: "verify_node failing_env running_node_rt = (Inr r, t)" by (rule is_ok_obtain)
  then show ?thesis using verify_node_correct [OF run] by blast
qed

theorem verify_node_stuck_witness:
  "\<exists>er t. verify_node no_executor_env running_node_rt = (Inl er, t) \<and>
     map_option xn_status (current_node_of (rt_session t)) = Some Verifying \<and>
     rollback_node calm_env t = (Inl NoRollbackAnchor, t)"
proof -
  have n: "current_node_of (rt_session running_node_rt) = Some (failed_node\<lparr>xn_status := Running\<rparr>)"
    "ss_node_states (rt_session running_node_rt) = [failed_node\<lparr>xn_status := Running\<rparr>]"
    by (simp_all add: running_node_rt_def failed_node_rt_def failed_node_def current_node_of_def)
  have np: "\<not> rt_poisoned running_node_rt" "current_turn_record (rt_session running_node_rt) \<noteq> None" by code_simp+
  then obtain g where "current_turn_record (rt_session running_node_rt) = Some g" by blast
  then show ?thesis
    using verify_node_stuck [OF n(1) _ np(1), of g "''a''" "[]" no_executor_env calm_env] n
    by (fastforce simp: failed_node_def no_executor_env_def calm_env_def)
qed

end
