(* ===== verification/Decompose.thy ===== *)
theory Decompose
  imports Node_Rollback
begin

text \<open>
  \<open>exec_session/decompose.rs\<close>: the \<open>decompose_node\<close> tool. A proposal is parsed into closed-set
  units, checked against the parent's plan, depth and remaining iterations, and materialised with a
  split of the iteration budget. Of an error only its code is kept (\<open>InvalidInput\<close>,
  \<open>DecomposeRejected\<close>, and the errors behind \<open>decompose_failed\<close>).
\<close>

section \<open>Parsing a proposal\<close>

definition MAX_DECOMPOSE_DEPTH :: u32 where "MAX_DECOMPOSE_DEPTH = 2"

definition MAX_DECOMPOSE_UNITS :: nat where "MAX_DECOMPOSE_UNITS = 4"

definition MAX_UNIT_GOAL_CHARS :: nat where "MAX_UNIT_GOAL_CHARS = 2000"

record unit_proposal =
  up_goal :: string
  up_request :: work_graph_request
  up_verify_commands :: "string list"
  up_expected_files :: "string list"

text \<open>
  \<open>serde_json::from_value\<close> of a closed set of names: a string, or an object with the name as its
  only key and null under it.
\<close>

fun closed_name :: "json \<Rightarrow> string option" where
  "closed_name (JString s) = Some s"
| "closed_name (JObject [(k, JNull)]) = Some k"
| "closed_name _ = None"

definition parse_task_kind :: "json \<Rightarrow> rt_error + work_graph_task_kind" where
  "parse_task_kind u =
     (case str_field u ''task_kind'' of
        None \<Rightarrow> Inr Implementation
      | Some v \<Rightarrow>
          if v = ''implementation'' then Inr Implementation
          else if v = ''diagnosis'' then Inr Diagnosis
          else Inl InvalidInput)"

definition parse_risk :: "json \<Rightarrow> rt_error + risk" where
  "parse_risk u =
     (case json_get u ''risk'' of
        None \<Rightarrow> Inr RiskMedium
      | Some v \<Rightarrow>
          if closed_name v = Some ''low'' then Inr RiskLow
          else if closed_name v = Some ''medium'' then Inr RiskMedium
          else if closed_name v = Some ''high'' then Inr RiskHigh
          else Inl InvalidInput)"

definition parse_review :: "json \<Rightarrow> rt_error + bool" where
  "parse_review u =
     (case json_get u ''requires_human_review'' of
        None \<Rightarrow> Inr False
      | Some v \<Rightarrow> ok_or (as_bool v) InvalidInput)"

definition string_array_field :: "json \<Rightarrow> string \<Rightarrow> rt_error + string list option" where
  "string_array_field u field =
     (case json_get u field of
        None \<Rightarrow> Inr None
      | Some v \<Rightarrow>
          result_bind (ok_or (as_array v) InvalidInput) (\<lambda>entries.
          result_bind (collect_results (\<lambda>x. ok_or (as_str x) InvalidInput) entries) (\<lambda>xs.
          Inr (Some xs))))"

definition parse_unit :: "json \<Rightarrow> rt_error + unit_proposal" where
  "parse_unit u =
     result_bind (ok_or (str_field u ''goal'') InvalidInput) (\<lambda>goal.
     if MAX_UNIT_GOAL_CHARS < chars_count goal then Inl InvalidInput
     else
       result_bind (parse_task_kind u) (\<lambda>kind.
       result_bind (parse_risk u) (\<lambda>risk.
       result_bind (parse_review u) (\<lambda>review.
       result_bind (string_array_field u ''verify_commands'') (\<lambda>vs.
       result_bind (ok_or vs InvalidInput) (\<lambda>commands.
       result_bind (string_array_field u ''expected_files'') (\<lambda>fs.
       Inr \<lparr>up_goal = goal,
            up_request = \<lparr>task_kind = kind, requires_human_review = review, req_risk = risk,
                          has_test_infra = True, max_specialists = 1\<rparr>,
            up_verify_commands = commands,
            up_expected_files = (case fs of None \<Rightarrow> [] | Some x \<Rightarrow> x)\<rparr>)))))))"

definition parse_proposal :: "json \<Rightarrow> rt_error + unit_proposal list" where
  "parse_proposal input =
     result_bind (ok_or (Option.bind (json_get input ''units'') as_array) InvalidInput) (\<lambda>units.
     if units = [] \<or> MAX_DECOMPOSE_UNITS < length units then Inl InvalidInput
     else collect_results parse_unit units)"

section \<open>Accepting a proposal\<close>

text \<open>
  The split of the remaining iterations: what each unit gets and what the parent keeps. \<open>None\<close> is a
  panic (division by zero, the \<open>expect\<close> on nothing remaining, or on the product), \<open>Some None\<close> a
  rejection.
\<close>

definition split_budget :: "u32 \<Rightarrow> u32 \<Rightarrow> (u32 \<times> u32) option option" where
  "split_budget remaining unit_count =
     (if unit_count = 0 then None
      else
        case checked_sub remaining 1 of
          None \<Rightarrow> None
        | Some rest \<Rightarrow>
            let child = min (max 2 (remaining div unit_count)) rest in
            case checked_mul child unit_count of
              None \<Rightarrow> None
            | Some allocated \<Rightarrow>
                (case checked_sub remaining allocated of
                   None \<Rightarrow> Some None
                 | Some retained \<Rightarrow> if 1 \<le> retained then Some (Some (child, retained)) else Some None))"

definition compose_units :: "unit_proposal list \<Rightarrow> rt_error + work_graph_plan list" where
  "compose_units units =
     collect_results (\<lambda>u. case compose_and_bind (up_request u) of
        Inl _ \<Rightarrow> Inl DecomposeRejected | Inr p \<Rightarrow> Inr p) units"

definition materialise :: "u32 \<Rightarrow> unit_proposal list \<Rightarrow> work_graph_plan list \<Rightarrow> decomposed_unit list" where
  "materialise child units plans =
     map (\<lambda>(i, u, p). \<lparr>du_unit_id = ''unit-'' @ show_nat i, du_goal = up_goal u, du_request = up_request u,
            du_plan = p, du_allocation = \<lparr>max_iter = child, iter_used = 0, token_used = 0\<rparr>,
            du_verify_commands = up_verify_commands u, du_expected_files = up_expected_files u,
            du_outcome = None\<rparr>)
       (zip [0..<length units] (zip units plans))"

definition parent_budget_after :: "budget \<Rightarrow> u32 \<Rightarrow> budget" where
  "parent_budget_after b retained =
     (let used = saturating_add (iter_used b) 1
      in b\<lparr>iter_used := used, max_iter := used + retained\<rparr>)"

definition decompose_attempt :: "work_state \<Rightarrow> string \<Rightarrow> u32" where
  "decompose_attempt ws node_id =
     max_or 1 (map ae_attempt
       (filter (\<lambda>ev. ae_node_id ev = node_id \<and> ae_kind ev \<noteq> ProfileResolved) (ws_graph_audit ws)))"

definition decomposed_event :: "string \<Rightarrow> u32 \<Rightarrow> budget \<Rightarrow> string \<Rightarrow> graph_audit_event" where
  "decomposed_event node_id attempt b now =
     \<lparr>ae_node_id = node_id, ae_attempt = attempt, ae_kind = Decomposed, ae_anchor = None, ae_commands = [],
      ae_route = None, ae_profile = None, ae_resolved_commands = None, ae_adapted = None,
      ae_parent_node_id = Some node_id, ae_budget = Some b, ae_timestamp = now\<rparr>"

record decompose_output =
  dox_parent_node_id :: string
  dox_child_depth :: u32
  dox_units :: "(string \<times> string \<times> u32 \<times> u32) list"

text \<open>Steps 4 to 7: everything is checked, the work state changes and is captured.\<close>

definition apply_decomposition ::
    "env \<Rightarrow> string \<Rightarrow> u32 \<Rightarrow> budget \<Rightarrow> u32 \<Rightarrow> u32 \<Rightarrow> unit_proposal list \<Rightarrow> work_graph_plan list \<Rightarrow> decompose_output run" where
  "apply_decomposition e node_id child_depth b child retained units plans =
     (let decomposed = materialise child units plans; parent = parent_budget_after b retained in
     bnd (modify_work (set_pre_decompose_budget b)) (\<lambda>_.
     bnd (write_field e (set_budget GeneralPurpose parent)) (\<lambda>_.
     bnd (modify_work (set_decomposed_units decomposed)) (\<lambda>_.
     bnd (gets (\<lambda>s. decompose_attempt (rt_work s) node_id)) (\<lambda>attempt.
     bnd (for_each (\<lambda>_. append_audit e (decomposed_event node_id attempt parent)) decomposed) (\<lambda>_.
     bnd (capture_current_work_state e) (\<lambda>_.
     ret \<lparr>dox_parent_node_id = node_id, dox_child_depth = child_depth,
          dox_units = map (\<lambda>u. (du_unit_id u, template_id (du_plan u), plan_revision (du_plan u),
                               max_iter (du_allocation u))) decomposed\<rparr>)))))))"

definition decompose_for_runtime :: "env \<Rightarrow> unit_proposal list \<Rightarrow> decompose_output run" where
  "decompose_for_runtime e units =
     bnd lock (\<lambda>_.
     bnd (gets (\<lambda>s. (rt_session s, rt_work s))) (\<lambda>(ss, ws).
     if ws_selected_work_graph ws = None then throw DecomposeRejected
     else
       bnd (require_some (current_node_of ss) DecomposeRejected) (\<lambda>node.
       case checked_add (ws_graph_depth ws) 1 of
         None \<Rightarrow> panic
       | Some child_depth \<Rightarrow>
           if MAX_DECOMPOSE_DEPTH \<le> child_depth then throw DecomposeRejected
           else
             bnd (read_work (\<lambda>w. get_budget w GeneralPurpose)) (\<lambda>found.
             let b = (case found of Some x \<Rightarrow> x
                      | None \<Rightarrow> \<lparr>max_iter = env_auto_retry_max e, iter_used = 0, token_used = 0\<rparr>) in
             case split_budget (saturating_sub (max_iter b) (iter_used b)) (of_nat (length units)) of
               None \<Rightarrow> panic
             | Some None \<Rightarrow> throw DecomposeRejected
             | Some (Some (child, retained)) \<Rightarrow>
                 bnd (lift_result (compose_units units)) (\<lambda>plans.
                 apply_decomposition e (xn_id node) child_depth b child retained units plans)))))"

definition decompose_node :: "env \<Rightarrow> json \<Rightarrow> decompose_output run" where
  "decompose_node e input =
     bnd (lift_result (parse_proposal input)) (\<lambda>units. decompose_for_runtime e units)"

section \<open>Decomposition as a handler\<close>

context store_blind
begin

lemma obeys_decompose_node: "obeys R (decompose_node e input)"
  unfolding decompose_node_def decompose_for_runtime_def apply_decomposition_def Let_def
  by (intro store_rules obeys_write_field obeys_append_audit)

end

context handler_relation
begin

lemma same_ledger_decompose:
  "same_ledger w (set_pre_decompose_budget b w)" "same_ledger w (set_decomposed_units us w)"
  by (simp_all add: same_ledger_def coordinator_op_defs)

lemma obeys_decompose_node: "obeys R (decompose_node e input)"
  unfolding decompose_node_def decompose_for_runtime_def apply_decomposition_def Let_def
  by (intro work_rules product_rules obeys_panic obeys_modify_products [OF same_ledger_decompose(1)]
      obeys_modify_products [OF same_ledger_decompose(2)])

end

section \<open>The budget split\<close>

text \<open>
  In closed form, for one to four units: nothing remaining is a panic; with one iteration left the
  units get none; a single unit gets all but one; several units get the integer share, but only if
  it is at least two and does not come out even.
\<close>

lemma split_budget_eq:
  assumes "unat n \<in> {1, 2, 3, 4}"
  shows "split_budget r n =
    (if r = 0 then None
     else if r = 1 then Some (Some (0, 1))
     else if n = 1 then Some (Some (r - 1, 1))
     else if 2 * unat n < unat r \<and> unat r mod unat n \<noteq> 0 then Some (Some (r div n, r mod n))
     else Some None)"
proof -
  have n0: "n \<noteq> 0" using assms by auto
  show ?thesis
  proof (cases "r = 0")
    case True
    then show ?thesis using n0 by (simp add: split_budget_def checked_sub_def)
  next
    case False
    then have r1: "1 \<le> r" by (simp add: word_le_nat_alt unat_gt_0 Suc_leI)
    define c where "c = min (max 2 (r div n)) (r - 1)"
    have ur: "1 \<le> unat r" using False by (simp add: unat_gt_0 Suc_leI)
    have uc: "unat c = min (max 2 (unat r div unat n)) (unat r - 1)"
      using r1 by (simp add: c_def min_def max_def word_le_nat_alt unat_div unat_sub)
    have small: "unat r < 2 ^ 32" using unsigned_less [of r] by simp
    have le: "unat c * unat n \<le> max (2 * unat n) (unat r)"
    proof -
      have "unat c * unat n \<le> max 2 (unat r div unat n) * unat n" using uc by simp
      also have "\<dots> \<le> max (2 * unat n) (unat r)"
        unfolding nat_mult_max_left by (intro max.mono div_times_less_eq_dividend order.refl)
      finally show ?thesis .
    qed
    then have fits: "unat c * unat n < 2 ^ 32" using small assms by auto
    have prod: "unat (c * n) = unat c * unat n" using fits by (simp add: unat_mult_lem [THEN iffD1])
    have mul: "checked_mul c n = Some (c * n)" using fits by (simp add: checked_mul_def)
    have step: "split_budget r n =
        (if c * n \<le> r \<and> 1 \<le> r - c * n then Some (Some (c, r - c * n)) else Some None)"
      using n0 r1 mul by (auto simp: split_budget_def checked_sub_def c_def Let_def)
    have cond: "c * n \<le> r \<and> 1 \<le> r - c * n \<longleftrightarrow> unat c * unat n < unat r"
      using prod by (auto simp: word_le_nat_alt unat_sub)
    consider "r = 1" | "r \<noteq> 1" "n = 1" | "r \<noteq> 1" "n \<noteq> 1" by blast
    then show ?thesis
    proof cases
      case 1
      then have "c = 0" using uc by (simp add: unat_eq_zero)
      then show ?thesis using step 1 by simp
    next
      case 2
      then have "unat c = unat (r - 1)" using uc r1 by (simp add: unat_sub)
      then have "c = r - 1" by (rule unsigned_word_eqI)
      moreover have "r - 1 \<le> r" using r1 by (simp add: word_le_nat_alt unat_sub)
      ultimately show ?thesis using step 2 False r1 by simp
    next
      case 3
      have one: "unat r \<noteq> unat (1::u32)" "unat n \<noteq> unat (1::u32)" using 3 unsigned_word_eqI by blast+
      then have ur2: "2 \<le> unat r" and nn: "unat n \<in> {2, 3, 4}" using ur assms by auto
      show ?thesis
      proof (cases "2 * unat n < unat r \<and> unat r mod unat n \<noteq> 0")
        case True
        then have "unat c = unat (r div n)" using uc nn by (auto simp: unat_div)
        then have c: "c = r div n" by (rule unsigned_word_eqI)
        have "unat c * unat n < unat r" using True nn c by (auto simp: unat_div) presburger+
        then show ?thesis
          using step cond True 3 False c by (simp add: minus_div_mult_eq_mod)
      next
        case even: False
        have "\<not> unat c * unat n < unat r" using even uc nn ur2 by (auto simp: min_def max_def)
        then show ?thesis using step cond even 3 False by simp
      qed
    qed
  qed
qed

section \<open>Accepted proposals\<close>

definition decompose_budget :: "env \<Rightarrow> work_state \<Rightarrow> budget" where
  "decompose_budget e ws = (case ws_budget ws of Some b \<Rightarrow> b
     | None \<Rightarrow> \<lparr>max_iter = env_auto_retry_max e, iter_used = 0, token_used = 0\<rparr>)"

lemma parse_proposal_length:
  "parse_proposal input = Inr units \<Longrightarrow> length units \<in> {1, 2, 3, 4}"
proof -
  assume "parse_proposal input = Inr units"
  then obtain js where "js \<noteq> []" "length js \<le> 4" "list_all2 (\<lambda>j u. parse_unit j = Inr u) js units"
    by (auto simp: parse_proposal_def MAX_DECOMPOSE_UNITS_def result_bind_Inr_iff collect_results_Inr_iff
        split: if_splits)
  then have "1 \<le> length units" "length units \<le> 4"
    by (auto dest!: list_all2_lengthD simp: Suc_le_eq)
  then show ?thesis by auto
qed

lemma depth_zero: "checked_add d 1 = Some c \<Longrightarrow> \<not> 2 \<le> c \<Longrightarrow> d = (0::u32) \<and> c = 1"
proof -
  assume c: "checked_add d 1 = Some c" "\<not> 2 \<le> c"
  then have "unat c = unat d + 1" by (auto simp: checked_add_def unat_word_ariths split: if_splits)
  then have "unat d = 0" using c(2) by (simp add: word_le_nat_alt)
  then show "d = 0 \<and> c = 1" using c(1) by (auto simp: unat_eq_zero checked_add_def split: if_splits)
qed

lemma decompose_phases:
  assumes "decompose_node e input s = (Inr out, t)"
  shows "\<exists>units node child retained plans. parse_proposal input = Inr units \<and> \<not> rt_poisoned s \<and>
    ws_selected_work_graph (rt_work s) \<noteq> None \<and> current_node_of (rt_session s) = Some node \<and>
    ws_graph_depth (rt_work s) = 0 \<and>
    split_budget (saturating_sub (max_iter (decompose_budget e (rt_work s))) (iter_used (decompose_budget e (rt_work s))))
      (of_nat (length units)) = Some (Some (child, retained)) \<and>
    compose_units units = Inr plans \<and>
    apply_decomposition e (xn_id node) 1 (decompose_budget e (rt_work s)) child retained units plans s = (Inr out, t)"
proof -
  obtain units where p: "parse_proposal input = Inr units" and run: "decompose_for_runtime e units s = (Inr out, t)"
    using assms by (auto simp: decompose_node_def bnd_Inr_iff)
  from run have np: "\<not> rt_poisoned s" and sel: "ws_selected_work_graph (rt_work s) \<noteq> None"
    by (auto simp: decompose_for_runtime_def bnd_Inr_iff lock_run split: if_splits)
  with run obtain node where node: "current_node_of (rt_session s) = Some node"
    by (auto simp: decompose_for_runtime_def bnd_Inr_iff lock_run require_some_run)
  have depth: "checked_add (ws_graph_depth (rt_work s)) 1 = Some 1 \<and> ws_graph_depth (rt_work s) = 0"
    using run np sel node depth_zero [of "ws_graph_depth (rt_work s)"]
    by (auto simp: decompose_for_runtime_def bnd_Inr_iff lock_run require_some_run panic_def
        MAX_DECOMPOSE_DEPTH_def split: option.splits if_splits)
  show ?thesis
    using run np sel node depth p
    by (auto simp: decompose_for_runtime_def bnd_Inr_iff lock_run require_some_run panic_def read_work_run
        MAX_DECOMPOSE_DEPTH_def Let_def decompose_budget_def [symmetric] split: option.splits if_splits)
qed

definition announces :: "string \<Rightarrow> budget \<Rightarrow> graph_audit_event \<Rightarrow> bool" where
  "announces i b ev \<longleftrightarrow> ae_kind ev = Decomposed \<and> ae_node_id ev = i \<and> ae_budget ev = Some b"

lemma announces_event: "announces i b (decomposed_event i a b now)"
  by (simp add: announces_def decomposed_event_def)

lemma audit_each:
  "for_each (\<lambda>_. append_audit e (decomposed_event i a b)) xs s = (Inr (), t) \<Longrightarrow>
   \<exists>evs k. length evs = length xs \<and> list_all (announces i b) evs \<and>
     t = s\<lparr>rt_tick := k, rt_work := (rt_work s)\<lparr>ws_graph_audit := ws_graph_audit (rt_work s) @ evs\<rparr>\<rparr>"
proof (induction xs arbitrary: s)
  case Nil
  then show ?case by (intro exI [of _ "[]"] exI [of _ "rt_tick t"]) simp
next
  case (Cons x xs)
  let ?ev = "decomposed_event i a b (env_now e (rt_tick s))"
  have "for_each (\<lambda>_. append_audit e (decomposed_event i a b)) xs
      (s\<lparr>rt_tick := Suc (rt_tick s), rt_work := append_graph_audit ?ev (rt_work s)\<rparr>) = (Inr (), t)"
    using Cons.prems append_audit_run [of e "decomposed_event i a b" s] by (simp add: bnd_Inr_iff)
  from Cons.IH [OF this] obtain evs k where "length evs = length xs" "list_all (announces i b) evs"
    "t = s\<lparr>rt_tick := k, rt_work := (rt_work s)\<lparr>ws_graph_audit := (ws_graph_audit (rt_work s) @ [?ev]) @ evs\<rparr>\<rparr>"
    by (auto simp: append_graph_audit_def)
  then show ?case
    by (intro exI [of _ "?ev # evs"] exI [of _ k]) (simp add: announces_event)
qed

lemma apply_decomposition_run:
  assumes "apply_decomposition e i d b child retained units plans s = (Inr out, t)"
  shows "\<exists>evs. rt_session t = rt_session s \<and>
    ws_decomposed_units (rt_work t) = materialise child units plans \<and>
    ws_pre_decompose_budget (rt_work t) = Some b \<and>
    ws_budget (rt_work t) = Some (parent_budget_after b retained) \<and>
    ws_graph_audit (rt_work t) = ws_graph_audit (rt_work s) @ evs \<and>
    length evs = length (materialise child units plans) \<and>
    list_all (announces i (parent_budget_after b retained)) evs"
proof -
  let ?p = "parent_budget_after b retained" and ?us = "materialise child units plans"
  define u where "u = s\<lparr>rt_tick := Suc (rt_tick s), rt_work := set_decomposed_units ?us
      (push_step GeneralPurpose FieldBudget ActionWrote (env_now e (rt_tick s))
        ((set_pre_decompose_budget b (rt_work s))\<lparr>ws_budget := Some ?p\<rparr>))\<rparr>"
  obtain v where
    audit: "for_each (\<lambda>_. append_audit e (decomposed_event i (decompose_attempt (rt_work u) i) ?p)) ?us u = (Inr (), v)"
    and cap: "capture_current_work_state e v = (Inr (), t)"
    using assms
    by (auto simp: apply_decomposition_def Let_def bnd_Inr_iff modify_work_def write_field_run u_def)
  have u: "rt_session u = rt_session s" "ws_graph_audit (rt_work u) = ws_graph_audit (rt_work s)"
    "ws_decomposed_units (rt_work u) = ?us" "ws_pre_decompose_budget (rt_work u) = Some b" "ws_budget (rt_work u) = Some ?p"
    by (simp_all add: u_def push_step_def set_pre_decompose_budget_def set_decomposed_units_def)
  show ?thesis
    using audit_each [OF audit] u saved_fields [OF capture_run [OF cap]]
    by auto
qed

lemma unat_u32: "unat (x::u32) < 2 ^ 32"
  using unsigned_less [of x] by simp

lemma parent_budget_after_fields:
  assumes "unat (iter_used b) < unat (max_iter b)"
  shows "iter_used (parent_budget_after b retained) = iter_used b + 1"
    "max_iter (parent_budget_after b retained) - iter_used (parent_budget_after b retained) = retained"
    "unat (iter_used b) + 1 + unat retained \<le> unat (max_iter b) \<Longrightarrow>
       unat (max_iter (parent_budget_after b retained)) = unat (iter_used b) + 1 + unat retained"
proof -
  have lt: "unat (iter_used b) + 1 < 2 ^ 32" using assms unat_u32 [of "max_iter b"] by simp
  then have used: "saturating_add (iter_used b) 1 = iter_used b + 1"
    by (simp add: saturating_add_def checked_add_def)
  then show "iter_used (parent_budget_after b retained) = iter_used b + 1"
    "max_iter (parent_budget_after b retained) - iter_used (parent_budget_after b retained) = retained"
    by (simp_all add: parent_budget_after_def Let_def)
  assume le: "unat (iter_used b) + 1 + unat retained \<le> unat (max_iter b)"
  have u1: "unat (iter_used b + 1) = unat (iter_used b) + 1" using lt by (simp add: unat_word_ariths)
  have "unat (iter_used b + 1) + unat retained < 2 ^ 32" using le u1 unat_u32 [of "max_iter b"] by simp
  then have "unat (iter_used b + 1 + retained) = unat (iter_used b + 1) + unat retained"
    by (subst unat_add_lem [symmetric]) simp
  then show "unat (max_iter (parent_budget_after b retained)) = unat (iter_used b) + 1 + unat retained"
    using u1 used by (simp add: parent_budget_after_def Let_def)
qed

lemma unat_of_length: "length units \<in> {1, 2, 3, 4} \<Longrightarrow> unat (of_nat (length units) :: u32) = length units"
  by (auto simp: unat_of_nat)

text \<open>What an accepted split is worth.\<close>

lemma split_budget_conserves:
  assumes "split_budget r n = Some (Some (child, retained))" and "unat n \<in> {1, 2, 3, 4}"
  shows "unat n * unat child + unat retained = unat r" "1 \<le> unat retained" "r \<noteq> 0"
    "child = 0 \<longleftrightarrow> r = 1"
proof -
  have r0: "r \<noteq> 0" using assms by (auto simp: split_budget_eq)
  consider "r = 1" "child = 0" "retained = 1" | "r \<noteq> 1" "n = 1" "child = r - 1" "retained = 1"
    | "r \<noteq> 1" "2 * unat n < unat r" "unat r mod unat n \<noteq> 0" "child = r div n" "retained = r mod n"
    using assms r0 by (auto simp: split_budget_eq split: if_splits)
  then have "unat n * unat child + unat retained = unat r \<and> 1 \<le> unat retained \<and> (child = 0 \<longleftrightarrow> r = 1)"
  proof cases
    case 1
    then show ?thesis by simp
  next
    case 2
    have "unat (r - 1) + 1 = unat r" using r0 by (simp add: unat_minus_one unat_gt_0)
    then show ?thesis using 2 by simp
  next
    case 3
    have "2 \<le> unat r div unat n" using 3 assms(2) by auto
    then have "unat child \<noteq> 0" using 3 by (simp add: unat_div)
    then have "child \<noteq> 0" by auto
    then show ?thesis using 3 by (simp add: unat_div unat_mod)
  qed
  then show "unat n * unat child + unat retained = unat r" "1 \<le> unat retained" "child = 0 \<longleftrightarrow> r = 1" by blast+
  show "r \<noteq> 0" by (rule r0)
qed

lemma materialise_units:
  assumes "length plans = length units"
  shows "length (materialise child units plans) = length units"
    "\<forall>k<length units. let u = materialise child units plans ! k in
       max_iter (du_allocation u) = child \<and> iter_used (du_allocation u) = 0 \<and> du_outcome u = None \<and>
       du_request u = up_request (units ! k) \<and> du_verify_commands u = up_verify_commands (units ! k) \<and>
       du_expected_files u = up_expected_files (units ! k) \<and> du_plan u = plans ! k"
  using assms by (simp_all add: materialise_def Let_def)

text \<open>
  C38: an accepted decomposition. The proposal had one to four well-formed units and was made on a
  node with a plan at the root level. Every unit is pending with its own composed plan and the same
  share of the iterations; the shares and what the parent keeps add up to what remained, the
  parent keeps at least one, and its previous budget is kept for a rollback. One event per unit is
  appended to the audit trail; the session record does not change.
\<close>

theorem decompose_node_correct:
  assumes "decompose_node e input s = (Inr out, t)"
  shows "\<exists>units child retained node evs b'. parse_proposal input = Inr units \<and> length units \<in> {1, 2, 3, 4} \<and>
    ws_selected_work_graph (rt_work s) \<noteq> None \<and> ws_graph_depth (rt_work s) = 0 \<and>
    current_node_of (rt_session s) = Some node \<and> rt_session t = rt_session s \<and>
    length (ws_decomposed_units (rt_work t)) = length units \<and>
    (\<forall>k<length units. let u = ws_decomposed_units (rt_work t) ! k in
       max_iter (du_allocation u) = child \<and> iter_used (du_allocation u) = 0 \<and> du_outcome u = None \<and>
       du_verify_commands u = up_verify_commands (units ! k) \<and>
       compose_and_bind (up_request (units ! k)) = Inr (du_plan u)) \<and>
    ws_pre_decompose_budget (rt_work t) = Some (decompose_budget e (rt_work s)) \<and>
    ws_budget (rt_work t) = Some b' \<and> max_iter b' - iter_used b' = retained \<and>
    iter_used b' = iter_used (decompose_budget e (rt_work s)) + 1 \<and> 1 \<le> unat retained \<and>
    length units * unat child + unat retained =
      unat (max_iter (decompose_budget e (rt_work s))) - unat (iter_used (decompose_budget e (rt_work s))) \<and>
    ws_graph_audit (rt_work t) = ws_graph_audit (rt_work s) @ evs \<and> length evs = length units \<and>
    list_all (announces (xn_id node) b') evs"
proof -
  let ?b = "decompose_budget e (rt_work s)"
  let ?r = "saturating_sub (max_iter ?b) (iter_used ?b)"
  obtain units node child retained plans where p: "parse_proposal input = Inr units"
    and pre: "ws_selected_work_graph (rt_work s) \<noteq> None" "current_node_of (rt_session s) = Some node"
      "ws_graph_depth (rt_work s) = 0"
    and split: "split_budget ?r (of_nat (length units)) = Some (Some (child, retained))"
    and plans: "compose_units units = Inr plans"
    and run: "apply_decomposition e (xn_id node) 1 ?b child retained units plans s = (Inr out, t)"
    using decompose_phases [OF assms] by blast
  have len: "length units \<in> {1, 2, 3, 4}" using p by (rule parse_proposal_length)
  have r: "unat ?r = unat (max_iter ?b) - unat (iter_used ?b)" by (rule unat_saturating_sub)
  have un: "unat (of_nat (length units) :: u32) = length units" using len by (rule unat_of_length)
  note share = split_budget_conserves [OF split, unfolded un, OF len]
  have lt: "unat (iter_used ?b) < unat (max_iter ?b)" using share(3) r unat_gt_0 [of ?r] by simp
  have pl: "list_all2 (\<lambda>u p. compose_and_bind (up_request u) = Inr p) units plans"
    using plans by (auto simp: compose_units_def collect_results_Inr_iff split: sum.splits elim!: list_all2_mono)
  note mat = materialise_units [OF list_all2_lengthD [OF pl, symmetric], of child]
  obtain evs where t: "rt_session t = rt_session s" "ws_decomposed_units (rt_work t) = materialise child units plans"
    "ws_pre_decompose_budget (rt_work t) = Some ?b" "ws_budget (rt_work t) = Some (parent_budget_after ?b retained)"
    "ws_graph_audit (rt_work t) = ws_graph_audit (rt_work s) @ evs" "length evs = length (materialise child units plans)"
    "list_all (announces (xn_id node) (parent_budget_after ?b retained)) evs"
    using apply_decomposition_run [OF run] by blast
  have units: "\<forall>k<length units. let u = materialise child units plans ! k in
       max_iter (du_allocation u) = child \<and> iter_used (du_allocation u) = 0 \<and> du_outcome u = None \<and>
       du_verify_commands u = up_verify_commands (units ! k) \<and>
       compose_and_bind (up_request (units ! k)) = Inr (du_plan u)"
    using mat(2) list_all2_nthD [OF pl] by (simp add: Let_def)
  show ?thesis
    using p len pre t mat(1) units share r parent_budget_after_fields(1,2) [OF lt, of retained]
    by (intro exI [of _ units] exI [of _ child] exI [of _ retained] exI [of _ node] exI [of _ evs]
        exI [of _ "parent_budget_after ?b retained"]) simp
qed

section \<open>Rejected proposals\<close>

lemma bnd_Inl_iff:
  "bnd m f s = (Inl er, t) \<longleftrightarrow> m s = (Inl er, t) \<or> (\<exists>x s'. m s = (Inr x, s') \<and> f x s' = (Inl er, t))"
  by (auto simp: bnd_def split: prod.splits sum.splits)

lemma capture_error: "capture_current_work_state e s = (Inl er, t) \<Longrightarrow> er \<notin> {InvalidInput, DecomposeRejected}"
  by (auto simp: capture_current_work_state_def bnd_Inl_iff io_def ask_def require_some_def
      split: option.splits if_splits)

lemma audit_each_ok: "for_each (\<lambda>_. append_audit e ev) xs s \<noteq> (Inl er, t)"
  by (induction xs arbitrary: s) (simp_all add: bnd_Inl_iff append_audit_def ask_def modify_work_def bnd_def)

lemma apply_decomposition_error:
  "apply_decomposition e i d b child retained units plans s = (Inl er, t) \<Longrightarrow> er \<notin> {InvalidInput, DecomposeRejected}"
  by (auto simp: apply_decomposition_def Let_def bnd_Inl_iff modify_work_def write_field_run audit_each_ok
      dest: capture_error)

text \<open>
  A proposal that is invalid or rejected leaves the runtime exactly as it was: nothing is
  written, nothing audited, no file touched.
\<close>

theorem decompose_rejection_atomic:
  assumes "decompose_node e input s = (Inl er, t)" and "er \<in> {InvalidInput, DecomposeRejected}"
  shows "t = s"
proof -
  have "er \<noteq> Panicked" using assms(2) by auto
  then show ?thesis
    using assms
    by (auto simp: decompose_node_def decompose_for_runtime_def bnd_Inl_iff lock_def require_some_def panic_def
        read_work_def Let_def dest: apply_decomposition_error split: option.splits if_splits prod.splits)
qed

section \<open>Proposals on an exhausted budget\<close>

lemma poisoned_refuses:
  assumes "rt_poisoned s"
  shows "begin_node_with_work_graph e goal cs ts vs fs req s = (Inl LockPoisoned, s)"
    "verify_current_node e s = (Inl LockPoisoned, s)" "run_work_graph e cs ts vs fs s = (Inl LockPoisoned, s)"
    "rollback_node e s = (Inl LockPoisoned, s)" "record_human_review e review s = (Inl LockPoisoned, s)"
    "decompose_for_runtime e units s = (Inl LockPoisoned, s)"
  using assms
  by (simp_all add: begin_node_with_work_graph_def verify_current_node_def run_work_graph_def rollback_node_def
      record_human_review_def decompose_for_runtime_def prepare_work_graph_pass_def lock_def bnd_def)

text \<open>
  A well-formed proposal on a node whose iterations are used up is not rejected: it panics
  while the coordinator's lock is held. The lock is poisoned, and from then on every operation of
  the session fails: no node can begin, be verified, reviewed or rolled back.
\<close>

theorem decompose_exhausted_poisons:
  assumes "parse_proposal input = Inr units" and "\<not> rt_poisoned s"
    and "ws_selected_work_graph (rt_work s) \<noteq> None" and "current_node_of (rt_session s) = Some node"
    and "ws_graph_depth (rt_work s) = 0"
    and "unat (max_iter (decompose_budget e (rt_work s))) \<le> unat (iter_used (decompose_budget e (rt_work s)))"
  shows "\<exists>t. decompose_node e input s = (Inl Panicked, t) \<and>
    begin_node_with_work_graph e' goal cs ts vs fs req t = (Inl LockPoisoned, t) \<and>
    verify_current_node e' t = (Inl LockPoisoned, t) \<and> run_work_graph e' cs ts vs fs t = (Inl LockPoisoned, t) \<and>
    rollback_node e' t = (Inl LockPoisoned, t) \<and> record_human_review e' review t = (Inl LockPoisoned, t)"
proof -
  let ?b = "decompose_budget e (rt_work s)"
  have "unat (saturating_sub (max_iter ?b) (iter_used ?b)) = 0" using assms(6) by (simp add: unat_saturating_sub)
  then have zero: "saturating_sub (max_iter ?b) (iter_used ?b) = 0" by (simp add: unat_eq_zero)
  have panics: "split_budget 0 n = None" for n by (simp add: split_budget_def checked_sub_def)
  have "\<not> (2::u32) \<le> 1" by (simp add: word_le_nat_alt)
  then have "decompose_node e input s = (Inl Panicked, s\<lparr>rt_poisoned := True\<rparr>)"
    using assms(1-5) zero panics
    by (simp add: decompose_node_def decompose_for_runtime_def bnd_def lock_def require_some_def read_work_def
        checked_add_def MAX_DECOMPOSE_DEPTH_def decompose_budget_def [symmetric] panic_def Let_def)
  then show ?thesis by (auto simp: poisoned_refuses)
qed

text \<open>
  With exactly one iteration left a decomposition is accepted, but its units get no iteration
  at all, and the parent's limit grows by one.
\<close>

theorem decompose_last_iteration:
  assumes "decompose_node e input s = (Inr out, t)"
    and "max_iter (decompose_budget e (rt_work s)) = iter_used (decompose_budget e (rt_work s)) + 1"
    and "iter_used (decompose_budget e (rt_work s)) + 1 \<noteq> 0"
  shows "(\<forall>u\<in>set (ws_decomposed_units (rt_work t)). max_iter (du_allocation u) = 0) \<and>
    (\<exists>b'. ws_budget (rt_work t) = Some b' \<and> max_iter b' = max_iter (decompose_budget e (rt_work s)) + 1)"
proof -
  let ?b = "decompose_budget e (rt_work s)"
  let ?r = "saturating_sub (max_iter ?b) (iter_used ?b)"
  obtain units node child retained plans where p: "parse_proposal input = Inr units"
    and split: "split_budget ?r (of_nat (length units)) = Some (Some (child, retained))"
    and plans: "compose_units units = Inr plans"
    and run: "apply_decomposition e (xn_id node) 1 ?b child retained units plans s = (Inr out, t)"
    and "current_node_of (rt_session s) = Some node"
    using decompose_phases [OF assms(1)] by blast
  have le: "iter_used ?b \<le> max_iter ?b" and lt: "unat (iter_used ?b) < unat (max_iter ?b)"
    using assms(2,3) unat_gt_0 [of "iter_used ?b + 1"] unatSuc [of "iter_used ?b"]
    by (auto simp: add.commute word_le_nat_alt)
  then have r: "?r = 1" using assms(2) by (simp add: saturating_sub_def checked_sub_def)
  have n: "unat (of_nat (length units) :: u32) \<in> {1, 2, 3, 4}"
    using parse_proposal_length [OF p] unat_of_length by metis
  have "child = 0" "retained = 1" using split r n by (auto simp: split_budget_eq)
  then show ?thesis
    using apply_decomposition_run [OF run] parent_budget_after_fields(1,2) [OF lt, of retained] assms(2)
    by (auto simp: materialise_def algebra_simps)
qed

section \<open>The theorems at concrete proposals\<close>

definition sample_proposal :: json where
  "sample_proposal = JObject [(''units'', JArray
     [JObject [(''goal'', JString ''g''), (''verify_commands'', JArray [JString ''a''])]])]"

definition budget_rt :: "u32 \<Rightarrow> rt" where
  "budget_rt used = failed_node_rt\<lparr>rt_work := default_work_state
     \<lparr>ws_selected_work_graph := (case compose_and_bind default_request of Inl _ \<Rightarrow> None | Inr p \<Rightarrow> Some p),
      ws_budget := Some \<lparr>max_iter = 3, iter_used = used, token_used = 0\<rparr>\<rparr>\<rparr>"

lemma budget_rt_fields:
  "\<not> rt_poisoned (budget_rt used)" "current_node_of (rt_session (budget_rt used)) = Some failed_node"
  "ws_graph_depth (rt_work (budget_rt used)) = 0"
  "decompose_budget e (rt_work (budget_rt used)) = \<lparr>max_iter = 3, iter_used = used, token_used = 0\<rparr>"
  "ws_selected_work_graph (rt_work (budget_rt used)) \<noteq> None"
proof -
  have "\<not> rt_poisoned open_turn_rt" "is_ok (compose_and_bind default_request)" by code_simp+
  then show "\<not> rt_poisoned (budget_rt used)" "current_node_of (rt_session (budget_rt used)) = Some failed_node"
    "ws_graph_depth (rt_work (budget_rt used)) = 0"
    "decompose_budget e (rt_work (budget_rt used)) = \<lparr>max_iter = 3, iter_used = used, token_used = 0\<rparr>"
    "ws_selected_work_graph (rt_work (budget_rt used)) \<noteq> None"
    by (auto simp: budget_rt_def failed_node_rt_def failed_node_def current_node_of_def decompose_budget_def
        default_work_state_def is_ok_def split: sum.splits)
qed

theorem decompose_node_correct_witness:
  "\<exists>out t. decompose_node calm_env sample_proposal (budget_rt 0) = (Inr out, t) \<and>
     length (ws_decomposed_units (rt_work t)) \<in> {1, 2, 3, 4}"
proof -
  have "is_ok (fst (decompose_node calm_env sample_proposal (budget_rt 0)))" by code_simp
  then obtain out t where run: "decompose_node calm_env sample_proposal (budget_rt 0) = (Inr out, t)"
    by (rule is_ok_obtain)
  show ?thesis using decompose_node_correct [OF run] run by force
qed

theorem decompose_rejection_atomic_witness:
  "decompose_node calm_env JNull (budget_rt 0) = (Inl InvalidInput, budget_rt 0)"
proof -
  have "parse_proposal JNull = Inl InvalidInput" by (simp add: parse_proposal_def)
  then have "fst (decompose_node calm_env JNull (budget_rt 0)) = Inl InvalidInput"
    by (simp add: decompose_node_def bnd_def)
  then obtain t where run: "decompose_node calm_env JNull (budget_rt 0) = (Inl InvalidInput, t)"
    by (metis prod.collapse)
  show ?thesis using decompose_rejection_atomic [OF run] run by simp
qed

theorem decompose_exhausted_poisons_witness:
  "\<exists>t. decompose_node calm_env sample_proposal (budget_rt 3) = (Inl Panicked, t) \<and>
     rollback_node calm_env t = (Inl LockPoisoned, t)"
proof -
  have "is_ok (parse_proposal sample_proposal)" by code_simp
  then obtain units where "parse_proposal sample_proposal = Inr units"
    by (auto simp: is_ok_def split: sum.splits)
  then show ?thesis
    using decompose_exhausted_poisons [OF _ budget_rt_fields(1,5,2,3), of sample_proposal units calm_env 3 calm_env "[]" "[]" "[]" "[]" "[]" default_request]
    by (auto simp: budget_rt_fields(4))
qed

theorem decompose_last_iteration_witness:
  "\<exists>out t b'. decompose_node calm_env sample_proposal (budget_rt 2) = (Inr out, t) \<and>
     ws_budget (rt_work t) = Some b' \<and> max_iter b' = 4"
proof -
  have "is_ok (fst (decompose_node calm_env sample_proposal (budget_rt 2)))" by code_simp
  then obtain out t where run: "decompose_node calm_env sample_proposal (budget_rt 2) = (Inr out, t)"
    by (rule is_ok_obtain)
  then show ?thesis using decompose_last_iteration [OF run] by (simp add: budget_rt_fields(4))
qed

end
