(* ===== verification/Root_Cause_Dispatch.thy ===== *)
theory Root_Cause_Dispatch
  imports Node_Verify Decompose
begin

text \<open>
  \<open>exec_session/runtime_store.rs\<close>: the entry a trusted session owns (its runtime and the cell of
  the pending root-cause route) and the protocol that leads a failed work graph through one
  diagnosing child: reserve the route, bind the child, release the implement edge with the child's
  report, or fail closed when the child ends without one. One session is modelled; the store's
  mutexes serialise the calls.
\<close>

section \<open>The entry of a session\<close>

record pending_root_cause =
  prc_node_id :: string
  prc_attempt :: u32
  prc_child_id :: "string option"

text \<open>
  The request to the diagnosing child: the prompt is a fixed sentence followed by a JSON object with
  these fields.
\<close>

record root_cause_request =
  rcr_node_goal :: string
  rcr_attempt :: u32
  rcr_compile_result :: "compile_result option"
  rcr_test_result :: "test_result option"
  rcr_verify_result :: "verify_outcome option"

datatype root_cause_dispatch_state = DispatchReady root_cause_request | DispatchPending string

datatype store_error =
    RuntimeError rt_error
  | NoDispatchedChild
  | NotRootCause
  | NoActiveNode
  | NoRootCauseRoute
  | RouteMismatch
  | ChildMismatch
  | EdgeNotReleased
  | DispatchInCreation
  | NoWaitingRoute
  | AlreadyBound

text \<open>\<open>en_open\<close>: whether the store holds an entry, that is, whether the session was used since the
  process started.\<close>

record store_entry =
  en_open :: bool
  en_rt :: rt
  en_pending :: "pending_root_cause option"

type_synonym 'a store_run = "(store_entry, store_error, 'a) smon"

definition on_rt :: "'a run \<Rightarrow> 'a store_run" where
  "on_rt m = (\<lambda>s. case m (en_rt s) of
     (Inl er, r) \<Rightarrow> (Inl (RuntimeError er), s\<lparr>en_rt := r\<rparr>)
   | (Inr x, r) \<Rightarrow> (Inr x, s\<lparr>en_rt := r\<rparr>))"

definition set_pending :: "pending_root_cause option \<Rightarrow> unit store_run" where
  "set_pending p = upd (\<lambda>s. s\<lparr>en_pending := p\<rparr>)"

definition entry_for :: "env \<Rightarrow> string \<Rightarrow> unit store_run" where
  "entry_for e session_id =
     bnd (gets en_open) (\<lambda>opened.
     if opened then ret ()
     else
       bnd (upd (\<lambda>s. s\<lparr>en_rt := (en_rt s)\<lparr>rt_poisoned := False\<rparr>\<rparr>)) (\<lambda>_.
       bnd (on_rt (open_or_create e session_id AgentSelf)) (\<lambda>_.
       upd (\<lambda>s. s\<lparr>en_open := True, en_pending := None\<rparr>))))"

definition ensure_turn :: "env \<Rightarrow> string \<Rightarrow> unit store_run" where
  "ensure_turn e session_id =
     bnd (entry_for e session_id) (\<lambda>_.
     on_rt (bnd lock (\<lambda>_.
       bnd (gets (\<lambda>s. ss_current_turn (rt_session s))) (\<lambda>turn.
       if turn = None then bnd (begin_turn e) (\<lambda>_. ret ()) else ret ()))))"

definition store_record_human_review :: "env \<Rightarrow> string \<Rightarrow> human_review \<Rightarrow> work_graph_step store_run" where
  "store_record_human_review e session_id review =
     bnd (entry_for e session_id) (\<lambda>_. on_rt (record_human_review e review))"

section \<open>The root-cause route\<close>

definition latest_root_cause_route :: "work_state \<Rightarrow> string \<Rightarrow> store_error + graph_audit_event" where
  "latest_root_cause_route ws node_id =
     ok_or (find (\<lambda>ev. ae_node_id ev = node_id \<and> ae_kind ev = RouteSelected \<and> ae_route ev = Some RouteRootCause)
              (rev (ws_graph_audit ws))) NoRootCauseRoute"

definition lift_contract :: "coordinator_error + 'a \<Rightarrow> store_error + 'a" where
  "lift_contract r = (case r of Inl er \<Rightarrow> Inl (RuntimeError (ContractFailed er)) | Inr x \<Rightarrow> Inr x)"

definition root_cause_dispatch_request ::
    "session_state \<Rightarrow> work_state \<Rightarrow> store_error + (root_cause_request \<times> string \<times> u32)" where
  "root_cause_dispatch_request ss ws =
     result_bind (ok_or (current_node_of ss) NoActiveNode) (\<lambda>node.
     result_bind (latest_root_cause_route ws (xn_id node)) (\<lambda>route.
     result_bind (lift_contract (get_compile_result ws RootCause)) (\<lambda>c.
     result_bind (lift_contract (get_test_result ws RootCause)) (\<lambda>t.
     result_bind (lift_contract (get_verify_result ws RootCause)) (\<lambda>v.
     Inr (\<lparr>rcr_node_goal = xc_goal (xn_contract node), rcr_attempt = ae_attempt route,
           rcr_compile_result = c, rcr_test_result = t, rcr_verify_result = v\<rparr>,
          xn_id node, ae_attempt route))))))"

definition route_event :: "string \<Rightarrow> u32 \<Rightarrow> graph_audit_route \<Rightarrow> budget option \<Rightarrow> string \<Rightarrow> graph_audit_event" where
  "route_event node_id attempt route b now =
     \<lparr>ae_node_id = node_id, ae_attempt = attempt, ae_kind = RouteSelected, ae_anchor = None, ae_commands = [],
      ae_route = Some route, ae_profile = None, ae_resolved_commands = None, ae_adapted = None,
      ae_parent_node_id = None, ae_budget = b, ae_timestamp = now\<rparr>"

definition require_m :: "bool \<Rightarrow> store_error \<Rightarrow> unit store_run" where
  "require_m b er = (if b then ret () else throw er)"

definition record_specialist_report ::
    "env \<Rightarrow> string \<Rightarrow> node_type \<Rightarrow> string \<Rightarrow> specialist_report \<Rightarrow> work_graph_step store_run" where
  "record_specialist_report e session_id caller agent_id report =
     bnd (entry_for e session_id) (\<lambda>_.
     bnd (gets en_pending) (\<lambda>pending.
     bnd (require_some (Option.bind pending prc_child_id) NoDispatchedChild) (\<lambda>expected_child.
     bnd (require_m (caller = RootCause) NotRootCause) (\<lambda>_.
     bnd (on_rt lock) (\<lambda>_.
     bnd (gets (\<lambda>s. (rt_session (en_rt s), rt_work (en_rt s)))) (\<lambda>(ss, ws).
     bnd (require_m (ss_current_turn ss \<noteq> None \<and> current_node_of ss \<noteq> None) NoActiveNode) (\<lambda>_.
     bnd (require_some (current_node_of ss) NoActiveNode) (\<lambda>node.
     bnd (lift_result (latest_root_cause_route ws (xn_id node))) (\<lambda>route.
     bnd (require_some pending NoDispatchedChild) (\<lambda>p.
     bnd (require_m (prc_node_id p = xn_id node \<and> prc_attempt p = ae_attempt route) RouteMismatch) (\<lambda>_.
     bnd (require_m (expected_child = agent_id) ChildMismatch) (\<lambda>_.
     bnd (on_rt (read_work (\<lambda>w. get_budget w GeneralPurpose))) (\<lambda>b.
     bnd (on_rt (write_field e (set_specialist_report caller report))) (\<lambda>_.
     bnd (on_rt (read_work next_step)) (\<lambda>step.
     bnd (require_m (step = StepImplement) EdgeNotReleased) (\<lambda>_.
     bnd (on_rt (append_audit e (route_event (xn_id node) (ae_attempt route) RouteImplement b))) (\<lambda>_.
     bnd (on_rt (capture_current_work_state e)) (\<lambda>_.
     bnd (set_pending None) (\<lambda>_.
     ret step)))))))))))))))))))"

section \<open>Reserving, binding and resolving the child\<close>

definition reserve_route :: "root_cause_request store_run" where
  "reserve_route =
     bnd (on_rt lock) (\<lambda>_.
     bnd (gets (\<lambda>s. root_cause_dispatch_request (rt_session (en_rt s)) (rt_work (en_rt s)))) (\<lambda>found.
     bnd (lift_result found) (\<lambda>(request, node_id, attempt).
     bnd (set_pending (Some \<lparr>prc_node_id = node_id, prc_attempt = attempt, prc_child_id = None\<rparr>)) (\<lambda>_.
     ret request))))"

definition prepare_root_cause_dispatch :: "env \<Rightarrow> string \<Rightarrow> root_cause_dispatch_state store_run" where
  "prepare_root_cause_dispatch e session_id =
     bnd (entry_for e session_id) (\<lambda>_.
     bnd (gets en_pending) (\<lambda>pending.
     case pending of
       Some p \<Rightarrow> (case prc_child_id p of Some c \<Rightarrow> ret (DispatchPending c) | None \<Rightarrow> throw DispatchInCreation)
     | None \<Rightarrow> bnd reserve_route (\<lambda>request. ret (DispatchReady request))))"

definition prepare_recovered_root_cause_dispatch :: "env \<Rightarrow> string \<Rightarrow> root_cause_request option store_run" where
  "prepare_recovered_root_cause_dispatch e session_id =
     bnd (entry_for e session_id) (\<lambda>_.
     bnd (gets en_pending) (\<lambda>pending.
     if pending \<noteq> None then ret None
     else
       bnd (on_rt lock) (\<lambda>_.
       bnd (on_rt (read_work next_step)) (\<lambda>step.
       if step \<noteq> StepRootCause then ret None
       else bnd reserve_route (\<lambda>request. ret (Some request))))))"

text \<open>The common end of both ways to bind: the cell first, then the record of the binding.\<close>

definition bind_child :: "env \<Rightarrow> pending_root_cause \<Rightarrow> string \<Rightarrow> unit store_run" where
  "bind_child e route child_id =
     bnd (set_pending (Some (route\<lparr>prc_child_id := Some child_id\<rparr>))) (\<lambda>_.
     on_rt (bnd lock (\<lambda>_.
       bnd (ask (env_now e)) (\<lambda>now.
       bnd (modify_work (append_graph_child_binding
              \<lparr>gcb_node_id = prc_node_id route, gcb_attempt = prc_attempt route, gcb_role = RootCause,
               gcb_child_agent_id = child_id, gcb_timestamp = now, gcb_child_graph = None\<rparr>)) (\<lambda>_.
       capture_current_work_state e)))))"

definition bind_root_cause_child :: "env \<Rightarrow> string \<Rightarrow> string \<Rightarrow> unit store_run" where
  "bind_root_cause_child e session_id child_id =
     bnd (entry_for e session_id) (\<lambda>_.
     bnd (gets en_pending) (\<lambda>pending.
     bnd (require_some pending NoWaitingRoute) (\<lambda>route.
     bnd (require_m (prc_child_id route = None) AlreadyBound) (\<lambda>_.
     bind_child e route child_id))))"

definition try_bind_root_cause_child :: "env \<Rightarrow> string \<Rightarrow> string \<Rightarrow> bool store_run" where
  "try_bind_root_cause_child e session_id child_id =
     bnd (entry_for e session_id) (\<lambda>_.
     bnd (gets en_pending) (\<lambda>pending.
     case pending of
       None \<Rightarrow> ret False
     | Some route \<Rightarrow>
         if prc_child_id route \<noteq> None then ret False
         else bnd (bind_child e route child_id) (\<lambda>_. ret True)))"

definition exhaust :: "budget \<Rightarrow> budget" where
  "exhaust b = b\<lparr>iter_used := max_iter b\<rparr>"

definition resolve_root_cause_child_terminal :: "env \<Rightarrow> string \<Rightarrow> string \<Rightarrow> unit store_run" where
  "resolve_root_cause_child_terminal e session_id child_id =
     bnd (entry_for e session_id) (\<lambda>_.
     bnd (gets en_pending) (\<lambda>pending.
     case pending of
       None \<Rightarrow> ret ()
     | Some route \<Rightarrow>
         if prc_child_id route \<noteq> Some child_id then ret ()
         else
           bnd (on_rt lock) (\<lambda>_.
           bnd (on_rt (read_work (\<lambda>w. get_budget w GeneralPurpose))) (\<lambda>found.
           bnd (on_rt (case found of None \<Rightarrow> ret ()
                       | Some b \<Rightarrow> write_field e (set_budget GeneralPurpose (exhaust b)))) (\<lambda>_.
           bnd (on_rt (append_audit e (route_event (prc_node_id route) (prc_attempt route) RouteEscalate
                         (map_option exhaust found)))) (\<lambda>_.
           bnd (on_rt (capture_current_work_state e)) (\<lambda>_.
           bnd (set_pending None) (\<lambda>_.
           on_rt (escalate_current_work_graph e))))))))) "

definition cancel_root_cause_dispatch :: "env \<Rightarrow> string \<Rightarrow> unit store_run" where
  "cancel_root_cause_dispatch e session_id =
     bnd (entry_for e session_id) (\<lambda>_.
     bnd (gets en_pending) (\<lambda>pending.
     case pending of
       Some p \<Rightarrow> if prc_child_id p = None then set_pending None else ret ()
     | None \<Rightarrow> ret ()))"

definition root_cause_pending :: "env \<Rightarrow> string \<Rightarrow> bool store_run" where
  "root_cause_pending e session_id =
     bnd (entry_for e session_id) (\<lambda>_.
     bnd (gets en_pending) (\<lambda>pending.
     if pending \<noteq> None then ret True
     else bnd (on_rt lock) (\<lambda>_. bnd (on_rt (read_work next_step)) (\<lambda>step. ret (step = StepRootCause)))))"

section \<open>Running an open entry\<close>

lemma entry_for_open [simp]: "en_open s \<Longrightarrow> bnd (entry_for e i) f s = f () s"
  by (simp add: entry_for_def bnd_def)

lemma entry_for_ready [simp]: "en_open s \<Longrightarrow> entry_for e i s = (Inr (), s)"
  by (simp add: entry_for_def bnd_def)

lemma on_rt_run: "on_rt m s = (Inr x, t) \<longleftrightarrow> (\<exists>r. m (en_rt s) = (Inr x, r) \<and> t = s\<lparr>en_rt := r\<rparr>)"
  by (auto simp: on_rt_def split: prod.splits sum.splits)

lemma require_m_run: "require_m b er s = (Inr x, t) \<longleftrightarrow> b \<and> t = s"
  by (auto simp: require_m_def)

lemma set_pending_run: "set_pending p s = (Inr x, t) \<longleftrightarrow> t = s\<lparr>en_pending := p\<rparr>"
  by (auto simp: set_pending_def)

lemma read_budget_run [simp]:
  "read_work (\<lambda>w. get_budget w GeneralPurpose) s = (Inr b, t) \<longleftrightarrow> b = ws_budget (rt_work s) \<and> t = s"
  by (auto simp: read_work_run)

lemma on_rt_fails: "on_rt m s = (Inl er, t) \<longleftrightarrow> (\<exists>x r. m (en_rt s) = (Inl x, r) \<and> er = RuntimeError x \<and> t = s\<lparr>en_rt := r\<rparr>)"
  by (auto simp: on_rt_def split: prod.splits sum.splits)

lemma require_fails:
  "require_m b er s = (Inl er', t) \<longleftrightarrow> \<not> b \<and> er' = er \<and> t = s"
  "require_some y er s = (Inl er', t) \<longleftrightarrow> y = None \<and> er' = er \<and> t = s"
  by (auto simp: require_m_def require_some_def split: option.splits)

lemma set_pending_ok: "set_pending p s \<noteq> (Inl er, t)"
  by (simp add: set_pending_def)

lemma latest_route_fails: "latest_root_cause_route w i = Inl er \<Longrightarrow> er = NoRootCauseRoute"
  by (auto simp: latest_root_cause_route_def ok_or_def split: option.splits)

lemma put_report_mem: "r \<in> set (put_report r rs)"
  by (induction rs) (auto simp: put_report_def)

lemma set_specialist_report_run:
  "set_specialist_report c r now ws = (Inr x, ws') \<Longrightarrow>
   ws' = push_step c FieldSpecialistReports ActionWrote now
           (ws\<lparr>ws_specialist_reports := put_report r (ws_specialist_reports ws)\<rparr>)"
  by (auto simp: set_specialist_report_def bnd_Inr_iff)

lemma write_report_run:
  assumes "write_field e (set_specialist_report c r) s = (Inr x, t)"
  shows "rt_session t = rt_session s" "r \<in> set (ws_specialist_reports (rt_work t))" "rt_ckpts t = rt_ckpts s"
    "ws_graph_audit (rt_work t) = ws_graph_audit (rt_work s)" "rt_poisoned t = rt_poisoned s"
  using assms
  by (auto simp: write_field_run push_step_def put_report_mem split: prod.splits sum.splits
      dest!: set_specialist_report_run)

section \<open>The report of the child\<close>

lemma report_accepted:
  assumes "record_specialist_report e i caller agent report s = (Inr st, t)" and "en_open s"
  shows "\<exists>p node route ev. en_pending s = Some p \<and> prc_child_id p = Some agent \<and> caller = RootCause \<and>
    current_node_of (rt_session (en_rt s)) = Some node \<and> prc_node_id p = xn_id node \<and>
    latest_root_cause_route (rt_work (en_rt s)) (xn_id node) = Inr route \<and> prc_attempt p = ae_attempt route \<and>
    st = StepImplement \<and> en_pending t = None \<and> rt_session (en_rt t) = rt_session (en_rt s) \<and>
    report \<in> set (ws_specialist_reports (rt_work (en_rt t))) \<and>
    ws_graph_audit (rt_work (en_rt t)) = ws_graph_audit (rt_work (en_rt s)) @ [ev] \<and>
    ae_kind ev = RouteSelected \<and> ae_route ev = Some RouteImplement \<and> ae_node_id ev = xn_id node"
proof -
  obtain p agent' node route b u v now k w where p: "en_pending s = Some p" "prc_child_id p = Some agent'"
    and who: "caller = RootCause" "agent' = agent"
    and node: "current_node_of (rt_session (en_rt s)) = Some node"
    and route: "latest_root_cause_route (rt_work (en_rt s)) (xn_id node) = Inr route"
      "prc_node_id p = xn_id node" "prc_attempt p = ae_attempt route"
    and wr: "write_field e (set_specialist_report RootCause report) (en_rt s) = (Inr (), u)"
    and v: "v = u\<lparr>rt_tick := k, rt_work := append_graph_audit (route_event (xn_id node) (ae_attempt route) RouteImplement b now) (rt_work u)\<rparr>"
    and cap: "capture_current_work_state e v = (Inr (), w)"
    and t: "t = s\<lparr>en_rt := w, en_pending := None\<rparr>" and st: "st = StepImplement"
    using assms
    by (auto simp: record_specialist_report_def bnd_Inr_iff require_m_run require_some_run on_rt_run lock_run
        set_pending_run append_audit_run read_work_run split: Option.bind_splits)
  show ?thesis
    using p who node route t st v write_report_run [OF wr] saved_fields [OF capture_run [OF cap]]
    by (auto simp: append_graph_audit_def route_event_def)
qed

text \<open>
  The implement edge after a failed attempt is released only by the child that was dispatched
  for it. If a report is accepted, its caller is a root-cause agent with the identity bound to the
  pending route, the route belongs to the current node and to its latest failed attempt, and the
  router selects the implement step; the report is in the work state, exactly one route event is
  appended, and the route is no longer pending.
\<close>

theorem report_releases_edge:
  assumes "record_specialist_report e i caller agent report s = (Inr st, t)" and "en_open s"
  shows "\<exists>p node route ev. en_pending s = Some p \<and> prc_child_id p = Some agent \<and> caller = RootCause \<and>
    current_node_of (rt_session (en_rt s)) = Some node \<and> prc_node_id p = xn_id node \<and>
    latest_root_cause_route (rt_work (en_rt s)) (xn_id node) = Inr route \<and> prc_attempt p = ae_attempt route \<and>
    st = StepImplement \<and> en_pending t = None \<and> rt_session (en_rt t) = rt_session (en_rt s) \<and>
    report \<in> set (ws_specialist_reports (rt_work (en_rt t))) \<and>
    ws_graph_audit (rt_work (en_rt t)) = ws_graph_audit (rt_work (en_rt s)) @ [ev] \<and>
    ae_kind ev = RouteSelected \<and> ae_route ev = Some RouteImplement \<and> ae_node_id ev = xn_id node"
  by (rule report_accepted [OF assms])

text \<open>
  A report the router does not accept is refused too late. When the call fails because the
  implement edge was not released, the report has already been written to the work state, where the
  router will find it; the route stays pending and nothing was captured.
\<close>

theorem refused_report_stays:
  assumes "record_specialist_report e i caller agent report s = (Inl EdgeNotReleased, t)" and "en_open s"
  shows "report \<in> set (ws_specialist_reports (rt_work (en_rt t))) \<and> en_pending t = en_pending s \<and>
    rt_ckpts (en_rt t) = rt_ckpts (en_rt s)"
proof -
  obtain u where wr: "write_field e (set_specialist_report RootCause report) (en_rt s) = (Inr (), u)"
    and t: "t = s\<lparr>en_rt := u\<rparr>"
    using assms
    by (auto simp: record_specialist_report_def bnd_Inl_iff bnd_Inr_iff require_m_run require_some_run on_rt_run
        on_rt_fails require_fails set_pending_ok lock_run read_work_run dest!: latest_route_fails
        split: Option.bind_splits)
  show ?thesis using write_report_run [OF wr] t by simp
qed

section \<open>The child that ends without a report\<close>

lemma exhaust_spent: "\<not> budget_remains (map_option exhaust b)"
  by (cases b) (simp_all add: budget_remains_def exhaust_def)

text \<open>
  A diagnosing child that ends without a report closes the route for good: the remaining
  iterations are used up, the escalation is in the audit trail, and node, session and verification
  log are failed; the route is no longer pending.
\<close>

theorem terminal_child_fails_closed:
  assumes "resolve_root_cause_child_terminal e i child s = (Inr (), t)" and "en_open s"
    and "en_pending s = Some p" and "prc_child_id p = Some child"
  shows "en_pending t = None \<and> \<not> budget_remains (ws_budget (rt_work (en_rt t))) \<and>
    ss_status (rt_session (en_rt t)) = SessionFailed \<and>
    map_option vl_final_status (rt_log (en_rt t)) = Some (Some FinalFailed) \<and>
    map_option xn_status (current_node_of (rt_session (en_rt t))) = Some NodeFailed \<and>
    (\<exists>ev. ws_graph_audit (rt_work (en_rt t)) = ws_graph_audit (rt_work (en_rt s)) @ [ev] \<and>
       ae_kind ev = RouteSelected \<and> ae_route ev = Some RouteEscalate \<and> ae_node_id ev = prc_node_id p)"
proof -
  let ?b = "ws_budget (rt_work (en_rt s))"
  obtain u v w x k now where
    wr: "(case ?b of None \<Rightarrow> ret () | Some b \<Rightarrow> write_field e (set_budget GeneralPurpose (exhaust b))) (en_rt s) = (Inr (), u)"
    and v: "v = u\<lparr>rt_tick := k, rt_work := append_graph_audit
        (route_event (prc_node_id p) (prc_attempt p) RouteEscalate (map_option exhaust ?b) now) (rt_work u)\<rparr>"
    and cap: "capture_current_work_state e v = (Inr (), w)"
    and esc: "escalate_current_work_graph e w = (Inr (), x)" and t: "t = s\<lparr>en_pending := None, en_rt := x\<rparr>"
    using assms
    by (auto simp: resolve_root_cause_child_terminal_def bnd_Inr_iff on_rt_run lock_run set_pending_run append_audit_run
        read_work_run)
  have u: "ws_budget (rt_work u) = map_option exhaust ?b \<and> ws_graph_audit (rt_work u) = ws_graph_audit (rt_work (en_rt s))"
    using wr by (cases ?b) (auto simp: write_field_run push_step_def)
  obtain r where "complete_work_graph_route e StepEscalate w = (Inr r, x)"
    using esc by (auto simp: escalate_current_work_graph_def bnd_Inr_iff)
  note done_ = complete_route_run [OF this]
  show ?thesis
    using u v t done_ saved_fields [OF capture_run [OF cap]] exhaust_spent
    by (simp add: append_graph_audit_def route_event_def)
qed

section \<open>One child per route\<close>

lemma prepare_ready:
  assumes "prepare_root_cause_dispatch e i s = (Inr (DispatchReady q), t)" and "en_open s"
  shows "\<exists>p. en_pending t = Some p \<and> prc_child_id p = None \<and> t = s\<lparr>en_pending := Some p\<rparr>"
  using assms
  by (auto simp: prepare_root_cause_dispatch_def reserve_route_def bnd_Inr_iff on_rt_run lock_run set_pending_run
      split: option.splits)

lemma try_bind_run:
  assumes "try_bind_root_cause_child e i c s = (Inr b, t)" and "en_open s" and "en_pending s = Some p"
    and "prc_child_id p = None"
  shows "b" "en_pending t = Some (p\<lparr>prc_child_id := Some c\<rparr>)" "en_open t"
  using assms
  by (auto simp: try_bind_root_cause_child_def bind_child_def bnd_Inr_iff on_rt_run set_pending_run)


section \<open>The theorems at a concrete dispatch\<close>

definition failed_entry :: store_entry where
  "failed_entry = \<lparr>en_open = True,
     en_rt = failed_node_rt\<lparr>rt_work := default_work_state
       \<lparr>ws_selected_work_graph := (case compose_and_bind default_request of Inl _ \<Rightarrow> None | Inr p \<Rightarrow> Some p),
        ws_compile_result := Some \<lparr>cr_ok = False, cr_stderr = ''e''\<rparr>,
        ws_budget := Some \<lparr>max_iter = 2, iter_used = 1, token_used = 0\<rparr>,
        ws_graph_audit := [route_event ''node-1'' 1 RouteRootCause None ''now'']\<rparr>\<rparr>,
     en_pending = None\<rparr>"

definition reserved_entry :: store_entry where
  "reserved_entry = snd (prepare_root_cause_dispatch calm_env ''s'' failed_entry)"

definition bound_entry :: store_entry where
  "bound_entry = snd (try_bind_root_cause_child calm_env ''s'' ''c1'' reserved_entry)"

definition sample_report :: specialist_report where
  "sample_report = \<lparr>rp_producer = RootCause, rp_kind = RootCauseReport, rp_summary = ''s'',
     rp_evidence = [\<lparr>ev_path = ''p'', ev_detail = ''d''\<rparr>], rp_suspected_files = [''f''],
     rp_recommended_actions = [''a'']\<rparr>"

definition spent_entry :: store_entry where
  "spent_entry = bound_entry\<lparr>en_rt := (en_rt bound_entry)\<lparr>rt_work := (rt_work (en_rt bound_entry))
     \<lparr>ws_budget := Some \<lparr>max_iter = 2, iter_used = 2, token_used = 0\<rparr>\<rparr>\<rparr>\<rparr>"

theorem report_releases_edge_witness:
  "\<exists>st t. record_specialist_report calm_env ''s'' RootCause ''c1'' sample_report bound_entry = (Inr st, t) \<and>
     st = StepImplement \<and> en_pending t = None \<and> sample_report \<in> set (ws_specialist_reports (rt_work (en_rt t)))"
proof -
  have "is_ok (fst (record_specialist_report calm_env ''s'' RootCause ''c1'' sample_report bound_entry))"
    by code_simp
  then obtain st t where run: "record_specialist_report calm_env ''s'' RootCause ''c1'' sample_report bound_entry = (Inr st, t)"
    by (rule is_ok_obtain)
  have "en_open bound_entry" by code_simp
  then show ?thesis using report_releases_edge [OF run] run by blast
qed

theorem refused_report_stays_witness:
  "\<exists>t. record_specialist_report calm_env ''s'' RootCause ''c1'' sample_report spent_entry = (Inl EdgeNotReleased, t) \<and>
     sample_report \<in> set (ws_specialist_reports (rt_work (en_rt t)))"
proof -
  have "case fst (record_specialist_report calm_env ''s'' RootCause ''c1'' sample_report spent_entry) of
      Inl EdgeNotReleased \<Rightarrow> True | _ \<Rightarrow> False" by code_simp
  then obtain t where run: "record_specialist_report calm_env ''s'' RootCause ''c1'' sample_report spent_entry = (Inl EdgeNotReleased, t)"
    by (cases "record_specialist_report calm_env ''s'' RootCause ''c1'' sample_report spent_entry")
      (auto split: sum.splits store_error.splits)
  have "en_open spent_entry" by code_simp
  then show ?thesis using refused_report_stays [OF run] run by blast
qed

theorem terminal_child_fails_closed_witness:
  "\<exists>t. resolve_root_cause_child_terminal calm_env ''s'' ''c1'' bound_entry = (Inr (), t) \<and>
     ss_status (rt_session (en_rt t)) = SessionFailed"
proof -
  have "is_ok (fst (resolve_root_cause_child_terminal calm_env ''s'' ''c1'' bound_entry))" by code_simp
  then obtain x t where run: "resolve_root_cause_child_terminal calm_env ''s'' ''c1'' bound_entry = (Inr x, t)"
    by (rule is_ok_obtain)
  have "en_open bound_entry" "map_option prc_child_id (en_pending bound_entry) = Some (Some ''c1'')" by code_simp+
  then obtain p where "en_open bound_entry" "en_pending bound_entry = Some p" "prc_child_id p = Some ''c1''" by auto
  then show ?thesis using terminal_child_fails_closed [of calm_env "''s''" "''c1''" bound_entry t p] run by simp
qed


end
