(* ===== verification/Session_Tools.thy ===== *)
theory Session_Tools
  imports Root_Cause_Dispatch
begin

text \<open>
  The tools a model calls: \<open>begin_node\<close>, \<open>verify_node\<close> and \<open>rollback_node\<close> of
  \<open>exec_session/node_tools.rs\<close> and \<open>submit_specialist_report\<close> of \<open>specialist_report_tool.rs\<close>. Each
  reads its JSON input, resolves the runtime of the trusted session and calls a handler. The
  identity of the session and of the calling agent come from the tool context, not from the input.
  The launcher of the diagnosing child and the agent coordinator that knows the role of a live
  child are parameters.
\<close>

section \<open>Beginning a node\<close>

datatype tool_error =
    ToolInvalidInput
  | ToolStore store_error
  | ToolIdentityRejected

type_synonym 'a tool_run = "(store_entry, tool_error, 'a) smon"

definition on_store :: "'a store_run \<Rightarrow> 'a tool_run" where
  "on_store m = (\<lambda>s. case m s of (Inl er, t) \<Rightarrow> (Inl (ToolStore er), t) | (Inr x, t) \<Rightarrow> (Inr x, t))"

text \<open>\<open>Value::as_u64\<close>: the numbers written with digits only that fit 64 bits.\<close>

fun as_u64 :: "json \<Rightarrow> nat option" where
  "as_u64 (JNumber s) = (if s \<noteq> [] \<and> list_all is_ascii_digit s then parse_u64 s else None)"
| "as_u64 _ = None"

record begin_node_input =
  bni_goal :: string
  bni_verify_commands :: "string list"
  bni_expected_files :: "string list"
  bni_request :: work_graph_request

definition begin_task_kind :: "json \<Rightarrow> tool_error + work_graph_task_kind" where
  "begin_task_kind j =
     (case str_field j ''task_kind'' of
        None \<Rightarrow> Inr Implementation
      | Some v \<Rightarrow>
          if v = ''implementation'' then Inr Implementation
          else if v = ''diagnosis'' then Inr Diagnosis
          else Inl ToolInvalidInput)"

definition begin_risk :: "json \<Rightarrow> tool_error + risk" where
  "begin_risk j =
     (case json_get j ''risk'' of
        None \<Rightarrow> Inr RiskMedium
      | Some v \<Rightarrow>
          if closed_name v = Some ''low'' then Inr RiskLow
          else if closed_name v = Some ''medium'' then Inr RiskMedium
          else if closed_name v = Some ''high'' then Inr RiskHigh
          else Inl ToolInvalidInput)"

definition bool_field :: "json \<Rightarrow> string \<Rightarrow> bool \<Rightarrow> tool_error + bool" where
  "bool_field j k dflt =
     (case json_get j k of None \<Rightarrow> Inr dflt | Some v \<Rightarrow> ok_or (as_bool v) ToolInvalidInput)"

definition begin_capacity :: "json \<Rightarrow> tool_error + u8" where
  "begin_capacity j =
     (case json_get j ''max_specialists'' of
        None \<Rightarrow> Inr 1
      | Some v \<Rightarrow>
          (case as_u64 v of
             Some n \<Rightarrow> if n \<le> 3 then Inr (of_nat n) else Inl ToolInvalidInput
           | None \<Rightarrow> Inl ToolInvalidInput))"

definition parse_begin_node :: "json \<Rightarrow> tool_error + begin_node_input" where
  "parse_begin_node j =
     result_bind (ok_or (str_field j ''goal'') ToolInvalidInput) (\<lambda>goal.
     result_bind (ok_or (Option.bind (json_get j ''verify_commands'') as_array) ToolInvalidInput) (\<lambda>vs.
     result_bind (begin_task_kind j) (\<lambda>kind.
     result_bind (bool_field j ''requires_human_review'' False) (\<lambda>review.
     result_bind (begin_risk j) (\<lambda>risk.
     result_bind (bool_field j ''has_test_infra'' True) (\<lambda>tests.
     result_bind (begin_capacity j) (\<lambda>capacity.
     Inr \<lparr>bni_goal = goal, bni_verify_commands = List.map_filter as_str vs,
          bni_expected_files = (case Option.bind (json_get j ''expected_files'') as_array of
                                  None \<Rightarrow> [] | Some fs \<Rightarrow> List.map_filter as_str fs),
          bni_request = \<lparr>task_kind = kind, requires_human_review = review, req_risk = risk,
                         has_test_infra = tests, max_specialists = capacity\<rparr>\<rparr>)))))))"

definition begin_node_tool :: "env \<Rightarrow> string \<Rightarrow> json \<Rightarrow> string tool_run" where
  "begin_node_tool e session_id input =
     bnd (on_store (ensure_turn e session_id)) (\<lambda>_.
     bnd (lift_result (parse_begin_node input)) (\<lambda>i.
     on_store (on_rt (begin_node_with_work_graph e (bni_goal i) [] [] (bni_verify_commands i)
       (bni_expected_files i) (bni_request i)))))"

section \<open>Verifying and rolling back\<close>

record verify_tool_output =
  vto_outcome :: verification_outcome
  vto_root_cause_child :: "string option"

text \<open>
  \<open>dispatch\<close> is the daemon's launcher, when there is one: it gets the request and returns the
  identity of the child it launched, or fails; it may use the store.
\<close>

definition verify_node_tool ::
    "env \<Rightarrow> (root_cause_request \<Rightarrow> string tool_run) option \<Rightarrow> string \<Rightarrow> verify_tool_output tool_run" where
  "verify_node_tool e dispatch session_id =
     bnd (on_store (entry_for e session_id)) (\<lambda>_.
     bnd (on_store (on_rt (verify_current_node e))) (\<lambda>outcome.
     case dispatch of
       None \<Rightarrow> ret \<lparr>vto_outcome = outcome, vto_root_cause_child = None\<rparr>
     | Some launch \<Rightarrow>
         if outcome \<noteq> OutcomeWorkGraph StepRootCause
         then ret \<lparr>vto_outcome = outcome, vto_root_cause_child = None\<rparr>
         else
           bnd (on_store (prepare_root_cause_dispatch e session_id)) (\<lambda>state.
           case state of
             DispatchPending child \<Rightarrow> ret \<lparr>vto_outcome = outcome, vto_root_cause_child = Some child\<rparr>
           | DispatchReady request \<Rightarrow>
               (\<lambda>s. case launch request s of
                  (Inr child, t) \<Rightarrow> (Inr \<lparr>vto_outcome = outcome, vto_root_cause_child = Some child\<rparr>, t)
                | (Inl er, t) \<Rightarrow>
                    bnd (on_store (cancel_root_cause_dispatch e session_id)) (\<lambda>_. throw er) t))))"

definition rollback_node_tool :: "env \<Rightarrow> string \<Rightarrow> node_rollback_result tool_run" where
  "rollback_node_tool e session_id =
     bnd (on_store (entry_for e session_id)) (\<lambda>_. on_store (on_rt (rollback_node e)))"

definition decompose_node_tool :: "env \<Rightarrow> string \<Rightarrow> json \<Rightarrow> decompose_output tool_run" where
  "decompose_node_tool e session_id input =
     bnd (on_store (ensure_turn e session_id)) (\<lambda>_. on_store (on_rt (decompose_node e input)))"

section \<open>Submitting a specialist report\<close>

record report_input =
  ri_kind :: specialist_report_kind
  ri_summary :: string
  ri_evidence :: "specialist_evidence list"
  ri_suspected_files :: "string list"
  ri_recommended_actions :: "string list"

text \<open>
  Deserialisation by \<open>serde\<close>: a structure is read from an object by field name, or from an array by
  position; the input structure refuses unknown fields, the evidence structure ignores them.
\<close>

definition report_fields :: "string list" where
  "report_fields = [''kind'', ''summary'', ''evidence'', ''suspected_files'', ''recommended_actions'']"

fun struct_fields :: "bool \<Rightarrow> string list \<Rightarrow> json \<Rightarrow> json list option" where
  "struct_fields strict names (JObject kvs) =
     (if strict \<and> \<not> list_all (\<lambda>(k, _). k \<in> set names) kvs then None
      else if list_all (\<lambda>n. map_of kvs n \<noteq> None) names then Some (map (\<lambda>n. the (map_of kvs n)) names)
      else None)"
| "struct_fields strict names (JArray xs) = (if length xs = length names then Some xs else None)"
| "struct_fields strict names _ = None"

definition report_kind_of :: "json \<Rightarrow> tool_error + specialist_report_kind" where
  "report_kind_of j =
     (case closed_name j of
        None \<Rightarrow> Inl ToolInvalidInput
      | Some k \<Rightarrow>
          if k = ''exploration'' then Inr Exploration
          else if k = ''root_cause'' then Inr RootCauseReport
          else if k = ''implementation_plan'' then Inr ImplementationPlan
          else if k = ''implementation'' then Inr ImplementationReport
          else Inl ToolInvalidInput)"

definition string_of :: "json \<Rightarrow> tool_error + string" where
  "string_of j = ok_or (as_str j) ToolInvalidInput"

definition vec_of :: "(json \<Rightarrow> tool_error + 'a) \<Rightarrow> json \<Rightarrow> tool_error + 'a list" where
  "vec_of f j = result_bind (ok_or (as_array j) ToolInvalidInput) (collect_results f)"

definition evidence_of :: "json \<Rightarrow> tool_error + specialist_evidence" where
  "evidence_of j =
     (case struct_fields False [''path'', ''detail''] j of
        Some [p, d] \<Rightarrow>
          result_bind (string_of p) (\<lambda>path.
          result_bind (string_of d) (\<lambda>detail.
          Inr \<lparr>ev_path = path, ev_detail = detail\<rparr>))
      | _ \<Rightarrow> Inl ToolInvalidInput)"

definition parse_report :: "json \<Rightarrow> tool_error + report_input" where
  "parse_report j =
     (case struct_fields True report_fields j of
        Some [k, s, ev, fs, actions] \<Rightarrow>
          result_bind (report_kind_of k) (\<lambda>kind.
          result_bind (string_of s) (\<lambda>summary.
          result_bind (vec_of evidence_of ev) (\<lambda>evidence.
          result_bind (vec_of string_of fs) (\<lambda>files.
          result_bind (vec_of string_of actions) (\<lambda>acts.
          Inr \<lparr>ri_kind = kind, ri_summary = summary, ri_evidence = evidence, ri_suspected_files = files,
               ri_recommended_actions = acts\<rparr>)))))
      | _ \<Rightarrow> Inl ToolInvalidInput)"

text \<open>
  \<open>active_role\<close> is the agent coordinator's answer for the calling agent: its role while it is a live
  child, nothing otherwise.
\<close>

definition submit_specialist_report ::
    "env \<Rightarrow> (string \<Rightarrow> node_type option) \<Rightarrow> string \<Rightarrow> string \<Rightarrow> json \<Rightarrow> work_graph_step tool_run" where
  "submit_specialist_report e active_role session_id agent_id input =
     bnd (lift_result (parse_report input)) (\<lambda>i.
     bnd (require_some (active_role agent_id) ToolIdentityRejected) (\<lambda>producer.
     on_store (record_specialist_report e session_id producer agent_id
       \<lparr>rp_producer = producer, rp_kind = ri_kind i, rp_summary = ri_summary i, rp_evidence = ri_evidence i,
        rp_suspected_files = ri_suspected_files i, rp_recommended_actions = ri_recommended_actions i\<rparr>)))"

section \<open>What the inputs can and cannot do\<close>

lemma begin_capacity_le: "begin_capacity j = Inr c \<Longrightarrow> c \<le> 3"
proof -
  have small: "n \<le> 3 \<Longrightarrow> (of_nat n :: u8) \<le> 3" for n :: nat
    by (simp add: word_le_nat_alt unat_of_nat)
  assume "begin_capacity j = Inr c"
  then show ?thesis by (auto simp: begin_capacity_def small split: option.splits if_splits)
qed

lemma bool_field_true: "bool_field j k False = Inr b \<Longrightarrow> b \<longleftrightarrow> json_get j k = Some (JBool True)"
  by (auto simp: bool_field_def ok_or_def split: option.splits elim: as_bool.elims)

lemma begin_risk_high: "begin_risk j = Inr r \<Longrightarrow> r = RiskHigh \<longleftrightarrow> Option.bind (json_get j ''risk'') closed_name = Some ''high''"
  by (auto simp: begin_risk_def split: option.splits if_splits)

text \<open>
  Whatever a model sends to \<open>begin_node\<close>, an input that is accepted has a plan: the request
  composes and binds to the registry, so the refusal of an oversized request comes before any
  state changes. Review is required by the plan exactly when the input asks for it or names the
  risk high.
\<close>

theorem begin_node_input_composes:
  assumes "parse_begin_node j = Inr i"
  shows "\<exists>plan. compose_and_bind (bni_request i) = Inr plan \<and>
    (HumanReviewNode \<in> pn_role ` set (plan_nodes plan) \<longleftrightarrow>
       json_get j ''requires_human_review'' = Some (JBool True) \<or>
       Option.bind (json_get j ''risk'') closed_name = Some ''high'')"
proof -
  let ?r = "bni_request i"
  have le: "max_specialists ?r \<le> 3"
    using assms begin_capacity_le by (auto simp: parse_begin_node_def result_bind_Inr_iff)
  then obtain p where p: "compose_work_graph ?r = Inr p" using compose_work_graph_total by blast
  obtain plan where plan: "bind_registry p (builtin_registry default_subagent_limits) = Inr plan"
    using bind_registry_builtin_total by blast
  have "HumanReviewNode \<in> pn_role ` set (plan_nodes plan) \<longleftrightarrow> review_gate ?r"
    using compose_work_graph_Inr [OF p] bind_registry_keeps(1) [OF plan] by (auto simp: spec_plan_def stage_def)
  moreover have "review_gate ?r \<longleftrightarrow> json_get j ''requires_human_review'' = Some (JBool True) \<or>
       Option.bind (json_get j ''risk'') closed_name = Some ''high''"
    using assms bool_field_true begin_risk_high
    by (auto simp: parse_begin_node_def result_bind_Inr_iff review_gate_def)
  ultimately show ?thesis using p plan by (simp add: compose_and_bind_def)
qed

lemma on_store_run: "on_store m s = (Inr x, t) \<longleftrightarrow> m s = (Inr x, t)"
  by (auto simp: on_store_def split: prod.splits sum.splits)

text \<open>
  A report is filed under the identity of its caller. However the input is shaped, an accepted
  submission comes from a live root-cause child, the one bound to the pending route, and the report
  that is kept names this role as its producer and has the contents of the input.
\<close>

theorem submitted_report_trusted:
  assumes "submit_specialist_report e active_role i agent input s = (Inr st, t)" and "en_open s"
  shows "active_role agent = Some RootCause \<and> Option.bind (en_pending s) prc_child_id = Some agent \<and>
    st = StepImplement \<and> en_pending t = None \<and>
    (\<exists>ri. parse_report input = Inr ri \<and>
       (\<exists>r\<in>set (ws_specialist_reports (rt_work (en_rt t))). rp_producer r = RootCause \<and>
          rp_kind r = ri_kind ri \<and> rp_summary r = ri_summary ri \<and> rp_evidence r = ri_evidence ri))"
proof -
  obtain ri producer where ri: "parse_report input = Inr ri" "active_role agent = Some producer"
    and run: "record_specialist_report e i producer agent
       \<lparr>rp_producer = producer, rp_kind = ri_kind ri, rp_summary = ri_summary ri, rp_evidence = ri_evidence ri,
        rp_suspected_files = ri_suspected_files ri, rp_recommended_actions = ri_recommended_actions ri\<rparr> s = (Inr st, t)"
    using assms(1) by (auto simp: submit_specialist_report_def bnd_Inr_iff require_some_run on_store_run)
  note acc = report_accepted [OF run assms(2)]
  then have kept: "\<exists>r\<in>set (ws_specialist_reports (rt_work (en_rt t))). rp_producer r = RootCause \<and>
      rp_kind r = ri_kind ri \<and> rp_summary r = ri_summary ri \<and> rp_evidence r = ri_evidence ri"
    by (elim exE conjE) (rule bexI, simp_all)
  show ?thesis using acc ri kept by auto
qed

section \<open>The session as a transition system\<close>

text \<open>
  One step of a session: a call of a tool or of the daemon, under whatever answers the world gives
  (each step has its own environment), completed or failed half way; or a restart of the process,
  after which the next call opens the session from disk again. Turn boundaries and rollback to a
  turn are calls on the coordinator.
\<close>

inductive session_step :: "string \<Rightarrow> store_entry \<Rightarrow> store_entry \<Rightarrow> bool" for i where
  step_begin: "session_step i s (snd (begin_node_tool e i input s))"
| step_verify: "session_step i s (snd (verify_node_tool e None i s))"
| step_rollback: "session_step i s (snd (rollback_node_tool e i s))"
| step_decompose: "session_step i s (snd (decompose_node_tool e i input s))"
| step_report: "session_step i s (snd (submit_specialist_report e roles i agent input s))"
| step_review: "session_step i s (snd (store_record_human_review e i review s))"
| step_prepare: "session_step i s (snd (prepare_root_cause_dispatch e i s))"
| step_recover: "session_step i s (snd (prepare_recovered_root_cause_dispatch e i s))"
| step_bind: "session_step i s (snd (bind_root_cause_child e i child s))"
| step_try_bind: "session_step i s (snd (try_bind_root_cause_child e i child s))"
| step_terminal: "session_step i s (snd (resolve_root_cause_child_terminal e i child s))"
| step_cancel: "session_step i s (snd (cancel_root_cause_dispatch e i s))"
| step_pending: "session_step i s (snd (root_cause_pending e i s))"
| step_turn: "session_step i s (snd (ensure_turn e i s))"
| step_begin_turn: "en_open s \<Longrightarrow> session_step i s (snd (on_rt (begin_turn e) s))"
| step_end_turn: "en_open s \<Longrightarrow> session_step i s (snd (on_rt (end_turn e) s))"
| step_rollback_to: "en_open s \<Longrightarrow> session_step i s (snd (on_rt (rollback_to e turn) s))"
| step_unverified: "en_open s \<Longrightarrow> session_step i s (snd (on_rt (mark_unverified_if_incomplete e) s))"
| step_restart: "session_step i s (s\<lparr>en_open := False, en_pending := None\<rparr>)"

definition entry_wf :: "store_entry \<Rightarrow> bool" where
  "entry_wf s \<longleftrightarrow> rt_wf (en_rt s)"

lemma obeys_on_rt: "obeys (keeps rt_wf) m \<Longrightarrow> obeys (keeps entry_wf) (on_rt m)"
  unfolding obeys_def keeps_def entry_wf_def on_rt_def
  by (metis (mono_tags, lifting) prod.case_eq_if sum.case_eq_if snd_conv store_entry.select_convs(2)
      store_entry.surjective store_entry.update_convs(2))

lemma obeys_on_store: "obeys (keeps I) m \<Longrightarrow> obeys (keeps I) (on_store m)"
  by (auto simp: obeys_def keeps_def on_store_def split: prod.split sum.split)

lemma obeys_cells:
  "obeys (keeps entry_wf) (set_pending p)" "obeys (keeps entry_wf) (require_m b er)"
  "obeys (keeps entry_wf) (upd (\<lambda>s. s\<lparr>en_rt := (en_rt s)\<lparr>rt_poisoned := False\<rparr>\<rparr>))"
  "obeys (keeps entry_wf) (upd (\<lambda>s. s\<lparr>en_open := True, en_pending := None\<rparr>))"
  by (auto simp: obeys_def keeps_def entry_wf_def rt_wf_def set_pending_def require_m_def)

lemmas runtime_wf = begin_turn_wf rollback_to_wf open_or_create_wf begin_node_with_work_graph_wf
  verify_current_node_wf rollback_node_wf record_human_review_wf escalate_current_work_graph_wf
  wf.obeys_decompose_node wf.obeys_end_turn wf.obeys_mark_unverified wf.session_rules
  wf.obeys_write_field wf.obeys_append_audit

lemma obeys_entry_for: "obeys (keeps entry_wf) (entry_for e i)"
  unfolding entry_for_def by (intro invariant.obeys_rules obeys_cells obeys_on_rt open_or_create_wf)

lemmas entry_rules = invariant.obeys_rules obeys_cells obeys_on_rt obeys_on_store obeys_entry_for runtime_wf

lemma reserve_route_wf: "obeys (keeps entry_wf) reserve_route"
  unfolding reserve_route_def by (intro entry_rules)

lemma bind_child_wf: "obeys (keeps entry_wf) (bind_child e p c)"
  unfolding bind_child_def by (intro entry_rules)

lemma store_calls_wf:
  "obeys (keeps entry_wf) (ensure_turn e i)" "obeys (keeps entry_wf) (store_record_human_review e i review)"
  "obeys (keeps entry_wf) (prepare_root_cause_dispatch e i)"
  "obeys (keeps entry_wf) (prepare_recovered_root_cause_dispatch e i)"
  "obeys (keeps entry_wf) (bind_root_cause_child e i c)" "obeys (keeps entry_wf) (try_bind_root_cause_child e i c)"
  "obeys (keeps entry_wf) (resolve_root_cause_child_terminal e i c)"
  "obeys (keeps entry_wf) (cancel_root_cause_dispatch e i)" "obeys (keeps entry_wf) (root_cause_pending e i)"
  "obeys (keeps entry_wf) (record_specialist_report e i caller agent r)"
  unfolding ensure_turn_def store_record_human_review_def prepare_root_cause_dispatch_def
    prepare_recovered_root_cause_dispatch_def bind_root_cause_child_def try_bind_root_cause_child_def
    resolve_root_cause_child_terminal_def cancel_root_cause_dispatch_def root_cause_pending_def
    record_specialist_report_def
  by (intro entry_rules reserve_route_wf bind_child_wf)+

lemma tool_calls_wf:
  "obeys (keeps entry_wf) (begin_node_tool e i input)" "obeys (keeps entry_wf) (verify_node_tool e None i)"
  "obeys (keeps entry_wf) (rollback_node_tool e i)" "obeys (keeps entry_wf) (decompose_node_tool e i input)"
  "obeys (keeps entry_wf) (submit_specialist_report e roles i agent input)"
  unfolding begin_node_tool_def verify_node_tool_def rollback_node_tool_def decompose_node_tool_def
    submit_specialist_report_def option.case
  by (intro entry_rules store_calls_wf)+

lemmas entry_keepsD = keepsD [where I = entry_wf]

lemmas coordinator_calls_wf = obeys_on_rt [OF begin_turn_wf] obeys_on_rt [OF wf.obeys_end_turn]
  obeys_on_rt [OF rollback_to_wf] obeys_on_rt [OF wf.obeys_mark_unverified]

text \<open>
  C36: however the calls of a session interleave, whatever the model sends, whatever git, the
  executor and the disk answer, and wherever a call fails half way or the process restarts: the
  session stays well formed, in memory and on disk. Turns are numbered in order and point backwards,
  the cursors point into the session, node ids are distinct, and only the last node of the chain can
  be unfinished.
\<close>

theorem session_invariant:
  assumes "(session_step i)\<^sup>*\<^sup>* s t" and "rt_wf (en_rt s)"
  shows "rt_wf (en_rt t)"
  using assms
proof (induction rule: rtranclp_induct)
  case (step t u)
  then have "entry_wf t" by (simp add: entry_wf_def)
  from \<open>session_step i t u\<close> have "entry_wf u"
  proof cases
    case step_restart
    then show ?thesis using \<open>entry_wf t\<close> by (simp add: entry_wf_def)
  qed (insert \<open>entry_wf t\<close>, simp_all,
      (rule entry_keepsD, rule store_calls_wf tool_calls_wf coordinator_calls_wf, assumption)+)
  then show ?case by (simp add: entry_wf_def)
qed

section \<open>The theorems at concrete calls\<close>

definition sample_begin :: json where
  "sample_begin = JObject [(''goal'', JString ''g''), (''verify_commands'', JArray [JString ''a'', JNull]),
     (''risk'', JString ''high''), (''max_specialists'', JNumber ''2'')]"

definition sample_submission :: json where
  "sample_submission = JObject [(''kind'', JString ''root_cause''), (''summary'', JString ''s''),
     (''evidence'', JArray [JObject [(''path'', JString ''p''), (''detail'', JString ''d'')]]),
     (''suspected_files'', JArray [JString ''f'']), (''recommended_actions'', JArray [JString ''a''])]"

definition blank_entry :: store_entry where
  "blank_entry = \<lparr>en_open = False, en_rt = blank_rt, en_pending = None\<rparr>"

theorem begin_node_input_composes_witness:
  "\<exists>i plan. parse_begin_node sample_begin = Inr i \<and> compose_and_bind (bni_request i) = Inr plan \<and>
     HumanReviewNode \<in> pn_role ` set (plan_nodes plan)"
proof -
  have "is_ok (parse_begin_node sample_begin)" by code_simp
  then obtain i where i: "parse_begin_node sample_begin = Inr i" by (auto simp: is_ok_def split: sum.splits)
  have "Option.bind (json_get sample_begin ''risk'') closed_name = Some ''high''" by code_simp
  then show ?thesis using begin_node_input_composes [OF i] i by auto
qed

theorem submitted_report_trusted_witness:
  "\<exists>st t. submit_specialist_report calm_env (\<lambda>_. Some RootCause) ''s'' ''c1'' sample_submission bound_entry = (Inr st, t) \<and>
     st = StepImplement \<and> en_pending t = None"
proof -
  have "is_ok (fst (submit_specialist_report calm_env (\<lambda>_. Some RootCause) ''s'' ''c1'' sample_submission bound_entry))"
    by code_simp
  then obtain st t where run:
    "submit_specialist_report calm_env (\<lambda>_. Some RootCause) ''s'' ''c1'' sample_submission bound_entry = (Inr st, t)"
    by (rule is_ok_obtain)
  have "en_open bound_entry" by code_simp
  then show ?thesis using submitted_report_trusted [OF run] run by blast
qed

theorem session_invariant_witness:
  "rt_wf (en_rt (snd (begin_node_tool calm_env ''s'' sample_begin blank_entry)))"
proof (rule session_invariant)
  show "(session_step ''s'')\<^sup>*\<^sup>* blank_entry (snd (begin_node_tool calm_env ''s'' sample_begin blank_entry))"
    by (intro r_into_rtranclp step_begin)
  show "rt_wf (en_rt blank_entry)" by (simp add: blank_entry_def rt_wf_blank)
qed

end
