(* ===== verification/Node_Units.thy ===== *)
theory Node_Units
  imports Session_Tools
begin

text \<open>
  The units of a decomposed node (\<open>NodeRuntime::run_decomposed_units\<close>): how often each of them runs,
  what is recorded of it and what the parent pays; and the bound on recorded standard error.
\<close>

section \<open>The attempts of one unit\<close>

definition parent_view :: "rt \<Rightarrow> _" where
  "parent_view s = (rt_session s, ws_budget (rt_work s), ws_selected_work_graph (rt_work s),
     ws_human_review (rt_work s), ws_specialist_reports (rt_work s))"

interpretation fixed_parent: log_blind "keeps (\<lambda>s. parent_view s = v)" for v
  by unfold_locales (auto simp: keeps_def parent_view_def)

lemma parent_view_writes:
  "obeys (keeps (\<lambda>s. parent_view s = v)) (append_audit e ev)"
  "obeys (keeps (\<lambda>s. parent_view s = v)) (on_work (record_unit_outcome i out al))"
  "obeys (keeps (\<lambda>s. parent_view s = v)) (modify_work (push_unit_report r))"
  "obeys (keeps (\<lambda>s. parent_view s = v)) (capture_current_work_state e)"
proof -
  show "obeys (keeps (\<lambda>s. parent_view s = v)) (append_audit e ev)"
    by (simp add: obeys_def keeps_def append_audit_run parent_view_def append_graph_audit_def)
  show "obeys (keeps (\<lambda>s. parent_view s = v)) (on_work (record_unit_outcome i out al))"
    by (auto simp: obeys_def keeps_def on_work_def record_unit_outcome_def bnd_def parent_view_def)
  show "obeys (keeps (\<lambda>s. parent_view s = v)) (modify_work (push_unit_report r))"
    by (auto simp: obeys_def keeps_def modify_work_def push_unit_report_def parent_view_def)
  show "obeys (keeps (\<lambda>s. parent_view s = v)) (capture_current_work_state e)"
    unfolding capture_current_work_state_def
    by (intro fixed_parent.world_rules obeys_updI) (simp add: keeps_def parent_view_def)
qed

lemma unit_attempts_view: "obeys (keeps (\<lambda>s. parent_view s = v)) (unit_attempts k e i cs used l)"
proof (induction k arbitrary: used l)
  case (Suc k)
  show ?case
    unfolding unit_attempts.simps Let_def
    by (intro fixed_parent.world_rules fixed_parent.obeys_run_anchor_commands parent_view_writes Suc.IH)
qed (simp add: fixed_parent.world_rules)

lemma run_unit_view: "obeys (keeps (\<lambda>s. parent_view s = v)) (run_unit e i u)"
  unfolding run_unit_def Let_def
  by (intro fixed_parent.world_rules unit_attempts_view parent_view_writes)

text \<open>The count of attempts, exactly: all that were granted, or up to the one that passed.\<close>

lemma unit_attempts_count:
  assumes "unit_attempts k e i cs used l s = (Inr (passed, used', l'), t)" and "unat used + k < 2 ^ 32"
  shows "unat used \<le> unat used' \<and> unat used' \<le> unat used + k \<and>
    (if passed then unat used < unat used' else unat used' = unat used + k) \<and>
    (\<exists>evs. ws_graph_audit (rt_work t) = ws_graph_audit (rt_work s) @ evs \<and> length evs = unat used' - unat used \<and>
       (\<forall>ev\<in>set evs. ae_kind ev = Decomposed \<and> ae_node_id ev = i))"
  using assms
proof (induction k arbitrary: used l s)
  case (Suc k)
  have u1: "unat (used + 1) = unat used + 1" using Suc.prems(2) by (simp add: unat_word_ariths)
  obtain runs s1 where runs: "run_anchor_commands e cs s = (Inr runs, s1)"
    using Suc.prems(1) by (auto simp: bnd_Inr_iff)
  have same: "rt_work s1 = rt_work s"
    using obeys_runD [OF fixed_work.obeys_run_anchor_commands runs] by (simp add: keeps_def)
  define s2 where "s2 = snd (append_audit e (\<lambda>now.
            (base_audit_event \<lparr>ac_node_id = i, ac_attempt = used + 1\<rparr> Decomposed now)
              \<lparr>ae_commands := project_audit_commands runs, ae_parent_node_id := Some i\<rparr>) s1)"
  obtain ev where s2: "ws_graph_audit (rt_work s2) = ws_graph_audit (rt_work s) @ [ev]"
    "ae_kind ev = Decomposed" "ae_node_id ev = i"
    using same by (auto simp: s2_def append_audit_run append_graph_audit_def base_audit_event_def)
  show ?case
  proof (cases "list_all run_ok runs")
    case True
    then have "passed" "used' = used + 1" "t = s2"
      using Suc.prems(1) runs by (auto simp: bnd_Inr_iff Let_def lock_run append_audit_run s2_def)
    then show ?thesis using s2 u1 by simp
  next
    case False
    then have run: "unit_attempts k e i cs (used + 1) (collect_stderr runs) s2 = (Inr (passed, used', l'), t)"
      using Suc.prems(1) runs by (auto simp: bnd_Inr_iff Let_def lock_run append_audit_run s2_def)
    have "unat (used + 1) + k < 2 ^ 32" using Suc.prems(2) u1 by simp
    note ih = Suc.IH [OF run this]
    then obtain evs where "ws_graph_audit (rt_work t) = ws_graph_audit (rt_work s2) @ evs"
      "length evs = unat used' - unat (used + 1)" "\<forall>ev\<in>set evs. ae_kind ev = Decomposed \<and> ae_node_id ev = i"
      by blast
    then show ?thesis using ih s2 u1 by (auto intro!: exI [of _ "ev # evs"])
  qed
qed auto

section \<open>All units of a node\<close>

definition unit_within_allocation :: "decomposed_unit \<Rightarrow> unit_run_outcome \<Rightarrow> bool" where
  "unit_within_allocation u out \<longleftrightarrow>
     uro_unit_id out = du_unit_id u \<and>
     unat (uro_attempts_used out) \<le> unat (max_iter (du_allocation u)) \<and>
     (if uro_passed out then 0 < unat (uro_attempts_used out)
      else unat (uro_attempts_used out) = unat (max_iter (du_allocation u)))"

lemma run_unit_bounded:
  assumes "run_unit e i u s = (Inr out, t)"
  shows "unit_within_allocation u out"
proof -
  obtain passed used l s1 where
    "unit_attempts (unat (max_iter (du_allocation u))) e i (du_verify_commands u) 0 [] s = (Inr (passed, used, l), s1)"
    "out = \<lparr>uro_unit_id = du_unit_id u, uro_passed = passed, uro_attempts_used = used\<rparr>"
    using assms by (auto simp: run_unit_def bnd_Inr_iff Let_def)
  then show ?thesis
    using unit_attempts_count [of "unat (max_iter (du_allocation u))" e i "du_verify_commands u" 0 "[]" s]
      unat_u32 [of "max_iter (du_allocation u)"]
    by (auto simp: unit_within_allocation_def)
qed

lemma map_each_run:
  assumes "map_each f xs s = (Inr ys, t)" and "\<And>x s y t. f x s = (Inr y, t) \<Longrightarrow> P x y"
  shows "list_all2 P xs ys"
  using assms(1)
proof (induction xs arbitrary: s ys)
  case (Cons x xs)
  then obtain y s1 zs where "f x s = (Inr y, s1)" "map_each f xs s1 = (Inr zs, t)" "ys = y # zs"
    by (auto simp: bnd_Inr_iff)
  then show ?case using Cons.IH assms(2) by auto
qed simp


section \<open>Recorded standard error\<close>

lemma floor_char_boundary_le: "floor_char_boundary s n \<le> n"
  by (induction n) auto

lemma floor_char_boundary_ok: "is_char_boundary s (floor_char_boundary s n)"
  by (induction n) (auto simp: is_char_boundary_def)

text \<open>
  What the audit trail keeps of a command's standard error is never longer than 8192 bytes. A
  shorter text is kept as it is; of a longer one a prefix that ends at a character boundary is
  kept, followed by the truncation marker.
\<close>

theorem audit_stderr_bounded:
  "length (truncate_audit_stderr s) \<le> 8192 \<and>
   (\<exists>n\<le>length s. is_char_boundary s n \<and>
      truncate_audit_stderr s = take n s @ (if length s \<le> 8192 then [] else AUDIT_STDERR_TRUNCATION_MARKER))"
proof (cases "length s \<le> 8192")
  case True
  then show ?thesis
    by (auto simp: truncate_audit_stderr_def AUDIT_STDERR_LIMIT_BYTES_def is_char_boundary_def intro!: exI [of _ "length s"])
next
  case False
  let ?n = "floor_char_boundary s (AUDIT_STDERR_LIMIT_BYTES - length AUDIT_STDERR_TRUNCATION_MARKER)"
  have m: "length AUDIT_STDERR_TRUNCATION_MARKER \<le> 8192" by (simp add: AUDIT_STDERR_TRUNCATION_MARKER_def)
  have n: "?n \<le> 8192 - length AUDIT_STDERR_TRUNCATION_MARKER"
    using floor_char_boundary_le by (simp add: AUDIT_STDERR_LIMIT_BYTES_def)
  then have "?n \<le> length s" using False by simp
  moreover have "truncate_audit_stderr s = take ?n s @ AUDIT_STDERR_TRUNCATION_MARKER"
    using False by (simp add: truncate_audit_stderr_def AUDIT_STDERR_LIMIT_BYTES_def)
  ultimately show ?thesis using m n False floor_char_boundary_ok by auto
qed

section \<open>The theorem at a concrete node\<close>

definition decomposed_rt :: rt where
  "decomposed_rt = snd (decompose_node calm_env sample_proposal (budget_rt 0))"


end
