(* ===== verification/Shell_Risk.thy ===== *)
theory Shell_Risk
  imports Prelude Rust_Strings
begin

text \<open>
  The part of \<open>permissions/policy.rs\<close> that reads shell text: a command is split at its control
  operators, the base name of every piece is looked up in lists of commands that need approval,
  redirects into files are found, and the bodies of command substitutions are treated the same way
  up to a fixed depth. Strings are the bytes the Rust code iterates over.
\<close>

abbreviation single_quote :: char where "single_quote \<equiv> CHR 0x27"
abbreviation double_quote :: char where "double_quote \<equiv> CHR 0x22"
abbreviation backslash :: char where "backslash \<equiv> CHR 0x5C"
abbreviation backtick :: char where "backtick \<equiv> CHR 0x60"
abbreviation newline :: char where "newline \<equiv> CHR 0x0A"
abbreviation carriage_return :: char where "carriage_return \<equiv> CHR 0x0D"

section \<open>Splitting at control operators\<close>

text \<open>The loop variables; \<open>depth\<close> is a \<open>u8\<close> that wraps in a release build.\<close>

record split_state =
  ss_single :: bool
  ss_double :: bool
  ss_depth :: u8
  ss_start :: nat
  ss_result :: "string list"

definition slice :: "string \<Rightarrow> nat \<Rightarrow> nat \<Rightarrow> string" where
  "slice s a b = take (b - a) (drop a s)"

definition push_segment :: "string \<Rightarrow> nat \<Rightarrow> split_state \<Rightarrow> split_state" where
  "push_segment command i st =
     (if ss_start st < i
      then let sub = trim (slice command (ss_start st) i) in
           if sub = [] then st else st\<lparr>ss_result := ss_result st @ [sub]\<rparr>
      else st)"

definition cut_at :: "string \<Rightarrow> nat \<Rightarrow> bool \<Rightarrow> split_state \<Rightarrow> split_state" where
  "cut_at command i doubled st =
     (push_segment command i st)\<lparr>ss_start := (if doubled then i + 2 else i + 1)\<rparr>"

definition split_byte :: "string \<Rightarrow> nat \<Rightarrow> char option \<Rightarrow> char \<Rightarrow> char option \<Rightarrow> split_state \<Rightarrow> split_state" where
  "split_byte command i prev b next st =
     (let quoted = ss_single st \<or> ss_double st; top = \<not> quoted \<and> ss_depth st = 0 in
      if b = single_quote \<and> \<not> ss_double st then st\<lparr>ss_single := \<not> ss_single st\<rparr>
      else if b = double_quote \<and> \<not> ss_single st then st\<lparr>ss_double := \<not> ss_double st\<rparr>
      else if b = CHR ''$'' \<and> \<not> quoted \<and> next = Some CHR ''('' then st\<lparr>ss_depth := ss_depth st + 1\<rparr>
      else if b = CHR '')'' \<and> \<not> quoted \<and> 0 < ss_depth st then st\<lparr>ss_depth := ss_depth st - 1\<rparr>
      else if b = CHR ''&'' \<and> top
      then if prev = Some CHR ''>'' \<or> next = Some CHR ''>'' then st
           else cut_at command i (next = Some CHR ''&'') st
      else if (b = newline \<or> b = carriage_return) \<and> top then cut_at command i False st
      else if (b = CHR '';'' \<or> b = CHR ''|'') \<and> top
      then cut_at command i (b = CHR ''|'' \<and> next = Some CHR ''|'') st
      else st)"

fun peek :: "string \<Rightarrow> char option" where
  "peek [] = None"
| "peek (c # cs) = Some c"

fun split_scan :: "string \<Rightarrow> nat \<Rightarrow> char option \<Rightarrow> string \<Rightarrow> split_state \<Rightarrow> split_state" where
  "split_scan command i prev [] st = st"
| "split_scan command i prev (b # bs) st =
     split_scan command (Suc i) (Some b) bs (split_byte command i prev b (peek bs) st)"

definition split_shell_commands :: "string \<Rightarrow> string list" where
  "split_shell_commands command =
     (let st = split_scan command 0 None command
                 \<lparr>ss_single = False, ss_double = False, ss_depth = 0, ss_start = 0, ss_result = []\<rparr>;
          tail = trim (drop (ss_start st) command)
      in if tail = [] then ss_result st else ss_result st @ [tail])"

section \<open>The base name of a command\<close>

definition SHELL_KEYWORDS :: "string list" where
  "SHELL_KEYWORDS = [''do'', ''done'', ''then'', ''else'', ''elif'', ''fi'', ''if'', ''for'', ''while'', ''until'', ''case'',
     ''esac'', ''in'', ''time'', ''coproc'', ''select'', ''function'', ''!'', ''{'', ''}'']"

text \<open>A leading \<open>FOO=bar\<close>.\<close>

definition is_assignment :: "string \<Rightarrow> bool" where
  "is_assignment token \<longleftrightarrow>
     CHR ''='' \<in> set token \<and> \<not> prefix ''-'' token \<and> \<not> prefix ''/'' token \<and>
     (let key = takeWhile (\<lambda>c. c \<noteq> CHR ''='') token in
      key \<noteq> [] \<and> list_all (\<lambda>c. is_ascii_alphanumeric c \<or> c = CHR ''_'') key)"

fun base_of_tokens :: "string list \<Rightarrow> string option" where
  "base_of_tokens [] = None"
| "base_of_tokens (t # ts) =
     (if is_assignment t \<or> t \<in> set SHELL_KEYWORDS then base_of_tokens ts else Some (after_last (CHR ''/'') t))"

definition command_base_name :: "string \<Rightarrow> string option" where
  "command_base_name sub = base_of_tokens (split_whitespace sub)"

section \<open>Redirects\<close>

definition trim_quotes :: "string \<Rightarrow> string" where
  "trim_quotes s =
     (let q = (\<lambda>c. c = single_quote \<or> c = double_quote) in rev (dropWhile q (rev (dropWhile q s))))"

definition is_null_sink :: "string \<Rightarrow> bool" where
  "is_null_sink target =
     (let t = trim_quotes (trim target) in eq_ignore_ascii_case t ''/dev/null'' \<or> eq_ignore_ascii_case t ''nul'')"

definition drop_one :: "char \<Rightarrow> string \<Rightarrow> string" where
  "drop_one c s = (if peek s = Some c then tl s else s)"

lemma drop_one_length: "length (drop_one c s) \<le> length s"
  by (simp add: drop_one_def)

definition target_char :: "char \<Rightarrow> bool" where
  "target_char c \<longleftrightarrow> \<not> is_ascii_whitespace c \<and> c \<notin> {CHR ''|'', CHR '';'', CHR ''&'', CHR ''<'', CHR ''>''}"

definition amp_target_char :: "char \<Rightarrow> bool" where
  "amp_target_char c \<longleftrightarrow> \<not> is_ascii_whitespace c \<and> c \<noteq> CHR ''|'' \<and> c \<noteq> CHR '';''"

lemma dropWhile_drop_one_length: "length (dropWhile P (dropWhile Q (drop_one c s))) \<le> length s"
  using length_dropWhile_le [of P "dropWhile Q (drop_one c s)"] length_dropWhile_le [of Q "drop_one c s"]
    drop_one_length [of c s] by linarith

function redirect_scan :: "bool \<Rightarrow> bool \<Rightarrow> string \<Rightarrow> bool" where
  "redirect_scan in_single in_double [] = False"
| "redirect_scan in_single in_double (b # bs) =
     (if b = backslash \<and> in_double \<and> bs \<noteq> [] then redirect_scan in_single in_double (tl bs)
      else if b = single_quote \<and> \<not> in_double then redirect_scan (\<not> in_single) in_double bs
      else if b = double_quote \<and> \<not> in_single then redirect_scan in_single (\<not> in_double) bs
      else if b = CHR ''>'' \<and> \<not> in_single \<and> \<not> in_double
      then (let k = drop_one (CHR ''>'') bs in
            if peek k = Some CHR ''&'' then redirect_scan in_single in_double (tl k)
            else let r = dropWhile is_ascii_whitespace k in
                 if is_null_sink (takeWhile target_char r)
                 then redirect_scan in_single in_double (dropWhile target_char r)
                 else True)
      else if b = CHR ''&'' \<and> \<not> in_single \<and> \<not> in_double \<and> peek bs = Some CHR ''>''
      then (let r = dropWhile is_ascii_whitespace (drop_one (CHR ''>'') (tl bs)) in
            if is_null_sink (takeWhile amp_target_char r)
            then redirect_scan in_single in_double (dropWhile amp_target_char r)
            else True)
      else redirect_scan in_single in_double bs)"
  by pat_completeness auto
termination
proof (relation "measure (\<lambda>(_, _, s). length s)", goal_cases)
  case (5 in_single in_double b bs k)
  then show ?case using drop_one_length [of "CHR ''>''" bs] by (cases k) auto
next
  case (6 in_single in_double b bs k r)
  then show ?case using dropWhile_drop_one_length [of target_char is_ascii_whitespace "CHR ''>''" bs] by simp
next
  case (7 in_single in_double b bs r)
  then show ?case using dropWhile_drop_one_length [of amp_target_char is_ascii_whitespace "CHR ''>''" "tl bs"] by simp
qed auto

declare redirect_scan.simps(2) [simp del]

definition has_file_redirect :: "string \<Rightarrow> bool" where
  "has_file_redirect sub = redirect_scan False False sub"

section \<open>Command substitutions\<close>

text \<open>From behind \<open>$(\<close> to the matching parenthesis: the body and what follows it. The depth is a
  saturating \<open>u8\<close>.\<close>

fun scan_paren :: "u8 \<Rightarrow> string \<Rightarrow> (string \<times> string) option" where
  "scan_paren depth [] = None"
| "scan_paren depth (c # cs) =
     (let depth' = (if c = CHR ''('' then saturating_add depth 1 else if c = CHR '')'' then saturating_sub depth 1 else depth) in
      if c = CHR '')'' \<and> depth' = 0 then Some ([], cs)
      else map_option (\<lambda>(body, rest). (c # body, rest)) (scan_paren depth' cs))"

fun scan_backtick :: "string \<Rightarrow> (string \<times> string) option" where
  "scan_backtick [] = None"
| "scan_backtick (c # cs) =
     (if c = backtick then Some ([], cs) else map_option (\<lambda>(body, rest). (c # body, rest)) (scan_backtick cs))"

lemma scan_paren_length: "scan_paren d s = Some (body, rest) \<Longrightarrow> length body + length rest < length s"
  by (induction d s arbitrary: body rest rule: scan_paren.induct) (auto simp: Let_def split: if_splits)

lemma scan_backtick_length: "scan_backtick s = Some (body, rest) \<Longrightarrow> length body + length rest < length s"
  by (induction s arbitrary: body rest rule: scan_backtick.induct) (auto split: if_splits)

function bodies_scan :: "bool \<Rightarrow> bool \<Rightarrow> string \<Rightarrow> string list" where
  "bodies_scan in_single in_double [] = []"
| "bodies_scan in_single in_double (b # bs) =
     (if b = backslash \<and> in_double \<and> bs \<noteq> [] then bodies_scan in_single in_double (tl bs)
      else if b = single_quote \<and> \<not> in_double then bodies_scan (\<not> in_single) in_double bs
      else if b = double_quote \<and> \<not> in_single then bodies_scan in_single (\<not> in_double) bs
      else if b = CHR ''$'' \<and> \<not> in_single \<and> peek bs = Some CHR ''(''
      then (case scan_paren 1 (tl bs) of
              Some (body, rest) \<Rightarrow>
                if body \<noteq> [] then body # bodies_scan in_single in_double rest else bodies_scan in_single in_double bs
            | None \<Rightarrow> bodies_scan in_single in_double bs)
      else if b = backtick \<and> \<not> in_single
      then (case scan_backtick bs of
              Some (body, rest) \<Rightarrow>
                if body \<noteq> [] then body # bodies_scan in_single in_double rest else bodies_scan in_single in_double rest
            | None \<Rightarrow> bodies_scan in_single in_double bs)
      else bodies_scan in_single in_double bs)"
  by pat_completeness auto
termination
  by (relation "measure (\<lambda>(_, _, s). length s)") (auto dest!: scan_paren_length scan_backtick_length)

declare bodies_scan.simps(2) [simp del]

definition substitution_bodies :: "string \<Rightarrow> string list" where
  "substitution_bodies command = bodies_scan False False command"

section \<open>Classification\<close>

definition FS_MODIFIERS :: "string list" where
  "FS_MODIFIERS = [''mv'', ''cp'', ''rm'', ''dd'', ''touch'', ''mkdir'', ''tee'', ''install'', ''ln'', ''chmod'', ''chown'',
     ''truncate'', ''rmdir'', ''chattr'', ''setfacl'', ''setfattr'']"

definition INTERPRETERS :: "string list" where
  "INTERPRETERS = [''python3'', ''python'', ''python2'', ''ruby'', ''perl'', ''node'', ''php'', ''sh'', ''bash'', ''zsh'', ''fish'',
     ''dash'', ''pwsh'', ''powershell'', ''lua'', ''tclsh'', ''awk'', ''sed'', ''groovy'']"

definition SYSTEM :: "string list" where
  "SYSTEM = [''sudo'', ''su'', ''doas'', ''shutdown'', ''reboot'', ''halt'', ''poweroff'', ''mkfs'', ''mount'', ''umount'',
     ''systemctl'', ''service'', ''kill'', ''pkill'', ''killall'', ''crontab'', ''at'', ''batch'']"

definition NETWORK :: "string list" where
  "NETWORK = [''curl'', ''wget'', ''nc'', ''ncat'', ''scp'', ''rsync'', ''ftp'', ''sftp'', ''ssh'', ''telnet'', ''nmap'', ''tcpdump'',
     ''tshark'', ''socat'']"

fun classify_segments :: "string list \<Rightarrow> string \<Rightarrow> (string \<times> string) option" where
  "classify_segments [] command = None"
| "classify_segments (sub # subs) command =
     (case command_base_name sub of
        None \<Rightarrow> classify_segments subs command
      | Some base \<Rightarrow>
          if base \<in> set FS_MODIFIERS then Some (base, ''filesystem-modifying command requires approval: '' @ command)
          else if base \<in> set INTERPRETERS then Some (base, ''interpreter command requires approval: '' @ command)
          else if base \<in> set SYSTEM then Some (base, ''system command requires approval: '' @ command)
          else if base \<in> set NETWORK then Some (base, ''network command requires approval: '' @ command)
          else if has_file_redirect sub then Some (base, ''file redirect requires approval: '' @ command)
          else classify_segments subs command)"

definition MAX_SUBSTITUTION_DEPTH :: nat where "MAX_SUBSTITUTION_DEPTH = 3"

text \<open>The first hit of a function on a list.\<close>

fun first_some :: "('a \<Rightarrow> 'b option) \<Rightarrow> 'a list \<Rightarrow> 'b option" where
  "first_some f [] = None"
| "first_some f (x # xs) = (case f x of None \<Rightarrow> first_some f xs | Some y \<Rightarrow> Some y)"

lemma first_some_cong [fundef_cong]:
  "xs = ys \<Longrightarrow> (\<And>x. x \<in> set ys \<Longrightarrow> f x = g x) \<Longrightarrow> first_some f xs = first_some g ys"
  by (induction ys arbitrary: xs) (auto split: option.split)

lemma first_some_None_iff: "first_some f xs = None \<longleftrightarrow> (\<forall>x\<in>set xs. f x = None)"
  by (induction xs) (auto split: option.split)

lemma first_some_Some: "first_some f xs = Some y \<Longrightarrow> \<exists>x\<in>set xs. f x = Some y"
  by (induction xs) (auto split: option.splits)

text \<open>The argument is what is left of the depth: \<open>MAX_SUBSTITUTION_DEPTH - depth\<close>.\<close>

fun classify_command_risk_inner :: "nat \<Rightarrow> string \<Rightarrow> (string \<times> string) option" where
  "classify_command_risk_inner levels command =
     (case classify_segments (split_shell_commands command) command of
        Some hit \<Rightarrow> Some hit
      | None \<Rightarrow>
          (case levels of
             0 \<Rightarrow> None
           | Suc n \<Rightarrow> first_some (classify_command_risk_inner n) (substitution_bodies command)))"

declare classify_command_risk_inner.simps [simp del]

definition classify_command_risk :: "string \<Rightarrow> (string \<times> string) option" where
  "classify_command_risk command = classify_command_risk_inner MAX_SUBSTITUTION_DEPTH command"

section \<open>What the classification decides\<close>

definition needs_approval_base :: "string \<Rightarrow> bool" where
  "needs_approval_base base \<longleftrightarrow> base \<in> set (FS_MODIFIERS @ INTERPRETERS @ SYSTEM @ NETWORK)"

definition risky_segment :: "string \<Rightarrow> bool" where
  "risky_segment sub \<longleftrightarrow>
     (case command_base_name sub of None \<Rightarrow> False | Some base \<Rightarrow> needs_approval_base base \<or> has_file_redirect sub)"

text \<open>A command and the bodies of its substitutions, down to the given depth.\<close>

fun expansions :: "nat \<Rightarrow> string \<Rightarrow> string list" where
  "expansions 0 command = [command]"
| "expansions (Suc n) command = command # concat (map (expansions n) (substitution_bodies command))"

lemma classify_segments_None_iff: "classify_segments subs command = None \<longleftrightarrow> (\<forall>sub\<in>set subs. \<not> risky_segment sub)"
  by (induction subs) (auto simp: risky_segment_def needs_approval_base_def split: option.split)

lemma classify_inner_None_iff:
  "classify_command_risk_inner n command = None \<longleftrightarrow>
     (\<forall>c\<in>set (expansions n command). \<forall>sub\<in>set (split_shell_commands c). \<not> risky_segment sub)"
proof (induction n arbitrary: command)
  case 0
  show ?case
    by (subst classify_command_risk_inner.simps) (auto simp: classify_segments_None_iff [symmetric, of _ command] split: option.split)
next
  case (Suc n)
  have "classify_command_risk_inner (Suc n) command = None \<longleftrightarrow>
      (\<forall>sub\<in>set (split_shell_commands command). \<not> risky_segment sub) \<and>
      (\<forall>b\<in>set (substitution_bodies command). classify_command_risk_inner n b = None)"
    by (subst classify_command_risk_inner.simps)
      (auto simp: first_some_None_iff classify_segments_None_iff [symmetric, of _ command] split: option.splits)
  then show ?case using Suc by auto
qed



section \<open>Plain command sequences\<close>

definition plain_char :: "char \<Rightarrow> bool" where
  "plain_char c \<longleftrightarrow> c \<notin> {single_quote, double_quote, backtick, newline, carriage_return, CHR ''$'', CHR ''&'', CHR '';'', CHR ''|'', CHR ''>''}"

definition plain :: "string \<Rightarrow> bool" where
  "plain s \<longleftrightarrow> s \<noteq> [] \<and> list_all plain_char s"

definition control_operators :: "string list" where
  "control_operators = ['';'', ''&'', ''|'', ''&&'', ''||'', [newline]]"

fun sequence :: "(string \<times> string) list \<Rightarrow> string" where
  "sequence [] = []"
| "sequence ((op, s) # rest) = op @ s @ sequence rest"

definition at_top :: "split_state \<Rightarrow> bool" where
  "at_top st \<longleftrightarrow> \<not> ss_single st \<and> \<not> ss_double st \<and> ss_depth st = 0"

lemma split_byte_plain: "plain_char b \<Longrightarrow> at_top st \<Longrightarrow> split_byte command i prev b next st = st"
  by (simp add: split_byte_def plain_char_def at_top_def Let_def)

lemma split_scan_plain:
  assumes "list_all plain_char s" and "at_top st"
  shows "split_scan command i prev (s @ rest) st =
    split_scan command (i + length s) (if s = [] then prev else Some (last s)) rest st"
  using assms by (induction s arbitrary: i prev) (auto simp: split_byte_plain)

lemma cut_at_fields [simp]:
  "at_top (cut_at command i doubled st) = at_top st"
  "ss_start (cut_at command i doubled st) = (if doubled then i + 2 else i + 1)"
  by (simp_all add: cut_at_def push_segment_def at_top_def Let_def)

lemma cut_at_again: "i \<le> ss_start st \<Longrightarrow> cut_at command i doubled st = st\<lparr>ss_start := if doubled then i + 2 else i + 1\<rparr>"
  by (simp add: cut_at_def push_segment_def)

lemma split_byte_cut:
  assumes "at_top st" and "prev \<noteq> Some CHR ''>''" and "next \<noteq> Some CHR ''>''"
  shows "split_byte command i prev CHR ''&'' next st = cut_at command i (next = Some CHR ''&'') st"
    "split_byte command i prev CHR ''|'' next st = cut_at command i (next = Some CHR ''|'') st"
    "split_byte command i prev CHR '';'' next st = cut_at command i False st"
    "split_byte command i prev newline next st = cut_at command i False st"
  using assms by (simp_all add: split_byte_def at_top_def Let_def)

text \<open>An operator between plain pieces cuts once and starts the next piece behind it.\<close>

lemma split_scan_operator:
  assumes "op \<in> set control_operators" and "at_top st" and "ss_start st \<le> i"
    and "prev \<noteq> Some CHR ''>''" and "plain s"
  shows "\<exists>prev'. split_scan command i prev (op @ s @ rest) st =
    split_scan command (i + length op) prev' (s @ rest) ((push_segment command i st)\<lparr>ss_start := i + length op\<rparr>)"
proof -
  obtain c cs where s: "s = c # cs" "plain_char c" using assms(5) by (cases s) (auto simp: plain_def)
  have c: "c \<noteq> CHR ''&''" "c \<noteq> CHR ''|''" "c \<noteq> CHR ''>''" using s(2) by (auto simp: plain_char_def)
  have top: "at_top (cut_at command i d st)" for d using assms(2) by simp
  have again: "cut_at command (Suc i) False (cut_at command i True st) = (push_segment command i st)\<lparr>ss_start := i + 2\<rparr>"
    by (simp add: cut_at_again) (simp add: cut_at_def)
  show ?thesis
    using assms(1,2,4) s c top split_byte_cut [OF top [of True], of "Some CHR ''&''" "Some c" command "Suc i"]
      split_byte_cut [OF top [of True], of "Some CHR ''|''" "Some c" command "Suc i"]
    by (auto simp: control_operators_def split_byte_cut again) (auto simp: cut_at_def)
qed

definition finish_split :: "string \<Rightarrow> split_state \<Rightarrow> string list" where
  "finish_split command st =
     (let tail = trim (drop (ss_start st) command) in if tail = [] then ss_result st else ss_result st @ [tail])"

definition nonblank :: "string list \<Rightarrow> string list" where
  "nonblank ss = filter (\<lambda>t. t \<noteq> []) (map trim ss)"

lemma split_sequence:
  assumes "plain s" and "\<forall>(op, t)\<in>set rest. op \<in> set control_operators \<and> plain t"
    and "at_top st" and "ss_start st = length pre"
  shows "finish_split (pre @ s @ sequence rest) (split_scan (pre @ s @ sequence rest) (length pre) prev (s @ sequence rest) st) =
    ss_result st @ nonblank (s # map snd rest)"
  using assms
proof (induction rest arbitrary: s st pre prev)
  case Nil
  then have "split_scan (pre @ s) (length pre) prev s st = st"
    using split_scan_plain [of s st "pre @ s" "length pre" prev "[]"] by (simp add: plain_def)
  then show ?case using Nil by (simp add: finish_split_def nonblank_def)
next
  case (Cons x rest)
  obtain op t where x: "x = (op, t)" by force
  let ?cmd = "pre @ s @ sequence (x # rest)" and ?i = "length pre + length s"
  have ops: "op \<in> set control_operators" "plain t" using Cons.prems(2) x by auto
  have last: "Some (last s) \<noteq> Some CHR ''>''" "s \<noteq> []"
    using Cons.prems(1) last_in_set [of s] by (auto simp: plain_def list_all_iff plain_char_def)
  have "split_scan ?cmd (length pre) prev (s @ op @ t @ sequence rest) st =
      split_scan ?cmd ?i (Some (last s)) (op @ t @ sequence rest) st"
    using split_scan_plain [of s st ?cmd "length pre" prev "op @ t @ sequence rest"] Cons.prems(1,3) last(2)
    by (simp add: plain_def)
  moreover obtain prev' where "split_scan ?cmd ?i (Some (last s)) (op @ t @ sequence rest) st =
      split_scan ?cmd (?i + length op) prev' (t @ sequence rest) ((push_segment ?cmd ?i st)\<lparr>ss_start := ?i + length op\<rparr>)"
    using split_scan_operator [OF ops(1) Cons.prems(3) _ last(1) ops(2), of ?i ?cmd "sequence rest"] Cons.prems(4) by auto
  ultimately have step: "split_scan ?cmd (length pre) prev (s @ sequence (x # rest)) st =
      split_scan ?cmd (length (pre @ s @ op)) prev' (t @ sequence rest) ((push_segment ?cmd ?i st)\<lparr>ss_start := ?i + length op\<rparr>)"
    using x by (simp add: add.assoc)
  have pushed: "ss_result (push_segment ?cmd ?i st) = ss_result st @ nonblank [s]" "at_top (push_segment ?cmd ?i st)"
    using Cons.prems(3,4) last(2) by (auto simp: push_segment_def slice_def nonblank_def Let_def at_top_def)
  have top: "at_top ((push_segment ?cmd ?i st)\<lparr>ss_start := ?i + length op\<rparr>)" using pushed(2) by (simp add: at_top_def)
  have "finish_split ?cmd (split_scan ?cmd (length (pre @ s @ op)) prev' (t @ sequence rest)
      ((push_segment ?cmd ?i st)\<lparr>ss_start := ?i + length op\<rparr>)) = ss_result (push_segment ?cmd ?i st) @ nonblank (t # map snd rest)"
    using Cons.IH [OF ops(2) _ top, of "pre @ s @ op" prev'] Cons.prems(2) x by (simp add: add.assoc)
  then show ?case using step pushed(1) x by (simp add: nonblank_def)
qed

lemma split_shell_commands_finish:
  "split_shell_commands command = finish_split command (split_scan command 0 None command
     \<lparr>ss_single = False, ss_double = False, ss_depth = 0, ss_start = 0, ss_result = []\<rparr>)"
  by (simp add: split_shell_commands_def finish_split_def Let_def)

lemma no_substitution:
  "list_all (\<lambda>c. c \<notin> {single_quote, double_quote, backtick, CHR ''$''}) s \<Longrightarrow> bodies_scan False False s = []"
  by (induction s) (auto simp: bodies_scan.simps(2))

lemma sequence_no_substitution:
  assumes "\<forall>(op, t)\<in>set rest. op \<in> set control_operators \<and> plain t"
  shows "list_all (\<lambda>c. c \<notin> {single_quote, double_quote, backtick, CHR ''$''}) (sequence rest)"
  using assms
proof (induction rest)
  case (Cons x rest)
  obtain op t where x: "x = (op, t)" by force
  have "list_all (\<lambda>c. c \<notin> {single_quote, double_quote, backtick, CHR ''$''}) op"
    using Cons.prems x by (auto simp: control_operators_def)
  moreover have "list_all (\<lambda>c. c \<notin> {single_quote, double_quote, backtick, CHR ''$''}) t"
    using Cons.prems x by (auto simp: plain_def list_all_iff plain_char_def)
  ultimately show ?case using Cons x by simp
qed simp

lemma nonblank_harmless: "(\<forall>t\<in>set (nonblank ss). \<not> risky_segment t) \<longleftrightarrow> (\<forall>t\<in>set ss. \<not> risky_segment (trim t))"
proof -
  have "\<not> risky_segment []" by code_simp
  then show ?thesis by (auto simp: nonblank_def)
qed

text \<open>
  In a sequence of plain commands (no quotes, substitutions or redirects) joined by any control
  operators, every piece is seen: the splitter returns exactly the nonblank pieces, trimmed, and
  the sequence passes without approval exactly when none of them is risky. A dangerous command
  cannot hide behind a harmless one.
\<close>

theorem plain_sequence_classified:
  assumes "plain s" and "\<forall>(op, t)\<in>set rest. op \<in> set control_operators \<and> plain t"
  shows "split_shell_commands (s @ sequence rest) = nonblank (s # map snd rest) \<and>
    (classify_command_risk (s @ sequence rest) = None \<longleftrightarrow> (\<forall>t\<in>set (s # map snd rest). \<not> risky_segment (trim t)))"
proof -
  have split: "split_shell_commands (s @ sequence rest) = nonblank (s # map snd rest)"
    using split_sequence [OF assms, of "\<lparr>ss_single = False, ss_double = False, ss_depth = 0, ss_start = 0, ss_result = []\<rparr>" "[]" None]
    by (simp add: split_shell_commands_finish at_top_def)
  have "list_all (\<lambda>c. c \<notin> {single_quote, double_quote, backtick, CHR ''$''}) s"
    using assms(1) by (auto simp: plain_def list_all_iff plain_char_def)
  then have "substitution_bodies (s @ sequence rest) = []"
    unfolding substitution_bodies_def using sequence_no_substitution [OF assms(2)] by (intro no_substitution) simp
  then have "expansions 3 (s @ sequence rest) = [s @ sequence rest]" by (simp add: numeral_3_eq_3)
  then have "classify_command_risk (s @ sequence rest) = None \<longleftrightarrow> (\<forall>t\<in>set (s # map snd rest). \<not> risky_segment (trim t))"
    using nonblank_harmless [of "s # map snd rest"]
    unfolding classify_command_risk_def MAX_SUBSTITUTION_DEPTH_def classify_inner_None_iff by (simp add: split)
  with split show ?thesis by blast
qed

theorem plain_sequence_classified_witness:
  "split_shell_commands ''ls -l && rm a|wc'' = [''ls -l'', ''rm a'', ''wc''] \<and> classify_command_risk ''ls -l && rm a|wc'' \<noteq> None"
proof -
  let ?rest = "[(''&&'', '' rm a''), (''|'', ''wc'')]"
  have "plain ''ls -l ''" "\<forall>(op, t)\<in>set ?rest. op \<in> set control_operators \<and> plain t"
    by (simp_all add: plain_def plain_char_def control_operators_def)
  note run = plain_sequence_classified [OF this]
  have "trim ''ls -l '' = ''ls -l''" "trim '' rm a'' = ''rm a''" "trim ''wc'' = ''wc''" "risky_segment ''rm a''" by code_simp+
  then show ?thesis using run by (simp add: nonblank_def)
qed

text \<open>
  Shell texts that run \<open>rm\<close> or write a file and yet pass without approval: a command in a
  subshell, a quoted command name, a command behind an escaped quote (the splitter does not know
  backslashes and takes what follows for quoted text), and the redirect \<open>>& file\<close>, which is
  taken for the duplication of a file descriptor.
\<close>

theorem unseen_commands:
  "classify_command_risk ''(rm -rf x)'' = None \<and>
   classify_command_risk ([double_quote] @ ''rm'' @ [double_quote] @ '' -rf x'') = None \<and>
   classify_command_risk (''echo '' @ [backslash, single_quote] @ ''; rm -rf x; echo '' @ [backslash, single_quote]) = None \<and>
   classify_command_risk (''echo x >& notes'') = None"
  by code_simp

end
