(* ===== verification/Checkpoint_Store.thy ===== *)
theory Checkpoint_Store
  imports Prelude Rust_Paths
begin

text \<open>
  \<open>tools/checkpoint_store.rs\<close>: per-turn snapshots of files. Before a tool edits a file, its content
  is captured under the turn; rewinding a turn writes the captured contents back. The operating
  system resolves path strings to files (\<open>locate\<close>, a parameter: two spellings may name one file)
  and may let any write fail (\<open>ce_ok\<close>). Snapshots are kept as values: the JSON text of a manifest
  is not modelled.
\<close>

section \<open>Paths and keys\<close>

definition path_join :: "string \<Rightarrow> string \<Rightarrow> string" where
  "path_join r p = (if prefix ''/'' p then p else if r = [] \<or> last r = CHR ''/'' then r @ p else r @ ''/'' @ p)"

definition normalize_abs :: "string \<Rightarrow> string \<Rightarrow> string" where
  "normalize_abs root p = (if prefix ''/'' p then p else path_join root p)"

text \<open>Separators and \<open>.\<close> components, which \<open>Components\<close> skips at both ends of what remains.\<close>

fun skip_sep :: "string \<Rightarrow> string" where
  "skip_sep [] = []"
| "skip_sep (c # cs) =
     (if c = CHR ''/'' then skip_sep cs
      else if c = CHR ''.'' \<and> (cs = [] \<or> hd cs = CHR ''/'') then skip_sep cs
      else c # cs)"

fun strip_body :: "path_component list \<Rightarrow> string \<Rightarrow> string option" where
  "strip_body [] s = Some s"
| "strip_body (c # cs) s =
     (let s' = skip_sep s; w = takeWhile (\<lambda>x. x \<noteq> CHR ''/'') s' in
      if s' \<noteq> [] \<and> component_of w = c then strip_body cs (dropWhile (\<lambda>x. x \<noteq> CHR ''/'') s') else None)"

text \<open>\<open>Path::strip_prefix\<close> of an absolute path by an absolute root.\<close>

definition strip_root :: "string \<Rightarrow> string \<Rightarrow> string option" where
  "strip_root root apath =
     (if prefix ''/'' root \<and> prefix ''/'' apath
      then map_option (\<lambda>r. rev (skip_sep (rev (skip_sep r)))) (strip_body (tl (path_components root)) apath)
      else None)"

definition manifest_key :: "string \<Rightarrow> string \<Rightarrow> string" where
  "manifest_key root apath = (case strip_root root apath of Some rel \<Rightarrow> rel | None \<Rightarrow> apath)"

definition resolve_manifest_path :: "string \<Rightarrow> string \<Rightarrow> string" where
  "resolve_manifest_path root key = (if prefix ''/'' key then key else path_join root key)"

definition binary_exts :: "string list" where
  "binary_exts = [''png'', ''jpg'', ''jpeg'', ''gif'', ''webp'', ''ico'', ''bmp'', ''tiff'', ''pdf'', ''zip'', ''gz'', ''tar'',
     ''bz2'', ''7z'', ''rar'', ''class'', ''jar'', ''so'', ''dylib'', ''dll'', ''exe'', ''wasm'', ''o'', ''a'', ''mp3'',
     ''mp4'', ''mov'', ''avi'', ''mkv'', ''flac'', ''wav'', ''ogg'', ''sqlite'', ''db'', ''lock'']"

text \<open>\<open>Path::extension\<close>: after the last dot of the last component, unless that dot begins it or the
  component is \<open>..\<close>. Case is folded for ASCII (of other letters only the Kelvin sign would fold to
  one that occurs in a listed extension).\<close>

definition file_extension :: "string \<Rightarrow> string option" where
  "file_extension p =
     (case rev (path_components p) of
        Normal n # _ \<Rightarrow>
          let ext = rev (takeWhile (\<lambda>c. c \<noteq> CHR ''.'') (rev n));
              before = rev (drop (Suc (length ext)) (rev n))
          in if CHR ''.'' \<in> set n \<and> before \<noteq> [] then Some ext else None
      | _ \<Rightarrow> None)"

definition is_binary_path :: "string \<Rightarrow> bool" where
  "is_binary_path p =
     (case file_extension p of Some ext \<Rightarrow> map to_ascii_lower ext \<in> set binary_exts | None \<Rightarrow> False)"

section \<open>Snapshots\<close>

datatype file_state = Saved | Tombstone | Skipped

record manifest_entry =
  me_path :: string
  me_blob :: "string option"
  me_state :: file_state

record manifest =
  mf_turn_id :: string
  mf_created_at :: string
  mf_files :: "manifest_entry list"

definition manifest_has :: "manifest \<Rightarrow> string \<Rightarrow> bool" where
  "manifest_has m path \<longleftrightarrow> list_ex (\<lambda>en. me_path en = path) (mf_files m)"

datatype fs_node = FileNode string | DirNode

text \<open>A turn directory: its manifest, once written, and its blobs.\<close>

record snapshot =
  sn_manifest :: "manifest option"
  sn_blobs :: "string \<rightharpoonup> string"

record cp =
  cp_fs :: "string \<rightharpoonup> fs_node"
  cp_turns :: "string \<rightharpoonup> snapshot"
  cp_tick :: nat

text \<open>What the operating system answers: whether the next write succeeds, the time, and the turn
  directories with their modification times, in the order of \<open>read_dir\<close>.\<close>

record cp_env =
  ce_root :: string
  ce_keep_n :: nat
  ce_locate :: "string \<Rightarrow> string"
  ce_ok :: "nat \<Rightarrow> bool"
  ce_now :: "nat \<Rightarrow> string"
  ce_listing :: "nat \<Rightarrow> (string \<times> nat) list"

datatype cp_error = CpIo | NoManifest | UnreadableFile | NothingToUndo

type_synonym 'a cp_run = "(cp, cp_error, 'a) smon"

definition cp_ask :: "(nat \<Rightarrow> 'a) \<Rightarrow> 'a cp_run" where
  "cp_ask f = (\<lambda>s. (Inr (f (cp_tick s)), s\<lparr>cp_tick := Suc (cp_tick s)\<rparr>))"

definition cp_write :: "cp_env \<Rightarrow> (cp \<Rightarrow> cp) \<Rightarrow> unit cp_run" where
  "cp_write e f = bnd (cp_ask (ce_ok e)) (\<lambda>ok. if ok then upd f else throw CpIo)"

text \<open>A read gives nothing when the file is missing or the read fails.\<close>

definition cp_read :: "cp_env \<Rightarrow> (cp \<Rightarrow> 'a option) \<Rightarrow> 'a option cp_run" where
  "cp_read e f = bnd (cp_ask (ce_ok e)) (\<lambda>ok. bnd (gets f) (\<lambda>x. ret (if ok then x else None)))"

definition set_snapshot :: "string \<Rightarrow> snapshot \<Rightarrow> cp \<Rightarrow> cp" where
  "set_snapshot turn sn s = s\<lparr>cp_turns := (cp_turns s)(turn \<mapsto> sn)\<rparr>"

definition MAX_SNAPSHOT_BYTES :: nat where "MAX_SNAPSHOT_BYTES = 5 * 1024 * 1024"

definition new_manifest :: "string \<Rightarrow> string \<Rightarrow> manifest" where
  "new_manifest turn now = \<lparr>mf_turn_id = turn, mf_created_at = now, mf_files = []\<rparr>"

definition read_manifest :: "cp_env \<Rightarrow> string \<Rightarrow> manifest cp_run" where
  "read_manifest e turn =
     bnd (cp_read e (\<lambda>s. Option.bind (cp_turns s turn) sn_manifest)) (\<lambda>m. require_some m NoManifest)"

definition write_manifest :: "cp_env \<Rightarrow> manifest \<Rightarrow> unit cp_run" where
  "write_manifest e m =
     cp_write e (\<lambda>s. case cp_turns s (mf_turn_id m) of
       None \<Rightarrow> s | Some sn \<Rightarrow> set_snapshot (mf_turn_id m) (sn\<lparr>sn_manifest := Some m\<rparr>) s)"

text \<open>\<open>ensure_turn\<close> creates the directories, then the manifest if there is none.\<close>

definition snapshot_ensure :: "cp_env \<Rightarrow> string \<Rightarrow> bool cp_run" where
  "snapshot_ensure e turn =
     bnd (cp_write e (\<lambda>s. case cp_turns s turn of
            None \<Rightarrow> set_snapshot turn \<lparr>sn_manifest = None, sn_blobs = Map.empty\<rparr> s | Some _ \<Rightarrow> s)) (\<lambda>_.
     bnd (gets (\<lambda>s. Option.bind (cp_turns s turn) sn_manifest)) (\<lambda>found.
     if found \<noteq> None then ret False
     else
       bnd (cp_ask (ce_now e)) (\<lambda>now.
       bnd (write_manifest e (new_manifest turn now)) (\<lambda>_. ret True))))"

section \<open>Pruning\<close>

text \<open>The directories beyond the \<open>keep\<close> newest; \<open>sort_by_key\<close> is stable.\<close>

definition newest_first :: "(string \<times> nat) list \<Rightarrow> (string \<times> nat) list" where
  "newest_first ls = sort_key (\<lambda>p. - int (snd p)) ls"

definition prune_victims :: "nat \<Rightarrow> (string \<times> nat) list \<Rightarrow> string list" where
  "prune_victims keep ls = map fst (drop keep (newest_first ls))"

fun remove_dirs :: "cp_env \<Rightarrow> string list \<Rightarrow> nat cp_run" where
  "remove_dirs e [] = ret 0"
| "remove_dirs e (d # ds) =
     bnd (cp_ask (ce_ok e)) (\<lambda>ok.
     bnd (when_m ok (upd (\<lambda>s. s\<lparr>cp_turns := (cp_turns s)(d := None)\<rparr>))) (\<lambda>_.
     bnd (remove_dirs e ds) (\<lambda>n. ret (if ok then Suc n else n))))"

definition prune :: "cp_env \<Rightarrow> nat \<Rightarrow> nat cp_run" where
  "prune e keep =
     bnd (cp_ask (\<lambda>t. (ce_ok e t, ce_listing e t))) (\<lambda>(ok, ls).
     if \<not> ok then throw CpIo else remove_dirs e (prune_victims keep ls))"

text \<open>A failing prune is only logged.\<close>

definition quiet_prune :: "cp_env \<Rightarrow> unit cp_run" where
  "quiet_prune e = (\<lambda>s. (Inr (), snd (prune e (max 1 (ce_keep_n e)) s)))"

definition store_begin_turn :: "cp_env \<Rightarrow> string \<Rightarrow> unit cp_run" where
  "store_begin_turn e turn =
     bnd (snapshot_ensure e turn) (\<lambda>fresh. when_m fresh (quiet_prune e))"

section \<open>Capturing a file\<close>

definition pad4 :: "nat \<Rightarrow> string" where
  "pad4 n = replicate (4 - length (show_nat n)) CHR ''0'' @ show_nat n"

definition add_entry :: "cp_env \<Rightarrow> manifest \<Rightarrow> manifest_entry \<Rightarrow> unit cp_run" where
  "add_entry e m en = write_manifest e (m\<lparr>mf_files := mf_files m @ [en]\<rparr>)"

definition save_blob :: "cp_env \<Rightarrow> string \<Rightarrow> string \<Rightarrow> string \<Rightarrow> unit cp_run" where
  "save_blob e turn name content =
     bnd (gets (\<lambda>s. Option.bind (cp_turns s turn) (\<lambda>sn. sn_blobs sn name))) (\<lambda>found.
     if found \<noteq> None then ret ()
     else cp_write e (\<lambda>s. case cp_turns s turn of
            None \<Rightarrow> s | Some sn \<Rightarrow> set_snapshot turn (sn\<lparr>sn_blobs := (sn_blobs sn)(name \<mapsto> content)\<rparr>) s))"

definition try_capture_file :: "cp_env \<Rightarrow> string \<Rightarrow> string \<Rightarrow> unit cp_run" where
  "try_capture_file e turn path =
     bnd (store_begin_turn e turn) (\<lambda>_.
     bnd (read_manifest e turn) (\<lambda>m.
     let apath = normalize_abs (ce_root e) path; key = manifest_key (ce_root e) apath in
     if manifest_has m key then ret ()
     else
       bnd (cp_read e (\<lambda>s. cp_fs s (ce_locate e apath))) (\<lambda>node.
       case node of
         None \<Rightarrow> add_entry e m \<lparr>me_path = key, me_blob = None, me_state = Tombstone\<rparr>
       | Some DirNode \<Rightarrow>
           if is_binary_path apath then add_entry e m \<lparr>me_path = key, me_blob = None, me_state = Skipped\<rparr>
           else throw UnreadableFile
       | Some (FileNode content) \<Rightarrow>
           if MAX_SNAPSHOT_BYTES < length content \<or> is_binary_path apath
           then add_entry e m \<lparr>me_path = key, me_blob = None, me_state = Skipped\<rparr>
           else
             bnd (cp_read e (\<lambda>s. Some content)) (\<lambda>found.
             if found = None then throw UnreadableFile
             else
             bnd (save_blob e turn (pad4 (length (mf_files m))) content) (\<lambda>_.
             add_entry e m \<lparr>me_path = key, me_blob = Some (pad4 (length (mf_files m))), me_state = Saved\<rparr>)))))"

text \<open>Captures that fail are only logged.\<close>

definition capture_file :: "cp_env \<Rightarrow> string \<Rightarrow> string \<Rightarrow> unit cp_run" where
  "capture_file e turn path = (\<lambda>s. (Inr (), snd (try_capture_file e turn path s)))"

fun capture_files :: "cp_env \<Rightarrow> string \<Rightarrow> string list \<Rightarrow> unit cp_run" where
  "capture_files e turn [] = ret ()"
| "capture_files e turn (p # ps) = bnd (capture_file e turn p) (\<lambda>_. capture_files e turn ps)"

section \<open>Rewinding\<close>

record rewind_outcome =
  ro_restored :: nat
  ro_skipped :: nat
  ro_failed :: "string list"

definition write_file :: "cp_env \<Rightarrow> string \<Rightarrow> string \<Rightarrow> bool cp_run" where
  "write_file e path content =
     bnd (cp_ask (ce_ok e)) (\<lambda>ok.
     bnd (gets (\<lambda>s. cp_fs s (ce_locate e path))) (\<lambda>node.
     if ok \<and> node \<noteq> Some DirNode
     then bnd (upd (\<lambda>s. s\<lparr>cp_fs := (cp_fs s)(ce_locate e path \<mapsto> FileNode content)\<rparr>)) (\<lambda>_. ret True)
     else ret False))"

definition remove_file :: "cp_env \<Rightarrow> string \<Rightarrow> unit cp_run" where
  "remove_file e path =
     bnd (cp_ask (ce_ok e)) (\<lambda>ok.
     bnd (gets (\<lambda>s. cp_fs s (ce_locate e path))) (\<lambda>node.
     when_m (ok \<and> node \<noteq> None \<and> node \<noteq> Some DirNode)
       (upd (\<lambda>s. s\<lparr>cp_fs := (cp_fs s)(ce_locate e path := None)\<rparr>))))"

definition read_blob :: "cp_env \<Rightarrow> string \<Rightarrow> string option \<Rightarrow> string option cp_run" where
  "read_blob e turn name =
     cp_read e (\<lambda>s. Option.bind name (\<lambda>n. Option.bind (cp_turns s turn) (\<lambda>sn. sn_blobs sn n)))"

definition rewind_entry :: "cp_env \<Rightarrow> string \<Rightarrow> manifest_entry \<Rightarrow> rewind_outcome \<Rightarrow> rewind_outcome cp_run" where
  "rewind_entry e turn en out =
     (let apath = resolve_manifest_path (ce_root e) (me_path en);
          failed = out\<lparr>ro_failed := ro_failed out @ [me_path en]\<rparr>;
          ok = out\<lparr>ro_restored := Suc (ro_restored out)\<rparr> in
      case me_state en of
        Saved \<Rightarrow>
          bnd (read_blob e turn (me_blob en)) (\<lambda>content.
          case content of
            None \<Rightarrow> ret failed
          | Some c \<Rightarrow> bnd (write_file e apath c) (\<lambda>written. ret (if written then ok else failed)))
      | Tombstone \<Rightarrow>
          if me_blob en = None then bnd (remove_file e apath) (\<lambda>_. ret ok)
          else
            bnd (read_blob e turn (me_blob en)) (\<lambda>content.
            case content of
              None \<Rightarrow> ret failed
            | Some c \<Rightarrow> bnd (write_file e apath c) (\<lambda>_. ret ok))
      | Skipped \<Rightarrow> ret (out\<lparr>ro_skipped := Suc (ro_skipped out)\<rparr>))"

fun rewind_entries :: "cp_env \<Rightarrow> string \<Rightarrow> manifest_entry list \<Rightarrow> rewind_outcome \<Rightarrow> rewind_outcome cp_run" where
  "rewind_entries e turn [] out = ret out"
| "rewind_entries e turn (en # ens) out =
     bnd (rewind_entry e turn en out) (\<lambda>out'. rewind_entries e turn ens out')"

definition rewind_manifest :: "cp_env \<Rightarrow> string \<Rightarrow> manifest \<Rightarrow> rewind_outcome cp_run" where
  "rewind_manifest e turn m =
     rewind_entries e turn (mf_files m) \<lparr>ro_restored = 0, ro_skipped = 0, ro_failed = []\<rparr>"

definition rewind :: "cp_env \<Rightarrow> string \<Rightarrow> rewind_outcome cp_run" where
  "rewind e turn = bnd (read_manifest e turn) (rewind_manifest e turn)"

record rewind_range_report =
  rrr_restored :: nat
  rrr_skipped :: nat
  rrr_failed :: "string list"
  rrr_rewound_turns :: "string list"

fun rewind_turns :: "cp_env \<Rightarrow> string list \<Rightarrow> rewind_range_report \<Rightarrow> rewind_range_report cp_run" where
  "rewind_turns e [] rep = ret rep"
| "rewind_turns e (turn # ts) rep =
     bnd (cp_read e (\<lambda>s. Option.bind (cp_turns s turn) sn_manifest)) (\<lambda>found.
     case found of
       None \<Rightarrow> rewind_turns e ts rep
     | Some m \<Rightarrow>
         if mf_files m = [] then rewind_turns e ts rep
         else
           bnd (rewind_manifest e turn m) (\<lambda>out.
           rewind_turns e ts
             (rep\<lparr>rrr_restored := rrr_restored rep + ro_restored out,
                  rrr_skipped := rrr_skipped rep + ro_skipped out,
                  rrr_failed := rrr_failed rep @ ro_failed out,
                  rrr_rewound_turns := rrr_rewound_turns rep @ [turn]\<rparr>)))"

definition rewind_range :: "cp_env \<Rightarrow> string list \<Rightarrow> rewind_range_report cp_run" where
  "rewind_range e turn_ids =
     rewind_turns e (rev turn_ids) \<lparr>rrr_restored = 0, rrr_skipped = 0, rrr_failed = [], rrr_rewound_turns = []\<rparr>"

section \<open>Listing, and the undo command\<close>

record turn_info =
  ti_turn_id :: string
  ti_created_at :: string
  ti_file_count :: nat

fun turn_infos :: "cp_env \<Rightarrow> string list \<Rightarrow> turn_info list cp_run" where
  "turn_infos e [] = ret []"
| "turn_infos e (d # ds) =
     bnd (cp_read e (\<lambda>s. Option.bind (cp_turns s d) sn_manifest)) (\<lambda>found.
     bnd (turn_infos e ds) (\<lambda>infos.
     ret (case found of
            None \<Rightarrow> infos
          | Some m \<Rightarrow> \<lparr>ti_turn_id = mf_turn_id m, ti_created_at = mf_created_at m,
                        ti_file_count = length (mf_files m)\<rparr> # infos)))"

text \<open>\<open>sort_by\<close> with the arguments swapped: descending, equal times stay in place.\<close>

definition latest_first :: "turn_info list \<Rightarrow> turn_info list" where
  "latest_first infos = rev (sort_key ti_created_at (rev infos))"

definition store_list :: "cp_env \<Rightarrow> turn_info list cp_run" where
  "store_list e =
     bnd (cp_ask (\<lambda>t. (ce_ok e t, ce_listing e t))) (\<lambda>(ok, ls).
     if \<not> ok then throw CpIo
     else bnd (turn_infos e (map fst ls)) (\<lambda>infos. ret (latest_first infos)))"

text \<open>\<open>CheckpointManager\<close>: \<open>undo\<close> rewinds the given turn, else the last one noted, else the latest.\<close>

definition resolve_latest_turn_id :: "cp_env \<Rightarrow> string option \<Rightarrow> string cp_run" where
  "resolve_latest_turn_id e last_turn =
     (case last_turn of
        Some t \<Rightarrow> ret t
      | None \<Rightarrow> bnd (store_list e) (\<lambda>infos. case infos of [] \<Rightarrow> throw NothingToUndo | i # _ \<Rightarrow> ret (ti_turn_id i)))"

definition undo :: "cp_env \<Rightarrow> string option \<Rightarrow> string option \<Rightarrow> rewind_outcome cp_run" where
  "undo e last_turn checkpoint_id =
     bnd (case checkpoint_id of
            Some t \<Rightarrow> if t \<noteq> [] then ret t else resolve_latest_turn_id e last_turn
          | None \<Rightarrow> resolve_latest_turn_id e last_turn) (\<lambda>turn. rewind e turn)"

section \<open>A key names the file it was made for\<close>

definition body_components :: "string \<Rightarrow> path_component list" where
  "body_components p = map component_of (filter (\<lambda>s. s \<noteq> [] \<and> s \<noteq> ''.'') (split_char (CHR ''/'') p))"

lemma path_components_absolute: "prefix ''/'' p \<Longrightarrow> path_components p = RootDir # body_components p"
  by (simp add: path_components_def body_components_def Let_def)

lemma split_char_slash: "split_char d (a @ d # b) = split_char d a @ split_char d b"
  by (induction a) (auto split: list.split)

lemma split_char_none: "d \<notin> set w \<Longrightarrow> split_char d w = [w]"
  by (induction w) auto

lemma body_slash: "body_components (a @ CHR ''/'' # b) = body_components a @ body_components b"
  by (simp add: body_components_def split_char_slash)

lemma body_Nil [simp]: "body_components [] = []"
  by (simp add: body_components_def)

lemma body_Cons_slash [simp]: "body_components (CHR ''/'' # b) = body_components b"
  using body_slash [of "[]" b] by simp

lemma body_dot: "cs = [] \<or> hd cs = CHR ''/'' \<Longrightarrow> body_components (CHR ''.'' # cs) = body_components cs"
proof (cases cs)
  case (Cons c r)
  moreover assume "cs = [] \<or> hd cs = CHR ''/''"
  ultimately show ?thesis using body_slash [of "''.''" r] by (simp add: body_components_def)
qed (simp add: body_components_def)

lemma body_skip_sep [simp]: "body_components (skip_sep s) = body_components s"
  by (induction s rule: skip_sep.induct) (auto simp: body_dot)

lemma body_word:
  assumes "CHR ''/'' \<notin> set w" and "w \<noteq> []" and "w \<noteq> ''.''" and "r = [] \<or> hd r = CHR ''/''"
  shows "body_components (w @ r) = component_of w # body_components r"
proof -
  have w: "body_components w = [component_of w]"
    using assms(1-3) by (simp add: body_components_def split_char_none)
  show ?thesis
  proof (cases r)
    case (Cons c cs)
    then show ?thesis using assms(4) w body_slash [of w cs] by simp
  qed (simp add: w)
qed

lemma skip_sep_start: "skip_sep s = c # cs \<Longrightarrow> c \<noteq> CHR ''/'' \<and> \<not> (c = CHR ''.'' \<and> (cs = [] \<or> hd cs = CHR ''/''))"
  by (induction s rule: skip_sep.induct) (auto split: if_splits)

lemma skip_sep_word:
  assumes "skip_sep s \<noteq> []"
  shows "body_components s = component_of (takeWhile (\<lambda>x. x \<noteq> CHR ''/'') (skip_sep s)) #
    body_components (dropWhile (\<lambda>x. x \<noteq> CHR ''/'') (skip_sep s))"
proof -
  let ?w = "takeWhile (\<lambda>x. x \<noteq> CHR ''/'') (skip_sep s)" and ?r = "dropWhile (\<lambda>x. x \<noteq> CHR ''/'') (skip_sep s)"
  obtain c cs where s: "skip_sep s = c # cs" using assms by (cases "skip_sep s") auto
  note start = skip_sep_start [OF s]
  have r: "?r = [] \<or> hd ?r = CHR ''/''" using hd_dropWhile [of "\<lambda>x. x \<noteq> CHR ''/''" "skip_sep s"] by auto
  have "?w \<noteq> ''.''"
  proof
    assume "?w = ''.''"
    then have "c = CHR ''.''" "takeWhile (\<lambda>x. x \<noteq> CHR ''/'') cs = []" using s start by auto
    then show False using start by (cases cs) (auto split: if_splits)
  qed
  moreover have "?w \<noteq> []" using s start by simp
  moreover have "CHR ''/'' \<notin> set ?w" by (auto dest: set_takeWhileD)
  ultimately have "body_components (?w @ ?r) = component_of ?w # body_components ?r" using r by (intro body_word)
  then show ?thesis by simp
qed

lemma strip_body_components: "strip_body cs s = Some r \<Longrightarrow> body_components s = cs @ body_components r"
  by (induction cs s rule: strip_body.induct) (auto simp: Let_def skip_sep_word split: if_splits)

lemma split_char_rev: "split_char d (rev s) = rev (map rev (split_char d s))"
proof (induction s)
  case (Cons c cs)
  then show ?case
  proof (cases "c = d")
    case True
    then show ?thesis using Cons split_char_slash [of d "rev cs" "[]"] by simp
  next
    case False
    have app: "split_char d (xs @ [c]) = butlast (split_char d xs) @ [last (split_char d xs) @ [c]]" for xs
      using False by (induction xs) (auto split: list.split)
    show ?thesis
      using Cons False app [of "rev cs"] by (cases "split_char d cs") auto
  qed
qed simp

lemma body_rev_cong:
  assumes "body_components a = body_components b"
  shows "body_components (rev a) = body_components (rev b)"
proof -
  define flip where "flip c = (case c of Normal n \<Rightarrow> Normal (rev n) | x \<Rightarrow> x)" for c
  have flip: "component_of (rev w) = flip (component_of w)" for w
    by (simp add: component_of_def flip_def rev_swap)
  have "body_components (rev s) = rev (map flip (body_components s))" for s
    by (simp add: body_components_def split_char_rev rev_filter [symmetric] filter_map o_def rev_swap flip rev_map
        [symmetric])
  then show ?thesis using assms by simp
qed

lemma body_trim: "body_components (rev (skip_sep (rev s))) = body_components s"
  using body_rev_cong [of "skip_sep (rev s)" "rev s"] by simp

lemma path_join_components:
  assumes "prefix ''/'' root" and "\<not> prefix ''/'' rel"
  shows "prefix ''/'' (path_join root rel)" "body_components (path_join root rel) = body_components root @ body_components rel"
proof -
  show "prefix ''/'' (path_join root rel)" using assms by (auto simp: path_join_def)
  show "body_components (path_join root rel) = body_components root @ body_components rel"
  proof (cases "last root = CHR ''/''")
    case True
    then obtain r where r: "root = r @ ''/''" using assms(1) by (cases root rule: rev_cases) auto
    then show ?thesis using True assms(2) body_slash [of r rel] body_slash [of r "[]"] by (simp add: path_join_def)
  next
    case False
    then show ?thesis using assms body_slash [of root rel] by (auto simp: path_join_def)
  qed
qed

lemma skip_sep_relative: "\<not> prefix ''/'' (skip_sep s)"
  using skip_sep_start [of s] by (cases "skip_sep s") auto

lemma trim_relative: "\<not> prefix ''/'' s \<Longrightarrow> \<not> prefix ''/'' (rev (skip_sep (rev s)))"
proof -
  have "suffix (skip_sep t) t" for t by (induction t rule: skip_sep.induct) (auto simp: suffix_Cons)
  then obtain ys where "rev s = ys @ skip_sep (rev s)" by (metis suffix_def)
  then have s: "s = rev (skip_sep (rev s)) @ rev ys" by (metis rev_append rev_rev_ident)
  assume "\<not> prefix ''/'' s"
  then show ?thesis using s by (metis prefix_prefix)
qed

text \<open>The key of a file resolves to a path with the same components.\<close>

lemma key_resolves:
  assumes "prefix ''/'' root" and "prefix ''/'' p"
  shows "path_components (resolve_manifest_path root (manifest_key root p)) = path_components p"
proof (cases "strip_root root p")
  case None
  then show ?thesis using assms by (simp add: manifest_key_def resolve_manifest_path_def)
next
  case (Some rel)
  then obtain r where r: "strip_body (body_components root) p = Some r" "rel = rev (skip_sep (rev (skip_sep r)))"
    using assms by (auto simp: strip_root_def path_components_absolute)
  have rel: "\<not> prefix ''/'' rel" using r(2) trim_relative skip_sep_relative by blast
  have "body_components rel = body_components r" using r(2) body_trim by simp
  then have "body_components (path_join root rel) = body_components p"
    using path_join_components(2) [OF assms(1) rel] strip_body_components [OF r(1)] by simp
  then show ?thesis
    using Some rel assms path_join_components(1) [OF assms(1) rel]
    by (simp add: manifest_key_def resolve_manifest_path_def path_components_absolute)
qed

lemma normalize_absolute: "prefix ''/'' root \<Longrightarrow> prefix ''/'' (normalize_abs root p)"
  using path_join_components(1) by (auto simp: normalize_abs_def)

end
