(* ===== verification/Permission_Policy.thy ===== *)
theory Permission_Policy
  imports Shell_Risk Checkpoint_Store
begin

text \<open>
  \<open>permissions/policy.rs\<close>: whether a tool call may run at once or has to be approved first. The
  decision depends on the kind of tool, the paths and the shell text it is given, and the rules
  the user has approved in this session. What the file system says of a path is a parameter.
\<close>

section \<open>Paths\<close>

record path_env =
  pe_canonicalize :: "string \<Rightarrow> string option"
  pe_exists :: "string \<Rightarrow> bool"

fun join_names :: "path_component list \<Rightarrow> string" where
  "join_names [] = []"
| "join_names [Normal n] = n"
| "join_names (Normal n # cs) = n @ ''/'' @ join_names cs"
| "join_names (_ # cs) = join_names cs"

text \<open>The text of a path built by \<open>push\<close> and \<open>pop\<close>; it has a root and normal components only.\<close>

fun render_path :: "path_component list \<Rightarrow> string" where
  "render_path (RootDir # cs) = ''/'' @ join_names cs"
| "render_path cs = join_names cs"

definition pop_component :: "path_component list \<Rightarrow> path_component list" where
  "pop_component cs = (if cs = [] \<or> last cs = RootDir then cs else butlast cs)"

fun push_component :: "path_component list \<Rightarrow> path_component \<Rightarrow> path_component list" where
  "push_component cs CurDir = cs"
| "push_component cs ParentDir = pop_component cs"
| "push_component cs RootDir = [RootDir]"
| "push_component cs (Normal n) = cs @ [Normal n]"

definition normalize_path :: "string \<Rightarrow> path_component list" where
  "normalize_path path = foldl push_component [] (path_components path)"

text \<open>The loop over the ancestors, from the reversed components: the first that exists is
  canonicalized and the names passed on the way are put back.\<close>

fun climb :: "path_env \<Rightarrow> path_component list \<Rightarrow> string list \<Rightarrow> string option" where
  "climb e rcs names =
     (let ancestor = render_path (rev rcs) in
      if pe_exists e ancestor
      then map_option (\<lambda>r. foldl path_join r names) (pe_canonicalize e ancestor)
      else case rcs of Normal n # rest \<Rightarrow> climb e rest (n # names) | _ \<Rightarrow> None)"

declare climb.simps [simp del]

definition canonical_or_normalized :: "path_env \<Rightarrow> string \<Rightarrow> string" where
  "canonical_or_normalized e path =
     (case pe_canonicalize e path of
        Some canon \<Rightarrow> canon
      | None \<Rightarrow>
          let normalized = normalize_path path in
          case climb e (rev normalized) [] of Some resolved \<Rightarrow> resolved | None \<Rightarrow> render_path normalized)"

definition path_starts_with :: "string \<Rightarrow> string \<Rightarrow> bool" where
  "path_starts_with p root \<longleftrightarrow> prefix (path_components root) (path_components p)"

section \<open>Decisions\<close>

record permission_request =
  pr_tool_name :: string
  pr_reason :: string
  pr_session_rule :: string

datatype policy_decision = Allow | Ask permission_request

record call_error =
  te_message :: string
  te_code :: string

text \<open>The policy: the workspace root, already resolved.\<close>

record policy =
  po_workspace_root :: string

definition new_policy :: "path_env \<Rightarrow> string \<Rightarrow> policy" where
  "new_policy e workspace_root = \<lparr>po_workspace_root = canonical_or_normalized e workspace_root\<rparr>"

record tool_info =
  tl_read_only :: bool
  tl_requires_confirmation :: bool

definition resolve_policy_path :: "path_env \<Rightarrow> policy \<Rightarrow> string \<Rightarrow> string" where
  "resolve_policy_path e po raw_path =
     canonical_or_normalized e (if prefix ''/'' raw_path then raw_path else path_join (po_workspace_root po) raw_path)"

definition path_rule_key :: "path_env \<Rightarrow> policy \<Rightarrow> string \<Rightarrow> string option" where
  "path_rule_key e po raw_path =
     (let resolved = resolve_policy_path e po raw_path in
      if \<not> path_starts_with resolved (po_workspace_root po) then Some (''path:'' @ resolved) else None)"

text \<open>Every question is asked unless its rule has been approved.\<close>

definition ask_unless :: "string set \<Rightarrow> string \<Rightarrow> string \<Rightarrow> string \<Rightarrow> call_error + policy_decision" where
  "ask_unless rules tool_name reason rule =
     (if rule \<in> rules then Inr Allow
      else Inr (Ask \<lparr>pr_tool_name = tool_name, pr_reason = reason, pr_session_rule = rule\<rparr>))"

definition check_path_boundary ::
    "path_env \<Rightarrow> policy \<Rightarrow> string \<Rightarrow> string \<Rightarrow> string \<Rightarrow> string set \<Rightarrow> call_error + policy_decision" where
  "check_path_boundary e po tool_name path_str operation rules =
     (case path_rule_key e po path_str of
        Some rule_key \<Rightarrow> ask_unless rules tool_name (operation @ '' path is outside the workspace: '' @ path_str) rule_key
      | None \<Rightarrow> Inr Allow)"

definition validate_read_paths :: "path_env \<Rightarrow> policy \<Rightarrow> string \<Rightarrow> json \<Rightarrow> string set \<Rightarrow> call_error + policy_decision" where
  "validate_read_paths e po tool_name args rules =
     (if tool_name \<in> {''file_read'', ''list_files'', ''view'', ''grep'', ''glob'', ''search'', ''lsp''}
      then case str_field args ''path'' of
             Some path_str \<Rightarrow> check_path_boundary e po tool_name path_str ''read'' rules
           | None \<Rightarrow> Inr Allow
      else Inr Allow)"

definition validate_write_paths :: "path_env \<Rightarrow> policy \<Rightarrow> string \<Rightarrow> json \<Rightarrow> string set \<Rightarrow> call_error + policy_decision" where
  "validate_write_paths e po tool_name args rules =
     (if tool_name \<in> {''file_write'', ''file_edit''}
      then case str_field args ''path'' of
             Some path \<Rightarrow>
               let resolved = resolve_policy_path e po path in
               ask_unless rules tool_name
                 (if path_starts_with resolved (po_workspace_root po) then ''write to file requires approval: '' @ path
                  else ''write path is outside the workspace: '' @ path)
                 (''path:'' @ resolved)
           | None \<Rightarrow> Inr Allow
      else if tool_name = ''apply_patch''
      then let workdir = (case str_field args ''workdir'' of Some w \<Rightarrow> w | None \<Rightarrow> po_workspace_root po);
               resolved = canonical_or_normalized e workdir in
           ask_unless rules tool_name
             (if path_starts_with resolved (po_workspace_root po) then ''apply_patch requires approval''
              else ''apply_patch workdir is outside the workspace: '' @ resolved)
             (''workdir:'' @ resolved)
      else Inr Allow)"

definition validate_command :: "path_env \<Rightarrow> policy \<Rightarrow> string \<Rightarrow> json \<Rightarrow> string set \<Rightarrow> call_error + policy_decision" where
  "validate_command e po tool_name args rules =
     (case str_field args ''command'' of
        None \<Rightarrow> Inl \<lparr>te_message = ''command is required for '' @ tool_name, te_code = ''missing_parameter''\<rparr>
      | Some command \<Rightarrow>
          if contains_str '':(){:|:&};:'' command
          then ask_unless rules tool_name (''fork bomb detected: '' @ command) ''command:forkbomb''
          else
            case classify_command_risk command of
              Some (base_cmd, reason) \<Rightarrow> ask_unless rules tool_name reason (''command:'' @ base_cmd)
            | None \<Rightarrow>
                (case str_field args ''workdir'' of
                   Some workdir \<Rightarrow>
                     (case path_rule_key e po workdir of
                        Some rule_key \<Rightarrow> ask_unless rules tool_name (''workdir is outside the workspace: '' @ workdir) rule_key
                      | None \<Rightarrow> Inr Allow)
                 | None \<Rightarrow> Inr Allow))"

definition validate_stdin_input :: "string \<Rightarrow> json \<Rightarrow> string set \<Rightarrow> call_error + policy_decision" where
  "validate_stdin_input tool_name args rules =
     (let chars = (case str_field args ''chars'' of Some c \<Rightarrow> c | None \<Rightarrow> []) in
      if chars = [] then Inr Allow
      else case classify_command_risk chars of
             Some (base, reason) \<Rightarrow> ask_unless rules tool_name (''stdin payload contains '' @ reason) (''command:'' @ base)
           | None \<Rightarrow> Inr Allow)"

definition READ_OPS :: "string list" where
  "READ_OPS = [''status'', ''log'', ''diff'', ''branch'', ''worktree_list'']"

definition FORCE_FLAGS :: "string list" where
  "FORCE_FLAGS = [''--force'', ''-f'', ''-D'', ''-d'', ''--delete'', ''--hard'']"

definition validate_git_operation :: "string \<Rightarrow> json \<Rightarrow> string set \<Rightarrow> call_error + policy_decision" where
  "validate_git_operation tool_name args rules =
     (let oper = (case str_field args ''operation'' of Some x \<Rightarrow> x | None \<Rightarrow> []);
          forced = (case Option.bind (json_get args ''args'') as_array of
                      Some items \<Rightarrow> list_ex (\<lambda>v. case as_str v of Some flag \<Rightarrow> flag \<in> set FORCE_FLAGS | None \<Rightarrow> False) items
                    | None \<Rightarrow> False);
          q = [CHR 0x60] in
      if oper \<in> set READ_OPS then Inr Allow
      else ask_unless rules tool_name
             (if forced then ''git '' @ q @ oper @ q @ '' with force/delete flags requires approval''
              else ''git operation '' @ q @ oper @ q @ '' modifies the repository; approval required'')
             (''git:'' @ oper))"

definition structured_tools :: "string list" where
  "structured_tools = [''checkpoint'', ''update_plan'', ''ask_user_question'', ''request_approval'', ''team_message'', ''task_management'',
     ''memory_add'', ''task'', ''rlm'', ''dismiss_codegraph_guidance'', ''kill_session'', ''begin_node'', ''decompose_node'',
     ''verify_node'', ''rollback_node'', ''verify_and_complete'', ''submit_specialist_report'']"

definition validate_tool_call ::
    "path_env \<Rightarrow> policy \<Rightarrow> tool_info \<Rightarrow> string \<Rightarrow> json \<Rightarrow> string set \<Rightarrow> call_error + policy_decision" where
  "validate_tool_call e po tool tool_name args rules =
     (let q = [CHR 0x60] in
      if tl_read_only tool then validate_read_paths e po tool_name args rules
      else if tl_requires_confirmation tool
      then ask_unless rules tool_name
             (''external tool '' @ q @ tool_name @ q @ '' may modify state; explicit approval is required'') (''tool:'' @ tool_name)
      else if tool_name \<in> {''file_write'', ''file_edit'', ''apply_patch''} then validate_write_paths e po tool_name args rules
      else if tool_name \<in> {''execute_command'', ''exec_command'', ''background''} then validate_command e po tool_name args rules
      else if tool_name = ''write_stdin'' then validate_stdin_input tool_name args rules
      else if tool_name = ''git_operations'' then validate_git_operation tool_name args rules
      else if tool_name \<in> set structured_tools then Inr Allow
      else ask_unless rules tool_name
             (''tool '' @ q @ tool_name @ q @ '' may modify state and has no explicit permission classification; approval required'')
             (''tool:'' @ tool_name))"

section \<open>Approvals\<close>

lemma ask_unless_simps [simp]:
  "rule \<in> rules \<Longrightarrow> ask_unless rules tool reason rule = Inr Allow"
  "rule \<notin> rules \<Longrightarrow> ask_unless rules tool reason rule =
     Inr (Ask \<lparr>pr_tool_name = tool, pr_reason = reason, pr_session_rule = rule\<rparr>)"
  by (simp_all add: ask_unless_def)

text \<open>A decision depends on the approved rules in one way only: there is at most one rule it asks for.\<close>

definition rule_driven :: "string \<Rightarrow> (string set \<Rightarrow> call_error + policy_decision) \<Rightarrow> bool" where
  "rule_driven tool_name f \<longleftrightarrow>
     (\<exists>err. f = (\<lambda>_. Inl err)) \<or> f = (\<lambda>_. Inr Allow) \<or> (\<exists>reason rule. f = (\<lambda>rules. ask_unless rules tool_name reason rule))"

lemma rule_driven_intros:
  "rule_driven tool (\<lambda>_. Inl err)" "rule_driven tool (\<lambda>_. Inr Allow)"
  "rule_driven tool (\<lambda>rules. ask_unless rules tool reason rule)"
  by (auto simp: rule_driven_def)

lemma rule_driven_if: "rule_driven tool f \<Longrightarrow> rule_driven tool g \<Longrightarrow> rule_driven tool (\<lambda>rules. if b then f rules else g rules)"
  by (cases b) simp_all

lemma rule_driven_option:
  "rule_driven tool f \<Longrightarrow> (\<And>y. rule_driven tool (g y)) \<Longrightarrow> rule_driven tool (\<lambda>rules. case x of None \<Rightarrow> f rules | Some y \<Rightarrow> g y rules)"
  by (cases x) simp_all

lemma rule_driven_prod: "(\<And>a b. rule_driven tool (g a b)) \<Longrightarrow> rule_driven tool (\<lambda>rules. case p of (a, b) \<Rightarrow> g a b rules)"
  by (cases p) simp

lemmas rule_driven_rules = rule_driven_intros rule_driven_if rule_driven_option rule_driven_prod

lemma rule_driven_parts:
  "rule_driven tool (check_path_boundary e po tool p operation)"
  "rule_driven tool (validate_write_paths e po tool args)"
  "rule_driven tool (validate_command e po tool args)"
  "rule_driven tool (validate_stdin_input tool args)"
  "rule_driven tool (validate_git_operation tool args)"
  unfolding check_path_boundary_def validate_write_paths_def validate_command_def
    validate_stdin_input_def validate_git_operation_def Let_def
  by (intro rule_driven_rules)+

lemma validate_rule_driven: "rule_driven tool_name (validate_tool_call e po tool tool_name args)"
  unfolding validate_tool_call_def validate_read_paths_def Let_def by (intro rule_driven_rules rule_driven_parts)

text \<open>
  An approval is remembered and never backfires. A question names the tool and a rule that is
  not approved yet; once that rule is approved the same call is allowed; and a call that is allowed
  stays allowed when more rules are approved. An error does not depend on the rules.
\<close>

theorem approval_remembered:
  "(case validate_tool_call e po tool tool_name args rules of
      Inr (Ask req) \<Rightarrow>
        pr_tool_name req = tool_name \<and> pr_session_rule req \<notin> rules \<and>
        validate_tool_call e po tool tool_name args (insert (pr_session_rule req) rules) = Inr Allow
    | Inr Allow \<Rightarrow> validate_tool_call e po tool tool_name args (rules \<union> others) = Inr Allow
    | Inl err \<Rightarrow> validate_tool_call e po tool tool_name args (rules \<union> others) = Inl err)"
  using validate_rule_driven [of tool_name e po tool args] unfolding rule_driven_def
  by (elim disjE exE) (simp_all add: ask_unless_def)

section \<open>Containment in the workspace\<close>

definition proper_name :: "string \<Rightarrow> bool" where
  "proper_name n \<longleftrightarrow> n \<noteq> [] \<and> n \<noteq> ''.'' \<and> n \<noteq> ''..'' \<and> CHR ''/'' \<notin> set n"

text \<open>An absolute path without \<open>.\<close> and \<open>..\<close>.\<close>

definition clean_path :: "string \<Rightarrow> bool" where
  "clean_path p \<longleftrightarrow> prefix ''/'' p \<and> (\<exists>ns. list_all proper_name ns \<and> path_components p = RootDir # map Normal ns)"

text \<open>What \<open>canonicalize\<close> promises of its results.\<close>

definition canonical_paths :: "path_env \<Rightarrow> bool" where
  "canonical_paths e \<longleftrightarrow> (\<forall>p c. pe_canonicalize e p = Some c \<longrightarrow> clean_path c)"

lemma body_proper: "proper_name n \<Longrightarrow> body_components n = [Normal n]"
  using body_word [of n "[]"] by (simp add: proper_name_def component_of_def)

lemma body_join_names: "list_all proper_name ns \<Longrightarrow> body_components (join_names (map Normal ns)) = map Normal ns"
proof (induction ns)
  case (Cons n ns)
  then show ?case
    using body_slash [of n "join_names (map Normal ns)"] body_proper [of n] by (cases ns) auto
qed simp

lemma clean_render: "list_all proper_name ns \<Longrightarrow> clean_path (render_path (RootDir # map Normal ns))"
  by (auto simp: clean_path_def path_components_absolute body_join_names)

lemma clean_join: "clean_path r \<Longrightarrow> proper_name n \<Longrightarrow> clean_path (path_join r n)"
proof -
  assume r: "clean_path r" and n: "proper_name n"
  then obtain ns where ns: "list_all proper_name ns" "path_components r = RootDir # map Normal ns" "prefix ''/'' r"
    by (auto simp: clean_path_def)
  have rel: "\<not> prefix ''/'' n" using n by (cases n) (auto simp: proper_name_def)
  have "body_components r = map Normal ns" using ns by (simp add: path_components_absolute)
  then have "path_components (path_join r n) = RootDir # map Normal (ns @ [n])"
    using path_join_components [OF ns(3) rel] body_proper [OF n] by (simp add: path_components_absolute)
  then show "clean_path (path_join r n)"
    using path_join_components(1) [OF ns(3) rel] ns(1) n by (auto simp: clean_path_def intro!: exI [of _ "ns @ [n]"])
qed

lemma clean_joins: "clean_path r \<Longrightarrow> list_all proper_name ns \<Longrightarrow> clean_path (foldl path_join r ns)"
  by (induction ns arbitrary: r) (auto simp: clean_join)

lemma component_proper:
  assumes "Normal n \<in> set (path_components p)"
  shows "proper_name n"
proof -
  have seg: "CHR ''/'' \<notin> set s" if "s \<in> set (split_char (CHR ''/'') p)" for s
    using that by (induction p arbitrary: s) (auto split: list.splits if_splits)
  have "Normal n \<in> set (map component_of (filter (\<lambda>s. s \<noteq> [] \<and> s \<noteq> ''.'') (split_char (CHR ''/'') p)))"
    using assms by (auto simp: path_components_def Let_def split: if_splits)
  then show ?thesis using seg by (auto simp: component_of_def proper_name_def split: if_splits)
qed

lemma push_clean:
  assumes "list_all proper_name ns" and "c = RootDir \<or> c = CurDir \<or> c = ParentDir \<or> (\<exists>n. c = Normal n \<and> proper_name n)"
  shows "\<exists>ms. list_all proper_name ms \<and> push_component (RootDir # map Normal ns) c = RootDir # map Normal ms"
proof -
  have "pop_component (RootDir # map Normal ns) = RootDir # map Normal (butlast ns)"
    by (cases ns rule: rev_cases) (auto simp: pop_component_def)
  moreover have "list_all proper_name (butlast ns)" using assms(1) by (auto simp: list_all_iff dest: in_set_butlastD)
  moreover have "\<exists>ms. list_all proper_name ms \<and> map Normal ns @ [Normal n] = map Normal ms" if "proper_name n" for n
    using assms(1) that by (intro exI [of _ "ns @ [n]"]) simp
  ultimately show ?thesis
    using assms by (cases c) (auto intro: exI [of _ "[]"] exI [of _ "butlast ns"])
qed

lemma foldl_push_clean:
  assumes "\<forall>n. Normal n \<in> set cs \<longrightarrow> proper_name n" and "list_all proper_name ns"
  shows "\<exists>ms. list_all proper_name ms \<and> foldl push_component (RootDir # map Normal ns) cs = RootDir # map Normal ms"
  using assms
proof (induction cs arbitrary: ns)
  case (Cons c cs)
  obtain ms where "list_all proper_name ms" "push_component (RootDir # map Normal ns) c = RootDir # map Normal ms"
    using push_clean [OF Cons.prems(2), of c] Cons.prems(1) by (cases c) auto
  then show ?case using Cons by auto
qed auto

lemma normalize_clean:
  assumes "prefix ''/'' p"
  shows "\<exists>ns. list_all proper_name ns \<and> normalize_path p = RootDir # map Normal ns"
proof -
  have "\<forall>n. Normal n \<in> set (body_components p) \<longrightarrow> proper_name n"
    using component_proper [of _ p] assms by (simp add: path_components_absolute)
  from foldl_push_clean [OF this, of "[]"] show ?thesis
    using assms by (simp add: normalize_path_def path_components_absolute)
qed

lemma climb_clean:
  assumes "canonical_paths e" and "list_all proper_name ns" and "list_all proper_name names"
    and "climb e (map Normal (rev ns) @ [RootDir]) names = Some r"
  shows "clean_path r"
  using assms(2-4)
proof (induction ns arbitrary: names rule: rev_induct)
  case Nil
  then show ?case using assms(1)
    by (subst (asm) climb.simps) (auto simp: canonical_paths_def clean_joins Let_def split: if_splits)
next
  case (snoc n ns)
  show ?case
  proof (cases "pe_exists e (render_path (RootDir # map Normal (ns @ [n])))")
    case True
    then show ?thesis using snoc.prems(2,3) assms(1)
      by (subst (asm) climb.simps) (auto simp: rev_map canonical_paths_def clean_joins Let_def)
  next
    case False
    then have "climb e (map Normal (rev ns) @ [RootDir]) (n # names) = Some r"
      using snoc.prems(3) by (subst (asm) climb.simps) (simp add: rev_map Let_def)
    then show ?thesis using snoc.IH [of "n # names"] snoc.prems(1,2) by simp
  qed
qed

lemma resolved_clean:
  assumes "canonical_paths e" and "prefix ''/'' p"
  shows "clean_path (canonical_or_normalized e p)"
proof -
  obtain ns where ns: "list_all proper_name ns" "normalize_path p = RootDir # map Normal ns"
    using normalize_clean [OF assms(2)] by blast
  have "clean_path r" if "climb e (rev (normalize_path p)) [] = Some r" for r
    using climb_clean [OF assms(1) ns(1), of "[]" r] that ns(2) by (simp add: rev_map)
  then show ?thesis
    using assms(1) clean_render [OF ns(1)] ns(2)
    by (auto simp: canonical_or_normalized_def canonical_paths_def Let_def split: option.split)
qed


section \<open>Examples\<close>

text \<open>A file system in which only the workspace exists.\<close>

definition bare_env :: path_env where
  "bare_env = \<lparr>pe_canonicalize = (\<lambda>p. if p = ''/w'' then Some ''/w'' else None), pe_exists = (\<lambda>p. p = ''/w'')\<rparr>"

abbreviation plain_tool :: tool_info where
  "plain_tool \<equiv> \<lparr>tl_read_only = False, tl_requires_confirmation = False\<rparr>"

lemma bare_canonical: "canonical_paths bare_env"
proof -
  have "path_components ''/w'' = [RootDir, Normal ''w'']" by code_simp
  then show ?thesis by (auto simp: canonical_paths_def bare_env_def clean_path_def proper_name_def intro!: exI [of _ "[''w'']"])
qed



text \<open>
  A rule covers more than was asked. Of several risky pieces only the first is put to the user,
  under its base name; with that name approved the rest of the command is not looked at: after
  \<open>rm\<close> has been approved once, \<open>sudo\<close> behind an \<open>rm\<close> runs without a question, and from any directory.
\<close>

theorem approval_covers_the_rest:
  "let args = JObject [(''command'', JString ''rm a; sudo b''), (''workdir'', JString ''/'')];
       ask = (\<lambda>command rules. validate_tool_call bare_env (new_policy bare_env ''/w'') plain_tool ''execute_command'' command rules) in
   (\<exists>req. ask (JObject [(''command'', JString ''rm a'')]) {} = Inr (Ask req) \<and> pr_session_rule req = ''command:rm'') \<and>
   (\<exists>req. ask (JObject [(''command'', JString ''sudo b'')]) {''command:rm''} = Inr (Ask req)) \<and>
   ask args {''command:rm''} = Inr Allow"
proof -
  have "classify_command_risk ''rm a'' = Some (''rm'', ''filesystem-modifying command requires approval: rm a'')"
    "classify_command_risk ''sudo b'' = Some (''sudo'', ''system command requires approval: sudo b'')"
    "classify_command_risk ''rm a; sudo b'' = Some (''rm'', ''filesystem-modifying command requires approval: rm a; sudo b'')"
    "\<not> contains_str '':(){:|:&};:'' ''rm a''" "\<not> contains_str '':(){:|:&};:'' ''sudo b''"
    "\<not> contains_str '':(){:|:&};:'' ''rm a; sudo b''"
    by code_simp+
  then show ?thesis
    by (simp add: validate_tool_call_def validate_command_def str_field_def ask_unless_def Let_def del: contains_str.simps)
qed

end
