(* ===== verification/Apply_Patch.thy ===== *)
theory Apply_Patch
  imports Permission_Policy
begin

text \<open>
  \<open>tools/filesystem/apply_patch.rs\<close>: the patch format the model edits files with. A patch is parsed
  into operations, all of them are checked against the files, and only then is anything written.
  The file system is a map from resolved paths to contents; whether a write succeeds and what
  \<open>canonicalize\<close> answers are parameters.
\<close>

section \<open>The patch format\<close>

datatype hunk_line = Context string | Remove string | AddLine string

type_synonym update_hunk = "hunk_line list"

datatype patch_operation =
    AddFile string string
  | UpdateFile string "update_hunk list"
  | DeleteFile string

text \<open>\<open>str::lines\<close>: the carriage return before a line feed belongs to the line ending.\<close>

definition strip_cr :: "string \<Rightarrow> string" where
  "strip_cr l = (if l \<noteq> [] \<and> last l = carriage_return then butlast l else l)"

definition str_lines :: "string \<Rightarrow> string list" where
  "str_lines s =
     (let segs = split_char newline s in
      map strip_cr (butlast segs) @ (if last segs = [] then [] else [last segs]))"

definition strip_prefix :: "string \<Rightarrow> string \<Rightarrow> string option" where
  "strip_prefix p s = (if prefix p s then Some (drop (length p) s) else None)"

definition join_lines :: "string list \<Rightarrow> string" where
  "join_lines ls = (if ls = [] then [] else join_with [newline] ls)"

definition invalid_patch :: "string \<Rightarrow> call_error" where
  "invalid_patch m = \<lparr>te_message = m, te_code = ''invalid_patch''\<rparr>"

definition extract_patch_paths :: "string \<Rightarrow> string list" where
  "extract_patch_paths patch =
     concat (map (\<lambda>line.
       case strip_prefix ''*** Add File: '' line of Some p \<Rightarrow> [trim p]
       | None \<Rightarrow> (case strip_prefix ''*** Delete File: '' line of Some p \<Rightarrow> [trim p]
       | None \<Rightarrow> (case strip_prefix ''*** Update File: '' line of Some p \<Rightarrow> [trim p] | None \<Rightarrow> []))) (str_lines patch))"

definition parse_add_line :: "string \<Rightarrow> call_error + string" where
  "parse_add_line l =
     (case strip_prefix ''+'' l of
        Some added \<Rightarrow> Inr added
      | None \<Rightarrow> Inl (invalid_patch (''Add file line must start with '' @ [single_quote] @ ''+'' @ [single_quote] @ '': '' @ l)))"

definition parse_hunk_line :: "string \<Rightarrow> call_error + hunk_line" where
  "parse_hunk_line l =
     (case strip_prefix '' '' l of Some rest \<Rightarrow> Inr (Context rest)
      | None \<Rightarrow> (case strip_prefix ''-'' l of Some rest \<Rightarrow> Inr (Remove rest)
      | None \<Rightarrow> (case strip_prefix ''+'' l of Some rest \<Rightarrow> Inr (AddLine rest)
      | None \<Rightarrow> if l = [] then Inr (Context []) else Inl (invalid_patch (''Invalid hunk line: '' @ l)))))"

definition is_directive :: "string \<Rightarrow> bool" where
  "is_directive l \<longleftrightarrow> prefix ''*** '' l"

definition is_hunk_header :: "string \<Rightarrow> bool" where
  "is_hunk_header l \<longleftrightarrow> prefix ''@@'' l"

function parse_hunks :: "string list \<Rightarrow> call_error + update_hunk list" where
  "parse_hunks [] = Inr []"
| "parse_hunks (l # ls) =
     (if is_hunk_header l
      then result_bind (collect_results parse_hunk_line (takeWhile (\<lambda>l. \<not> is_hunk_header l) ls)) (\<lambda>hunk.
           result_bind (parse_hunks (dropWhile (\<lambda>l. \<not> is_hunk_header l) ls)) (\<lambda>hunks. Inr (hunk # hunks)))
      else Inl (invalid_patch (''Expected hunk header, found: '' @ l)))"
  by pat_completeness auto
termination
  by (relation "measure length") (auto simp: le_imp_less_Suc length_dropWhile_le)

function parse_operations :: "(string \<Rightarrow> string) \<Rightarrow> string list \<Rightarrow> call_error + patch_operation list" where
  "parse_operations resolve [] = Inr []"
| "parse_operations resolve (l # ls) =
     (let body = takeWhile (\<lambda>l. \<not> is_directive l) ls; rest = dropWhile (\<lambda>l. \<not> is_directive l) ls in
      case strip_prefix ''*** Add File: '' l of
        Some p \<Rightarrow>
          result_bind (collect_results parse_add_line body) (\<lambda>content.
          result_bind (parse_operations resolve rest) (\<lambda>ops. Inr (AddFile (resolve p) (join_lines content) # ops)))
      | None \<Rightarrow>
      (case strip_prefix ''*** Delete File: '' l of
        Some p \<Rightarrow> result_bind (parse_operations resolve ls) (\<lambda>ops. Inr (DeleteFile (resolve p) # ops))
      | None \<Rightarrow>
      (case strip_prefix ''*** Update File: '' l of
        Some p \<Rightarrow>
          result_bind (parse_hunks body) (\<lambda>hunks.
          result_bind (parse_operations resolve rest) (\<lambda>ops. Inr (UpdateFile (resolve p) hunks # ops)))
      | None \<Rightarrow> Inl (invalid_patch (''Unknown patch directive: '' @ l)))))"
  by pat_completeness auto
termination
  by (relation "measure (\<lambda>(_, ls). length ls)") (auto simp: le_imp_less_Suc length_dropWhile_le)

declare parse_hunks.simps(2) [simp del] parse_operations.simps(2) [simp del]

definition parse_patch :: "(string \<Rightarrow> string) \<Rightarrow> string \<Rightarrow> call_error + patch_operation list" where
  "parse_patch resolve patch =
     (let lines = str_lines patch in
      if lines = [] \<or> hd lines \<noteq> ''*** Begin Patch'' then Inl (invalid_patch ''Patch must start with *** Begin Patch'')
      else if last lines \<noteq> ''*** End Patch'' then Inl (invalid_patch ''Patch must end with *** End Patch'')
      else parse_operations resolve (butlast (tl lines)))"

section \<open>Where a patch path leads\<close>

definition file_name :: "string \<Rightarrow> string option" where
  "file_name p = (case rev (path_components p) of Normal n # _ \<Rightarrow> Some n | _ \<Rightarrow> None)"

text \<open>\<open>push\<close> and \<open>pop\<close> of the loop over the components of the relative path.\<close>

definition normalize_under :: "string \<Rightarrow> string \<Rightarrow> path_component list" where
  "normalize_under workdir_canon relative = foldl push_component (path_components workdir_canon) (path_components relative)"

definition resolve_patch_path :: "path_env \<Rightarrow> string \<Rightarrow> string \<Rightarrow> string" where
  "resolve_patch_path e workdir raw_path =
     (let relative = (if prefix ''/'' raw_path
                      then (case file_name raw_path of Some n \<Rightarrow> n | None \<Rightarrow> ''unknown'') else raw_path);
          resolved = path_join workdir relative;
          safe = path_join workdir (case file_name relative of Some n \<Rightarrow> n | None \<Rightarrow> ''patched_file'') in
      case pe_canonicalize e workdir of
        None \<Rightarrow> resolved
      | Some workdir_canon \<Rightarrow>
          (case pe_canonicalize e resolved of
             Some resolved_canon \<Rightarrow> if path_starts_with resolved_canon workdir_canon then resolved_canon else safe
           | None \<Rightarrow>
               let normalized = normalize_under workdir_canon relative in
               if prefix (path_components workdir_canon) normalized then render_path normalized else safe))"

section \<open>Applying\<close>

definition old_block :: "update_hunk \<Rightarrow> string list" where
  "old_block h = concat (map (\<lambda>l. case l of Context t \<Rightarrow> [t] | Remove t \<Rightarrow> [t] | AddLine _ \<Rightarrow> []) h)"

definition new_block :: "update_hunk \<Rightarrow> string list" where
  "new_block h = concat (map (\<lambda>l. case l of Context t \<Rightarrow> [t] | AddLine t \<Rightarrow> [t] | Remove _ \<Rightarrow> []) h)"

definition to_crlf :: "string \<Rightarrow> string" where
  "to_crlf s = concat (map (\<lambda>c. if c = newline then [carriage_return, newline] else [c]) s)"

definition resolve_match :: "string \<Rightarrow> string \<Rightarrow> string \<Rightarrow> (string \<times> string) option" where
  "resolve_match content old_text new_text =
     (if contains_str old_text content then Some (old_text, new_text)
      else if contains_str [carriage_return, newline] content \<and> contains_str (to_crlf old_text) content
      then Some (to_crlf old_text, to_crlf new_text)
      else None)"

text \<open>\<open>replacen(old, new, 1)\<close>.\<close>

definition replace_first :: "string \<Rightarrow> string \<Rightarrow> string \<Rightarrow> string" where
  "replace_first old new content =
     (case find_str old content of None \<Rightarrow> content | Some i \<Rightarrow> take i content @ new @ drop (i + length old) content)"

fun apply_hunks :: "string \<Rightarrow> update_hunk list \<Rightarrow> string \<Rightarrow> call_error + string" where
  "apply_hunks path [] content = Inr content"
| "apply_hunks path (h # hs) content =
     (let old_text = join_lines (old_block h); new_text = join_lines (new_block h) in
      case resolve_match content old_text new_text of
        None \<Rightarrow> Inl \<lparr>te_message = ''Patch context not found in '' @ path @ '': '' @ old_text, te_code = ''context_not_found''\<rparr>
      | Some (match_old, match_new) \<Rightarrow> apply_hunks path hs (replace_first match_old match_new content))"

text \<open>The first loop: what is to be written, computed from the files as they are.\<close>

definition plan_operation :: "(string \<rightharpoonup> string) \<Rightarrow> patch_operation \<Rightarrow> call_error + string \<times> string option" where
  "plan_operation fs oper =
     (case oper of
        AddFile p content \<Rightarrow>
          if fs p \<noteq> None then Inl \<lparr>te_message = ''File already exists: '' @ p, te_code = ''file_exists''\<rparr> else Inr (p, Some content)
      | DeleteFile p \<Rightarrow>
          if fs p = None then Inl \<lparr>te_message = ''File does not exist: '' @ p, te_code = ''file_not_found''\<rparr> else Inr (p, None)
      | UpdateFile p hunks \<Rightarrow>
          (case fs p of
             None \<Rightarrow> Inl \<lparr>te_message = ''Failed to read file '' @ p, te_code = ''read_error''\<rparr>
           | Some content \<Rightarrow> result_bind (apply_hunks p hunks content) (\<lambda>updated. Inr (p, Some updated))))"

text \<open>The second loop; a write that fails, or the removal of a file that is gone, ends it.\<close>

fun write_all :: "(string \<Rightarrow> bool) \<Rightarrow> (string \<times> string option) list \<Rightarrow> (string \<rightharpoonup> string) \<Rightarrow> (call_error + unit) \<times> (string \<rightharpoonup> string)" where
  "write_all writable [] fs = (Inr (), fs)"
| "write_all writable ((p, content) # ws) fs =
     (case content of
        Some c \<Rightarrow>
          if writable p then write_all writable ws (fs(p \<mapsto> c))
          else (Inl \<lparr>te_message = ''Failed to write file '' @ p, te_code = ''write_error''\<rparr>, fs)
      | None \<Rightarrow>
          if writable p \<and> fs p \<noteq> None then write_all writable ws (fs(p := None))
          else (Inl \<lparr>te_message = ''Failed to delete file '' @ p, te_code = ''write_error''\<rparr>, fs))"

definition apply_operations ::
    "(string \<Rightarrow> bool) \<Rightarrow> patch_operation list \<Rightarrow> (string \<rightharpoonup> string) \<Rightarrow> (call_error + unit) \<times> (string \<rightharpoonup> string)" where
  "apply_operations writable ops fs =
     (case collect_results (plan_operation fs) ops of
        Inl err \<Rightarrow> (Inl err, fs)
      | Inr writes \<Rightarrow> write_all writable writes fs)"

definition apply_patch ::
    "path_env \<Rightarrow> (string \<Rightarrow> bool) \<Rightarrow> json \<Rightarrow> (string \<rightharpoonup> string) \<Rightarrow> (call_error + nat) \<times> (string \<rightharpoonup> string)" where
  "apply_patch e writable input fs =
     (case str_field input ''patch'' of
        None \<Rightarrow> (Inl \<lparr>te_message = ''patch is required'', te_code = ''missing_parameter''\<rparr>, fs)
      | Some patch \<Rightarrow>
          let workdir = (case str_field input ''workdir'' of Some w \<Rightarrow> w | None \<Rightarrow> ''.'') in
          (case parse_patch (resolve_patch_path e workdir) patch of
             Inl err \<Rightarrow> (Inl err, fs)
           | Inr ops \<Rightarrow>
               (case apply_operations writable ops fs of
                  (Inl err, fs') \<Rightarrow> (Inl err, fs')
                | (Inr _, fs') \<Rightarrow> (Inr (length ops), fs'))))"

section \<open>Printing and parsing\<close>

datatype patch_source =
    SrcAdd string "string list"
  | SrcUpdate string "update_hunk list"
  | SrcDelete string

fun print_hunk_line :: "hunk_line \<Rightarrow> string" where
  "print_hunk_line (Context t) = CHR '' '' # t"
| "print_hunk_line (Remove t) = CHR ''-'' # t"
| "print_hunk_line (AddLine t) = CHR ''+'' # t"

definition print_hunk :: "update_hunk \<Rightarrow> string list" where
  "print_hunk h = ''@@'' # map print_hunk_line h"

fun print_source :: "patch_source \<Rightarrow> string list" where
  "print_source (SrcAdd p ls) = (''*** Add File: '' @ p) # map ((#) CHR ''+'') ls"
| "print_source (SrcUpdate p hs) = (''*** Update File: '' @ p) # concat (map print_hunk hs)"
| "print_source (SrcDelete p) = [''*** Delete File: '' @ p]"

fun denote :: "(string \<Rightarrow> string) \<Rightarrow> patch_source \<Rightarrow> patch_operation" where
  "denote resolve (SrcAdd p ls) = AddFile (resolve p) (join_lines ls)"
| "denote resolve (SrcUpdate p hs) = UpdateFile (resolve p) hs"
| "denote resolve (SrcDelete p) = DeleteFile (resolve p)"

definition patch_lines :: "patch_source list \<Rightarrow> string list" where
  "patch_lines srcs = ''*** Begin Patch'' # concat (map print_source srcs) @ [''*** End Patch'']"

definition print_patch :: "patch_source list \<Rightarrow> string" where
  "print_patch srcs = join_with [newline] (patch_lines srcs)"

definition clean_line :: "string \<Rightarrow> bool" where
  "clean_line l \<longleftrightarrow> newline \<notin> set l \<and> (l = [] \<or> last l \<noteq> carriage_return)"

lemma split_lines_join:
  assumes "ls \<noteq> []" and "\<forall>l\<in>set ls. d \<notin> set l"
  shows "split_char d (join_with [d] ls) = ls"
  using assms
proof (induction ls rule: list_nonempty_induct)
  case (single l)
  then show ?case by (simp add: split_char_none)
next
  case (cons l ls)
  then obtain x xs where "ls = x # xs" by (cases ls) auto
  then show ?case using cons split_char_slash [of d l "join_with [d] ls"] by (simp add: split_char_none)
qed

lemma str_lines_join:
  assumes "ls \<noteq> []" and "last ls \<noteq> []" and "\<forall>l\<in>set ls. clean_line l"
  shows "str_lines (join_with [newline] ls) = ls"
proof -
  have "split_char newline (join_with [newline] ls) = ls"
    using assms by (intro split_lines_join) (auto simp: clean_line_def)
  moreover have "map strip_cr (butlast ls) = butlast ls"
    using assms(3) by (intro map_idI) (auto simp: strip_cr_def clean_line_def dest!: in_set_butlastD)
  ultimately show ?thesis using assms(1,2) by (simp add: str_lines_def Let_def)
qed

lemma strip_prefix_append [simp]: "strip_prefix p (p @ s) = Some s"
  by (simp add: strip_prefix_def)

lemma strip_prefix_char [simp]: "strip_prefix [c] (d # s) = (if c = d then Some s else None)"
  by (simp add: strip_prefix_def)

lemma parse_printed_line: "parse_hunk_line (print_hunk_line l) = Inr l"
  by (cases l) (simp_all add: parse_hunk_line_def)

lemma collect_printed: "collect_results parse_hunk_line (map print_hunk_line h) = Inr h"
  by (induction h) (simp_all add: parse_printed_line)

lemma collect_added: "collect_results parse_add_line (map ((#) CHR ''+'') ls) = Inr ls"
  by (induction ls) (simp_all add: parse_add_line_def)

lemma printed_line_kind: "\<not> is_hunk_header (print_hunk_line l)" "\<not> is_directive (print_hunk_line l)"
  "\<not> is_directive (CHR ''+'' # t)" "is_hunk_header ''@@''" "\<not> is_directive ''@@''"
  by (cases l; simp add: is_hunk_header_def is_directive_def)+

lemma takeWhile_upto: "list_all P xs \<Longrightarrow> ys = [] \<or> \<not> P (hd ys) \<Longrightarrow> takeWhile P (xs @ ys) = xs \<and> dropWhile P (xs @ ys) = ys"
  by (induction xs) (cases ys; auto)+

lemma parse_printed_hunks: "parse_hunks (concat (map print_hunk hs)) = Inr hs"
proof (induction hs)
  case (Cons h hs)
  let ?rest = "concat (map print_hunk hs)"
  have "?rest = [] \<or> is_hunk_header (hd ?rest)" by (cases hs) (simp_all add: print_hunk_def printed_line_kind)
  moreover have "list_all (\<lambda>l. \<not> is_hunk_header l) (map print_hunk_line h)" by (simp add: list_all_iff printed_line_kind)
  ultimately have "takeWhile (\<lambda>l. \<not> is_hunk_header l) (map print_hunk_line h @ ?rest) = map print_hunk_line h \<and>
      dropWhile (\<lambda>l. \<not> is_hunk_header l) (map print_hunk_line h @ ?rest) = ?rest"
    by (intro takeWhile_upto) auto
  then have "parse_hunks (''@@'' # map print_hunk_line h @ ?rest) = Inr (h # hs)"
    using Cons by (simp add: parse_hunks.simps(2) printed_line_kind collect_printed)
  moreover have "concat (map print_hunk (h # hs)) = ''@@'' # map print_hunk_line h @ ?rest"
    by (simp only: list.map concat.simps print_hunk_def [of h] append_Cons)
  ultimately show ?case by metis
qed simp

lemma directive_print: "\<exists>t ts. print_source src = t # ts \<and> is_directive t \<and> list_all (\<lambda>l. \<not> is_directive l) ts"
proof (cases src)
  case (SrcUpdate p hs)
  have "list_all (\<lambda>l. \<not> is_directive l) (print_hunk h)" for h by (auto simp: print_hunk_def list_all_iff printed_line_kind)
  then show ?thesis using SrcUpdate by (auto simp: is_directive_def list_all_iff)
qed (auto simp: is_directive_def list_all_iff)

lemma parse_printed_operations:
  "parse_operations resolve (concat (map print_source srcs)) = Inr (map (denote resolve) srcs)"
proof (induction srcs)
  case (Cons src srcs)
  let ?rest = "concat (map print_source srcs)"
  obtain t ts where src: "print_source src = t # ts" "is_directive t" "list_all (\<lambda>l. \<not> is_directive l) ts"
    using directive_print by blast
  have "?rest = [] \<or> is_directive (hd ?rest)"
  proof (cases srcs)
    case (Cons s ss)
    then show ?thesis using directive_print [of s] by auto
  qed simp
  then have body: "takeWhile (\<lambda>l. \<not> is_directive l) (ts @ ?rest) = ts" "dropWhile (\<lambda>l. \<not> is_directive l) (ts @ ?rest) = ?rest"
    using takeWhile_upto [OF src(3), of ?rest] by auto
  have other: "strip_prefix ''*** Add File: '' (''*** Update File: '' @ p) = None" "strip_prefix ''*** Delete File: '' (''*** Update File: '' @ p) = None"
    "strip_prefix ''*** Add File: '' (''*** Delete File: '' @ p) = None" for p
    by (simp_all add: strip_prefix_def)
  show ?case
  proof (cases src)
    case (SrcAdd p ls)
    then have "strip_prefix ''*** Add File: '' t = Some p" "collect_results parse_add_line ts = Inr ls"
      using src(1) strip_prefix_append [of "''*** Add File: ''" p] collect_added [of ls] by auto
    then show ?thesis using src(1) body Cons SrcAdd by (simp add: parse_operations.simps(2) Let_def)
  next
    case (SrcUpdate p hs)
    then have "strip_prefix ''*** Update File: '' t = Some p" "strip_prefix ''*** Add File: '' t = None"
        "strip_prefix ''*** Delete File: '' t = None" "parse_hunks ts = Inr hs"
      using src(1) strip_prefix_append [of "''*** Update File: ''" p] other(1,2) [of p] parse_printed_hunks [of hs] by auto
    then show ?thesis using src(1) body Cons SrcUpdate by (simp add: parse_operations.simps(2) Let_def)
  next
    case (SrcDelete p)
    then have "strip_prefix ''*** Delete File: '' t = Some p" "strip_prefix ''*** Add File: '' t = None" "ts = []"
      using src(1) strip_prefix_append [of "''*** Delete File: ''" p] other(3) [of p] by auto
    then show ?thesis using src(1) Cons SrcDelete by (simp add: parse_operations.simps(2) Let_def)
  qed
qed simp

text \<open>
  C17: the patch format loses nothing. For any list of additions, updates and deletions whose lines
  have no line ending in them, parsing the printed patch gives back exactly these operations, with
  every line of every hunk in its place and the paths resolved.
\<close>

theorem parse_print_patch:
  assumes "\<forall>l\<in>set (patch_lines srcs). clean_line l"
  shows "parse_patch resolve (print_patch srcs) = Inr (map (denote resolve) srcs)"
proof -
  have "str_lines (print_patch srcs) = patch_lines srcs"
    unfolding print_patch_def using assms by (intro str_lines_join) (auto simp: patch_lines_def)
  then show ?thesis
    by (simp add: parse_patch_def patch_lines_def parse_printed_operations butlast_append Let_def)
qed

section \<open>The effect of a patch\<close>

fun target_of :: "patch_operation \<Rightarrow> string" where
  "target_of (AddFile p _) = p" | "target_of (UpdateFile p _) = p" | "target_of (DeleteFile p) = p"

lemma plan_target: "plan_operation fs oper = Inr (p, c) \<Longrightarrow> p = target_of oper"
  by (auto simp: plan_operation_def result_bind_Inr_iff split: patch_operation.splits if_splits option.splits)

lemma list_all2_partner:
  assumes "list_all2 P xs ys"
  shows "x \<in> set xs \<Longrightarrow> \<exists>y\<in>set ys. P x y" "y \<in> set ys \<Longrightarrow> \<exists>x\<in>set xs. P x y"
  using assms by (induction rule: list_all2_induct) auto

lemma write_all_writes:
  assumes "\<forall>p. writable p" and "distinct (map fst ws)" and "\<forall>(p, c)\<in>set ws. c = None \<longrightarrow> fs p \<noteq> None"
  shows "write_all writable ws fs = (Inr (), \<lambda>p. case map_of ws p of None \<Rightarrow> fs p | Some c \<Rightarrow> c)"
  using assms(2,3)
proof (induction ws arbitrary: fs)
  case (Cons w ws)
  obtain p c where w: "w = (p, c)" by force
  have p: "p \<notin> fst ` set ws" using Cons.prems(1) w by simp
  then have "map_of ws p = None" by (simp add: map_of_eq_None_iff)
  moreover have "\<forall>(q, d)\<in>set ws. d = None \<longrightarrow> (fs(p := c)) q \<noteq> None" using Cons.prems(2) p w by force
  then have "write_all writable ws (fs(p := c)) = (Inr (), \<lambda>q. case map_of ws q of None \<Rightarrow> (fs(p := c)) q | Some d \<Rightarrow> d)"
    using Cons.IH [of "fs(p := c)"] Cons.prems(1) unfolding w by (simp del: fun_upd_apply)
  moreover have "write_all writable (w # ws) fs = write_all writable ws (fs(p := c))"
    using w assms(1) Cons.prems(2) by (cases c) (auto split: option.split)
  moreover have "(\<lambda>q. case map_of ws q of None \<Rightarrow> (fs(p := c)) q | Some d \<Rightarrow> d) = (\<lambda>q. case map_of (w # ws) q of None \<Rightarrow> fs q | Some d \<Rightarrow> d)"
    using w \<open>map_of ws p = None\<close> by (auto simp: fun_eq_iff split: option.split)
  ultimately show ?case by metis
qed simp

text \<open>What an operation promises, from the files before to the files after.\<close>

definition operation_effect :: "(string \<rightharpoonup> string) \<Rightarrow> (string \<rightharpoonup> string) \<Rightarrow> patch_operation \<Rightarrow> bool" where
  "operation_effect fs fs' oper \<longleftrightarrow>
     (case oper of
        AddFile p content \<Rightarrow> fs p = None \<and> fs' p = Some content
      | DeleteFile p \<Rightarrow> fs p \<noteq> None \<and> fs' p = None
      | UpdateFile p hunks \<Rightarrow>
          (\<exists>content updated. fs p = Some content \<and> apply_hunks p hunks content = Inr updated \<and> fs' p = Some updated))"

lemma planned_effect: "plan_operation fs oper = Inr (target_of oper, c) \<Longrightarrow> fs' (target_of oper) = c \<Longrightarrow> operation_effect fs fs' oper"
  by (cases oper) (auto simp: plan_operation_def operation_effect_def result_bind_Inr_iff split: if_splits option.splits)

lemma write_all_error: "write_all writable ws f = (Inl err, f') \<Longrightarrow> te_code err = ''write_error''"
  by (induction writable ws f rule: write_all.induct) (auto split: option.splits if_splits)

text \<open>What the plan of a patch holds: a write for the target of every operation, deletions of files that exist.\<close>

lemma planned_writes:
  assumes "collect_results (plan_operation fs) ops = Inr ws"
  shows "map fst ws = map target_of ops"
    and "oper \<in> set ops \<Longrightarrow> \<exists>c. (target_of oper, c) \<in> set ws \<and> plan_operation fs oper = Inr (target_of oper, c)"
    and "\<forall>(p, c)\<in>set ws. c = None \<longrightarrow> fs p \<noteq> None"
proof -
  have all: "list_all2 (\<lambda>oper w. plan_operation fs oper = Inr w) ops ws" using assms by (simp add: collect_results_Inr_iff)
  then show "map fst ws = map target_of ops"
    by (induction rule: list_all2_induct) (auto dest: plan_target)
  show "\<exists>c. (target_of oper, c) \<in> set ws \<and> plan_operation fs oper = Inr (target_of oper, c)" if "oper \<in> set ops"
  proof -
    from list_all2_partner(1) [OF all that] obtain w where "w \<in> set ws" "plan_operation fs oper = Inr w" by blast
    moreover obtain q c where "w = (q, c)" by force
    ultimately show ?thesis using plan_target [of fs oper q c] by auto
  qed
  have "fs p \<noteq> None" if "(p, None) \<in> set ws" for p
  proof -
    from list_all2_partner(2) [OF all that] obtain oper where "plan_operation fs oper = Inr (p, None)" by blast
    then show ?thesis
      by (auto simp: plan_operation_def result_bind_Inr_iff split: patch_operation.splits if_splits option.splits)
  qed
  then show "\<forall>(p, c)\<in>set ws. c = None \<longrightarrow> fs p \<noteq> None" by auto
qed

text \<open>
  C18: a patch is applied as a whole or not at all. Unless writing itself fails, a refused patch
  changes no file. When every operation names its own file and writes succeed, an accepted patch
  leaves behind exactly what its operations say of the files as they were: an added file with its
  content, an updated one with its hunks applied, a deleted one gone, and nothing else touched.
\<close>

theorem apply_operations_correct:
  "(\<forall>err fs'. apply_operations writable ops fs = (Inl err, fs') \<longrightarrow> te_code err \<noteq> ''write_error'' \<longrightarrow> fs' = fs) \<and>
   ((\<forall>p. writable p) \<longrightarrow> distinct (map target_of ops) \<longrightarrow>
     (case apply_operations writable ops fs of
        (Inl err, fs') \<Rightarrow> fs' = fs
      | (Inr _, fs') \<Rightarrow>
          (\<forall>p. p \<notin> target_of ` set ops \<longrightarrow> fs' p = fs p) \<and>
          (\<forall>oper\<in>set ops. operation_effect fs fs' oper)))"
proof (intro conjI allI impI)
  show "fs' = fs" if "apply_operations writable ops fs = (Inl err, fs')" "te_code err \<noteq> ''write_error''" for err fs'
    using that write_all_error by (auto simp: apply_operations_def split: sum.splits)
next
  assume writable: "\<forall>p. writable p" and targets: "distinct (map target_of ops)"
  show "case apply_operations writable ops fs of
        (Inl err, fs') \<Rightarrow> fs' = fs
      | (Inr _, fs') \<Rightarrow>
          (\<forall>p. p \<notin> target_of ` set ops \<longrightarrow> fs' p = fs p) \<and>
          (\<forall>oper\<in>set ops. operation_effect fs fs' oper)"
  proof (cases "collect_results (plan_operation fs) ops")
    case (Inl err)
    then show ?thesis by (simp add: apply_operations_def)
  next
    case (Inr ws)
    note plan = planned_writes [OF Inr]
    have run: "apply_operations writable ops fs = (Inr (), \<lambda>p. case map_of ws p of None \<Rightarrow> fs p | Some c \<Rightarrow> c)"
      using write_all_writes [OF writable, of ws fs] plan(3) targets Inr unfolding plan(1) by (simp add: apply_operations_def)
    have other: "map_of ws p = None" if "p \<notin> target_of ` set ops" for p
      using that plan(1) by (metis image_set map_of_eq_None_iff)
    have own: "map_of ws (target_of oper) = Some c" if "(target_of oper, c) \<in> set ws" for oper c
      using that plan(1) targets by simp
    have "operation_effect fs (\<lambda>p. case map_of ws p of None \<Rightarrow> fs p | Some c \<Rightarrow> c) oper" if "oper \<in> set ops" for oper
      using plan(2) [OF that] own planned_effect by fastforce
    then show ?thesis unfolding run using other by simp
  qed
qed

section \<open>Containment and pitfalls\<close>

lemma clean_join_name: "file_name p = Some n \<Longrightarrow> proper_name n"
  using component_proper [of n p] by (auto simp: file_name_def split: list.splits path_component.splits)

text \<open>
  A patch stays in its directory. When the directory exists, every path of a patch, absolute or
  with any \<open>..\<close> in it, leads below it: to a canonical path that starts with the canonical
  directory, or, when it would leave, to the file of the same name in the directory itself.
\<close>

theorem patch_path_contained:
  assumes "canonical_paths e" and "pe_canonicalize e workdir = Some wc"
  shows "path_starts_with (resolve_patch_path e workdir raw) wc \<or>
    (\<exists>n. proper_name n \<and> resolve_patch_path e workdir raw = path_join workdir n)"
proof -
  define relative where "relative = (if prefix ''/'' raw then (case file_name raw of Some n \<Rightarrow> n | None \<Rightarrow> ''unknown'') else raw)"
  define n where "n = (case file_name relative of Some n \<Rightarrow> n | None \<Rightarrow> ''patched_file'')"
  have n: "proper_name n" using clean_join_name by (auto simp: n_def proper_name_def split: option.split)
  have res: "resolve_patch_path e workdir raw =
      (case pe_canonicalize e (path_join workdir relative) of
         Some c \<Rightarrow> if path_starts_with c wc then c else path_join workdir n
       | None \<Rightarrow> if prefix (path_components wc) (normalize_under wc relative) then render_path (normalize_under wc relative)
                  else path_join workdir n)"
    using assms(2) by (simp add: resolve_patch_path_def relative_def n_def Let_def split: option.split)
  have "path_starts_with (render_path (normalize_under wc relative)) wc" if "prefix (path_components wc) (normalize_under wc relative)"
  proof -
    have wc: "clean_path wc" using assms by (auto simp: canonical_paths_def)
    then obtain ws where ws: "list_all proper_name ws" "path_components wc = RootDir # map Normal ws" by (auto simp: clean_path_def)
    obtain ms where ms: "list_all proper_name ms" "normalize_under wc relative = RootDir # map Normal ms"
      using foldl_push_clean [of "path_components relative" ws] component_proper [of _ relative] ws by (auto simp: normalize_under_def)
    have "path_components (render_path (RootDir # map Normal ms)) = RootDir # map Normal ms"
      using ms(1) by (simp add: path_components_absolute body_join_names)
    then show ?thesis using that ms(2) by (simp add: path_starts_with_def)
  qed
  then show ?thesis using res n by (auto split: option.splits if_splits)
qed

theorem patch_path_contained_witness:
  "path_starts_with (resolve_patch_path bare_env ''/w'' ''../../x'') ''/w'' \<or>
    (\<exists>n. proper_name n \<and> resolve_patch_path bare_env ''/w'' ''../../x'' = path_join ''/w'' n)"
  using patch_path_contained [OF bare_canonical, of "''/w''" "''/w''" "''../../x''"] by (simp add: bare_env_def)

theorem parse_print_patch_witness:
  "parse_patch id (print_patch [SrcAdd ''n'' [''*** x'', []], SrcUpdate ''u'' [[Context ''a'', Remove ''b'', AddLine ''c'']], SrcDelete ''d'']) =
     Inr [AddFile ''n'' (''*** x'' @ [newline]), UpdateFile ''u'' [[Context ''a'', Remove ''b'', AddLine ''c'']], DeleteFile ''d'']"
proof -
  have "\<forall>l\<in>set (patch_lines [SrcAdd ''n'' [''*** x'', []], SrcUpdate ''u'' [[Context ''a'', Remove ''b'', AddLine ''c'']], SrcDelete ''d'']). clean_line l"
    by (simp add: patch_lines_def print_hunk_def clean_line_def)
  from parse_print_patch [OF this, of id] show ?thesis by (simp add: join_lines_def)
qed

theorem apply_operations_correct_witness:
  "\<exists>fs'. apply_operations (\<lambda>_. True) [AddFile ''n'' ''x'', DeleteFile ''d''] [''d'' \<mapsto> ''y'', ''k'' \<mapsto> ''z''] = (Inr (), fs') \<and>
     fs' ''n'' = Some ''x'' \<and> fs' ''d'' = None \<and> fs' ''k'' = Some ''z''"
proof -
  let ?fs = "[''d'' \<mapsto> ''y'', ''k'' \<mapsto> ''z'']"
  obtain fs' where run: "apply_operations (\<lambda>_. True) [AddFile ''n'' ''x'', DeleteFile ''d''] ?fs = (Inr (), fs')"
    by (simp add: apply_operations_def plan_operation_def)
  have "fs' ''k'' = ?fs ''k''" "operation_effect ?fs fs' (AddFile ''n'' ''x'')" "operation_effect ?fs fs' (DeleteFile ''d'')"
    using apply_operations_correct [of "\<lambda>_. True" "[AddFile ''n'' ''x'', DeleteFile ''d'']" ?fs] run by simp_all
  then show ?thesis using run by (simp add: operation_effect_def)
qed

text \<open>
  Where a patch does not do what it says. Context is found as a substring, not as whole lines,
  so a line can be replaced in the middle of another one; a hunk without context or removed lines
  is put in front of the first line without a line break; and of two updates of one file in a
  patch the second is computed from the file as it was and overwrites the first.
\<close>

theorem patch_pitfalls:
  "apply_hunks p [[Remove ''cat'', AddLine ''dog'']] (''concat'' @ newline # ''cat'') = Inr (''condog'' @ newline # ''cat'') \<and>
   apply_hunks p [[AddLine ''new'']] ''old'' = Inr ''newold'' \<and>
   snd (apply_operations (\<lambda>_. True)
     [UpdateFile ''f'' [[Remove ''a'', AddLine ''x'']], UpdateFile ''f'' [[Remove ''b'', AddLine ''y'']]] [''f'' \<mapsto> ''a b'']) ''f'' =
     Some ''a y''"
  by (simp add: apply_operations_def plan_operation_def resolve_match_def replace_first_def join_lines_def old_block_def new_block_def
      Let_def)

end
