(* ===== verification/Guardian.thy ===== *)
theory Guardian
  imports Prelude Rust_Strings
begin

text \<open>
  \<open>runtime/guardian.rs\<close>: the last check before a shell command runs. A command is classified by
  patterns and by the shape of \<open>rm\<close> calls; critical commands are refused. \<open>to_lowercase\<close> is
  modelled on ASCII letters (beyond them, only the Kelvin sign folds to a letter that occurs in a
  pattern).
\<close>

section \<open>Classification\<close>

datatype risk_level = Low | Medium | High | Critical

text \<open>The derived order of the Rust enum.\<close>

fun risk_rank :: "risk_level \<Rightarrow> nat" where
  "risk_rank Low = 0" | "risk_rank Medium = 1" | "risk_rank High = 2" | "risk_rank Critical = 3"

lemma risk_rank_inject: "risk_rank a = risk_rank b \<Longrightarrow> a = b"
  by (cases a; cases b) simp_all

instantiation risk_level :: linorder
begin

definition less_eq_risk_level :: "risk_level \<Rightarrow> risk_level \<Rightarrow> bool" where
  "less_eq_risk_level a b \<longleftrightarrow> risk_rank a \<le> risk_rank b"

definition less_risk_level :: "risk_level \<Rightarrow> risk_level \<Rightarrow> bool" where
  "less_risk_level a b \<longleftrightarrow> risk_rank a < risk_rank b"

instance
  by standard (auto simp: less_eq_risk_level_def less_risk_level_def risk_rank_inject)

end

lemma critical_top: "Critical \<le> r \<longleftrightarrow> r = Critical"
  by (cases r) (simp_all add: less_eq_risk_level_def)

definition lowercase :: "string \<Rightarrow> string" where
  "lowercase s = map to_ascii_lower s"

definition CRITICAL_PATTERNS :: "string list" where
  "CRITICAL_PATTERNS = [''rm -rf / '', ''rm -rf /*'', ''rm -rf /$'', ''rm -rf --no-preserve-root'', ''mkfs.'', ''dd if='', ''> /dev/sda'',
     '':(){ :|:& };:'', ''chmod 777 /'']"

definition HIGH_PATTERNS :: "string list" where
  "HIGH_PATTERNS = [''sudo '', ''sudo'' @ [CHR 0x09], ''rm -rf'', ''rm -fr'', ''git push --force'', ''git push -f'', ''git reset --hard'',
     ''drop table'', ''delete from'', ''shutdown'', ''reboot'', ''chmod -r 777'', ''chown -r'', ''> /etc/'', ''curl | bash'',
     ''curl | sh'', ''wget -o - | sh'', ''wget | bash'']"

definition MEDIUM_PATTERNS :: "string list" where
  "MEDIUM_PATTERNS = [''npm publish'', ''cargo publish'', ''docker rm'', ''docker rmi'', ''kubectl delete'', ''git push'', ''pip uninstall'',
     ''npm uninstall'']"

definition SUBSTITUTION_INDICATORS :: "string list" where
  "SUBSTITUTION_INDICATORS = [''$('', [CHR 0x60]]"

definition matches_pattern :: "string \<Rightarrow> string \<Rightarrow> bool" where
  "matches_pattern command pattern =
     (let pat = lowercase pattern; cmd = lowercase command in
      case find_str pat cmd of
        None \<Rightarrow> False
      | Some pos \<Rightarrow>
          if suffix ''/'' pat \<and> pos + length pat < length cmd
          then let next_char = cmd ! (pos + length pat) in \<not> (is_ascii_alphanumeric next_char \<or> next_char = CHR ''_'')
          else True)"

definition is_fork_bomb :: "string \<Rightarrow> bool" where
  "is_fork_bomb command = contains_str '':(){:|:&};:'' (filter (\<lambda>c. \<not> is_ascii_whitespace c) command)"

text \<open>The arguments of one \<open>rm\<close>: recursive, root target, \<open>--no-preserve-root\<close>.\<close>

fun rm_arguments :: "bool \<Rightarrow> bool \<Rightarrow> string list \<Rightarrow> bool \<times> bool \<times> bool" where
  "rm_arguments recursive preserve_root [] = (recursive, False, preserve_root)"
| "rm_arguments recursive preserve_root (t # ts) =
     (if t = ''--no-preserve-root'' then rm_arguments recursive True ts
      else if t = ''--recursive'' then rm_arguments True preserve_root ts
      else if prefix ''--'' t then rm_arguments recursive preserve_root ts
      else if prefix ''-'' t \<and> 1 < length t then rm_arguments (recursive \<or> CHR ''r'' \<in> set t) preserve_root ts
      else if t \<in> {''/'', ''/*'', ''/*/''} then (recursive, True, preserve_root)
      else (recursive, False, preserve_root))"

fun destructive_tokens :: "string list \<Rightarrow> bool" where
  "destructive_tokens [] = False"
| "destructive_tokens (t # ts) =
     (after_last (CHR ''/'') t = ''rm'' \<and>
        (case rm_arguments False False ts of (recursive, root_target, preserve_root) \<Rightarrow> recursive \<and> root_target \<or> preserve_root)
      \<or> destructive_tokens ts)"

definition is_destructive_rm :: "string \<Rightarrow> bool" where
  "is_destructive_rm command = destructive_tokens (split_whitespace (lowercase command))"

definition hidden_by_substitution :: "string \<Rightarrow> bool" where
  "hidden_by_substitution cmd_lower \<longleftrightarrow>
     list_ex (\<lambda>indicator. contains_str indicator cmd_lower \<and>
       list_ex (\<lambda>pattern. matches_pattern cmd_lower (trim pattern)) (HIGH_PATTERNS @ CRITICAL_PATTERNS)) SUBSTITUTION_INDICATORS"

definition classify_risk :: "string \<Rightarrow> risk_level" where
  "classify_risk command =
     (let cmd_lower = lowercase command in
      if is_fork_bomb command \<or> is_destructive_rm command then Critical
      else if hidden_by_substitution cmd_lower then High
      else if list_ex (matches_pattern cmd_lower) CRITICAL_PATTERNS then Critical
      else if list_ex (matches_pattern cmd_lower) HIGH_PATTERNS then High
      else if list_ex (matches_pattern cmd_lower) MEDIUM_PATTERNS then Medium
      else Low)"

section \<open>The review\<close>

record guardian_decision =
  gd_allowed :: bool
  gd_risk_level :: risk_level
  gd_rationale :: string
  gd_requires_approval :: bool

definition review_command :: "string \<Rightarrow> string \<Rightarrow> guardian_decision" where
  "review_command command tool_name =
     (let risk = classify_risk command; q = [CHR 0x27] in
      case risk of
        Low \<Rightarrow> \<lparr>gd_allowed = True, gd_risk_level = risk,
          gd_rationale = ''Low-risk operation, no dangerous patterns detected.'', gd_requires_approval = False\<rparr>
      | Medium \<Rightarrow> \<lparr>gd_allowed = True, gd_risk_level = risk,
          gd_rationale = ''Medium-risk operation detected in '' @ tool_name @
            ''. Pattern matches known caution patterns. Proceeding with approval flag.'', gd_requires_approval = True\<rparr>
      | High \<Rightarrow> \<lparr>gd_allowed = True, gd_risk_level = risk,
          gd_rationale = ''HIGH-RISK operation in '' @ tool_name @ '': '' @ q @ command @ q @
            ''. This command matches destructive patterns. Strongly recommend manual review.'', gd_requires_approval = True\<rparr>
      | Critical \<Rightarrow> \<lparr>gd_allowed = False, gd_risk_level = risk,
          gd_rationale = ''CRITICAL-RISK operation blocked in '' @ tool_name @ '': '' @ q @ command @ q @
            ''. This command matches potentially irreversible destructive patterns.'', gd_requires_approval = True\<rparr>)"

record guardian_config =
  gc_enabled :: bool
  gc_llm_review :: bool
  gc_auto_deny_critical :: bool

definition default_guardian :: guardian_config where
  "default_guardian = \<lparr>gc_enabled = True, gc_llm_review = False, gc_auto_deny_critical = True\<rparr>"

definition guardian_check :: "guardian_config \<Rightarrow> string \<Rightarrow> string \<Rightarrow> guardian_decision" where
  "guardian_check config tool_name command =
     (if \<not> gc_enabled config
      then \<lparr>gd_allowed = True, gd_risk_level = Low, gd_rationale = ''Guardian is disabled.'', gd_requires_approval = False\<rparr>
      else
        let decision = review_command command tool_name in
        if gc_auto_deny_critical config \<and> Critical \<le> gd_risk_level decision
        then decision\<lparr>gd_allowed := False, gd_rationale := ''AUTO-DENIED: '' @ gd_rationale decision\<rparr>
        else decision)"

text \<open>The shell text a tool call carries.\<close>

definition shell_text_for_tool :: "string \<Rightarrow> json \<Rightarrow> string option" where
  "shell_text_for_tool tool_name args =
     (if tool_name \<in> {''execute_command'', ''exec_command'', ''background''} then str_field args ''command''
      else if tool_name = ''write_stdin''
      then Option.bind (str_field args ''chars'') (\<lambda>chars. if chars = [] then None else Some chars)
      else None)"

section \<open>What the guardian refuses\<close>

lemma critical_refused:
  "gc_enabled config \<Longrightarrow> classify_risk command = Critical \<Longrightarrow> \<not> gd_allowed (guardian_check config tool command)"
  by (simp add: guardian_check_def review_command_def Let_def)

text \<open>
  An enabled guardian refuses exactly the critical commands and asks for approval exactly above
  low risk; whether it is configured to deny critical commands makes no difference to that.
\<close>

theorem guardian_verdict:
  assumes "gc_enabled config"
  shows "(gd_allowed (guardian_check config tool command) \<longleftrightarrow> classify_risk command \<noteq> Critical) \<and>
    (gd_requires_approval (guardian_check config tool command) \<longleftrightarrow> classify_risk command \<noteq> Low) \<and>
    gd_risk_level (guardian_check config tool command) = classify_risk command \<and>
    gd_allowed (guardian_check (config\<lparr>gc_auto_deny_critical := b\<rparr>) tool command) = gd_allowed (guardian_check config tool command)"
  using assms
  by (cases "classify_risk command") (auto simp: guardian_check_def review_command_def critical_top Let_def)

theorem guardian_verdict_witness:
  "\<not> gd_allowed (guardian_check default_guardian ''execute_command'' ''rm -r -f /'') \<and>
   \<not> gd_allowed (guardian_check (default_guardian\<lparr>gc_auto_deny_critical := False\<rparr>) ''execute_command'' ''rm -r -f /'')"
proof -
  have "gc_enabled default_guardian" by (simp add: default_guardian_def)
  moreover have "classify_risk ''rm -r -f /'' = Critical" by code_simp
  ultimately show ?thesis
    using guardian_verdict [of default_guardian "''execute_command''" "''rm -r -f /''" False] by simp
qed

definition is_flag :: "string \<Rightarrow> bool" where
  "is_flag t \<longleftrightarrow> prefix ''-'' t \<and> 1 < length t"

definition is_recursive_flag :: "string \<Rightarrow> bool" where
  "is_recursive_flag t \<longleftrightarrow> t = ''--recursive'' \<or> is_flag t \<and> \<not> prefix ''--'' t \<and> CHR ''r'' \<in> set t"

lemma rm_arguments_flags:
  assumes "list_all is_flag flags"
  shows "\<exists>p'. rm_arguments rec p (flags @ rest) = rm_arguments (rec \<or> list_ex is_recursive_flag flags) p' rest"
  using assms
proof (induction flags arbitrary: rec p)
  case (Cons t flags)
  have t: "prefix ''-'' t" "1 < length t" using Cons.prems by (simp_all add: is_flag_def)
  have long: "\<not> (t = ''--no-preserve-root'' \<and> is_recursive_flag t)" by (auto simp: is_recursive_flag_def)
  define p1 where "p1 = (p \<or> t = ''--no-preserve-root'')"
  have "rm_arguments rec p ((t # flags) @ rest) = rm_arguments (rec \<or> is_recursive_flag t) p1 (flags @ rest)"
    using t long by (auto simp: is_recursive_flag_def is_flag_def p1_def)
  moreover obtain p' where "rm_arguments (rec \<or> is_recursive_flag t) p1 (flags @ rest) =
      rm_arguments ((rec \<or> is_recursive_flag t) \<or> list_ex is_recursive_flag flags) p' rest"
    using Cons.IH [of "rec \<or> is_recursive_flag t" p1] Cons.prems by auto
  ultimately show ?case by (auto simp: disj_assoc)
qed auto

lemma destructive_tokens_append: "destructive_tokens ts \<Longrightarrow> destructive_tokens (pre @ ts)"
  by (induction pre) auto

text \<open>
  Removing the file system root is refused however it is spelled: any path to \<open>rm\<close>, at any
  place of the command, with recursion asked for by any flag among any others in any order and
  case, before a target \<open>/\<close>, \<open>/*\<close> or \<open>/*/\<close>.
\<close>

theorem rm_root_refused:
  assumes "split_whitespace (lowercase command) = pre @ rm_path # flags @ target # post"
    and "after_last (CHR ''/'') rm_path = ''rm''" and "list_all is_flag flags" and "list_ex is_recursive_flag flags"
    and "target \<in> {''/'', ''/*'', ''/*/''}" and "gc_enabled config"
  shows "classify_risk command = Critical \<and> \<not> gd_allowed (guardian_check config tool command)"
proof -
  obtain p where "rm_arguments False False (flags @ target # post) = rm_arguments True p (target # post)"
    using rm_arguments_flags [OF assms(3), of False False "target # post"] assms(4) by auto
  moreover have "rm_arguments True p (target # post) = (True, True, p)" using assms(5) by auto
  ultimately have "destructive_tokens (rm_path # flags @ target # post)" using assms(2) by simp
  then have "is_destructive_rm command"
    unfolding is_destructive_rm_def assms(1) by (rule destructive_tokens_append)
  then have "classify_risk command = Critical" by (simp add: classify_risk_def Let_def)
  then show ?thesis using assms(6) critical_refused by blast
qed

theorem rm_root_refused_witness:
  "classify_risk ''x /bin/RM -f -R /*'' = Critical"
proof -
  have "split_whitespace (lowercase ''x /bin/RM -f -R /*'') =
      [''x''] @ ''/bin/rm'' # [''-f'', ''-r''] @ ''/*'' # []"
    by code_simp
  then show ?thesis
    using rm_root_refused [of "''x /bin/RM -f -R /*''" "[''x'']" "''/bin/rm''" "[''-f'', ''-r'']"
        "''/*''" "[]" default_guardian]
    by (simp add: is_flag_def is_recursive_flag_def default_guardian_def)
qed

lemma gap_evaluations:
  "classify_risk ''dd if=x'' = Critical" "classify_risk ''dd if=$(x)'' = High"
  "classify_risk ''chmod 777 /'' = Critical" "classify_risk ''chmod 777 /a chmod 777 /'' = Low"
  by code_simp+

text \<open>
  Where the patterns are weaker than they look. A command substitution lowers a critical command
  to high risk, so it is let through; and a pattern that ends in a slash is compared at its first
  occurrence only, so a harmless first argument hides a harmful second one.
\<close>

theorem guardian_gaps:
  "\<not> gd_allowed (guardian_check default_guardian tool ''dd if=x'') \<and>
   gd_allowed (guardian_check default_guardian tool ''dd if=$(x)'') \<and>
   \<not> gd_allowed (guardian_check default_guardian tool ''chmod 777 /'') \<and>
   gd_allowed (guardian_check default_guardian tool ''chmod 777 /a chmod 777 /'') \<and>
   \<not> gd_requires_approval (guardian_check default_guardian tool ''chmod 777 /a chmod 777 /'')"
  by (simp add: guardian_check_def review_command_def default_guardian_def gap_evaluations critical_top Let_def)

end
