(* ===== verification/Checkpoint_Undo.thy ===== *)
theory Checkpoint_Undo
  imports Checkpoint_Store
begin

text \<open>
  What undo gives back: a turn whose edits were all captured first is undone completely by
  rewinding its snapshot, a range of turns by rewinding them newest first; nothing outside the
  snapshot is ever touched; and how many snapshots survive pruning.
\<close>

section \<open>Blob names\<close>

lemma parse_zeros: "parse_digits 0 (replicate k CHR ''0'' @ ds) = parse_digits 0 ds"
  by (induction k) (auto simp: is_ascii_digit_def)

lemma pad4_inject: "pad4 m = pad4 n \<longleftrightarrow> m = n"
proof
  have "parse_digits 0 (pad4 k) = Some k" for k
    unfolding pad4_def parse_zeros by (rule parse_digits_show)
  moreover assume "pad4 m = pad4 n"
  ultimately show "m = n" by (metis option.inject)
qed simp

section \<open>The effect of rewinding\<close>

definition located :: "cp_env \<Rightarrow> manifest_entry \<Rightarrow> string" where
  "located e en = ce_locate e (resolve_manifest_path (ce_root e) (me_path en))"

definition rewound :: "cp_env \<Rightarrow> (string \<rightharpoonup> string) \<Rightarrow> manifest_entry \<Rightarrow> (string \<rightharpoonup> fs_node) \<Rightarrow> (string \<rightharpoonup> fs_node)" where
  "rewound e blobs en fs =
     (case me_state en of
        Saved \<Rightarrow> fs(located e en \<mapsto> FileNode (the (blobs (the (me_blob en)))))
      | Tombstone \<Rightarrow> fs(located e en := None)
      | Skipped \<Rightarrow> fs)"

definition restorable :: "(string \<rightharpoonup> string) \<Rightarrow> manifest_entry \<Rightarrow> bool" where
  "restorable blobs en \<longleftrightarrow>
     (case me_state en of
        Saved \<Rightarrow> \<exists>b c. me_blob en = Some b \<and> blobs b = Some c
      | Tombstone \<Rightarrow> me_blob en = None
      | Skipped \<Rightarrow> True)"

lemma rewind_entry_frame:
  assumes "rewind_entry e turn en out s = (r, t)"
  shows "cp_turns t = cp_turns s" "f \<noteq> located e en \<Longrightarrow> cp_fs t f = cp_fs s f" "\<exists>out'. r = Inr out'"
  using assms
  by (auto simp: rewind_entry_def located_def Let_def bnd_def read_blob_def cp_read_def write_file_def remove_file_def cp_ask_def
      when_m_def split: file_state.splits option.splits if_splits)

lemma rewind_entries_frame:
  assumes "rewind_entries e turn ens out s = (r, t)"
  shows "cp_turns t = cp_turns s \<and> (f \<notin> located e ` set ens \<longrightarrow> cp_fs t f = cp_fs s f) \<and> (\<exists>out'. r = Inr out')"
  using assms
proof (induction ens arbitrary: out s)
  case (Cons en ens)
  obtain r' u where en: "rewind_entry e turn en out s = (r', u)" by force
  then obtain out' where "r' = Inr out'" using rewind_entry_frame(3) by blast
  then have "rewind_entries e turn ens out' u = (r, t)" using Cons.prems en by (simp add: bnd_def)
  from Cons.IH [OF this] rewind_entry_frame(1,2) [OF en] show ?case by auto
qed auto

lemma read_manifest_run:
  "read_manifest e turn s =
     (case if ce_ok e (cp_tick s) then Option.bind (cp_turns s turn) sn_manifest else None of
        None \<Rightarrow> Inl NoManifest | Some m \<Rightarrow> Inr m, s\<lparr>cp_tick := Suc (cp_tick s)\<rparr>)"
  by (simp add: read_manifest_def cp_read_def cp_ask_def bnd_def require_some_def ret_def throw_def split: option.split)

text \<open>
  Rewinding a turn changes no file that its manifest does not name, whatever fails on the way:
  files nobody captured survive an undo.
\<close>

theorem rewind_touches_only_manifest:
  assumes "rewind e turn s = (r, t)"
    and "\<forall>sn m en. cp_turns s turn = Some sn \<longrightarrow> sn_manifest sn = Some m \<longrightarrow> en \<in> set (mf_files m) \<longrightarrow> located e en \<noteq> f"
  shows "cp_fs t f = cp_fs s f \<and> cp_turns t = cp_turns s"
proof (cases "if ce_ok e (cp_tick s) then Option.bind (cp_turns s turn) sn_manifest else None")
  case None
  then show ?thesis using assms(1) by (simp add: rewind_def read_manifest_run bnd_def) auto
next
  case (Some m)
  then have "rewind_entries e turn (mf_files m) \<lparr>ro_restored = 0, ro_skipped = 0, ro_failed = []\<rparr>
      (s\<lparr>cp_tick := Suc (cp_tick s)\<rparr>) = (r, t)"
    using assms(1) by (simp add: rewind_def read_manifest_run rewind_manifest_def bnd_def split: if_splits)
  moreover have "f \<notin> located e ` set (mf_files m)"
    using assms(2) Some by (auto split: Option.bind_splits if_splits)
  ultimately show ?thesis using rewind_entries_frame by fastforce
qed

lemma rewind_entry_ok:
  assumes "\<forall>k. ce_ok e k" and "cp_turns s turn = Some sn" and "restorable (sn_blobs sn) en"
    and "me_state en \<noteq> Skipped \<Longrightarrow> cp_fs s (located e en) \<noteq> Some DirNode"
  shows "\<exists>out' t. rewind_entry e turn en out s = (Inr out', t) \<and> ro_failed out' = ro_failed out \<and>
    cp_turns t = cp_turns s \<and> cp_fs t = rewound e (sn_blobs sn) en (cp_fs s)"
  using assms
  by (cases "me_state en")
    (auto simp: rewind_entry_def located_def rewound_def restorable_def Let_def bnd_def read_blob_def cp_read_def write_file_def
      remove_file_def cp_ask_def when_m_def)

lemma rewound_no_dir: "fs f \<noteq> Some DirNode \<Longrightarrow> rewound e blobs en fs f \<noteq> Some DirNode"
  by (auto simp: rewound_def split: file_state.splits)

lemma rewind_entries_ok:
  assumes "\<forall>k. ce_ok e k" and "cp_turns s turn = Some sn" and "\<forall>en\<in>set ens. restorable (sn_blobs sn) en"
    and "\<forall>en\<in>set ens. me_state en \<noteq> Skipped \<longrightarrow> cp_fs s (located e en) \<noteq> Some DirNode"
  shows "\<exists>out' t. rewind_entries e turn ens out s = (Inr out', t) \<and> ro_failed out' = ro_failed out \<and>
    cp_turns t = cp_turns s \<and> cp_fs t = fold (rewound e (sn_blobs sn)) ens (cp_fs s)"
  using assms
proof (induction ens arbitrary: out s)
  case (Cons en ens)
  obtain out' u where en: "rewind_entry e turn en out s = (Inr out', u)" "ro_failed out' = ro_failed out"
    "cp_turns u = cp_turns s" "cp_fs u = rewound e (sn_blobs sn) en (cp_fs s)"
    using rewind_entry_ok [of e s turn sn en out] Cons.prems by auto
  have "\<exists>out'' t. rewind_entries e turn ens out' u = (Inr out'', t) \<and> ro_failed out'' = ro_failed out' \<and>
      cp_turns t = cp_turns u \<and> cp_fs t = fold (rewound e (sn_blobs sn)) ens (cp_fs u)"
    using Cons.IH [of u out'] Cons.prems en(3,4) rewound_no_dir by auto
  then show ?case using en by (auto simp: bnd_def)
qed simp

lemma fold_rewound_other: "f \<notin> located e ` set ens \<Longrightarrow> fold (rewound e blobs) ens fs f = fs f"
  by (induction ens arbitrary: fs) (auto simp: rewound_def split: file_state.split)

lemma fold_rewound_dirs:
  assumes "\<forall>en\<in>set ens. me_state en \<noteq> Skipped \<longrightarrow> fs (located e en) \<noteq> Some DirNode"
  shows "fold (rewound e blobs) ens fs f = Some DirNode \<longleftrightarrow> fs f = Some DirNode"
  using assms
proof (induction ens arbitrary: fs)
  case (Cons en ens)
  have dirs: "rewound e blobs en fs g = Some DirNode \<longleftrightarrow> fs g = Some DirNode" for g
    using Cons.prems by (auto simp: rewound_def split: file_state.splits)
  then show ?case using Cons by simp
qed simp

lemma fold_rewound_entry:
  assumes "distinct (map (located e) ens)" and "en \<in> set ens"
  shows "fold (rewound e blobs) ens fs (located e en) = rewound e blobs en fs (located e en)"
  using assms
proof (induction ens arbitrary: fs)
  case (Cons x ens)
  show ?case
  proof (cases "x = en")
    case True
    then show ?thesis using Cons.prems fold_rewound_other by fastforce
  next
    case False
    then have en: "en \<in> set ens" using Cons.prems by simp
    then have "located e en \<noteq> located e x" using Cons.prems(1) by (metis distinct.simps(2) image_eqI list.set_map list.simps(9))
    then show ?thesis
      using Cons en by (auto simp: rewound_def split: file_state.split)
  qed
qed simp

section \<open>Capturing\<close>

text \<open>
  The operating system ignores repeated separators and \<open>.\<close> components: paths with the same
  components name the same file.
\<close>

definition respects_components :: "cp_env \<Rightarrow> bool" where
  "respects_components e \<longleftrightarrow> (\<forall>p q. path_components p = path_components q \<longrightarrow> ce_locate e p = ce_locate e q)"

definition file_of :: "cp_env \<Rightarrow> string \<Rightarrow> string" where
  "file_of e p = ce_locate e (normalize_abs (ce_root e) p)"

definition key_of :: "cp_env \<Rightarrow> string \<Rightarrow> string" where
  "key_of e p = manifest_key (ce_root e) (normalize_abs (ce_root e) p)"

lemma located_key:
  assumes "prefix ''/'' (ce_root e)" and "respects_components e" and "me_path en = key_of e p"
  shows "located e en = file_of e p"
  using key_resolves [OF assms(1) normalize_absolute [OF assms(1)], of p] assms(2)
  unfolding located_def file_of_def assms(3) key_of_def respects_components_def by blast

text \<open>
  The state of a turn's snapshot relative to the files as they were when the turn began: every
  saved entry has their content, every tombstone stands for a file that did not exist, and files
  without an entry are still as they were.
\<close>

definition too_large :: "fs_node option \<Rightarrow> bool" where
  "too_large node \<longleftrightarrow> (case node of Some (FileNode c) \<Rightarrow> MAX_SNAPSHOT_BYTES < length c | _ \<Rightarrow> False)"

definition binary_in :: "cp_env \<Rightarrow> string set \<Rightarrow> string \<Rightarrow> bool" where
  "binary_in e ps f \<longleftrightarrow> (\<exists>p\<in>ps. file_of e p = f \<and> is_binary_path (normalize_abs (ce_root e) p))"

definition entry_of_past :: "cp_env \<Rightarrow> string set \<Rightarrow> (string \<rightharpoonup> fs_node) \<Rightarrow> (string \<rightharpoonup> string) \<Rightarrow> nat \<Rightarrow> manifest_entry \<Rightarrow> bool" where
  "entry_of_past e ps past blobs k en \<longleftrightarrow>
     (case me_state en of
        Saved \<Rightarrow> me_blob en = Some (pad4 k) \<and> (\<exists>c. blobs (pad4 k) = Some c \<and> past (located e en) = Some (FileNode c))
      | Tombstone \<Rightarrow> me_blob en = None \<and> past (located e en) = None
      | Skipped \<Rightarrow> binary_in e ps (located e en) \<or> too_large (past (located e en)))"

definition recorded :: "cp_env \<Rightarrow> string set \<Rightarrow> (string \<rightharpoonup> fs_node) \<Rightarrow> (string \<rightharpoonup> fs_node) \<Rightarrow> snapshot \<Rightarrow> manifest \<Rightarrow> bool" where
  "recorded e ps past now sn m \<longleftrightarrow>
     (\<forall>en\<in>set (mf_files m). \<exists>p\<in>ps. me_path en = key_of e p) \<and>
     distinct (map me_path (mf_files m)) \<and>
     (\<forall>k<length (mf_files m). entry_of_past e ps past (sn_blobs sn) k (mf_files m ! k)) \<and>
     (\<forall>k\<ge>length (mf_files m). sn_blobs sn (pad4 k) = None) \<and>
     (\<forall>f. f \<notin> located e ` set (mf_files m) \<longrightarrow> now f = past f)"

definition same_dirs :: "(string \<rightharpoonup> fs_node) \<Rightarrow> (string \<rightharpoonup> fs_node) \<Rightarrow> bool" where
  "same_dirs fs fs' \<longleftrightarrow> (\<forall>f. (fs f = Some DirNode) = (fs' f = Some DirNode))"

definition snapshot_of :: "string \<Rightarrow> cp \<Rightarrow> snapshot \<Rightarrow> manifest \<Rightarrow> bool" where
  "snapshot_of turn s sn m \<longleftrightarrow> cp_turns s turn = Some sn \<and> sn_manifest sn = Some m \<and> mf_turn_id m = turn"

lemma store_begin_turn_again:
  assumes "\<forall>k. ce_ok e k" and "cp_turns s turn = Some sn" and "sn_manifest sn = Some m"
  shows "\<exists>k. store_begin_turn e turn s = (Inr (), s\<lparr>cp_tick := k\<rparr>)"
  using assms
  by (auto simp: store_begin_turn_def snapshot_ensure_def cp_write_def cp_ask_def bnd_def when_m_def)

lemma add_entry_run:
  assumes "\<forall>k. ce_ok e k" and "cp_turns s (mf_turn_id m) = Some sn"
  shows "add_entry e m en s = (Inr (), s\<lparr>cp_tick := Suc (cp_tick s),
    cp_turns := (cp_turns s)(mf_turn_id m \<mapsto> sn\<lparr>sn_manifest := Some (m\<lparr>mf_files := mf_files m @ [en]\<rparr>)\<rparr>)\<rparr>)"
  using assms by (simp add: add_entry_def write_manifest_def cp_write_def cp_ask_def bnd_def set_snapshot_def)

lemma save_blob_run:
  assumes "\<forall>k. ce_ok e k" and "cp_turns s turn = Some sn" and "sn_blobs sn b = None"
  shows "save_blob e turn b c s = (Inr (), s\<lparr>cp_tick := Suc (cp_tick s),
    cp_turns := (cp_turns s)(turn \<mapsto> sn\<lparr>sn_blobs := (sn_blobs sn)(b \<mapsto> c)\<rparr>)\<rparr>)"
  using assms by (simp add: save_blob_def cp_write_def cp_ask_def bnd_def set_snapshot_def)

lemma cp_read_run: "cp_read e f s = (Inr (if ce_ok e (cp_tick s) then f (s\<lparr>cp_tick := Suc (cp_tick s)\<rparr>) else None),
    s\<lparr>cp_tick := Suc (cp_tick s)\<rparr>)"
  by (simp add: cp_read_def cp_ask_def bnd_def ret_def gets_def)

lemma bnd_cp_read: "bnd (cp_read e f) k s =
    k (if ce_ok e (cp_tick s) then f (s\<lparr>cp_tick := Suc (cp_tick s)\<rparr>) else None) (s\<lparr>cp_tick := Suc (cp_tick s)\<rparr>)"
  by (simp add: bnd_def cp_read_run)

text \<open>What a capture does: nothing, when the key is known or the file unreadable; otherwise one entry.\<close>

definition captured_entry :: "cp_env \<Rightarrow> cp \<Rightarrow> string \<Rightarrow> nat \<Rightarrow> manifest_entry \<Rightarrow> bool" where
  "captured_entry e s p k en \<longleftrightarrow>
     me_path en = key_of e p \<and>
     (case me_state en of
        Saved \<Rightarrow> me_blob en = Some (pad4 k) \<and> (\<exists>c. cp_fs s (file_of e p) = Some (FileNode c))
      | Tombstone \<Rightarrow> me_blob en = None \<and> cp_fs s (file_of e p) = None
      | Skipped \<Rightarrow> is_binary_path (normalize_abs (ce_root e) p) \<or> too_large (cp_fs s (file_of e p)))"

lemma try_capture_cases:
  assumes "\<forall>k. ce_ok e k" and "cp_turns s turn = Some sn" and "sn_manifest sn = Some m" and "mf_turn_id m = turn"
    and "\<forall>k\<ge>length (mf_files m). sn_blobs sn (pad4 k) = None"
  obtains k r where "try_capture_file e turn p s = (r, s\<lparr>cp_tick := k\<rparr>)"
      "manifest_has m (key_of e p) \<or> cp_fs s (file_of e p) = Some DirNode"
  | k en blobs where "\<not> manifest_has m (key_of e p)" "captured_entry e s p (length (mf_files m)) en"
      "blobs = (case me_state en of
         Saved \<Rightarrow> (sn_blobs sn)(pad4 (length (mf_files m)) \<mapsto> (case cp_fs s (file_of e p) of Some (FileNode c) \<Rightarrow> c | _ \<Rightarrow> []))
       | _ \<Rightarrow> sn_blobs sn)"
      "try_capture_file e turn p s = (Inr (), s\<lparr>cp_tick := k, cp_turns := (cp_turns s)(turn \<mapsto>
         sn\<lparr>sn_blobs := blobs, sn_manifest := Some (m\<lparr>mf_files := mf_files m @ [en]\<rparr>)\<rparr>)\<rparr>)"
proof -
  let ?n = "length (mf_files m)"
  obtain k where begun: "store_begin_turn e turn s = (Inr (), s\<lparr>cp_tick := k\<rparr>)"
    using store_begin_turn_again [OF assms(1-3)] by blast
  have added: "add_entry e m en (s\<lparr>cp_tick := j\<rparr>) = (Inr (), s\<lparr>cp_tick := Suc j,
      cp_turns := (cp_turns s)(turn \<mapsto> sn\<lparr>sn_manifest := Some (m\<lparr>mf_files := mf_files m @ [en]\<rparr>)\<rparr>)\<rparr>)" for en j
    using add_entry_run [OF assms(1), of "s\<lparr>cp_tick := j\<rparr>" m sn en] assms(2,4) by simp
  have saved: "bnd (save_blob e turn (pad4 ?n) c) (\<lambda>_. add_entry e m en) (s\<lparr>cp_tick := j\<rparr>) =
      (Inr (), s\<lparr>cp_tick := Suc (Suc j), cp_turns := (cp_turns s)(turn \<mapsto>
        sn\<lparr>sn_blobs := (sn_blobs sn)(pad4 ?n \<mapsto> c), sn_manifest := Some (m\<lparr>mf_files := mf_files m @ [en]\<rparr>)\<rparr>)\<rparr>)" for c en j
    using assms by (simp add: bnd_def save_blob_run add_entry_run)
  have known: "read_manifest e turn (s\<lparr>cp_tick := k\<rparr>) = (Inr m, s\<lparr>cp_tick := Suc k\<rparr>)"
    using assms(1-3) by (simp add: read_manifest_run)
  note run = try_capture_file_def bnd_run(1) [where m = "store_begin_turn e turn", OF begun]
    bnd_run(1) [where m = "read_manifest e turn", OF known] bnd_cp_read assms(1) Let_def
    key_of_def [symmetric] file_of_def [symmetric]
  consider (known) "manifest_has m (key_of e p)" | (dir) "\<not> manifest_has m (key_of e p)" "cp_fs s (file_of e p) = Some DirNode"
    | (absent) "\<not> manifest_has m (key_of e p)" "cp_fs s (file_of e p) = None"
    | (content) c where "\<not> manifest_has m (key_of e p)" "cp_fs s (file_of e p) = Some (FileNode c)"
    by (cases "cp_fs s (file_of e p)") (auto intro: fs_node.exhaust)
  then show thesis
  proof cases
    case known
    then have "try_capture_file e turn p s = (Inr (), s\<lparr>cp_tick := Suc k\<rparr>)" by (simp add: run)
    with known that(1) show thesis by blast
  next
    case dir
    show thesis
    proof (cases "is_binary_path (normalize_abs (ce_root e) p)")
      case True
      let ?en = "\<lparr>me_path = key_of e p, me_blob = None, me_state = Skipped\<rparr>"
      have "captured_entry e s p ?n ?en" using dir True by (auto simp: captured_entry_def too_large_def)
      with dir True show thesis
        by (intro that(2) [of ?en "sn_blobs sn" "Suc (Suc (Suc k))"]) (simp_all add: run added)
    next
      case False
      then have "try_capture_file e turn p s = (Inl UnreadableFile, s\<lparr>cp_tick := Suc (Suc k)\<rparr>)" using dir by (simp add: run)
      with dir that(1) show thesis by blast
    qed
  next
    case absent
    let ?en = "\<lparr>me_path = key_of e p, me_blob = None, me_state = Tombstone\<rparr>"
    have "captured_entry e s p ?n ?en" using absent by (simp add: captured_entry_def)
    with absent show thesis
      by (intro that(2) [of ?en "sn_blobs sn" "Suc (Suc (Suc k))"]) (simp_all add: run added)
  next
    case content
    show thesis
    proof (cases "MAX_SNAPSHOT_BYTES < length c \<or> is_binary_path (normalize_abs (ce_root e) p)")
      case True
      let ?en = "\<lparr>me_path = key_of e p, me_blob = None, me_state = Skipped\<rparr>"
      have "captured_entry e s p ?n ?en" using content True by (auto simp: captured_entry_def too_large_def)
      with content True show thesis
        by (intro that(2) [of ?en "sn_blobs sn" "Suc (Suc (Suc k))"]) (simp_all add: run added)
    next
      case False
      let ?en = "\<lparr>me_path = key_of e p, me_blob = Some (pad4 ?n), me_state = Saved\<rparr>"
      have "captured_entry e s p ?n ?en" using content by (simp add: captured_entry_def)
      moreover have "try_capture_file e turn p s =
          bnd (save_blob e turn (pad4 ?n) c) (\<lambda>_. add_entry e m ?en) (s\<lparr>cp_tick := Suc (Suc (Suc k))\<rparr>)"
        using content False by (simp add: run)
      ultimately show thesis
        using content by (intro that(2) [of ?en "(sn_blobs sn)(pad4 ?n \<mapsto> c)" "Suc (Suc (Suc (Suc (Suc k))))"]) (simp_all add: saved)
    qed
  qed
qed

section \<open>The snapshot describes the past\<close>

definition faithful_env :: "cp_env \<Rightarrow> bool" where
  "faithful_env e \<longleftrightarrow> (\<forall>k. ce_ok e k) \<and> prefix ''/'' (ce_root e) \<and> respects_components e"

text \<open>Every file is named by paths with one key only.\<close>

definition one_spelling :: "cp_env \<Rightarrow> string set \<Rightarrow> bool" where
  "one_spelling e ps \<longleftrightarrow> (\<forall>p\<in>ps. \<forall>q\<in>ps. file_of e p = file_of e q \<longrightarrow> key_of e p = key_of e q)"

lemma faithful_located: "faithful_env e \<Longrightarrow> me_path en = key_of e p \<Longrightarrow> located e en = file_of e p"
  unfolding faithful_env_def by (blast intro: located_key)

lemma recorded_fresh:
  assumes "faithful_env e" and "one_spelling e ps" and "recorded e ps past now sn m" and "p \<in> ps"
    and "\<not> manifest_has m (key_of e p)"
  shows "file_of e p \<notin> located e ` set (mf_files m)"
proof
  assume "file_of e p \<in> located e ` set (mf_files m)"
  then obtain en where en: "en \<in> set (mf_files m)" "located e en = file_of e p" by auto
  then obtain q where q: "q \<in> ps" "me_path en = key_of e q" using assms(3) by (auto simp: recorded_def)
  then have "file_of e q = file_of e p" using faithful_located [OF assms(1)] en(2) by auto
  then have "me_path en = key_of e p" using q assms(2,4) unfolding one_spelling_def by metis
  then show False using en(1) assms(5) by (auto simp: manifest_has_def list_ex_iff)
qed

lemma recorded_distinct:
  assumes "faithful_env e" and "one_spelling e ps" and "recorded e ps past now sn m"
  shows "distinct (map (located e) (mf_files m))"
proof -
  have "inj_on (located e) (set (mf_files m))"
  proof (rule inj_onI)
    fix a b assume ab: "a \<in> set (mf_files m)" "b \<in> set (mf_files m)" "located e a = located e b"
    then obtain p q where pq: "p \<in> ps" "me_path a = key_of e p" "q \<in> ps" "me_path b = key_of e q"
      using assms(3) unfolding recorded_def by meson
    then have "file_of e p = file_of e q" using ab(3) faithful_located [OF assms(1)] by metis
    then have "me_path a = me_path b" using pq assms(2) unfolding one_spelling_def by metis
    then show "a = b" using ab(1,2) assms(3) by (auto simp: recorded_def distinct_map inj_on_def)
  qed
  then show ?thesis using assms(3) by (auto simp: recorded_def distinct_map)
qed

lemma captured_of_past:
  assumes "faithful_env e" and "captured_entry e s p k en" and "cp_fs s (file_of e p) = past (file_of e p)" and "p \<in> ps"
    and "\<And>c. me_state en = Saved \<Longrightarrow> cp_fs s (file_of e p) = Some (FileNode c) \<Longrightarrow> blobs (pad4 k) = Some c"
  shows "entry_of_past e ps past blobs k en"
  using assms faithful_located [OF assms(1), of en p]
  by (auto simp: captured_entry_def entry_of_past_def binary_in_def split: file_state.splits)

lemma recorded_append:
  assumes "faithful_env e" and "recorded e ps past (cp_fs s) sn m" and "p \<in> ps" and "\<not> manifest_has m (key_of e p)"
    and fresh: "file_of e p \<notin> located e ` set (mf_files m)"
    and en: "captured_entry e s p (length (mf_files m)) en"
    and blobs: "blobs = (case me_state en of
         Saved \<Rightarrow> (sn_blobs sn)(pad4 (length (mf_files m)) \<mapsto> (case cp_fs s (file_of e p) of Some (FileNode c) \<Rightarrow> c | _ \<Rightarrow> []))
       | _ \<Rightarrow> sn_blobs sn)"
  shows "recorded e ps past (cp_fs s) (sn\<lparr>sn_blobs := blobs, sn_manifest := mo\<rparr>) (m\<lparr>mf_files := mf_files m @ [en]\<rparr>)"
proof -
  let ?n = "length (mf_files m)"
  have other: "blobs (pad4 k) = sn_blobs sn (pad4 k)" if "k \<noteq> ?n" for k
    using that blobs pad4_inject by (auto split: file_state.splits)
  have old: "entry_of_past e ps past blobs k (mf_files m ! k)" if "k < ?n" for k
    using that assms(2) other [of k] by (auto simp: recorded_def entry_of_past_def split: file_state.splits)
  have new: "entry_of_past e ps past blobs ?n en"
    by (rule captured_of_past [OF assms(1) en _ assms(3)])
      (use assms(2) fresh blobs in \<open>auto simp: recorded_def\<close>)
  have "me_path en = key_of e p" using en by (simp add: captured_entry_def)
  then show ?thesis
    using assms(2-4) old new other
    by (auto simp: recorded_def nth_append less_Suc_eq manifest_has_def list_ex_iff)
qed

text \<open>A capture extends the snapshot so that it covers the file, unless that is a directory.\<close>

lemma capture_records:
  assumes "faithful_env e" and "one_spelling e ps" and "p \<in> ps"
    and "snapshot_of turn s sn m" and rec: "recorded e ps past (cp_fs s) sn m"
  obtains sn' m' k where "snd (try_capture_file e turn p s) = s\<lparr>cp_tick := k, cp_turns := (cp_turns s)(turn \<mapsto> sn')\<rparr>"
    and "sn_manifest sn' = Some m'" and "mf_turn_id m' = turn" and "recorded e ps past (cp_fs s) sn' m'"
    and "set (mf_files m) \<subseteq> set (mf_files m')"
    and "file_of e p \<in> located e ` set (mf_files m') \<or> cp_fs s (file_of e p) = Some DirNode"
proof -
  have s: "cp_turns s turn = Some sn" "sn_manifest sn = Some m" "mf_turn_id m = turn"
    using assms(4) by (simp_all add: snapshot_of_def)
  have ok: "\<forall>k. ce_ok e k" using assms(1) by (simp add: faithful_env_def)
  have unused: "\<forall>k\<ge>length (mf_files m). sn_blobs sn (pad4 k) = None" using rec by (simp add: recorded_def)
  show thesis
  proof (rule try_capture_cases [OF ok s unused, of p])
    fix k r
    assume run: "try_capture_file e turn p s = (r, s\<lparr>cp_tick := k\<rparr>)"
      and "manifest_has m (key_of e p) \<or> cp_fs s (file_of e p) = Some DirNode"
    then have "file_of e p \<in> located e ` set (mf_files m) \<or> cp_fs s (file_of e p) = Some DirNode"
      using faithful_located [OF assms(1)] by (force simp: manifest_has_def list_ex_iff)
    moreover have "(cp_turns s)(turn \<mapsto> sn) = cp_turns s" using s(1) by (simp add: fun_upd_idem)
    ultimately show thesis using run s(2,3) rec by (intro that [of sn k m]) simp_all
  next
    fix k en blobs
    assume new: "\<not> manifest_has m (key_of e p)" and en: "captured_entry e s p (length (mf_files m)) en"
      and blobs: "blobs = (case me_state en of
         Saved \<Rightarrow> (sn_blobs sn)(pad4 (length (mf_files m)) \<mapsto> (case cp_fs s (file_of e p) of Some (FileNode c) \<Rightarrow> c | _ \<Rightarrow> []))
       | _ \<Rightarrow> sn_blobs sn)"
      and run: "try_capture_file e turn p s = (Inr (), s\<lparr>cp_tick := k, cp_turns := (cp_turns s)(turn \<mapsto>
         sn\<lparr>sn_blobs := blobs, sn_manifest := Some (m\<lparr>mf_files := mf_files m @ [en]\<rparr>)\<rparr>)\<rparr>)"
    note fresh = recorded_fresh [OF assms(1,2) rec assms(3) new]
    have "located e en = file_of e p" using en faithful_located [OF assms(1)] by (simp add: captured_entry_def)
    then show thesis
      using run s(3) recorded_append [OF assms(1) rec assms(3) new fresh en blobs]
      by (intro that [of "sn\<lparr>sn_blobs := blobs, sn_manifest := Some (m\<lparr>mf_files := mf_files m @ [en]\<rparr>)\<rparr>" k
            "m\<lparr>mf_files := mf_files m @ [en]\<rparr>"]) auto
  qed
qed

section \<open>Turns of tool calls\<close>

text \<open>
  A file tool captures the paths it is about to touch and then edits them: \<open>Some\<close> content is
  written, \<open>None\<close> removes the file; a directory is not affected.
\<close>

type_synonym tool_call = "string list \<times> (string \<times> string option) list"

definition apply_edit :: "cp_env \<Rightarrow> string \<times> string option \<Rightarrow> cp \<Rightarrow> cp" where
  "apply_edit e ed s =
     (let f = file_of e (fst ed) in
      if cp_fs s f = Some DirNode then s else s\<lparr>cp_fs := (cp_fs s)(f := map_option FileNode (snd ed))\<rparr>)"

definition run_call :: "cp_env \<Rightarrow> string \<Rightarrow> tool_call \<Rightarrow> unit cp_run" where
  "run_call e turn c = bnd (capture_files e turn (fst c)) (\<lambda>_. upd (fold (apply_edit e) (snd c)))"

definition run_turn :: "cp_env \<Rightarrow> string \<times> tool_call list \<Rightarrow> unit cp_run" where
  "run_turn e tc = bnd (store_begin_turn e (fst tc)) (\<lambda>_. for_each (run_call e (fst tc)) (snd tc))"

definition captures_first :: "tool_call \<Rightarrow> bool" where
  "captures_first c \<longleftrightarrow> fst ` set (snd c) \<subseteq> set (fst c)"

text \<open>A turn in progress; the snapshots of the turns in \<open>K\<close> stay as they were.\<close>

definition in_turn :: "cp_env \<Rightarrow> string set \<Rightarrow> string set \<Rightarrow> string \<Rightarrow> cp \<Rightarrow> cp \<Rightarrow> bool" where
  "in_turn e ps K turn s t \<longleftrightarrow>
     (\<exists>sn m. snapshot_of turn t sn m \<and> recorded e ps (cp_fs s) (cp_fs t) sn m) \<and>
     same_dirs (cp_fs s) (cp_fs t) \<and> (\<forall>k\<in>K - {turn}. cp_turns t k = cp_turns s k)"

definition covered :: "cp_env \<Rightarrow> string \<Rightarrow> string \<Rightarrow> cp \<Rightarrow> bool" where
  "covered e turn p s \<longleftrightarrow>
     cp_fs s (file_of e p) = Some DirNode \<or>
     (\<exists>sn m. snapshot_of turn s sn m \<and> file_of e p \<in> located e ` set (mf_files m))"

lemma snapshot_of_unique: "snapshot_of turn t sn m \<Longrightarrow> snapshot_of turn t sn' m' \<Longrightarrow> sn' = sn \<and> m' = m"
  by (auto simp: snapshot_of_def)

lemma capture_in_turn:
  assumes "faithful_env e" and "one_spelling e ps" and "p \<in> ps" and "in_turn e ps K turn s t"
  defines "u \<equiv> snd (capture_file e turn p t)"
  shows "in_turn e ps K turn s u \<and> covered e turn p u \<and> (\<forall>q. covered e turn q t \<longrightarrow> covered e turn q u)"
proof -
  obtain sn m where s: "snapshot_of turn t sn m" "recorded e ps (cp_fs s) (cp_fs t) sn m"
    using assms(4) by (auto simp: in_turn_def)
  show ?thesis
  proof (rule capture_records [OF assms(1-3) s])
    fix sn' m' k
    assume run: "snd (try_capture_file e turn p t) = t\<lparr>cp_tick := k, cp_turns := (cp_turns t)(turn \<mapsto> sn')\<rparr>"
      and sn': "sn_manifest sn' = Some m'" "mf_turn_id m' = turn" "recorded e ps (cp_fs s) (cp_fs t) sn' m'"
      "set (mf_files m) \<subseteq> set (mf_files m')"
      "file_of e p \<in> located e ` set (mf_files m') \<or> cp_fs t (file_of e p) = Some DirNode"
    have u: "snapshot_of turn u sn' m'" "cp_fs u = cp_fs t" "\<forall>k\<in>K - {turn}. cp_turns u k = cp_turns t k"
      using run sn' by (simp_all add: u_def capture_file_def snapshot_of_def)
    have "in_turn e ps K turn s u" using u sn'(3) assms(4) unfolding in_turn_def by metis
    moreover have "covered e turn p u" using u sn'(5) unfolding covered_def by metis
    moreover have "covered e turn q u" if "covered e turn q t" for q
      using that u(1,2) sn'(4) snapshot_of_unique [OF s(1)] unfolding covered_def by (metis image_mono subsetD)
    ultimately show ?thesis by blast
  qed
qed

lemma capture_files_in_turn:
  assumes "faithful_env e" and "one_spelling e ps" and "set qs \<subseteq> ps" and "in_turn e ps K turn s t"
  shows "\<exists>u. capture_files e turn qs t = (Inr (), u) \<and> in_turn e ps K turn s u \<and>
    (\<forall>q. covered e turn q t \<or> q \<in> set qs \<longrightarrow> covered e turn q u)"
  using assms(3,4)
proof (induction qs arbitrary: t)
  case (Cons q qs)
  obtain v where v: "capture_file e turn q t = (Inr (), v)" by (auto simp: capture_file_def)
  have step: "in_turn e ps K turn s v" "covered e turn q v" "\<forall>p. covered e turn p t \<longrightarrow> covered e turn p v"
    using capture_in_turn [OF assms(1,2) _ Cons.prems(2), of q] Cons.prems(1) v by auto
  obtain u where u: "capture_files e turn qs v = (Inr (), u)" "in_turn e ps K turn s u"
      "\<forall>p. covered e turn p v \<or> p \<in> set qs \<longrightarrow> covered e turn p u"
    using Cons.IH [OF _ step(1)] Cons.prems(1) by auto
  have "capture_files e turn (q # qs) t = (Inr (), u)" using v u(1) by (simp add: bnd_def)
  then show ?case using u step by auto
qed (simp add: ret_def)

lemma apply_edit_fields:
  "cp_turns (apply_edit e ed s) = cp_turns s" "same_dirs (cp_fs s) (cp_fs (apply_edit e ed s))"
  "f \<noteq> file_of e (fst ed) \<or> cp_fs s f = Some DirNode \<Longrightarrow> cp_fs (apply_edit e ed s) f = cp_fs s f"
  by (auto simp: apply_edit_def Let_def same_dirs_def)

lemma edit_in_turn:
  assumes "in_turn e ps K turn s t" and "covered e turn (fst ed) t"
  shows "in_turn e ps K turn s (apply_edit e ed t) \<and>
    (\<forall>q. covered e turn q t \<longrightarrow> covered e turn q (apply_edit e ed t))"
proof -
  obtain sn m where s: "snapshot_of turn t sn m" "recorded e ps (cp_fs s) (cp_fs t) sn m"
    using assms(1) by (auto simp: in_turn_def)
  let ?u = "apply_edit e ed t"
  have "cp_fs ?u f = cp_fs t f" if "f \<notin> located e ` set (mf_files m)" for f
    using that assms(2) snapshot_of_unique [OF s(1)] apply_edit_fields(3) [of f e ed t] unfolding covered_def by metis
  then have "recorded e ps (cp_fs s) (cp_fs ?u) sn m" using s(2) by (simp add: recorded_def)
  moreover have "snapshot_of turn ?u sn' m' = snapshot_of turn t sn' m'" for sn' m'
    by (simp add: snapshot_of_def apply_edit_fields(1))
  ultimately show ?thesis
    using assms(1) s(1) apply_edit_fields(1) [of e ed t] apply_edit_fields(2) [of t e ed] unfolding in_turn_def covered_def same_dirs_def by metis
qed

lemma edits_in_turn:
  "in_turn e ps K turn s t \<Longrightarrow> \<forall>ed\<in>set eds. covered e turn (fst ed) t \<Longrightarrow> in_turn e ps K turn s (fold (apply_edit e) eds t)"
  by (induction eds arbitrary: t) (auto simp: edit_in_turn)

lemma run_call_in_turn:
  assumes "faithful_env e" and "one_spelling e ps" and "set (fst c) \<subseteq> ps" and "captures_first c" and "in_turn e ps K turn s t"
  shows "\<exists>u. run_call e turn c t = (Inr (), u) \<and> in_turn e ps K turn s u"
proof -
  obtain u where u: "capture_files e turn (fst c) t = (Inr (), u)" "in_turn e ps K turn s u"
      "\<forall>q. covered e turn q t \<or> q \<in> set (fst c) \<longrightarrow> covered e turn q u"
    using capture_files_in_turn [OF assms(1-3,5)] by blast
  have "\<forall>ed\<in>set (snd c). covered e turn (fst ed) u" using u(3) assms(4) by (auto simp: captures_first_def)
  then show ?thesis using u edits_in_turn by (auto simp: run_call_def bnd_def upd_def)
qed

lemma run_calls_in_turn:
  assumes "faithful_env e" and "one_spelling e ps" and "\<forall>c\<in>set cs. set (fst c) \<subseteq> ps \<and> captures_first c"
    and "in_turn e ps K turn s t"
  shows "\<exists>u. for_each (run_call e turn) cs t = (Inr (), u) \<and> in_turn e ps K turn s u"
  using assms(3,4)
proof (induction cs arbitrary: t)
  case (Cons c cs)
  then obtain u where "run_call e turn c t = (Inr (), u)" "in_turn e ps K turn s u"
    using run_call_in_turn [OF assms(1,2), of c K turn s t] by auto
  then show ?case using Cons by (auto simp: bnd_def)
qed (simp add: ret_def)

section \<open>Beginning a turn\<close>

definition kept_by_pruning :: "cp_env \<Rightarrow> string set \<Rightarrow> bool" where
  "kept_by_pruning e K \<longleftrightarrow> (\<forall>k. \<forall>t\<in>K. t \<notin> set (prune_victims (max 1 (ce_keep_n e)) (ce_listing e k)))"

lemma remove_dirs_run:
  "\<exists>n t. remove_dirs e ds s = (Inr n, t) \<and> cp_fs t = cp_fs s \<and> (\<forall>d. d \<notin> set ds \<longrightarrow> cp_turns t d = cp_turns s d)"
proof (induction ds arbitrary: s)
  case (Cons d ds)
  let ?s = "if ce_ok e (cp_tick s) then s\<lparr>cp_tick := Suc (cp_tick s), cp_turns := (cp_turns s)(d := None)\<rparr>
    else s\<lparr>cp_tick := Suc (cp_tick s)\<rparr>"
  obtain n t where "remove_dirs e ds ?s = (Inr n, t)" "cp_fs t = cp_fs ?s" "\<forall>d. d \<notin> set ds \<longrightarrow> cp_turns t d = cp_turns ?s d"
    using Cons by blast
  then show ?case by (auto simp: bnd_def cp_ask_def when_m_def split: if_splits)
qed (simp add: ret_def)

lemma quiet_prune_run:
  assumes "kept_by_pruning e K"
  shows "\<exists>t. quiet_prune e s = (Inr (), t) \<and> cp_fs t = cp_fs s \<and> (\<forall>d\<in>K. cp_turns t d = cp_turns s d)"
proof -
  let ?ds = "prune_victims (max 1 (ce_keep_n e)) (ce_listing e (cp_tick s))" and ?s = "s\<lparr>cp_tick := Suc (cp_tick s)\<rparr>"
  obtain n t where "remove_dirs e ?ds ?s = (Inr n, t)" "cp_fs t = cp_fs s" "\<forall>d. d \<notin> set ?ds \<longrightarrow> cp_turns t d = cp_turns s d"
    using remove_dirs_run [of e ?ds ?s] by auto
  then show ?thesis
    using assms by (auto simp: quiet_prune_def prune_def bnd_def cp_ask_def kept_by_pruning_def)
qed

lemma begin_in_turn:
  assumes "faithful_env e" and "kept_by_pruning e K" and "turn \<in> K" and "cp_turns s turn = None"
  shows "\<exists>t. store_begin_turn e turn s = (Inr (), t) \<and> in_turn e ps K turn s t"
proof -
  have ok: "\<forall>k. ce_ok e k" using assms(1) by (simp add: faithful_env_def)
  define m where "m = new_manifest turn (ce_now e (Suc (cp_tick s)))"
  define sn where "sn = \<lparr>sn_manifest = Some m, sn_blobs = Map.empty\<rparr>"
  have "\<exists>k. snapshot_ensure e turn s = (Inr True, s\<lparr>cp_tick := k, cp_turns := (cp_turns s)(turn \<mapsto> sn)\<rparr>)"
    using ok assms(4)
    by (simp add: snapshot_ensure_def cp_write_def cp_ask_def bnd_def write_manifest_def set_snapshot_def sn_def m_def
        new_manifest_def) blast
  then obtain k where "snapshot_ensure e turn s = (Inr True, s\<lparr>cp_tick := k, cp_turns := (cp_turns s)(turn \<mapsto> sn)\<rparr>)"
    by blast
  then obtain t where t: "store_begin_turn e turn s = (Inr (), t)" "cp_fs t = cp_fs s"
      "\<forall>d\<in>K. cp_turns t d = ((cp_turns s)(turn \<mapsto> sn)) d"
    using quiet_prune_run [OF assms(2), of "s\<lparr>cp_tick := k, cp_turns := (cp_turns s)(turn \<mapsto> sn)\<rparr>"]
    by (auto simp: store_begin_turn_def bnd_def when_m_def)
  moreover have "snapshot_of turn t sn m" using t(3) assms(3) by (simp add: snapshot_of_def sn_def m_def new_manifest_def)
  moreover have "recorded e ps (cp_fs s) (cp_fs s) sn m" by (simp add: recorded_def sn_def m_def new_manifest_def)
  ultimately show ?thesis by (auto simp: in_turn_def same_dirs_def)
qed

lemma run_turn_in_turn:
  assumes "faithful_env e" and "one_spelling e ps" and "kept_by_pruning e K" and "turn \<in> K" and "cp_turns s turn = None"
    and "\<forall>c\<in>set cs. set (fst c) \<subseteq> ps \<and> captures_first c"
  shows "\<exists>t. run_turn e (turn, cs) s = (Inr (), t) \<and> in_turn e ps K turn s t"
proof -
  obtain u where u: "store_begin_turn e turn s = (Inr (), u)" "in_turn e ps K turn s u"
    using begin_in_turn [OF assms(1,3,4,5)] by blast
  obtain t where "for_each (run_call e turn) cs u = (Inr (), t)" "in_turn e ps K turn s t"
    using run_calls_in_turn [OF assms(1,2,6) u(2)] by blast
  then show ?thesis using u(1) by (auto simp: run_turn_def bnd_def)
qed

section \<open>Undo gives the past back\<close>

lemma entry_rewound:
  assumes "entry_of_past e ps past blobs k en" and "\<not> binary_in e ps (located e en)" and "\<not> too_large (past (located e en))"
  shows "rewound e blobs en fs (located e en) = past (located e en)"
  using assms by (auto simp: entry_of_past_def rewound_def split: file_state.splits)

lemma past_entry_restorable: "entry_of_past e ps past blobs k en \<Longrightarrow> restorable blobs en"
  by (cases "me_state en") (auto simp: entry_of_past_def restorable_def)

lemma past_entry_no_dir:
  assumes "entry_of_past e ps past blobs k en" and "same_dirs past fs"
  shows "me_state en \<noteq> Skipped \<longrightarrow> fs (located e en) \<noteq> Some DirNode"
proof -
  have "past (located e en) = Some DirNode \<longleftrightarrow> fs (located e en) = Some DirNode" using assms(2) by (simp add: same_dirs_def)
  then show ?thesis using assms(1) by (cases "me_state en") (auto simp: entry_of_past_def)
qed

lemma rewind_recorded:
  assumes "faithful_env e" and "one_spelling e ps" and "recorded e ps past now sn m" and "same_dirs past (cp_fs u)"
    and "cp_turns u turn = Some sn"
  shows "\<exists>out t. rewind_manifest e turn m u = (Inr out, t) \<and> ro_failed out = [] \<and> cp_turns t = cp_turns u \<and>
    same_dirs past (cp_fs t) \<and>
    (\<forall>f. \<not> binary_in e ps f \<longrightarrow> \<not> too_large (past f) \<longrightarrow> cp_fs u f = now f \<longrightarrow> cp_fs t f = past f)"
proof -
  let ?fs = "fold (rewound e (sn_blobs sn)) (mf_files m) (cp_fs u)"
  have ok: "\<forall>k. ce_ok e k" using assms(1) by (simp add: faithful_env_def)
  have entry: "\<exists>k. entry_of_past e ps past (sn_blobs sn) k en" if "en \<in> set (mf_files m)" for en
    using that assms(3) by (auto simp: recorded_def in_set_conv_nth)
  have able: "restorable (sn_blobs sn) en" and nodir: "me_state en \<noteq> Skipped \<longrightarrow> cp_fs u (located e en) \<noteq> Some DirNode"
    if "en \<in> set (mf_files m)" for en
    using entry [OF that] past_entry_restorable past_entry_no_dir [OF _ assms(4)] by blast+
  obtain out t where run: "rewind_manifest e turn m u = (Inr out, t)" "ro_failed out = []" "cp_turns t = cp_turns u"
      "cp_fs t = ?fs"
    using rewind_entries_ok [OF ok assms(5), of "mf_files m" "\<lparr>ro_restored = 0, ro_skipped = 0, ro_failed = []\<rparr>"] able nodir unfolding rewind_manifest_def by auto
  have "?fs f = past f" if "\<not> binary_in e ps f" "\<not> too_large (past f)" "cp_fs u f = now f" for f
  proof (cases "f \<in> located e ` set (mf_files m)")
    case True
    then obtain en where en: "en \<in> set (mf_files m)" "f = located e en" by auto
    then show ?thesis
      using fold_rewound_entry [OF recorded_distinct [OF assms(1-3)] en(1)] entry [OF en(1)] that entry_rewound by metis
  next
    case False
    then show ?thesis using fold_rewound_other that(3) assms(3) by (metis recorded_def)
  qed
  moreover have "same_dirs past ?fs"
    using assms(4) fold_rewound_dirs nodir unfolding same_dirs_def by metis
  ultimately show ?thesis using run by metis
qed

text \<open>
  C4: undo gives every file back. A turn is begun, tools capture the paths they are about to touch
  and then edit them in any order; rewinding the turn's snapshot succeeds with no failed entry and
  leaves every file as it was before the turn (present with its content, or absent), except files
  that are skipped: larger than the snapshot limit or with a binary extension. It is assumed that
  no input or output fails, that paths with equal components name one file, that each file is
  named by paths with one key, and that pruning keeps the turn.
\<close>

theorem undo_restores:
  assumes "faithful_env e" and "one_spelling e (\<Union>c\<in>set calls. set (fst c))" and "kept_by_pruning e {turn}"
    and "cp_turns s turn = None" and "\<forall>c\<in>set calls. captures_first c"
  shows "\<exists>t out u. run_turn e (turn, calls) s = (Inr (), t) \<and> rewind e turn t = (Inr out, u) \<and> ro_failed out = [] \<and>
    (\<forall>f. \<not> binary_in e (\<Union>c\<in>set calls. set (fst c)) f \<longrightarrow> \<not> too_large (cp_fs s f) \<longrightarrow> cp_fs u f = cp_fs s f)"
proof -
  let ?ps = "\<Union>c\<in>set calls. set (fst c)"
  obtain t where t: "run_turn e (turn, calls) s = (Inr (), t)" "in_turn e ?ps {turn} turn s t"
    using run_turn_in_turn [OF assms(1-3) _ assms(4), of calls] assms(5) by auto
  then obtain sn m where sn: "snapshot_of turn t sn m" "recorded e ?ps (cp_fs s) (cp_fs t) sn m"
      "same_dirs (cp_fs s) (cp_fs t)"
    by (auto simp: in_turn_def)
  let ?t = "t\<lparr>cp_tick := Suc (cp_tick t)\<rparr>"
  have read: "read_manifest e turn t = (Inr m, ?t)"
    using sn(1) assms(1) by (simp add: read_manifest_run snapshot_of_def faithful_env_def)
  obtain out u where "rewind_manifest e turn m ?t = (Inr out, u)" "ro_failed out = []"
      "\<forall>f. \<not> binary_in e ?ps f \<longrightarrow> \<not> too_large (cp_fs s f) \<longrightarrow> cp_fs u f = cp_fs s f"
    using rewind_recorded [OF assms(1,2) sn(2), of ?t turn] sn(1,3) by (auto simp: snapshot_of_def)
  then show ?thesis using t(1) read by (auto simp: rewind_def bnd_def)
qed

section \<open>A range of turns\<close>

lemma rewind_turns_append:
  "rewind_turns e (xs @ ys) rep = bnd (rewind_turns e xs rep) (rewind_turns e ys)"
  by (induction xs arbitrary: rep) (auto simp: bnd_def fun_eq_iff split: option.split prod.split sum.split)

definition edits_small :: "cp_env \<Rightarrow> string \<Rightarrow> tool_call list \<Rightarrow> bool" where
  "edits_small e f cs \<longleftrightarrow>
     (\<forall>c\<in>set cs. \<forall>ed\<in>set (snd c). file_of e (fst ed) = f \<longrightarrow> \<not> too_large (map_option FileNode (snd ed)))"

text \<open>Captures leave the files alone, so a small file stays small under small edits.\<close>

definition same_files :: "cp \<Rightarrow> cp \<Rightarrow> bool" where
  "same_files s t \<longleftrightarrow> cp_fs t = cp_fs s"

interpretation files: state_preorder same_files
  by unfold_locales (auto simp: same_files_def)

lemma same_files_ask: "obeys same_files (cp_ask f)" "obeys same_files (cp_read e g)"
  by (auto simp: obeys_def cp_read_def cp_ask_def bnd_def same_files_def)

lemma same_files_write: "(\<And>s. cp_fs (f s) = cp_fs s) \<Longrightarrow> obeys same_files (cp_write e f)"
  by (auto simp: obeys_def cp_write_def cp_ask_def bnd_def same_files_def)

lemma same_files_snapshot: "cp_fs (set_snapshot turn sn s) = cp_fs s"
  by (simp add: set_snapshot_def)

lemma same_files_begin: "obeys same_files (store_begin_turn e turn)"
proof -
  have "cp_fs (snd (quiet_prune e s)) = cp_fs s" for s
    using quiet_prune_run [of e "{}" s] by (auto simp: kept_by_pruning_def)
  then have "obeys same_files (quiet_prune e)" by (simp add: obeys_def same_files_def)
  then show ?thesis
    unfolding store_begin_turn_def snapshot_ensure_def write_manifest_def
    by (intro files.obeys_rules same_files_ask same_files_write) (auto simp: same_files_snapshot split: option.split)
qed

lemma same_files_capture: "obeys same_files (try_capture_file e turn p)"
proof -
  have add: "obeys same_files (add_entry e m en)" for m en
    unfolding add_entry_def write_manifest_def
    by (intro same_files_write) (auto simp: same_files_snapshot split: option.split)
  have save: "obeys same_files (save_blob e turn b c)" for b c
    unfolding save_blob_def
    by (intro files.obeys_rules same_files_write) (auto simp: same_files_snapshot split: option.split)
  have "obeys same_files (read_manifest e turn)"
    unfolding read_manifest_def by (intro files.obeys_rules same_files_ask)
  then show ?thesis
    unfolding try_capture_file_def
    by (intro files.obeys_rules same_files_begin same_files_ask)
      (auto intro!: files.obeys_rules add save same_files_ask split: option.split fs_node.split)
qed

lemma same_files_captures: "obeys same_files (capture_files e turn ps)"
proof (induction ps)
  case (Cons p ps)
  have "obeys same_files (capture_file e turn p)"
    using same_files_capture [of e turn p] by (simp add: obeys_def capture_file_def)
  with Cons show ?case by (auto intro: files.obeys_rules)
qed (simp add: obeys_def same_files_def)

lemma edits_stay_small:
  assumes "\<forall>ed\<in>set eds. file_of e (fst ed) = f \<longrightarrow> \<not> too_large (map_option FileNode (snd ed))" and "\<not> too_large (cp_fs s f)"
  shows "\<not> too_large (cp_fs (fold (apply_edit e) eds s) f)"
  using assms by (induction eds arbitrary: s) (auto simp: apply_edit_def Let_def)

lemma turn_stays_small:
  assumes "edits_small e f cs"
  shows "obeys (keeps (\<lambda>s. \<not> too_large (cp_fs s f))) (run_turn e (turn, cs))"
proof -
  let ?I = "\<lambda>s. \<not> too_large (cp_fs s f)"
  have weaken: "obeys (keeps ?I) m" if "obeys same_files m" for m :: "'a cp_run"
    using that by (auto simp: obeys_def keeps_def same_files_def)
  have call: "obeys (keeps ?I) (run_call e turn c)" if "c \<in> set cs" for c
  proof -
    have "\<forall>ed\<in>set (snd c). file_of e (fst ed) = f \<longrightarrow> \<not> too_large (map_option FileNode (snd ed))"
      using that assms by (auto simp: edits_small_def)
    then have "obeys (keeps ?I) (upd (fold (apply_edit e) (snd c)))"
      by (intro obeys_updI) (simp add: keeps_def edits_stay_small)
    then show ?thesis
      unfolding run_call_def by (rule invariant.obeys_bnd [OF weaken [OF same_files_captures]])
  qed
  then have "obeys (keeps ?I) (for_each (run_call e turn) cs)"
    by (induction cs) (auto simp: invariant.obeys_pure intro!: invariant.obeys_bnd)
  then show ?thesis
    unfolding run_turn_def fst_conv snd_conv by (rule invariant.obeys_bnd [OF weaken [OF same_files_begin]])
qed

definition restored_upto :: "cp_env \<Rightarrow> string set \<Rightarrow> (string \<times> tool_call list) list \<Rightarrow> string \<Rightarrow> cp \<Rightarrow> bool" where
  "restored_upto e ps ts f s \<longleftrightarrow>
     \<not> binary_in e ps f \<and> \<not> too_large (cp_fs s f) \<and> (\<forall>tc\<in>set ts. edits_small e f (snd tc))"

text \<open>One step of the range: rewinding the turn from any state that agrees with its end.\<close>

lemma rewind_turns_recorded:
  assumes "faithful_env e" and "one_spelling e ps" and "in_turn e ps K turn s t" and "turn \<in> K"
    and "cp_turns v turn = cp_turns t turn" and "same_dirs (cp_fs t) (cp_fs v)"
  shows "\<exists>rep' w. rewind_turns e [turn] rep v = (Inr rep', w) \<and> rrr_failed rep' = rrr_failed rep \<and>
    cp_turns w = cp_turns v \<and> same_dirs (cp_fs s) (cp_fs w) \<and>
    (\<forall>f. \<not> binary_in e ps f \<longrightarrow> \<not> too_large (cp_fs s f) \<longrightarrow> cp_fs v f = cp_fs t f \<longrightarrow> cp_fs w f = cp_fs s f)"
proof -
  obtain sn m where sn: "snapshot_of turn t sn m" "recorded e ps (cp_fs s) (cp_fs t) sn m" "same_dirs (cp_fs s) (cp_fs t)"
    using assms(3) by (auto simp: in_turn_def)
  let ?v = "v\<lparr>cp_tick := Suc (cp_tick v)\<rparr>"
  have v: "cp_turns ?v turn = Some sn" using sn(1) assms(5) by (simp add: snapshot_of_def)
  have dirs: "same_dirs (cp_fs s) (cp_fs ?v)" using sn(3) assms(6) by (simp add: same_dirs_def)
  have m: "sn_manifest sn = Some m" using sn(1) by (simp add: snapshot_of_def)
  have ok: "\<forall>k. ce_ok e k" using assms(1) by (simp add: faithful_env_def)
  show ?thesis
  proof (cases "mf_files m = []")
    case True
    then have "rewind_turns e [turn] rep v = (Inr rep, ?v)" using v m ok by (simp add: bnd_cp_read ret_def)
    moreover have "cp_fs t = cp_fs s" using sn(2) True by (auto simp: recorded_def)
    ultimately show ?thesis using dirs by auto
  next
    case False
    obtain out w where "rewind_manifest e turn m ?v = (Inr out, w)" "ro_failed out = []" "cp_turns w = cp_turns ?v"
        "same_dirs (cp_fs s) (cp_fs w)"
        "\<forall>f. \<not> binary_in e ps f \<longrightarrow> \<not> too_large (cp_fs s f) \<longrightarrow> cp_fs ?v f = cp_fs t f \<longrightarrow> cp_fs w f = cp_fs s f"
      using rewind_recorded [OF assms(1,2) sn(2) dirs v] by blast
    then show ?thesis using False v m ok by (auto simp: cp_read_run bnd_def ret_def)
  qed
qed

lemma range_restores:
  assumes "faithful_env e" and "one_spelling e ps" and "kept_by_pruning e K"
    and "fst ` set ts \<subseteq> K" and "distinct (map fst ts)" and "\<forall>tc\<in>set ts. cp_turns s (fst tc) = None"
    and "\<forall>tc\<in>set ts. \<forall>c\<in>set (snd tc). set (fst c) \<subseteq> ps \<and> captures_first c"
  shows "\<exists>u. for_each (run_turn e) ts s = (Inr (), u) \<and> same_dirs (cp_fs s) (cp_fs u) \<and>
    (\<forall>k\<in>K - fst ` set ts. cp_turns u k = cp_turns s k) \<and>
    (\<forall>v rep. (\<forall>k\<in>K. cp_turns v k = cp_turns u k) \<longrightarrow> same_dirs (cp_fs u) (cp_fs v) \<longrightarrow>
      (\<exists>rep' w. rewind_turns e (rev (map fst ts)) rep v = (Inr rep', w) \<and> rrr_failed rep' = rrr_failed rep \<and>
        cp_turns w = cp_turns v \<and> same_dirs (cp_fs s) (cp_fs w) \<and>
        (\<forall>f. restored_upto e ps ts f s \<longrightarrow> cp_fs v f = cp_fs u f \<longrightarrow> cp_fs w f = cp_fs s f)))"
  using assms(4-7)
proof (induction ts arbitrary: s)
  case Nil
  then show ?case by (auto simp: ret_def same_dirs_def)
next
  case (Cons tc ts)
  obtain turn cs where tc: "tc = (turn, cs)" by force
  have turn: "turn \<in> K" "turn \<notin> fst ` set ts" using Cons.prems tc by (auto simp: distinct_map)
  obtain t where t: "run_turn e tc s = (Inr (), t)" "in_turn e ps K turn s t"
    using run_turn_in_turn [OF assms(1-3) turn(1), of s cs] Cons.prems tc by auto
  have fresh: "\<forall>tc\<in>set ts. cp_turns t (fst tc) = None"
  proof
    fix x assume "x \<in> set ts"
    then have "fst x \<in> K - {turn}" "cp_turns s (fst x) = None" using Cons.prems(1,3) turn(2) by auto
    then show "cp_turns t (fst x) = None" using t(2) by (simp add: in_turn_def)
  qed
  obtain u where u: "for_each (run_turn e) ts t = (Inr (), u)" "same_dirs (cp_fs t) (cp_fs u)"
      "\<forall>k\<in>K - fst ` set ts. cp_turns u k = cp_turns t k"
    and undone: "\<And>v rep. \<forall>k\<in>K. cp_turns v k = cp_turns u k \<Longrightarrow> same_dirs (cp_fs u) (cp_fs v) \<Longrightarrow>
      \<exists>rep' w. rewind_turns e (rev (map fst ts)) rep v = (Inr rep', w) \<and> rrr_failed rep' = rrr_failed rep \<and>
        cp_turns w = cp_turns v \<and> same_dirs (cp_fs t) (cp_fs w) \<and>
        (\<forall>f. restored_upto e ps ts f t \<longrightarrow> cp_fs v f = cp_fs u f \<longrightarrow> cp_fs w f = cp_fs t f)"
    using Cons.IH [of t] fresh Cons.prems by auto
  have small: "restored_upto e ps ts f t \<and> \<not> binary_in e ps f \<and> \<not> too_large (cp_fs s f)" if "restored_upto e ps (tc # ts) f s" for f
    using that obeys_runD [OF turn_stays_small [of e f cs turn] t(1) [unfolded tc]] tc
    by (auto simp: restored_upto_def keeps_def)
  have "\<exists>rep' w. rewind_turns e (rev (map fst (tc # ts))) rep v = (Inr rep', w) \<and> rrr_failed rep' = rrr_failed rep \<and>
      cp_turns w = cp_turns v \<and> same_dirs (cp_fs s) (cp_fs w) \<and>
      (\<forall>f. restored_upto e ps (tc # ts) f s \<longrightarrow> cp_fs v f = cp_fs u f \<longrightarrow> cp_fs w f = cp_fs s f)"
    if v: "\<forall>k\<in>K. cp_turns v k = cp_turns u k" "same_dirs (cp_fs u) (cp_fs v)" for v rep
  proof -
    obtain rep1 x where x: "rewind_turns e (rev (map fst ts)) rep v = (Inr rep1, x)" "rrr_failed rep1 = rrr_failed rep"
        "cp_turns x = cp_turns v" "same_dirs (cp_fs t) (cp_fs x)"
        "\<forall>f. restored_upto e ps ts f t \<longrightarrow> cp_fs v f = cp_fs u f \<longrightarrow> cp_fs x f = cp_fs t f"
      using undone [OF v] by blast
    have "cp_turns x turn = cp_turns t turn" using x(3) v(1) u(3) turn by simp
    then obtain rep2 w where w: "rewind_turns e [turn] rep1 x = (Inr rep2, w)" "rrr_failed rep2 = rrr_failed rep1"
        "cp_turns w = cp_turns x" "same_dirs (cp_fs s) (cp_fs w)"
        "\<forall>f. \<not> binary_in e ps f \<longrightarrow> \<not> too_large (cp_fs s f) \<longrightarrow> cp_fs x f = cp_fs t f \<longrightarrow> cp_fs w f = cp_fs s f"
      using rewind_turns_recorded [OF assms(1,2) t(2) turn(1) _ x(4)] by blast
    have "rewind_turns e (rev (map fst (tc # ts))) rep v = (Inr rep2, w)"
      using x(1) w(1) tc by (simp only: list.map rev.simps rewind_turns_append fst_conv bnd_def) simp
    then show ?thesis using x(2,3,5) w(2-5) small by metis
  qed
  moreover have "same_dirs (cp_fs s) (cp_fs u)" using t(2) u(2) by (simp add: in_turn_def same_dirs_def)
  moreover have "for_each (run_turn e) (tc # ts) s = (Inr (), u)" using t(1) u(1) by (simp add: bnd_def)
  moreover have "\<forall>k\<in>K - fst ` set (tc # ts). cp_turns u k = cp_turns s k" using t(2) u(3) tc by (auto simp: in_turn_def)
  ultimately show ?case by blast
qed

text \<open>
  Undoing a range of turns. Turns run one after the other, each capturing before it edits;
  rewinding their snapshots newest first, as \<open>rewind_range\<close> does with the ids given oldest first,
  has no failure and gives every file the content it had before the oldest turn, however often
  later turns edited it again; excepted are binary files and files that are ever too large.
\<close>

theorem undo_range_restores:
  assumes "faithful_env e" and "one_spelling e ps" and "kept_by_pruning e (fst ` set ts)"
    and "distinct (map fst ts)" and "\<forall>tc\<in>set ts. cp_turns s (fst tc) = None"
    and "\<forall>tc\<in>set ts. \<forall>c\<in>set (snd tc). set (fst c) \<subseteq> ps \<and> captures_first c"
  shows "\<exists>t rep u. for_each (run_turn e) ts s = (Inr (), t) \<and> rewind_range e (map fst ts) t = (Inr rep, u) \<and>
    rrr_failed rep = [] \<and> (\<forall>f. restored_upto e ps ts f s \<longrightarrow> cp_fs u f = cp_fs s f)"
proof -
  obtain t where "for_each (run_turn e) ts s = (Inr (), t)"
    and "\<forall>v rep. (\<forall>k\<in>fst ` set ts. cp_turns v k = cp_turns t k) \<longrightarrow> same_dirs (cp_fs t) (cp_fs v) \<longrightarrow>
      (\<exists>rep' w. rewind_turns e (rev (map fst ts)) rep v = (Inr rep', w) \<and> rrr_failed rep' = rrr_failed rep \<and>
        cp_turns w = cp_turns v \<and> same_dirs (cp_fs s) (cp_fs w) \<and>
        (\<forall>f. restored_upto e ps ts f s \<longrightarrow> cp_fs v f = cp_fs t f \<longrightarrow> cp_fs w f = cp_fs s f))"
    using range_restores [OF assms(1-3) subset_refl assms(4-6)] by blast
  moreover have "same_dirs (cp_fs t) (cp_fs t)" by (simp add: same_dirs_def)
  ultimately show ?thesis unfolding rewind_range_def by fastforce
qed

section \<open>Pruning\<close>

lemma remove_dirs_ok:
  assumes "\<forall>k. ce_ok e k"
  shows "\<exists>t. remove_dirs e ds s = (Inr (length ds), t) \<and> cp_fs t = cp_fs s \<and>
    (\<forall>d. cp_turns t d = (if d \<in> set ds then None else cp_turns s d))"
proof (induction ds arbitrary: s)
  case (Cons d ds)
  obtain t where "remove_dirs e ds (s\<lparr>cp_tick := Suc (cp_tick s), cp_turns := (cp_turns s)(d := None)\<rparr>) = (Inr (length ds), t)"
      "cp_fs t = cp_fs s" "\<forall>x. cp_turns t x = (if x \<in> set ds then None else ((cp_turns s)(d := None)) x)"
    using Cons [of "s\<lparr>cp_tick := Suc (cp_tick s), cp_turns := (cp_turns s)(d := None)\<rparr>"] by auto
  then show ?case using assms by (auto simp: bnd_def cp_ask_def)
qed (simp add: ret_def)

lemma newest_first_split:
  assumes "a \<in> set (take keep (newest_first ls))" and "b \<in> set (drop keep (newest_first ls))"
  shows "snd b \<le> snd a"
proof -
  have "sorted (map (\<lambda>p. - int (snd p)) (newest_first ls))" by (simp add: newest_first_def)
  then have "sorted (map (\<lambda>p. - int (snd p)) (take keep (newest_first ls) @ drop keep (newest_first ls)))" by simp
  then show ?thesis using assms unfolding map_append sorted_append by force
qed

lemma newest_first_same: "distinct (newest_first ls) = distinct ls" "set (newest_first ls) = set ls" "length (newest_first ls) = length ls"
  by (simp_all add: newest_first_def)

text \<open>
  Pruning keeps the newest snapshots. When every removal succeeds and the listing is that of
  the store, exactly the snapshots beyond the given number go, they are counted, none of them is
  newer than one that stays, and at most that number stays.
\<close>

theorem prune_keeps_newest:
  assumes "\<forall>k. ce_ok e k" and "ce_listing e (cp_tick s) = ls" and "distinct (map fst ls)" and "fst ` set ls = dom (cp_turns s)"
  shows "\<exists>t. prune e keep s = (Inr (length ls - keep), t) \<and> cp_fs t = cp_fs s \<and> card (dom (cp_turns t)) = min keep (length ls) \<and>
    (\<forall>a b ta tb. (a, ta) \<in> set ls \<longrightarrow> (b, tb) \<in> set ls \<longrightarrow> a \<in> dom (cp_turns t) \<longrightarrow> b \<notin> dom (cp_turns t) \<longrightarrow> tb \<le> ta) \<and>
    (\<forall>a\<in>dom (cp_turns t). cp_turns t a = cp_turns s a)"
proof -
  let ?stay = "take keep (newest_first ls)" and ?go = "drop keep (newest_first ls)"
  have parts: "set ?stay \<union> set ?go = set ls" using newest_first_same(2) by (metis append_take_drop_id set_append)
  have "distinct (map fst (newest_first ls))"
    using assms(3) by (simp add: distinct_map newest_first_same)
  then have split: "distinct (map fst ?stay @ map fst ?go)" by (simp flip: map_append)
  obtain t where t: "prune e keep s = (Inr (length ls - keep), t)" "cp_fs t = cp_fs s"
      "\<forall>d. cp_turns t d = (if d \<in> fst ` set ?go then None else cp_turns s d)"
    using remove_dirs_ok [OF assms(1), of "map fst ?go" "s\<lparr>cp_tick := Suc (cp_tick s)\<rparr>"] assms(1,2)
    by (auto simp: prune_def cp_ask_def bnd_def prune_victims_def newest_first_same)
  have disj: "fst ` set ?stay \<inter> fst ` set ?go = {}" using split by auto
  have cover: "fst ` set ?stay \<union> fst ` set ?go = dom (cp_turns s)" using parts assms(4) by (metis image_Un)
  have "d \<in> dom (cp_turns t) \<longleftrightarrow> d \<in> dom (cp_turns s) - fst ` set ?go" for d
    using spec [OF t(3), of d] by (cases "d \<in> fst ` set ?go") (simp_all add: dom_def)
  then have "dom (cp_turns t) = dom (cp_turns s) - fst ` set ?go" by blast
  also have "\<dots> = fst ` set ?stay" unfolding cover [symmetric] using disj by (simp add: Un_Diff Diff_triv)
  finally have dom: "dom (cp_turns t) = fst ` set ?stay" .
  have count: "card (dom (cp_turns t)) = min keep (length ls)"
    unfolding dom using split distinct_card [of "map fst ?stay"] newest_first_same(3) [of ls] by (simp add: min.commute)
  have newer: "tb \<le> ta" if "(a, ta) \<in> set ls" "(b, tb) \<in> set ls" "a \<in> dom (cp_turns t)" "b \<notin> dom (cp_turns t)" for a b ta tb
  proof -
    have "(a, ta) \<notin> set ?go" using that(3) disj unfolding dom by (metis IntI empty_iff fst_conv imageI)
    moreover have "(b, tb) \<notin> set ?stay" using that(4) unfolding dom by (metis fst_conv imageI)
    ultimately have "(a, ta) \<in> set ?stay" "(b, tb) \<in> set ?go" using that(1,2) parts by auto
    then show ?thesis using newest_first_split [of "(a, ta)" keep ls "(b, tb)"] by simp
  qed
  have same: "cp_turns t a = cp_turns s a" if "a \<in> dom (cp_turns t)" for a
    using spec [OF t(3), of a] that by (cases "a \<in> fst ` set ?go") (simp_all add: dom_def)
  show ?thesis using t(1,2) count newer same by (intro exI [of _ t] conjI allI impI ballI) simp_all
qed
section \<open>Examples\<close>

definition plain_locate :: "string \<Rightarrow> string" where
  "plain_locate p = concat (map (\<lambda>c. case c of RootDir \<Rightarrow> ''/'' | CurDir \<Rightarrow> ''./'' | ParentDir \<Rightarrow> ''../'' | Normal n \<Rightarrow> n @ ''/'')
     (path_components p))"

definition plain_env :: cp_env where
  "plain_env = \<lparr>ce_root = ''/w'', ce_keep_n = 3, ce_locate = plain_locate, ce_ok = (\<lambda>_. True), ce_now = (\<lambda>_. ''now''),
     ce_listing = (\<lambda>_. [])\<rparr>"

definition plain_store :: cp where
  "plain_store = \<lparr>cp_fs = [''/w/a/b/'' \<mapsto> FileNode ''old''], cp_turns = Map.empty, cp_tick = 0\<rparr>"

lemma plain_faithful: "faithful_env plain_env"
  by (simp add: faithful_env_def plain_env_def respects_components_def plain_locate_def)

lemma plain_kept: "kept_by_pruning plain_env K"
  by (simp add: kept_by_pruning_def plain_env_def prune_victims_def newest_first_def)

lemma plain_files: "file_of plain_env ''a/b'' = ''/w/a/b/''" "file_of plain_env ''c'' = ''/w/c/''"
    "key_of plain_env ''a/b'' = ''a/b''" "key_of plain_env ''c'' = ''c''"
    "file_of plain_env ''a/./b'' = ''/w/a/b/''" "key_of plain_env ''a/./b'' = ''a/./b''"
    "\<not> is_binary_path (normalize_abs (ce_root plain_env) ''a/b'')" "\<not> is_binary_path (normalize_abs (ce_root plain_env) ''c'')"
  by code_simp+

definition edit_call :: "string \<Rightarrow> string \<Rightarrow> tool_call" where
  "edit_call p c = ([p], [(p, Some c)])"

abbreviation plain_calls :: "tool_call list" where
  "plain_calls \<equiv> [edit_call ''a/b'' ''one'', edit_call ''c'' ''two'', edit_call ''a/b'' ''three'']"

lemma plain_spelling: "one_spelling plain_env {''a/b'', ''c''}"
  by (simp add: one_spelling_def plain_files)

lemma plain_binary: "\<not> binary_in plain_env {''a/b'', ''c''} f"
  by (simp add: binary_in_def plain_files)

theorem undo_restores_witness:
  "\<exists>t out u. run_turn plain_env (''t'', plain_calls) plain_store = (Inr (), t) \<and> rewind plain_env ''t'' t = (Inr out, u) \<and>
     ro_failed out = [] \<and> cp_fs u ''/w/a/b/'' = Some (FileNode ''old'') \<and> cp_fs u ''/w/c/'' = None"
proof -
  have ps: "(\<Union>c\<in>set plain_calls. set (fst c)) = {''a/b'', ''c''}" by (auto simp: edit_call_def)
  have "cp_turns plain_store ''t'' = None" by (simp add: plain_store_def)
  moreover have "\<forall>c\<in>set plain_calls. captures_first c" by (simp add: captures_first_def edit_call_def)
  ultimately obtain t out u where "run_turn plain_env (''t'', plain_calls) plain_store = (Inr (), t)"
      "rewind plain_env ''t'' t = (Inr out, u)" "ro_failed out = []"
      "\<forall>f. \<not> too_large (cp_fs plain_store f) \<longrightarrow> cp_fs u f = cp_fs plain_store f"
    using undo_restores [of plain_env plain_calls "''t''" plain_store] plain_faithful plain_kept plain_spelling plain_binary
    unfolding ps by blast
  moreover have "cp_fs plain_store ''/w/a/b/'' = Some (FileNode ''old'')" "cp_fs plain_store ''/w/c/'' = None"
    by (simp_all add: plain_store_def)
  moreover have "\<not> too_large (Some (FileNode ''old''))" "\<not> too_large None" by (simp_all add: too_large_def MAX_SNAPSHOT_BYTES_def)
  ultimately show ?thesis by metis
qed

theorem undo_range_restores_witness:
  "\<exists>t rep u. for_each (run_turn plain_env) [(''t'', plain_calls), (''u'', plain_calls)] plain_store = (Inr (), t) \<and>
     rewind_range plain_env [''t'', ''u''] t = (Inr rep, u) \<and> rrr_failed rep = [] \<and>
     cp_fs u ''/w/a/b/'' = Some (FileNode ''old'')"
proof -
  let ?ts = "[(''t'', plain_calls), (''u'', plain_calls)]"
  have "\<forall>tc\<in>set ?ts. \<forall>c\<in>set (snd tc). set (fst c) \<subseteq> {''a/b'', ''c''} \<and> captures_first c"
    by (simp add: captures_first_def edit_call_def)
  moreover have "\<forall>tc\<in>set ?ts. cp_turns plain_store (fst tc) = None" by (simp add: plain_store_def)
  ultimately obtain t rep u where "for_each (run_turn plain_env) ?ts plain_store = (Inr (), t)"
      "rewind_range plain_env (map fst ?ts) t = (Inr rep, u)" "rrr_failed rep = []"
      "\<forall>f. restored_upto plain_env {''a/b'', ''c''} ?ts f plain_store \<longrightarrow> cp_fs u f = cp_fs plain_store f"
    using undo_range_restores [OF plain_faithful plain_spelling plain_kept, of ?ts plain_store] by auto
  moreover have old: "cp_fs plain_store ''/w/a/b/'' = Some (FileNode ''old'')" by (simp add: plain_store_def)
  moreover have "restored_upto plain_env {''a/b'', ''c''} ?ts ''/w/a/b/'' plain_store"
    unfolding restored_upto_def old using plain_binary
    by (simp add: edits_small_def edit_call_def too_large_def MAX_SNAPSHOT_BYTES_def)
  ultimately show ?thesis by auto
qed

theorem rewind_touches_only_manifest_witness:
  "cp_fs (snd (rewind plain_env ''t'' plain_store)) ''/w/a/b/'' = Some (FileNode ''old'')"
proof -
  obtain r t where run: "rewind plain_env ''t'' plain_store = (r, t)" by force
  have "cp_fs t ''/w/a/b/'' = cp_fs plain_store ''/w/a/b/''"
    using rewind_touches_only_manifest [OF run, of "''/w/a/b/''"] by (simp add: plain_store_def)
  then show ?thesis using run by (simp add: plain_store_def)
qed

abbreviation aged_env :: cp_env where
  "aged_env \<equiv> plain_env\<lparr>ce_listing := \<lambda>_. [(''x'', 4), (''y'', 9), (''z'', 6)]\<rparr>"

abbreviation aged_store :: cp where
  "aged_store \<equiv> plain_store\<lparr>cp_turns := (\<lambda>d. if d \<in> {''x'', ''y'', ''z''} then Some \<lparr>sn_manifest = None, sn_blobs = Map.empty\<rparr> else None)\<rparr>"

theorem prune_keeps_newest_witness:
  "\<exists>t. prune aged_env 2 aged_store = (Inr 1, t) \<and> card (dom (cp_turns t)) = 2"
proof -
  let ?ls = "[(''x'', 4), (''y'', 9), (''z'', 6)] :: (string \<times> nat) list"
  have env: "\<forall>k. ce_ok aged_env k" "ce_listing aged_env (cp_tick aged_store) = ?ls" by (simp_all add: plain_env_def)
  have ids: "distinct (map fst ?ls)" "fst ` set ?ls = dom (cp_turns aged_store)"
    by (auto simp: plain_store_def split: if_splits)
  obtain t where "prune aged_env 2 aged_store = (Inr (length ?ls - 2), t)" "card (dom (cp_turns t)) = min 2 (length ?ls)"
    using prune_keeps_newest [OF env ids, of 2] by blast
  then show ?thesis by (intro exI [of _ t]) simp
qed

text \<open>
  One file under two spellings. The snapshot's key is the path as it was spelled, so a turn that
  edits \<open>a/b\<close> and then \<open>a/./b\<close> saves the file twice, the second time with the first edit in it;
  rewinding writes both contents back in that order, reports two restored files and no failure, and
  leaves the first edit in place.
\<close>

theorem two_spellings_lose_the_past:
  "\<exists>t out u. run_turn plain_env (''t'', [edit_call ''a/b'' ''one'', edit_call ''a/./b'' ''two'']) plain_store = (Inr (), t) \<and>
     rewind plain_env ''t'' t = (Inr out, u) \<and> ro_restored out = 2 \<and> ro_failed out = [] \<and>
     file_of plain_env ''a/./b'' = file_of plain_env ''a/b'' \<and>
     cp_fs plain_store (file_of plain_env ''a/b'') = Some (FileNode ''old'') \<and>
     cp_fs u (file_of plain_env ''a/b'') = Some (FileNode ''one'')"
proof -
  let ?m = "bnd (run_turn plain_env (''t'', [edit_call ''a/b'' ''one'', edit_call ''a/./b'' ''two''])) (\<lambda>_. rewind plain_env ''t'')"
  have "case ?m plain_store of (Inr out, u) \<Rightarrow> ro_restored out = 2 \<and> ro_failed out = [] \<and> cp_fs u ''/w/a/b/'' = Some (FileNode ''one'')
      | _ \<Rightarrow> False"
    by code_simp
  then obtain out u where "?m plain_store = (Inr out, u)"
      "ro_restored out = 2 \<and> ro_failed out = [] \<and> cp_fs u ''/w/a/b/'' = Some (FileNode ''one'')"
    by (cases "?m plain_store") (auto split: sum.splits)
  then show ?thesis unfolding bnd_Inr_iff by (auto simp: plain_files plain_store_def)
qed

end
