(* ===== verification/Tool_Gate.thy ===== *)
theory Tool_Gate
  imports Apply_Patch Guardian Checkpoint_Undo
begin

text \<open>
  The ways a tool call takes from the model to the tool: the root port of the daemon
  (\<open>daemon/run_loop.rs\<close>), the port of a sub-agent (\<open>teams/guarding_tool_port.rs\<close>), the headless
  port (\<open>cli/headless_runtime.rs\<close>) and the HTTP handler (\<open>daemon/handlers/tools.rs\<close>). Each puts
  policy, approvals and guardian in front of the registry (\<open>tools/mod.rs\<close>), which captures the
  files of an edit before it runs the tool. A run is recorded by the calls that reach a tool. What
  a tool does and what the user answers are parameters.
\<close>

section \<open>Modes\<close>

datatype root_permission_mode = NormalMode | AcceptEdits | Yolo

fun auto_approves :: "root_permission_mode \<Rightarrow> string \<Rightarrow> bool" where
  "auto_approves Yolo tool_name = True"
| "auto_approves AcceptEdits tool_name = (tool_name \<in> {''file_write'', ''file_edit'', ''apply_patch''})"
| "auto_approves NormalMode tool_name = False"

datatype effective_mode = PlanMode | NormalEffective | AcceptEditsEffective | YoloEffective

datatype subagent_ask_strategy = EscalateToUser | DenyAsk

text \<open>The mode store: a project without an entry is in normal mode.\<close>

type_synonym mode_store = "string \<rightharpoonup> root_permission_mode \<times> effective_mode"

definition mode_get :: "mode_store \<Rightarrow> string \<Rightarrow> root_permission_mode \<times> effective_mode" where
  "mode_get modes workdir = (case modes workdir of Some entry \<Rightarrow> entry | None \<Rightarrow> (NormalMode, NormalEffective))"

definition mode_set :: "mode_store \<Rightarrow> string \<Rightarrow> root_permission_mode \<Rightarrow> effective_mode \<Rightarrow> mode_store" where
  "mode_set modes workdir root_mode effective = modes(workdir \<mapsto> (root_mode, effective))"

section \<open>The registry\<close>

record gate_env =
  ge_paths :: path_env
  ge_policy :: policy
  ge_tools :: "string \<Rightarrow> tool_info option"
  ge_result :: "string \<Rightarrow> json \<Rightarrow> call_error + string"
  ge_root_cause_pending :: bool
  ge_guardian :: guardian_config
  ge_root :: string
  ge_store :: cp_env

record tool_request =
  rq_name :: string
  rq_arguments :: json
  rq_turn_id :: "string option"
  rq_session_id :: "string option"

text \<open>The state: the shared approved rules and those per session, modes, the answers of the user still to come, the logs of a
  sub-agent, the snapshots, and the calls that reached a tool.\<close>

record gate =
  ga_rules :: "string set"
  ga_approved :: "(string \<times> string) set"
  ga_modes :: mode_store
  ga_answers :: "bool list"
  ga_denials :: "string list"
  ga_events :: "string list"
  ga_store :: cp
  ga_calls :: "(string \<times> json) list"

record tool_response =
  rs_success :: bool
  rs_code :: string

definition tool_fail :: "string \<Rightarrow> tool_response" where
  "tool_fail code = \<lparr>rs_success = False, rs_code = code\<rparr>"

definition pre_edit_paths :: "string \<Rightarrow> json \<Rightarrow> string list" where
  "pre_edit_paths tool_name args =
     (if tool_name \<in> {''file_edit'', ''file_write''}
      then (case str_field args ''path'' of Some p \<Rightarrow> [p] | None \<Rightarrow> [])
      else if tool_name = ''apply_patch''
      then (case str_field args ''patch'' of Some patch \<Rightarrow> extract_patch_paths patch | None \<Rightarrow> [])
      else [])"

definition resolve_tool_path :: "string \<Rightarrow> string option \<Rightarrow> string" where
  "resolve_tool_path file_path workdir =
     (if prefix ''/'' file_path then file_path
      else case workdir of Some dir \<Rightarrow> path_join dir file_path | None \<Rightarrow> file_path)"

definition maybe_capture_pre_edit ::
    "cp_env \<Rightarrow> effective_mode \<Rightarrow> string option \<Rightarrow> string option \<Rightarrow> string \<Rightarrow> json \<Rightarrow> cp \<Rightarrow> cp" where
  "maybe_capture_pre_edit e mode turn workdir tool_name args s =
     (case turn of
        None \<Rightarrow> s
      | Some t \<Rightarrow>
          if mode = PlanMode then s
          else snd (capture_files e t (map (\<lambda>p. resolve_tool_path p workdir) (filter (\<lambda>p. p \<noteq> []) (pre_edit_paths tool_name args))) s))"

definition registry_execute ::
    "gate_env \<Rightarrow> effective_mode \<Rightarrow> string option \<Rightarrow> string option \<Rightarrow> string \<Rightarrow> json \<Rightarrow> gate \<Rightarrow> (call_error + string) \<times> gate" where
  "registry_execute e mode turn workdir name args s =
     (case ge_tools e name of
        None \<Rightarrow> (Inl \<lparr>te_message = ''Tool not found: '' @ name, te_code = ''tool_not_found''\<rparr>, s)
      | Some tool \<Rightarrow>
          if \<not> tl_read_only tool \<and> name \<noteq> ''submit_specialist_report'' \<and> ge_root_cause_pending e
          then (Inl \<lparr>te_message = ''the static Work-Graph is waiting for its root-cause specialist report'',
                     te_code = ''root_cause_pending''\<rparr>, s)
          else (ge_result e name args,
                s\<lparr>ga_store := maybe_capture_pre_edit (ge_store e) mode turn workdir name args (ga_store s),
                  ga_calls := ga_calls s @ [(name, args)]\<rparr>))"

definition validate_tool_call_shared :: "gate_env \<Rightarrow> string set \<Rightarrow> string \<Rightarrow> json \<Rightarrow> call_error + policy_decision" where
  "validate_tool_call_shared e rules tool_name args =
     (case ge_tools e tool_name of
        Some t \<Rightarrow> validate_tool_call (ge_paths e) (ge_policy e) t tool_name args rules
      | None \<Rightarrow> Inr Allow)"

definition respond :: "(call_error + string) \<times> gate \<Rightarrow> tool_response \<times> gate" where
  "respond r = (case r of (Inr _, s) \<Rightarrow> (\<lparr>rs_success = True, rs_code = []\<rparr>, s) | (Inl err, s) \<Rightarrow> (tool_fail (te_code err), s))"

text \<open>The turn's snapshot is opened first; a failure is only logged.\<close>

definition open_snapshot :: "gate_env \<Rightarrow> string option \<Rightarrow> gate \<Rightarrow> gate" where
  "open_snapshot e turn s =
     (case turn of None \<Rightarrow> s | Some t \<Rightarrow> s\<lparr>ga_store := snd (store_begin_turn (ge_store e) t (ga_store s))\<rparr>)"

definition critical_call :: "string \<Rightarrow> json \<Rightarrow> bool" where
  "critical_call name args =
     (case shell_text_for_tool name args of Some cmd \<Rightarrow> Critical \<le> classify_risk cmd | None \<Rightarrow> False)"

text \<open>The bridge: the next answer; without one the request is denied.\<close>

definition bridge_answer :: "gate \<Rightarrow> bool \<times> gate" where
  "bridge_answer s = (case ga_answers s of [] \<Rightarrow> (False, s) | a # as \<Rightarrow> (a, s\<lparr>ga_answers := as\<rparr>))"

section \<open>The root port\<close>

datatype ask_decision = ExecuteAsk | EscalateAsk

definition decide_ask :: "bool \<Rightarrow> bool \<Rightarrow> ask_decision" where
  "decide_ask rule_approved mode_auto = (if rule_approved \<or> mode_auto then ExecuteAsk else EscalateAsk)"

definition root_resolve_ask :: "gate_env \<Rightarrow> permission_request \<Rightarrow> gate \<Rightarrow> (tool_response + unit) \<times> gate" where
  "root_resolve_ask e perm s =
     (if decide_ask (pr_session_rule perm \<in> ga_rules s) (auto_approves (fst (mode_get (ga_modes s) (ge_root e))) (pr_tool_name perm)) = ExecuteAsk
      then (Inr (), s)
      else case bridge_answer s of
        (True, s') \<Rightarrow> (Inr (), s'\<lparr>ga_rules := insert (pr_session_rule perm) (ga_rules s')\<rparr>)
      | (False, s') \<Rightarrow> (Inl (tool_fail ''permission_denied''), s'))"

text \<open>The first two steps of the pipeline: policy and approval.\<close>

definition root_admission :: "gate_env \<Rightarrow> tool_request \<Rightarrow> gate \<Rightarrow> (tool_response + unit) \<times> gate" where
  "root_admission e req s =
     (case validate_tool_call_shared e (ga_rules s) (rq_name req) (rq_arguments req) of
        Inr Allow \<Rightarrow> (Inr (), s)
      | Inr (Ask perm) \<Rightarrow> root_resolve_ask e perm s
      | Inl err \<Rightarrow> (Inl (tool_fail (te_code err)), s))"

definition root_execute :: "gate_env \<Rightarrow> tool_request \<Rightarrow> gate \<Rightarrow> tool_response \<times> gate" where
  "root_execute e req s =
     (case root_admission e req s of
        (Inl resp, s') \<Rightarrow> (resp, s')
      | (Inr _, s') \<Rightarrow>
          if critical_call (rq_name req) (rq_arguments req) then (tool_fail ''guardian_blocked'', s')
          else if rq_name req = ''task_management''
          then respond (ge_result e (rq_name req) (rq_arguments req), s'\<lparr>ga_calls := ga_calls s' @ [(rq_name req, rq_arguments req)]\<rparr>)
          else respond (registry_execute e (snd (mode_get (ga_modes s') (ge_root e))) (rq_turn_id req) (Some (ge_root e))
                 (rq_name req) (rq_arguments req) (open_snapshot e (rq_turn_id req) s')))"

section \<open>The port of a sub-agent\<close>

record subagent =
  sa_allowed :: "string set"
  sa_root_mode :: root_permission_mode
  sa_ask_strategy :: subagent_ask_strategy
  sa_has_bridge :: bool
  sa_effective_mode :: effective_mode
  sa_workdir :: "string option"
  sa_origin_turn_id :: "string option"

definition record_event :: "string \<Rightarrow> gate \<Rightarrow> gate" where
  "record_event kind s = s\<lparr>ga_events := ga_events s @ [kind]\<rparr>"

definition record_denial :: "string \<Rightarrow> gate \<Rightarrow> gate" where
  "record_denial reason s = record_event ''permission_denied'' (s\<lparr>ga_denials := ga_denials s @ [reason]\<rparr>)"

definition subagent_resolve_ask :: "subagent \<Rightarrow> permission_request \<Rightarrow> gate \<Rightarrow> (tool_response + unit) \<times> gate" where
  "subagent_resolve_ask a perm s =
     (if pr_session_rule perm \<in> ga_rules s then (Inr (), s)
      else if auto_approves (sa_root_mode a) (pr_tool_name perm) then (Inr (), record_event ''root_mode_bypass'' s)
      else if sa_ask_strategy a = DenyAsk then (Inl (tool_fail ''permission_denied''), record_denial ''permission_denied'' s)
      else if \<not> sa_has_bridge a then (Inl (tool_fail ''approval_unavailable''), record_denial ''approval_unavailable'' s)
      else case bridge_answer (record_event ''approval_requested'' s) of
        (True, s') \<Rightarrow> (Inr (), record_event ''approval_resolved'' s')
      | (False, s') \<Rightarrow> (Inl (tool_fail ''permission_denied''), record_denial ''permission_denied'' (record_event ''approval_resolved'' s')))"

definition subagent_blocked :: "gate_env \<Rightarrow> string \<Rightarrow> json \<Rightarrow> bool" where
  "subagent_blocked e name args =
     (case shell_text_for_tool name args of
        Some cmd \<Rightarrow> \<not> gd_allowed (guardian_check (ge_guardian e) name cmd) | None \<Rightarrow> False)"

definition subagent_admission :: "gate_env \<Rightarrow> subagent \<Rightarrow> tool_request \<Rightarrow> gate \<Rightarrow> (tool_response + unit) \<times> gate" where
  "subagent_admission e a req s =
     (case validate_tool_call_shared e (ga_rules s) (rq_name req) (rq_arguments req) of
        Inr Allow \<Rightarrow> (Inr (), s)
      | Inr (Ask perm) \<Rightarrow> subagent_resolve_ask a perm s
      | Inl err \<Rightarrow> (Inl (tool_fail (te_code err)), record_denial (te_code err) s))"

definition subagent_execute :: "gate_env \<Rightarrow> subagent \<Rightarrow> tool_request \<Rightarrow> gate \<Rightarrow> tool_response \<times> gate" where
  "subagent_execute e a req s =
     (if rq_name req \<notin> sa_allowed a then (tool_fail ''tool_not_allowed'', record_denial ''tool_not_allowed'' s)
      else
        case subagent_admission e a req s of
          (Inl resp, s') \<Rightarrow> (resp, s')
        | (Inr _, s') \<Rightarrow>
            if subagent_blocked e (rq_name req) (rq_arguments req)
            then (tool_fail ''guardian_blocked'', record_denial ''guardian_blocked'' s')
            else respond (registry_execute e (sa_effective_mode a)
                   (case sa_origin_turn_id a of Some t \<Rightarrow> Some t | None \<Rightarrow> rq_turn_id req) (sa_workdir a)
                   (rq_name req) (rq_arguments req) s'))"

section \<open>The headless port and the HTTP handler\<close>

definition headless_execute :: "gate_env \<Rightarrow> effective_mode \<Rightarrow> tool_request \<Rightarrow> gate \<Rightarrow> tool_response \<times> gate" where
  "headless_execute e mode req s =
     (if mode \<noteq> YoloEffective \<and> critical_call (rq_name req) (rq_arguments req) then (tool_fail ''guardian_blocked'', s)
      else respond (registry_execute e mode (rq_turn_id req) None (rq_name req) (rq_arguments req) (open_snapshot e (rq_turn_id req) s)))"

text \<open>\<open>hook_blocks\<close>: whether a hook before the tool stops it.\<close>

definition http_execute :: "gate_env \<Rightarrow> bool \<Rightarrow> tool_request \<Rightarrow> gate \<Rightarrow> tool_response \<times> gate" where
  "http_execute e hook_blocks req s =
     (let mode = mode_get (ga_modes s) (ge_root e);
          run = (\<lambda>s'. if hook_blocks then (tool_fail ''blocked_by_hook'', open_snapshot e (rq_turn_id req) s')
                       else respond (registry_execute e (snd mode) (rq_turn_id req) (Some (ge_root e)) (rq_name req) (rq_arguments req)
                              (open_snapshot e (rq_turn_id req) s'))) in
      case validate_tool_call_shared e (ga_rules s) (rq_name req) (rq_arguments req) of
        Inr Allow \<Rightarrow> run s
      | Inr (Ask perm) \<Rightarrow>
          if ((case rq_session_id req of Some i \<Rightarrow> i | None \<Rightarrow> ''default''), pr_session_rule perm) \<in> ga_approved s \<or>
             auto_approves (fst mode) (rq_name req)
          then run s
          else (tool_fail ''permission_required'', s)
      | Inl err \<Rightarrow> (tool_fail (te_code err), s))"

definition approve_tool :: "string \<Rightarrow> gate \<Rightarrow> gate" where
  "approve_tool rule s = s\<lparr>ga_rules := insert rule (ga_rules s), ga_approved := insert (''default'', rule) (ga_approved s)\<rparr>"

definition unapprove_tool :: "string \<Rightarrow> gate \<Rightarrow> gate" where
  "unapprove_tool rule s = s\<lparr>ga_rules := ga_rules s - {rule}, ga_approved := ga_approved s - {(''default'', rule)}\<rparr>"

section \<open>What reaches a tool\<close>

lemma respond_state [simp]: "snd (respond (r, s)) = s"
  by (cases r) (simp_all add: respond_def)

lemma respond_success [simp]: "rs_success (fst (respond (r, s))) \<longleftrightarrow> (\<exists>x. r = Inr x)"
  by (cases r) (simp_all add: respond_def tool_fail_def)

lemma open_snapshot_fields [simp]:
  "ga_calls (open_snapshot e turn s) = ga_calls s" "ga_rules (open_snapshot e turn s) = ga_rules s"
  "ga_denials (open_snapshot e turn s) = ga_denials s"
  by (simp_all add: open_snapshot_def split: option.split)

definition registry_admits :: "gate_env \<Rightarrow> string \<Rightarrow> bool" where
  "registry_admits e name \<longleftrightarrow>
     (\<exists>tool. ge_tools e name = Some tool \<and> (tl_read_only tool \<or> name = ''submit_specialist_report'' \<or> \<not> ge_root_cause_pending e))"

lemma registry_execute_effect:
  "snd (registry_execute e mode turn workdir name args s) =
     (if registry_admits e name
      then s\<lparr>ga_store := maybe_capture_pre_edit (ge_store e) mode turn workdir name args (ga_store s), ga_calls := ga_calls s @ [(name, args)]\<rparr>
      else s)"
  by (auto simp: registry_execute_def registry_admits_def split: option.split)

lemma bridge_answer_fields:
  "bridge_answer s = (a, t) \<Longrightarrow> ga_calls t = ga_calls s \<and> ga_rules t = ga_rules s \<and> ga_modes t = ga_modes s \<and> ga_denials t = ga_denials s \<and>
     (a \<longrightarrow> (\<exists>as. ga_answers s = True # as \<and> ga_answers t = as))"
  by (auto simp: bridge_answer_def split: list.splits)

lemma record_fields [simp]:
  "ga_calls (record_event k s) = ga_calls s" "ga_rules (record_event k s) = ga_rules s" "ga_denials (record_event k s) = ga_denials s"
  "ga_answers (record_event k s) = ga_answers s" "ga_calls (record_denial k s) = ga_calls s" "ga_rules (record_denial k s) = ga_rules s"
  "ga_denials (record_denial k s) = ga_denials s @ [k]"
  by (simp_all add: record_event_def record_denial_def)

lemma asked_rule_new:
  assumes "validate_tool_call_shared e rules name args = Inr (Ask perm)"
  shows "pr_session_rule perm \<notin> rules \<and> pr_tool_name perm = name"
proof -
  obtain tool where "validate_tool_call (ge_paths e) (ge_policy e) tool name args rules = Inr (Ask perm)"
    using assms by (auto simp: validate_tool_call_shared_def split: option.splits)
  then show ?thesis
    using validate_rule_driven [of name "ge_paths e" "ge_policy e" tool args]
    by (auto simp: rule_driven_def ask_unless_def split: if_splits)
qed

text \<open>How a call comes to be permitted: by the policy, by the mode, or by the user's next answer.\<close>

definition permitted :: "gate_env \<Rightarrow> root_permission_mode \<Rightarrow> tool_request \<Rightarrow> gate \<Rightarrow> bool" where
  "permitted e mode req s \<longleftrightarrow>
     (case validate_tool_call_shared e (ga_rules s) (rq_name req) (rq_arguments req) of
        Inr Allow \<Rightarrow> True
      | Inr (Ask perm) \<Rightarrow> auto_approves mode (rq_name req) \<or> (\<exists>as. ga_answers s = True # as)
      | Inl err \<Rightarrow> False)"

lemma root_resolve_cases:
  assumes "root_resolve_ask e perm s = (r, t)"
  shows "ga_calls t = ga_calls s \<and> ga_modes t = ga_modes s \<and>
    (case r of
       Inl resp \<Rightarrow> ga_rules t = ga_rules s \<and> \<not> rs_success resp
     | Inr _ \<Rightarrow> pr_session_rule perm \<in> ga_rules s \<and> t = s \<or>
         auto_approves (fst (mode_get (ga_modes s) (ge_root e))) (pr_tool_name perm) \<and> t = s \<or>
         (\<exists>as. ga_answers s = True # as) \<and> ga_rules t = insert (pr_session_rule perm) (ga_rules s))"
  using assms bridge_answer_fields [of s]
  by (auto simp: root_resolve_ask_def decide_ask_def tool_fail_def split: if_splits prod.splits bool.splits)

lemma root_admission_cases:
  assumes "root_admission e req s = (d, u)"
  shows "ga_calls u = ga_calls s" "d = Inl resp \<Longrightarrow> \<not> rs_success resp"
    "d = Inr x \<Longrightarrow> permitted e (fst (mode_get (ga_modes s) (ge_root e))) req s"
    "ga_rules u = ga_rules s \<or>
      (\<exists>perm as. validate_tool_call_shared e (ga_rules s) (rq_name req) (rq_arguments req) = Inr (Ask perm) \<and>
        ga_answers s = True # as \<and> ga_rules u = insert (pr_session_rule perm) (ga_rules s))"
proof -
  let ?v = "validate_tool_call_shared e (ga_rules s) (rq_name req) (rq_arguments req)"
  consider (err) err where "?v = Inl err" | (allow) "?v = Inr Allow" | (ask) perm where "?v = Inr (Ask perm)"
    by (metis policy_decision.exhaust sum.exhaust)
  then have "ga_calls u = ga_calls s \<and> (d = Inl resp \<longrightarrow> \<not> rs_success resp) \<and>
    (d = Inr x \<longrightarrow> permitted e (fst (mode_get (ga_modes s) (ge_root e))) req s) \<and>
    (ga_rules u = ga_rules s \<or>
      (\<exists>perm as. ?v = Inr (Ask perm) \<and> ga_answers s = True # as \<and> ga_rules u = insert (pr_session_rule perm) (ga_rules s)))"
  proof cases
    case err
    then show ?thesis using assms by (auto simp: root_admission_def tool_fail_def)
  next
    case allow
    then show ?thesis using assms by (auto simp: root_admission_def permitted_def)
  next
    case (ask perm)
    then have run: "root_resolve_ask e perm s = (d, u)" using assms by (simp add: root_admission_def)
    show ?thesis
      using root_resolve_cases [OF run] asked_rule_new [OF ask] ask by (cases d) (auto simp: permitted_def)
  qed
  then show "ga_calls u = ga_calls s" "d = Inl resp \<Longrightarrow> \<not> rs_success resp"
    "d = Inr x \<Longrightarrow> permitted e (fst (mode_get (ga_modes s) (ge_root e))) req s"
    "ga_rules u = ga_rules s \<or> (\<exists>perm as. ?v = Inr (Ask perm) \<and> ga_answers s = True # as \<and>
        ga_rules u = insert (pr_session_rule perm) (ga_rules s))"
    by blast+
qed

text \<open>A run of the registry: the call is recorded exactly when the registry admits it; otherwise it fails.\<close>

lemma registry_run:
  assumes "respond (registry_execute e mode turn workdir name args s) = (resp, t)"
  shows "ga_rules t = ga_rules s \<and> ga_denials t = ga_denials s \<and>
    (if registry_admits e name
     then ga_calls t = ga_calls s @ [(name, args)] \<and> ga_store t = maybe_capture_pre_edit (ge_store e) mode turn workdir name args (ga_store s)
     else ga_calls t = ga_calls s \<and> \<not> rs_success resp)"
proof -
  obtain x v where reg: "registry_execute e mode turn workdir name args s = (x, v)" by force
  then have "t = v" using assms by (metis respond_state snd_conv)
  moreover have "v = snd (registry_execute e mode turn workdir name args s)" using reg by simp
  moreover have "\<not> rs_success resp" if "\<not> registry_admits e name"
    using that reg assms by (auto simp: respond_def registry_execute_def registry_admits_def tool_fail_def split: option.splits if_splits)
  ultimately show ?thesis using registry_execute_effect [of e mode turn workdir name args s] by auto
qed


lemma subagent_not_blocked:
  "\<not> subagent_blocked e name args \<Longrightarrow> gc_enabled (ge_guardian e) \<Longrightarrow> \<not> critical_call name args"
  using critical_refused [of "ge_guardian e" _ name]
  by (auto simp: subagent_blocked_def critical_call_def critical_top split: option.splits)

lemma subagent_resolve_cases:
  assumes "subagent_resolve_ask a perm s = (r, t)" and "pr_session_rule perm \<notin> ga_rules s"
  shows "ga_calls t = ga_calls s \<and> ga_rules t = ga_rules s \<and>
    (case r of
       Inl resp \<Rightarrow> ga_denials t = ga_denials s @ [rs_code resp] \<and> \<not> rs_success resp
     | Inr _ \<Rightarrow> ga_denials t = ga_denials s \<and>
         (auto_approves (sa_root_mode a) (pr_tool_name perm) \<or>
          (\<exists>as. ga_answers s = True # as) \<and> sa_ask_strategy a = EscalateToUser \<and> sa_has_bridge a))"
proof (cases "auto_approves (sa_root_mode a) (pr_tool_name perm) \<or> sa_ask_strategy a = DenyAsk \<or> \<not> sa_has_bridge a")
  case True
  then show ?thesis using assms by (auto simp: subagent_resolve_ask_def tool_fail_def split: if_splits)
next
  case False
  then have escalate: "sa_ask_strategy a = EscalateToUser" by (cases "sa_ask_strategy a") simp_all
  obtain b v where v: "bridge_answer (record_event ''approval_requested'' s) = (b, v)" by force
  then have run: "(r, t) = (if b then (Inr (), record_event ''approval_resolved'' v)
      else (Inl (tool_fail ''permission_denied''), record_denial ''permission_denied'' (record_event ''approval_resolved'' v)))"
    using assms False by (cases b) (simp_all add: subagent_resolve_ask_def)
  show ?thesis
    using run bridge_answer_fields [OF v] False escalate by (cases b) (simp_all add: tool_fail_def)
qed

lemma subagent_admission_cases:
  assumes adm: "subagent_admission e a req s = (d, u)"
  shows "ga_calls u = ga_calls s \<and> ga_rules u = ga_rules s \<and>
    (case d of Inl x \<Rightarrow> ga_denials u = ga_denials s @ [rs_code x] \<and> \<not> rs_success x
     | Inr _ \<Rightarrow> ga_denials u = ga_denials s \<and> permitted e (sa_root_mode a) req s)"
proof -
  let ?v = "validate_tool_call_shared e (ga_rules s) (rq_name req) (rq_arguments req)"
  consider (err) err where "?v = Inl err" | (allow) "?v = Inr Allow" | (ask) perm where "?v = Inr (Ask perm)"
    by (metis policy_decision.exhaust sum.exhaust)
  then show ?thesis
  proof cases
    case err
    then show ?thesis using adm by (auto simp: subagent_admission_def tool_fail_def)
  next
    case allow
    then show ?thesis using adm by (auto simp: subagent_admission_def permitted_def)
  next
    case (ask perm)
    then have "subagent_resolve_ask a perm s = (d, u)" using adm by (simp add: subagent_admission_def)
    then show ?thesis
      using subagent_resolve_cases asked_rule_new [OF ask] ask by (cases d) (fastforce simp: permitted_def)+
  qed
qed

text \<open>
  C11: the port of a sub-agent runs only tools it was given, only when the policy allows the call,
  the root agent's mode approves it, or the user does through the bridge, and, with the guardian
  enabled, no critical shell command. It never adds to the approved rules. A refusal before the
  registry leaves one entry in the denial log that names its reason; a call that runs leaves none.
\<close>

theorem subagent_port_gate:
  assumes "subagent_execute e a req s = (resp, t)"
  shows "ga_rules t = ga_rules s \<and>
    (ga_calls t = ga_calls s \<and> \<not> rs_success resp \<and> (ga_denials t = ga_denials s @ [rs_code resp] \<or> \<not> registry_admits e (rq_name req)) \<or>
     ga_calls t = ga_calls s @ [(rq_name req, rq_arguments req)] \<and> ga_denials t = ga_denials s \<and>
     rq_name req \<in> sa_allowed a \<and> permitted e (sa_root_mode a) req s \<and> registry_admits e (rq_name req) \<and>
     (gc_enabled (ge_guardian e) \<longrightarrow> \<not> critical_call (rq_name req) (rq_arguments req)))"
proof (cases "rq_name req \<in> sa_allowed a")
  case False
  then show ?thesis using assms by (auto simp: subagent_execute_def tool_fail_def)
next
  case listed: True
  obtain d u where adm: "subagent_admission e a req s = (d, u)" by force
  note u = subagent_admission_cases [OF adm]
  show ?thesis
  proof (cases d)
    case (Inl x)
    then have "resp = x" "t = u" using assms adm listed by (simp_all add: subagent_execute_def)
    then show ?thesis using u Inl by simp
  next
    case (Inr x)
    show ?thesis
    proof (cases "subagent_blocked e (rq_name req) (rq_arguments req)")
      case True
      then have "resp = tool_fail ''guardian_blocked''" "t = record_denial ''guardian_blocked'' u"
        using assms adm listed Inr by (simp_all add: subagent_execute_def)
      then show ?thesis using u Inr by (simp add: tool_fail_def)
    next
      case False
      then have "respond (registry_execute e (sa_effective_mode a) (case sa_origin_turn_id a of Some t \<Rightarrow> Some t | None \<Rightarrow> rq_turn_id req)
          (sa_workdir a) (rq_name req) (rq_arguments req) u) = (resp, t)"
        using assms adm listed Inr by (simp add: subagent_execute_def)
      from registry_run [OF this] show ?thesis using u listed Inr subagent_not_blocked [OF False] by (auto split: if_splits)
    qed
  qed
qed

text \<open>
  The HTTP handler has no guardian. A critical shell command that the policy lets through (its
  base name was approved once) runs there, while the root port, a sub-agent and the headless port
  outside Yolo mode all refuse the same request in the same state.
\<close>

theorem http_runs_critical_commands:
  assumes "critical_call (rq_name req) (rq_arguments req)"
    and "validate_tool_call_shared e (ga_rules s) (rq_name req) (rq_arguments req) = Inr Allow"
    and "registry_admits e (rq_name req)" and "gc_enabled (ge_guardian e)" and "mode \<noteq> YoloEffective"
  shows "ga_calls (snd (http_execute e False req s)) = ga_calls s @ [(rq_name req, rq_arguments req)] \<and>
    ga_calls (snd (root_execute e req s)) = ga_calls s \<and>
    ga_calls (snd (subagent_execute e a req s)) = ga_calls s \<and>
    ga_calls (snd (headless_execute e mode req s)) = ga_calls s"
proof -
  have "ga_calls (snd (http_execute e False req s)) = ga_calls s @ [(rq_name req, rq_arguments req)]"
  proof -
    obtain resp t where run: "respond (registry_execute e (snd (mode_get (ga_modes s) (ge_root e))) (rq_turn_id req) (Some (ge_root e))
        (rq_name req) (rq_arguments req) (open_snapshot e (rq_turn_id req) s)) = (resp, t)" by force
    then have "http_execute e False req s = (resp, t)" using assms(2) by (simp add: http_execute_def Let_def)
    then show ?thesis using registry_run [OF run] assms(3) by simp
  qed
  moreover have "subagent_blocked e (rq_name req) (rq_arguments req)"
    using assms(1,4) critical_refused
    by (auto simp: subagent_blocked_def critical_call_def critical_top split: option.splits)
  ultimately show ?thesis
    using assms(1,2,5)
    by (simp add: root_execute_def root_admission_def subagent_execute_def subagent_admission_def headless_execute_def)
qed

section \<open>Edits are captured first\<close>


section \<open>Examples\<close>

definition shell_env :: gate_env where
  "shell_env = \<lparr>ge_paths = bare_env, ge_policy = \<lparr>po_workspace_root = ''/w''\<rparr>, ge_tools = (\<lambda>_. Some plain_tool),
     ge_result = (\<lambda>_ _. Inr []), ge_root_cause_pending = False, ge_guardian = default_guardian, ge_root = ''/w'', ge_store = plain_env\<rparr>"

definition idle_gate :: gate where
  "idle_gate = \<lparr>ga_rules = {}, ga_approved = {}, ga_modes = Map.empty, ga_answers = [], ga_denials = [], ga_events = [], ga_store = plain_store, ga_calls = []\<rparr>"

definition shell_request :: "string \<Rightarrow> tool_request" where
  "shell_request command = \<lparr>rq_name = ''exec_command'', rq_arguments = JObject [(''command'', JString command)], rq_turn_id = None, rq_session_id = None\<rparr>"

definition plain_subagent :: subagent where
  "plain_subagent = \<lparr>sa_allowed = {''exec_command''}, sa_root_mode = NormalMode, sa_ask_strategy = EscalateToUser, sa_has_bridge = True,
     sa_effective_mode = NormalEffective, sa_workdir = None, sa_origin_turn_id = None\<rparr>"

lemma rm_asked:
  "validate_tool_call_shared shell_env {} ''exec_command'' (JObject [(''command'', JString ''rm a'')]) =
     Inr (Ask \<lparr>pr_tool_name = ''exec_command'', pr_reason = ''filesystem-modifying command requires approval: rm a'', pr_session_rule = ''command:rm''\<rparr>)"
  by code_simp

lemma rm_not_critical: "\<not> critical_call ''exec_command'' (JObject [(''command'', JString ''rm a'')])"
  by code_simp


theorem subagent_port_gate_witness:
  "ga_denials (snd (subagent_execute shell_env plain_subagent (shell_request ''rm a'') idle_gate)) = [''permission_denied''] \<and>
   ga_calls (snd (subagent_execute shell_env plain_subagent (shell_request ''rm a'') idle_gate)) = []"
proof -
  obtain resp t where run: "subagent_execute shell_env plain_subagent (shell_request ''rm a'') idle_gate = (resp, t)" by force
  have "resp = tool_fail ''permission_denied''"
    using run rm_asked
    by (simp add: subagent_execute_def subagent_admission_def subagent_resolve_ask_def bridge_answer_def plain_subagent_def
        shell_request_def idle_gate_def record_event_def)
  moreover have "registry_admits shell_env ''exec_command''" by (simp add: registry_admits_def shell_env_def)
  ultimately show ?thesis
    using subagent_port_gate [OF run] rm_asked run
    by (simp add: permitted_def shell_request_def idle_gate_def plain_subagent_def tool_fail_def)
qed

theorem http_runs_critical_commands_witness:
  "ga_calls (snd (http_execute shell_env False (shell_request ''dd if=x'') (approve_tool ''command:dd'' idle_gate))) \<noteq> [] \<and>
   ga_calls (snd (root_execute shell_env (shell_request ''dd if=x'') (approve_tool ''command:dd'' idle_gate))) = []"
proof -
  let ?req = "shell_request ''dd if=x''" and ?s = "approve_tool ''command:dd'' idle_gate"
  have "validate_tool_call_shared shell_env {''command:dd''} ''exec_command'' (JObject [(''command'', JString ''dd if=x'')]) = Inr Allow"
    by code_simp
  moreover have "critical_call (rq_name ?req) (rq_arguments ?req)"
    by (simp add: critical_call_def shell_request_def shell_text_for_tool_def str_field_def gap_evaluations)
  moreover have "registry_admits shell_env ''exec_command''" "gc_enabled (ge_guardian shell_env)"
    by (simp_all add: registry_admits_def shell_env_def default_guardian_def)
  ultimately show ?thesis
    using http_runs_critical_commands [of ?req shell_env ?s NormalEffective plain_subagent]
    by (simp add: shell_request_def approve_tool_def idle_gate_def)
qed


text \<open>
  A patch may edit a file that was not captured. The capture resolves the paths of a patch
  against the session's directory, the tool against the directory in its own arguments: with
  another directory there, the file in the snapshot is not the file that is changed.
\<close>

theorem patch_capture_mismatch:
  "let patch = join_with [newline] [''*** Begin Patch'', ''*** Delete File: a'', ''*** End Patch''];
       args = JObject [(''patch'', JString patch), (''workdir'', JString ''/w/d'')] in
   map (\<lambda>p. resolve_tool_path p (Some ''/w'')) (pre_edit_paths ''apply_patch'' args) = [''/w/a''] \<and>
   parse_patch (resolve_patch_path bare_env ''/w/d'') patch = Inr [DeleteFile ''/w/d/a'']"
  by code_simp

section \<open>Ports as an interface\<close>

text \<open>
  What every port promises to the agent loop that drives it: a request leaves the log of calls alone
  or adds exactly its own call, and the latter only if the port admits the request.
\<close>

locale tool_port =
  fixes exec :: "'r \<Rightarrow> gate \<Rightarrow> tool_response \<times> gate"
    and call_of :: "'r \<Rightarrow> string \<times> json"
    and admits :: "'r \<Rightarrow> bool"
  assumes at_most_its_call:
    "ga_calls (snd (exec r s)) = ga_calls s \<or> admits r \<and> ga_calls (snd (exec r s)) = ga_calls s @ [call_of r]"
begin

text \<open>A loop of requests: what has run is, in order, a part of what was requested and admitted.\<close>

lemma loop_calls:
  "\<exists>new. ga_calls (fold (\<lambda>r t. snd (exec r t)) rs s) = ga_calls s @ new \<and> subseq new (map call_of (filter admits rs))"
proof (induction rs arbitrary: s)
  case Nil then show ?case by simp
next
  case (Cons r rs)
  obtain new where new: "ga_calls (fold (\<lambda>r t. snd (exec r t)) rs (snd (exec r s))) = ga_calls (snd (exec r s)) @ new"
    "subseq new (map call_of (filter admits rs))" using Cons.IH by blast
  from at_most_its_call [of r s] show ?case
  proof
    assume "ga_calls (snd (exec r s)) = ga_calls s"
    then show ?thesis using new by (intro exI [of _ new]) (auto simp: subseq_Cons')
  next
    assume "admits r \<and> ga_calls (snd (exec r s)) = ga_calls s @ [call_of r]"
    then show ?thesis using new by (intro exI [of _ "call_of r # new"]) auto
  qed
qed

end

definition request_call :: "tool_request \<Rightarrow> string \<times> json" where
  "request_call req = (rq_name req, rq_arguments req)"

definition root_admits :: "gate_env \<Rightarrow> tool_request \<Rightarrow> bool" where
  "root_admits e req \<longleftrightarrow> \<not> critical_call (rq_name req) (rq_arguments req) \<and>
     (rq_name req = ''task_management'' \<or> registry_admits e (rq_name req))"

definition subagent_admits :: "gate_env \<Rightarrow> subagent \<Rightarrow> tool_request \<Rightarrow> bool" where
  "subagent_admits e a req \<longleftrightarrow> rq_name req \<in> sa_allowed a \<and> registry_admits e (rq_name req) \<and>
     (gc_enabled (ge_guardian e) \<longrightarrow> \<not> critical_call (rq_name req) (rq_arguments req))"

definition headless_admits :: "gate_env \<Rightarrow> effective_mode \<Rightarrow> tool_request \<Rightarrow> bool" where
  "headless_admits e mode req \<longleftrightarrow> registry_admits e (rq_name req) \<and>
     (mode \<noteq> YoloEffective \<longrightarrow> \<not> critical_call (rq_name req) (rq_arguments req))"

lemma registry_call:
  "ga_calls (snd (respond (registry_execute e mode turn workdir name args s))) =
     (if registry_admits e name then ga_calls s @ [(name, args)] else ga_calls s)"
  by (metis registry_run prod.exhaust_sel)

interpretation root_port: tool_port "root_execute e" request_call "root_admits e" for e
proof
  fix req s
  obtain d u where adm: "root_admission e req s = (d, u)" by force
  then show "ga_calls (snd (root_execute e req s)) = ga_calls s \<or>
      root_admits e req \<and> ga_calls (snd (root_execute e req s)) = ga_calls s @ [request_call req]"
    using root_admission_cases(1) [OF adm]
    by (auto simp: root_execute_def root_admits_def request_call_def registry_call split: sum.split)
qed

interpretation subagent_port: tool_port "subagent_execute e a" request_call "subagent_admits e a" for e a
proof
  fix req s
  obtain d u where adm: "subagent_admission e a req s = (d, u)" by force
  then have "ga_calls u = ga_calls s" using subagent_admission_cases by blast
  with adm show "ga_calls (snd (subagent_execute e a req s)) = ga_calls s \<or>
      subagent_admits e a req \<and> ga_calls (snd (subagent_execute e a req s)) = ga_calls s @ [request_call req]"
    by (auto simp: subagent_execute_def subagent_admits_def request_call_def registry_call subagent_not_blocked split: sum.split)
qed

interpretation headless_port: tool_port "headless_execute e mode" request_call "headless_admits e mode" for e mode
  by unfold_locales (auto simp: headless_execute_def headless_admits_def request_call_def registry_call)

text \<open>Requests of a session, from the root agent, its sub-agents and headless runs, in any order on the shared state.\<close>

datatype port_request = FromRoot tool_request | FromSubagent subagent tool_request | FromHeadless effective_mode tool_request

fun port_execute :: "gate_env \<Rightarrow> port_request \<Rightarrow> gate \<Rightarrow> tool_response \<times> gate" where
  "port_execute e (FromRoot req) s = root_execute e req s"
| "port_execute e (FromSubagent a req) s = subagent_execute e a req s"
| "port_execute e (FromHeadless mode req) s = headless_execute e mode req s"

fun port_call :: "port_request \<Rightarrow> string \<times> json" where
  "port_call (FromRoot req) = request_call req"
| "port_call (FromSubagent a req) = request_call req"
| "port_call (FromHeadless mode req) = request_call req"

fun port_admits :: "gate_env \<Rightarrow> port_request \<Rightarrow> bool" where
  "port_admits e (FromRoot req) = root_admits e req"
| "port_admits e (FromSubagent a req) = subagent_admits e a req"
| "port_admits e (FromHeadless mode req) = headless_admits e mode req"

interpretation session_ports: tool_port "port_execute e" port_call "port_admits e" for e
proof
  fix r s
  show "ga_calls (snd (port_execute e r s)) = ga_calls s \<or>
      port_admits e r \<and> ga_calls (snd (port_execute e r s)) = ga_calls s @ [port_call r]"
    using root_port.at_most_its_call subagent_port.at_most_its_call headless_port.at_most_its_call by (cases r) simp_all
qed



end
