(* ===== verification/Permission_Bridge.thy ===== *)
theory Permission_Bridge
  imports Prelude
begin

text \<open>
  \<open>teams/permission_bridge.rs\<close>: requests for approval wait here until the user answers, time runs out
  or the waiting run is dropped. Each critical section is one step on the shared state, and the
  steps of different waiters interleave. A waiter is identified by the channel it waits on; request
  ids are fresh (they are UUIDs).
\<close>

section \<open>State\<close>

record approval =
  ap_request_id :: string
  ap_from :: string
  ap_kind :: string
  ap_tool :: string
  ap_policy_reason :: string
  ap_session_rule :: string
  ap_paths :: "string list"
  ap_command :: "string option"
  ap_risk :: "string option"
  ap_human_summary :: string

definition policy_ask :: "string \<Rightarrow> string \<Rightarrow> string \<Rightarrow> string \<Rightarrow> string \<Rightarrow> approval" where
  "policy_ask request_id from_agent tool policy_reason session_rule =
     \<lparr>ap_request_id = request_id, ap_from = from_agent, ap_kind = ''policy_ask'', ap_tool = tool,
      ap_policy_reason = policy_reason, ap_session_rule = session_rule, ap_paths = [], ap_command = None, ap_risk = None,
      ap_human_summary = tool @ '': '' @ policy_reason\<rparr>"

text \<open>A oneshot channel as its receiver sees it: nothing sent yet, a value sent, the sender gone
  without a value.\<close>

datatype channel = Empty | Sent bool | Closed

text \<open>A waiter is suspended on its channel, has its answer and is about to clean up, has returned
  the answer, or was dropped while suspended.\<close>

datatype waiter = Suspended | Woken bool | Returned bool | Dropped

datatype trace_event = PendingEvent string | ResolvedEvent string

record bridge =
  br_inner :: "string \<rightharpoonup> approval \<times> nat"
  br_resolved :: "(string \<times> bool) list"
  br_channel :: "nat \<rightharpoonup> channel"
  br_waiter :: "nat \<rightharpoonup> string \<times> waiter"
  br_trace :: "trace_event list"

definition empty_bridge :: bridge where
  "empty_bridge = \<lparr>br_inner = Map.empty, br_resolved = [], br_channel = Map.empty, br_waiter = Map.empty, br_trace = []\<rparr>"

datatype permission_resolve_outcome = Resolved | AlreadyResolved bool | Unknown

definition RESOLVED_CAP :: nat where "RESOLVED_CAP = 256"

section \<open>Operations\<close>

text \<open>Removing an entry drops its sender, which closes a channel nothing was sent on.\<close>

definition remove_entry :: "string \<Rightarrow> bridge \<Rightarrow> bridge" where
  "remove_entry i b =
     (case br_inner b i of
        None \<Rightarrow> b
      | Some (_, w) \<Rightarrow>
          b\<lparr>br_inner := (br_inner b)(i := None),
            br_channel := (if br_channel b w = Some Empty then (br_channel b)(w \<mapsto> Closed) else br_channel b)\<rparr>)"

definition enqueue :: "approval \<Rightarrow> nat \<Rightarrow> bridge \<Rightarrow> bridge" where
  "enqueue ap w b =
     (let i = ap_request_id ap; b' = remove_entry i b in
      b'\<lparr>br_inner := (br_inner b')(i \<mapsto> (ap, w)), br_channel := (br_channel b')(w \<mapsto> Empty),
         br_waiter := (br_waiter b')(w \<mapsto> (i, Suspended)), br_trace := br_trace b' @ [PendingEvent i]\<rparr>)"

definition remember :: "string \<Rightarrow> bool \<Rightarrow> (string \<times> bool) list \<Rightarrow> (string \<times> bool) list" where
  "remember request_id approved rs = (if length rs = RESOLVED_CAP then tl rs else rs) @ [(request_id, approved)]"

text \<open>\<open>tx.send\<close> succeeds as long as the receiver is there, that is, its waiter is suspended.\<close>

definition receiver_alive :: "nat \<Rightarrow> bridge \<Rightarrow> bool" where
  "receiver_alive w b = (case br_waiter b w of Some (_, Suspended) \<Rightarrow> True | _ \<Rightarrow> False)"

definition bridge_resolve :: "string \<Rightarrow> bool \<Rightarrow> bridge \<Rightarrow> permission_resolve_outcome \<times> bridge" where
  "bridge_resolve request_id approved b =
     (case br_inner b request_id of
        Some (_, w) \<Rightarrow>
          let b' = remove_entry request_id b in
          if receiver_alive w b
          then (Resolved, b'\<lparr>br_channel := (br_channel b')(w \<mapsto> Sent approved), br_resolved := remember request_id approved (br_resolved b')\<rparr>)
          else (Unknown, b')
      | None \<Rightarrow>
          (case List.find (\<lambda>(i, _). i = request_id) (br_resolved b) of
             Some (_, first_approved) \<Rightarrow> (AlreadyResolved first_approved, b)
           | None \<Rightarrow> (Unknown, b)))"

text \<open>The wait ends with the value sent, with the loss of the sender, or by timeout while nothing was
  sent; the receiver is gone.\<close>

definition wake :: "nat \<Rightarrow> bridge \<Rightarrow> bridge" where
  "wake w b =
     (case (br_waiter b w, br_channel b w) of
        (Some (i, Suspended), Some (Sent approved)) \<Rightarrow> b\<lparr>br_waiter := (br_waiter b)(w \<mapsto> (i, Woken approved))\<rparr>
      | (Some (i, Suspended), Some Closed) \<Rightarrow> b\<lparr>br_waiter := (br_waiter b)(w \<mapsto> (i, Woken False))\<rparr>
      | _ \<Rightarrow> b)"

definition time_out :: "nat \<Rightarrow> bridge \<Rightarrow> bridge" where
  "time_out w b =
     (case (br_waiter b w, br_channel b w) of
        (Some (i, Suspended), Some Empty) \<Rightarrow> b\<lparr>br_waiter := (br_waiter b)(w \<mapsto> (i, Woken False))\<rparr>
      | _ \<Rightarrow> b)"

definition finish :: "nat \<Rightarrow> bridge \<Rightarrow> bridge" where
  "finish w b =
     (case br_waiter b w of
        Some (i, Woken approved) \<Rightarrow>
          let b' = remove_entry i b in
          b'\<lparr>br_waiter := (br_waiter b')(w \<mapsto> (i, Returned approved)), br_trace := br_trace b' @ [ResolvedEvent i]\<rparr>
      | _ \<Rightarrow> b)"

text \<open>\<open>WaiterGuard::drop\<close>: armed as long as the waiter is suspended.\<close>

definition drop_waiter :: "nat \<Rightarrow> bridge \<Rightarrow> bridge" where
  "drop_waiter w b =
     (case br_waiter b w of
        Some (i, Suspended) \<Rightarrow>
          let b' = remove_entry i b; c = b'\<lparr>br_waiter := (br_waiter b')(w \<mapsto> (i, Dropped))\<rparr> in
          if br_inner b i \<noteq> None then c\<lparr>br_trace := br_trace c @ [ResolvedEvent i]\<rparr> else c
      | _ \<Rightarrow> b)"

definition pending :: "bridge \<Rightarrow> approval set" where
  "pending b = fst ` ran (br_inner b)"

section \<open>Steps\<close>

definition fresh_request :: "string \<Rightarrow> bridge \<Rightarrow> bool" where
  "fresh_request i b \<longleftrightarrow> (\<forall>w x. br_waiter b w \<noteq> Some (i, x))"

inductive bridge_step :: "bridge \<Rightarrow> bridge \<Rightarrow> bool" where
  step_enqueue: "br_waiter b w = None \<Longrightarrow> fresh_request (ap_request_id ap) b \<Longrightarrow> bridge_step b (enqueue ap w b)"
| step_resolve: "bridge_step b (snd (bridge_resolve i approved b))"
| step_wake: "bridge_step b (wake w b)"
| step_time_out: "bridge_step b (time_out w b)"
| step_finish: "bridge_step b (finish w b)"
| step_drop: "bridge_step b (drop_waiter w b)"

inductive bridge_reachable :: "bridge \<Rightarrow> bool" where
  reach_init: "bridge_reachable empty_bridge"
| reach_step: "bridge_reachable b \<Longrightarrow> bridge_step b c \<Longrightarrow> bridge_reachable c"

inductive_cases bridge_stepE: "bridge_step b c"

section \<open>Invariant\<close>

text \<open>The number of closing events of a request.\<close>

definition closings :: "bridge \<Rightarrow> string \<Rightarrow> nat" where
  "closings b i = length (filter (\<lambda>ev. ev = ResolvedEvent i) (br_trace b))"

text \<open>What holds of a waiter \<open>w\<close> of request \<open>i\<close> in each phase: of the entry under its id, its channel and
  the number of closing events.\<close>

definition live_entry :: "string \<Rightarrow> nat \<Rightarrow> (approval \<times> nat) option \<Rightarrow> channel option \<Rightarrow> bool" where
  "live_entry i w entry ch \<longleftrightarrow> (\<exists>ap. entry = Some (ap, w) \<and> ap_request_id ap = i) \<and> ch = Some Empty"

definition phase_ok :: "string \<Rightarrow> nat \<Rightarrow> (approval \<times> nat) option \<Rightarrow> channel option \<Rightarrow> nat \<Rightarrow> waiter \<Rightarrow> bool" where
  "phase_ok i w entry ch n x \<longleftrightarrow>
     (case x of
        Suspended \<Rightarrow> n = 0 \<and> (live_entry i w entry ch \<or> entry = None \<and> (\<exists>d. ch = Some (Sent d)))
      | Woken d \<Rightarrow> n = 0 \<and> (d \<longrightarrow> ch = Some (Sent True)) \<and> (live_entry i w entry ch \<or> entry = None)
      | Returned d \<Rightarrow> n = 1 \<and> (d \<longrightarrow> ch = Some (Sent True)) \<and> entry = None
      | Dropped \<Rightarrow> n = (if \<exists>d. ch = Some (Sent d) then 0 else 1) \<and> entry = None)"

definition phases_ok :: "bridge \<Rightarrow> bool" where
  "phases_ok b \<longleftrightarrow>
     (\<forall>w i x. br_waiter b w = Some (i, x) \<longrightarrow> phase_ok i w (br_inner b i) (br_channel b w) (closings b i) x) \<and>
     (\<forall>i. fresh_request i b \<longrightarrow> br_inner b i = None \<and> closings b i = 0)"

definition waiters_distinct :: "bridge \<Rightarrow> bool" where
  "waiters_distinct b \<longleftrightarrow> (\<forall>w v i x y. br_waiter b w = Some (i, x) \<longrightarrow> br_waiter b v = Some (i, y) \<longrightarrow> w = v)"

definition decisions_ok :: "bridge \<Rightarrow> bool" where
  "decisions_ok b \<longleftrightarrow>
     length (br_resolved b) \<le> RESOLVED_CAP \<and> distinct (map fst (br_resolved b)) \<and>
     (\<forall>i d. (i, d) \<in> set (br_resolved b) \<longrightarrow>
        br_inner b i = None \<and> (\<exists>w x. br_waiter b w = Some (i, x) \<and> br_channel b w = Some (Sent d)))"

definition bridge_inv :: "bridge \<Rightarrow> bool" where
  "bridge_inv b \<longleftrightarrow> phases_ok b \<and> waiters_distinct b \<and> decisions_ok b"

section \<open>The invariant is kept\<close>

lemma phases_okD: "bridge_inv b \<Longrightarrow> br_waiter b w = Some (i, x) \<Longrightarrow> phase_ok i w (br_inner b i) (br_channel b w) (closings b i) x"
  by (simp add: bridge_inv_def phases_ok_def)

lemma unique_waiter: "bridge_inv b \<Longrightarrow> br_waiter b w = Some (i, x) \<Longrightarrow> br_waiter b v = Some (i, y) \<Longrightarrow> v = w"
  unfolding bridge_inv_def waiters_distinct_def by blast

lemma entry_waiter:
  assumes "bridge_inv b" and "br_inner b i = Some (ap, v)"
  shows "\<exists>x. br_waiter b v = Some (i, x) \<and> live_entry i v (br_inner b i) (br_channel b v)"
proof -
  have "\<not> fresh_request i b" using assms unfolding bridge_inv_def phases_ok_def by auto
  then obtain w x where w: "br_waiter b w = Some (i, x)" by (auto simp: fresh_request_def)
  from phases_okD [OF assms(1) w] assms(2) have "live_entry i w (br_inner b i) (br_channel b w)"
    by (auto simp: phase_ok_def split: waiter.splits)
  with w assms(2) show ?thesis by (auto simp: live_entry_def)
qed

text \<open>A step that touches one request only: its entry, its channel, its phase and its events.\<close>

definition only_touches :: "string \<Rightarrow> nat \<Rightarrow> bridge \<Rightarrow> bridge \<Rightarrow> bool" where
  "only_touches i w b c \<longleftrightarrow>
     (\<forall>j. j \<noteq> i \<longrightarrow> br_inner c j = br_inner b j \<and> closings c j = closings b j) \<and>
     (\<forall>v. v \<noteq> w \<longrightarrow> br_channel c v = br_channel b v \<and> br_waiter c v = br_waiter b v)"

lemma phases_step:
  assumes inv: "bridge_inv b" and w: "br_waiter b w = Some (i, x)" "br_waiter c w = Some (i, y)"
    and touches: "only_touches i w b c"
    and new: "phase_ok i w (br_inner c i) (br_channel c w) (closings c i) y"
  shows "phases_ok c \<and> waiters_distinct c"
proof (rule conjI)
  have other: "br_waiter c v = br_waiter b v" "br_channel c v = br_channel b v" if "v \<noteq> w" for v
    using touches that by (simp_all add: only_touches_def)
  have owned: "(\<exists>z. br_waiter c v = Some (j, z)) \<longleftrightarrow> (\<exists>z. br_waiter b v = Some (j, z))" for v j
    using other w by (cases "v = w") auto
  show "waiters_distinct c"
    unfolding waiters_distinct_def using owned unique_waiter [OF inv] by metis
  have "phase_ok j v (br_inner c j) (br_channel c v) (closings c j) z" if "br_waiter c v = Some (j, z)" for v j z
  proof (cases "v = w")
    case True then show ?thesis using that w new by simp
  next
    case False
    with that have b: "br_waiter b v = Some (j, z)" by (simp add: other)
    then have "j \<noteq> i" using unique_waiter [OF inv w(1)] False by blast
    then show ?thesis using phases_okD [OF inv b] touches False by (simp add: only_touches_def)
  qed
  moreover have "br_inner c j = None \<and> closings c j = 0" if "fresh_request j c" for j
  proof -
    have "j \<noteq> i" using that w by (auto simp: fresh_request_def)
    moreover have "fresh_request j b" using that owned unfolding fresh_request_def by metis
    ultimately show ?thesis using inv touches by (simp add: bridge_inv_def phases_ok_def only_touches_def)
  qed
  ultimately show "phases_ok c" by (simp add: phases_ok_def)
qed

lemma decisions_step:
  assumes "bridge_inv b" and "br_waiter b w = Some (i, x)" "br_waiter c w = Some (i, y)"
    and "only_touches i w b c" and "br_resolved c = br_resolved b"
    and "\<And>d. br_channel b w = Some (Sent d) \<Longrightarrow> br_channel c w = Some (Sent d)"
    and "br_inner b i = None \<Longrightarrow> br_inner c i = None"
  shows "decisions_ok c"
proof -
  have keep: "br_inner c j = None \<and> (\<exists>v z. br_waiter c v = Some (j, z) \<and> br_channel c v = Some (Sent d))"
    if r: "(j, d) \<in> set (br_resolved b)" for j d
  proof -
    from assms(1) r obtain v z where v: "br_inner b j = None" "br_waiter b v = Some (j, z)" "br_channel b v = Some (Sent d)"
      unfolding bridge_inv_def decisions_ok_def by blast
    have "br_inner c j = None" using v(1) assms(4,7) by (cases "j = i") (auto simp: only_touches_def)
    moreover have "\<exists>z. br_waiter c v = Some (j, z) \<and> br_channel c v = Some (Sent d)"
      using v assms(2,3,4,6) by (cases "v = w") (auto simp: only_touches_def)
    ultimately show ?thesis by blast
  qed
  then show ?thesis using assms(1,5) unfolding bridge_inv_def decisions_ok_def by simp
qed

lemma inv_step:
  assumes "bridge_inv b" and "br_waiter b w = Some (i, x)" "br_waiter c w = Some (i, y)"
    and "only_touches i w b c" and "br_resolved c = br_resolved b"
    and "phase_ok i w (br_inner c i) (br_channel c w) (closings c i) y"
    and "\<And>d. br_channel b w = Some (Sent d) \<Longrightarrow> br_channel c w = Some (Sent d)"
    and "br_inner b i = None \<Longrightarrow> br_inner c i = None"
  shows "bridge_inv c"
  using phases_step [OF assms(1-4,6)] decisions_step [OF assms(1-5,7,8)] by (simp add: bridge_inv_def)

lemma inv_empty: "bridge_inv empty_bridge"
  by (simp add: bridge_inv_def phases_ok_def waiters_distinct_def decisions_ok_def empty_bridge_def fresh_request_def closings_def)

lemma remove_entry_fields [simp]:
  "br_inner (remove_entry i b) = (br_inner b)(i := None)"
  "br_waiter (remove_entry i b) = br_waiter b"
  "br_resolved (remove_entry i b) = br_resolved b"
  "br_trace (remove_entry i b) = br_trace b"
  by (auto simp: remove_entry_def split: option.splits)

text \<open>Removing the entry of a request touches only the channel of its own waiter.\<close>

lemma remove_entry_channel:
  assumes "bridge_inv b" and "br_waiter b w = Some (i, x)"
  shows "br_channel (remove_entry i b) = (if br_inner b i = None then br_channel b else (br_channel b)(w \<mapsto> Closed))"
proof (cases "br_inner b i")
  case (Some e)
  then obtain ap v where e: "br_inner b i = Some (ap, v)" by (cases e) auto
  from entry_waiter [OF assms(1) e] obtain y where y: "br_waiter b v = Some (i, y)" "br_channel b v = Some Empty"
    by (auto simp: live_entry_def)
  then have "v = w" using unique_waiter [OF assms] by blast
  then show ?thesis using e y(2) by (simp add: remove_entry_def)
qed (simp add: remove_entry_def)

text \<open>A suspended waiter wakes up: only its phase changes.\<close>

lemma inv_woken:
  assumes "bridge_inv b" and "br_waiter b w = Some (i, Suspended)" and "d \<longrightarrow> br_channel b w = Some (Sent True)"
  shows "bridge_inv (b\<lparr>br_waiter := (br_waiter b)(w \<mapsto> (i, Woken d))\<rparr>)"
proof (rule inv_step [OF assms(1,2)])
  show "phase_ok i w (br_inner (b\<lparr>br_waiter := (br_waiter b)(w \<mapsto> (i, Woken d))\<rparr>) i) (br_channel (b\<lparr>br_waiter := (br_waiter b)(w \<mapsto> (i, Woken d))\<rparr>) w)
      (closings (b\<lparr>br_waiter := (br_waiter b)(w \<mapsto> (i, Woken d))\<rparr>) i) (Woken d)"
    using phases_okD [OF assms(1,2)] assms(3) by (auto simp: phase_ok_def closings_def)
qed (simp_all add: only_touches_def closings_def)

lemma inv_wake: "bridge_inv b \<Longrightarrow> bridge_inv (wake w b)"
  by (simp add: wake_def inv_woken split: option.split prod.split waiter.split channel.split)

lemma inv_time_out: "bridge_inv b \<Longrightarrow> bridge_inv (time_out w b)"
  by (simp add: time_out_def inv_woken split: option.split prod.split waiter.split channel.split)

text \<open>A waiter ends: its entry, if it is still there, goes with it.\<close>

lemma inv_end:
  assumes "bridge_inv b" and "br_waiter b w = Some (i, x)"
    and "br_inner c = (br_inner b)(i := None)" "br_channel c = br_channel (remove_entry i b)"
    and "br_waiter c = (br_waiter b)(w \<mapsto> (i, y))" "br_resolved c = br_resolved b"
    and "\<And>j. closings c j = closings b j + (if j = i then n else 0)"
    and "phase_ok i w None (br_channel c w) (closings b i + n) y"
  shows "bridge_inv c"
proof (rule inv_step [OF assms(1,2)])
  note ch = remove_entry_channel [OF assms(1,2)]
  show "only_touches i w b c" using assms(3-7) ch by (auto simp: only_touches_def)
  show "br_channel c w = Some (Sent d)" if "br_channel b w = Some (Sent d)" for d
    using that phases_okD [OF assms(1,2)] ch assms(4)
    by (auto simp: phase_ok_def live_entry_def split: waiter.splits)
qed (use assms in simp_all)

lemma inv_finish: "bridge_inv b \<Longrightarrow> bridge_inv (finish w b)"
proof -
  assume inv: "bridge_inv b"
  have "bridge_inv (finish w b)" if w: "br_waiter b w = Some (i, Woken d)" for i d
    by (rule inv_end [OF inv w, where n = 1 and y = "Returned d"])
      (use phases_okD [OF inv w] remove_entry_channel [OF inv w] w in
        \<open>auto simp: finish_def Let_def closings_def phase_ok_def live_entry_def\<close>)
  then show ?thesis using inv by (auto simp: finish_def split: option.split waiter.split)
qed

lemma inv_drop: "bridge_inv b \<Longrightarrow> bridge_inv (drop_waiter w b)"
proof -
  assume inv: "bridge_inv b"
  have "bridge_inv (drop_waiter w b)" if w: "br_waiter b w = Some (i, Suspended)" for i
    by (rule inv_end [OF inv w, where n = "if br_inner b i = None then 0 else 1" and y = Dropped])
      (use phases_okD [OF inv w] remove_entry_channel [OF inv w] w in
        \<open>auto simp: drop_waiter_def Let_def closings_def phase_ok_def live_entry_def\<close>)
  then show ?thesis using inv by (auto simp: drop_waiter_def split: option.split waiter.split)
qed

lemma inv_enqueue:
  assumes inv: "bridge_inv b" and w: "br_waiter b w = None" and new: "fresh_request (ap_request_id ap) b"
  shows "bridge_inv (enqueue ap w b)"
proof -
  let ?i = "ap_request_id ap" and ?c = "enqueue ap w b"
  have gone: "br_inner b ?i = None" "closings b ?i = 0" using inv new by (auto simp: bridge_inv_def phases_ok_def)
  have c: "br_inner ?c = (br_inner b)(?i \<mapsto> (ap, w))" "br_channel ?c = (br_channel b)(w \<mapsto> Empty)"
    "br_waiter ?c = (br_waiter b)(w \<mapsto> (?i, Suspended))" "br_resolved ?c = br_resolved b" "closings ?c j = closings b j" for j
    using gone by (simp_all add: enqueue_def Let_def remove_entry_def closings_def)
  have mine: "br_waiter b v = Some (j, x) \<Longrightarrow> j \<noteq> ?i \<and> v \<noteq> w" for v j x
    using new w by (auto simp: fresh_request_def)
  have "waiters_distinct ?c"
    using inv mine unfolding bridge_inv_def waiters_distinct_def c by (auto split: if_splits)
  moreover have "phases_ok ?c"
    unfolding phases_ok_def
  proof (intro conjI allI impI)
    fix v j x assume v: "br_waiter ?c v = Some (j, x)"
    show "phase_ok j v (br_inner ?c j) (br_channel ?c v) (closings ?c j) x"
    proof (cases "v = w")
      case True then show ?thesis using v gone by (auto simp: c phase_ok_def live_entry_def)
    next
      case False
      with v have "br_waiter b v = Some (j, x)" by (simp add: c)
      then show ?thesis using phases_okD [OF inv] mine by (simp add: c False)
    qed
  next
    fix j assume "fresh_request j ?c"
    then have j: "j \<noteq> ?i" "fresh_request j b" using mine by (auto simp: fresh_request_def c split: if_splits)
    then show "br_inner ?c j = None" "closings ?c j = 0" using inv by (auto simp: c bridge_inv_def phases_ok_def)
  qed
  moreover have "decisions_ok ?c"
  proof -
    have "br_inner ?c j = None \<and> (\<exists>v z. br_waiter ?c v = Some (j, z) \<and> br_channel ?c v = Some (Sent d))"
      if "(j, d) \<in> set (br_resolved b)" for j d
    proof -
      from inv that obtain v z where v: "br_inner b j = None" "br_waiter b v = Some (j, z)" "br_channel b v = Some (Sent d)"
        unfolding bridge_inv_def decisions_ok_def by blast
      then show ?thesis using mine [OF v(2)] by (auto simp: c)
    qed
    then show ?thesis using inv unfolding bridge_inv_def decisions_ok_def c by simp
  qed
  ultimately show ?thesis by (simp add: bridge_inv_def)
qed

lemma remember_ok:
  assumes "length rs \<le> RESOLVED_CAP" and "distinct (map fst rs)" and "i \<notin> fst ` set rs"
  shows "length (remember i d rs) \<le> RESOLVED_CAP \<and> distinct (map fst (remember i d rs)) \<and> set (remember i d rs) \<subseteq> insert (i, d) (set rs)"
proof (cases rs)
  case Nil then show ?thesis by (simp add: remember_def RESOLVED_CAP_def)
next
  case (Cons r rest) then show ?thesis using assms by (auto simp: remember_def)
qed

lemma resolve_delivered:
  assumes inv: "bridge_inv b" and entry: "br_inner b i = Some (ap, w)" and alive: "receiver_alive w b"
  shows "bridge_inv (snd (bridge_resolve i d b))"
proof -
  let ?c = "snd (bridge_resolve i d b)"
  from entry_waiter [OF inv entry] obtain x where w: "br_waiter b w = Some (i, x)" "br_channel b w = Some Empty"
    by (auto simp: live_entry_def)
  then have x: "x = Suspended" using alive by (auto simp: receiver_alive_def split: waiter.splits)
  have ch: "br_channel ?c = (br_channel b)(w \<mapsto> Sent d)"
    using entry alive remove_entry_channel [OF inv w(1)] by (simp add: bridge_resolve_def Let_def)
  have c: "br_inner ?c = (br_inner b)(i := None)" "br_waiter ?c = br_waiter b" "closings ?c j = closings b j"
    "br_resolved ?c = remember i d (br_resolved b)" for j
    using entry alive by (simp_all add: bridge_resolve_def Let_def closings_def)
  have steps: "phases_ok ?c \<and> waiters_distinct ?c"
    by (rule phases_step [OF inv w(1)])
      (use w x phases_okD [OF inv w(1)] in \<open>auto simp: c ch only_touches_def phase_ok_def live_entry_def\<close>)
  have old: "br_inner b j = None \<and> (\<exists>v z. br_waiter b v = Some (j, z) \<and> br_channel b v = Some (Sent e))"
    if "(j, e) \<in> set (br_resolved b)" for j e
    using inv that unfolding bridge_inv_def decisions_ok_def by blast
  have fresh: "i \<notin> fst ` set (br_resolved b)" using old entry by force
  have kept: "br_inner ?c j = None \<and> (\<exists>v z. br_waiter ?c v = Some (j, z) \<and> br_channel ?c v = Some (Sent e))"
    if "(j, e) \<in> insert (i, d) (set (br_resolved b))" for j e
  proof (cases "(j, e) = (i, d)")
    case True then show ?thesis using w by (auto simp: c ch)
  next
    case False
    with that have "(j, e) \<in> set (br_resolved b)" by auto
    from old [OF this] obtain v z where v: "br_inner b j = None" "br_waiter b v = Some (j, z)" "br_channel b v = Some (Sent e)" by blast
    then have "v \<noteq> w" using w by auto
    then show ?thesis using v by (auto simp: c ch)
  qed
  have "length (br_resolved b) \<le> RESOLVED_CAP \<and> distinct (map fst (br_resolved b))"
    using inv by (simp add: bridge_inv_def decisions_ok_def)
  then have "decisions_ok ?c"
    using remember_ok [of "br_resolved b" i d] fresh kept unfolding decisions_ok_def c(4) by blast
  then show ?thesis using steps by (simp add: bridge_inv_def)
qed

lemma inv_resolve: "bridge_inv b \<Longrightarrow> bridge_inv (snd (bridge_resolve i d b))"
proof -
  assume inv: "bridge_inv b"
  show ?thesis
  proof (cases "br_inner b i")
    case None then show ?thesis using inv by (auto simp: bridge_resolve_def split: option.split)
  next
    case (Some e)
    then obtain ap w where e: "br_inner b i = Some (ap, w)" by (cases e) auto
    from entry_waiter [OF inv e] obtain x where w: "br_waiter b w = Some (i, x)" by blast
    have "bridge_inv (snd (bridge_resolve i d b))" if dead: "\<not> receiver_alive w b"
      by (rule inv_end [OF inv w, where n = 0 and y = x])
        (use e w dead phases_okD [OF inv w] remove_entry_channel [OF inv w] in
          \<open>auto simp: bridge_resolve_def Let_def closings_def phase_ok_def live_entry_def receiver_alive_def split: waiter.splits\<close>)
    then show ?thesis using resolve_delivered [OF inv e] by blast
  qed
qed

lemma inv_bridge_step: "bridge_step b c \<Longrightarrow> bridge_inv b \<Longrightarrow> bridge_inv c"
  by (induction rule: bridge_step.induct)
    (simp_all add: inv_enqueue inv_resolve inv_wake inv_time_out inv_finish inv_drop)

lemma reachable_inv: "bridge_reachable b \<Longrightarrow> bridge_inv b"
  by (induction rule: bridge_reachable.induct) (simp_all add: inv_empty inv_bridge_step)

section \<open>What the bridge promises\<close>

definition decided :: "string \<Rightarrow> bool \<Rightarrow> bridge \<Rightarrow> bool" where
  "decided i d b \<longleftrightarrow> (\<exists>w x. br_waiter b w = Some (i, x) \<and> br_channel b w = Some (Sent d))"

lemma decided_no_entry: "bridge_inv b \<Longrightarrow> decided i d b \<Longrightarrow> br_inner b i = None"
  by (auto simp: decided_def phase_ok_def live_entry_def dest!: phases_okD split: waiter.splits)

lemma decided_unique: "bridge_inv b \<Longrightarrow> decided i d b \<Longrightarrow> decided i e b \<Longrightarrow> e = d"
  unfolding decided_def using unique_waiter by fastforce

lemma remove_entry_sent: "br_channel (remove_entry j b) w = Some (Sent d) \<longleftrightarrow> br_channel b w = Some (Sent d)"
  by (auto simp: remove_entry_def split: option.splits)

lemma resolve_waiter [simp]: "br_waiter (snd (bridge_resolve i d b)) = br_waiter b"
  by (auto simp: bridge_resolve_def Let_def split: option.split)

text \<open>Every channel holding a decision got it from the resolve that reported \<open>Resolved\<close> for its request.\<close>

lemma resolve_sent:
  assumes inv: "bridge_inv b" and w: "br_waiter b w = Some (i, x)"
    and sent: "br_channel (snd (bridge_resolve j e b)) w = Some (Sent d)" and new: "br_channel b w \<noteq> Some (Sent d)"
  shows "j = i \<and> e = d \<and> fst (bridge_resolve j e b) = Resolved"
proof (cases "br_inner b j")
  case None then show ?thesis using sent new by (auto simp: bridge_resolve_def split: option.splits)
next
  case (Some p)
  then obtain ap v where p: "br_inner b j = Some (ap, v)" by (cases p) auto
  from entry_waiter [OF inv p] obtain y where v: "br_waiter b v = Some (j, y)" by blast
  have "receiver_alive v b \<and> w = v \<and> e = d"
    using p sent new by (auto simp: bridge_resolve_def Let_def remove_entry_sent split: if_splits)
  then show ?thesis using p v w by (auto simp: bridge_resolve_def Let_def)
qed

lemma decided_move:
  assumes "br_waiter b w = Some (j, x)" and "br_waiter c = (br_waiter b)(w \<mapsto> (j, y))"
    and "\<And>v. br_channel c v = Some (Sent d) \<longleftrightarrow> br_channel b v = Some (Sent d)"
  shows "decided i d c \<longleftrightarrow> decided i d b"
proof -
  have "(\<exists>z. br_waiter c v = Some (k, z)) \<longleftrightarrow> (\<exists>z. br_waiter b v = Some (k, z))" for v k
    using assms(1,2) by simp
  then show ?thesis unfolding decided_def assms(3) by metis
qed

lemma decided_wake: "decided i d (wake w b) \<longleftrightarrow> decided i d b"
  by (auto simp: wake_def decided_move split: option.split waiter.split channel.split)

lemma decided_time_out: "decided i d (time_out w b) \<longleftrightarrow> decided i d b"
  by (auto simp: time_out_def decided_move split: option.split waiter.split channel.split)

lemma decided_finish: "decided i d (finish w b) \<longleftrightarrow> decided i d b"
  by (auto simp: finish_def Let_def decided_move remove_entry_sent split: option.split waiter.split)

lemma decided_drop: "decided i d (drop_waiter w b) \<longleftrightarrow> decided i d b"
  by (auto simp: drop_waiter_def Let_def decided_move remove_entry_sent split: option.split waiter.split)

lemma decided_enqueue:
  assumes "br_waiter b w = None" shows "decided i d (enqueue ap w b) \<longleftrightarrow> decided i d b"
proof -
  let ?c = "enqueue ap w b"
  have "br_waiter ?c v = Some (i, x) \<and> br_channel ?c v = Some (Sent d) \<longleftrightarrow> br_waiter b v = Some (i, x) \<and> br_channel b v = Some (Sent d)" for v x
    using assms by (simp add: enqueue_def Let_def remove_entry_sent)
  then show ?thesis by (simp add: decided_def)
qed

lemmas decided_simps = decided_wake decided_time_out decided_finish decided_drop decided_enqueue

lemma step_sent:
  assumes "bridge_step b c" and "bridge_inv b" and "decided i d c"
  shows "decided i d b \<or> fst (bridge_resolve i d b) = Resolved \<and> c = snd (bridge_resolve i d b)"
  using assms(1)
proof cases
  case (step_resolve j e)
  from assms(3) obtain w x where w: "br_waiter b w = Some (i, x)" "br_channel c w = Some (Sent d)"
    by (auto simp: decided_def step_resolve)
  show ?thesis
  proof (cases "br_channel b w = Some (Sent d)")
    case True then show ?thesis using w by (auto simp: decided_def)
  next
    case False
    then show ?thesis using resolve_sent [OF assms(2) w(1)] w(2) step_resolve by blast
  qed
qed (use assms(3) in \<open>simp_all add: decided_simps\<close>)

lemma step_decided:
  assumes "bridge_step b c" and "bridge_inv b" and "decided i d b"
  shows "decided i d c"
  using assms(1)
proof cases
  case (step_resolve j e)
  from assms(3) obtain w x where w: "br_waiter b w = Some (i, x)" "br_channel b w = Some (Sent d)" by (auto simp: decided_def)
  have "br_channel c w = Some (Sent d)"
  proof (cases "br_inner b j")
    case None then show ?thesis using w step_resolve by (auto simp: bridge_resolve_def split: option.splits)
  next
    case (Some p)
    then obtain ap v where p: "br_inner b j = Some (ap, v)" by (cases p) auto
    then have "v \<noteq> w" using entry_waiter [OF assms(2) p] w by (auto simp: live_entry_def)
    then show ?thesis using p w step_resolve by (auto simp: bridge_resolve_def Let_def remove_entry_sent)
  qed
  then show ?thesis using w step_resolve by (auto simp: decided_def)
qed (use assms(3) in \<open>simp_all add: decided_simps\<close>)

lemma steps_reachable: "bridge_step\<^sup>*\<^sup>* b c \<Longrightarrow> bridge_reachable b \<Longrightarrow> bridge_reachable c"
  by (induction rule: rtranclp_induct) (auto intro: reach_step)

lemma steps_decided: "bridge_step\<^sup>*\<^sup>* b c \<Longrightarrow> bridge_reachable b \<Longrightarrow> decided i d b \<Longrightarrow> decided i d c"
  by (induction rule: rtranclp_induct) (auto intro: step_decided reachable_inv steps_reachable)

lemma decided_from_resolve:
  "bridge_reachable b \<Longrightarrow> decided i d b \<Longrightarrow>
     \<exists>b0. bridge_reachable b0 \<and> fst (bridge_resolve i d b0) = Resolved \<and> bridge_step\<^sup>*\<^sup>* (snd (bridge_resolve i d b0)) b"
proof (induction rule: bridge_reachable.induct)
  case reach_init then show ?case by (simp add: decided_def empty_bridge_def)
next
  case (reach_step b c)
  from step_sent [OF reach_step.hyps(2) reachable_inv [OF reach_step.hyps(1)] reach_step.prems]
  show ?case
  proof
    assume "decided i d b"
    with reach_step.IH reach_step.hyps(2) show ?thesis by (meson rtranclp.rtrancl_into_rtrancl)
  next
    assume "fst (bridge_resolve i d b) = Resolved \<and> c = snd (bridge_resolve i d b)"
    with reach_step.hyps(1) show ?thesis by blast
  qed
qed

lemma resolved_decided:
  assumes "bridge_inv b" and "fst (bridge_resolve i d b) = Resolved"
  shows "decided i d (snd (bridge_resolve i d b))"
proof -
  from assms(2) obtain ap w where e: "br_inner b i = Some (ap, w)" "receiver_alive w b"
    by (auto simp: bridge_resolve_def Let_def split: option.splits if_splits)
  then show ?thesis using entry_waiter [OF assms(1) e(1)] by (auto simp: decided_def bridge_resolve_def Let_def)
qed

text \<open>C12: invariant of the bridge. In every state the interleaved requests, answers, timeouts and
  cancellations can reach: every pending prompt belongs to exactly one waiter that is still there to
  be answered or about to clean up, so no phantom prompt is left behind by a waiter that returned or
  was dropped; a waiter that returned has published exactly one closing event and none before; and at
  most 256 decisions are remembered, one per request, each being what was sent to its waiter.\<close>

theorem bridge_invariant:
  assumes "bridge_reachable b"
  shows "(\<forall>i ap w. br_inner b i = Some (ap, w) \<longrightarrow>
            ap_request_id ap = i \<and> br_channel b w = Some Empty \<and> (br_waiter b w = Some (i, Suspended) \<or> br_waiter b w = Some (i, Woken False))) \<and>
         (\<forall>w i d. br_waiter b w = Some (i, Returned d) \<longrightarrow> closings b i = 1 \<and> br_inner b i = None) \<and>
         (\<forall>w i. br_waiter b w = Some (i, Dropped) \<longrightarrow> br_inner b i = None \<and> (closings b i = 1 \<longleftrightarrow> \<not> (\<exists>e. decided i e b))) \<and>
         length (br_resolved b) \<le> 256 \<and> distinct (map fst (br_resolved b)) \<and> (\<forall>(j, e) \<in> set (br_resolved b). decided j e b)"
proof (intro conjI allI impI)
  note inv = reachable_inv [OF assms]
  fix i ap w assume e: "br_inner b i = Some (ap, w)"
  from entry_waiter [OF inv e] obtain x where x: "br_waiter b w = Some (i, x)" "live_entry i w (br_inner b i) (br_channel b w)" by blast
  then show "ap_request_id ap = i" "br_channel b w = Some Empty" "br_waiter b w = Some (i, Suspended) \<or> br_waiter b w = Some (i, Woken False)"
    using phases_okD [OF inv x(1)] e by (auto simp: phase_ok_def live_entry_def split: waiter.splits)
next
  fix w i d assume w: "br_waiter b w = Some (i, Returned d)"
  show "closings b i = 1" "br_inner b i = None"
    using phases_okD [OF reachable_inv [OF assms] w] by (simp_all add: phase_ok_def)
next
  note inv = reachable_inv [OF assms]
  fix w i assume w: "br_waiter b w = Some (i, Dropped)"
  have "(\<exists>e. decided i e b) \<longleftrightarrow> (\<exists>e. br_channel b w = Some (Sent e))"
    using w unique_waiter [OF inv w] unfolding decided_def by blast
  then show "br_inner b i = None" "closings b i = 1 \<longleftrightarrow> \<not> (\<exists>e. decided i e b)"
    using phases_okD [OF inv w] by (auto simp: phase_ok_def)
next
  note inv = reachable_inv [OF assms]
  then show "length (br_resolved b) \<le> 256" "distinct (map fst (br_resolved b))" "\<forall>(j, e) \<in> set (br_resolved b). decided j e b"
    unfolding bridge_inv_def decisions_ok_def RESOLVED_CAP_def decided_def by blast+
qed

text \<open>C7: fail closed. A request returns approved only if, at some earlier moment, an answer \<open>True\<close> for
  that very request was delivered (\<open>resolve\<close> said \<open>Resolved\<close>): no timeout, cancelled waiter, lost sender
  or answer to another request, in any interleaving, can approve a tool call.\<close>

theorem approval_needs_answer:
  assumes "bridge_reachable b" and "br_waiter b w = Some (i, Returned True)"
  shows "\<exists>b0. bridge_reachable b0 \<and> fst (bridge_resolve i True b0) = Resolved \<and>
           bridge_step\<^sup>*\<^sup>* (snd (bridge_resolve i True b0)) b"
proof -
  have "br_channel b w = Some (Sent True)"
    using phases_okD [OF reachable_inv [OF assms(1)] assms(2)] by (simp add: phase_ok_def)
  then show ?thesis using decided_from_resolve [OF assms(1)] assms(2) unfolding decided_def by blast
qed

text \<open>The first decision stands. Once an answer for a request was delivered, no later answer, after
  any further steps, is delivered again or changes anything: it is reported as already resolved with
  the first decision, or as unknown once that decision has been evicted.\<close>

theorem first_decision_stands:
  assumes "bridge_reachable b" and "fst (bridge_resolve i d b) = Resolved" and "bridge_step\<^sup>*\<^sup>* (snd (bridge_resolve i d b)) c"
  shows "bridge_resolve i e c = (AlreadyResolved d, c) \<or> bridge_resolve i e c = (Unknown, c)"
proof -
  have start: "bridge_reachable (snd (bridge_resolve i d b))" using assms(1) by (blast intro: reach_step step_resolve)
  note inv = reachable_inv [OF steps_reachable [OF assms(3) start]]
  have dec: "decided i d c"
    using steps_decided [OF assms(3) start] resolved_decided [OF reachable_inv [OF assms(1)] assms(2)] by blast
  have "f = d" if "(i, f) \<in> set (br_resolved c)" for f
    using that inv decided_unique [OF inv dec] unfolding bridge_inv_def decisions_ok_def decided_def by blast
  moreover have "(i, f) \<in> set (br_resolved c)" if "List.find (\<lambda>(j, _). j = i) (br_resolved c) = Some (j, f)" for j f
    using that by (auto simp: find_Some_iff) (metis nth_mem)
  ultimately have "f = d" if "List.find (\<lambda>(j, _). j = i) (br_resolved c) = Some (j, f)" for j f using that by blast
  then show ?thesis using decided_no_entry [OF inv dec] by (auto simp: bridge_resolve_def split: option.split)
qed

text \<open>An answer arrives. Answering a prompt whose waiter is suspended is delivered, and whatever
  other steps come in between, as long as the waiter has not been cancelled its next two steps return
  exactly that answer; a timeout can no longer turn it into a denial.\<close>

theorem answer_arrives:
  assumes "bridge_reachable b" and "br_inner b i = Some (ap, w)" and "br_waiter b w = Some (i, Suspended)"
    and "bridge_step\<^sup>*\<^sup>* (snd (bridge_resolve i d b)) c" and "br_waiter c w = Some (i, Suspended)"
  shows "fst (bridge_resolve i d b) = Resolved \<and> time_out w c = c \<and>
    br_waiter (finish w (wake w c)) w = Some (i, Returned d) \<and> br_inner (finish w (wake w c)) i = None"
proof -
  have del: "fst (bridge_resolve i d b) = Resolved"
    using assms(2,3) by (simp add: bridge_resolve_def receiver_alive_def Let_def)
  have start: "bridge_reachable (snd (bridge_resolve i d b))" using assms(1) by (blast intro: reach_step step_resolve)
  note inv = reachable_inv [OF steps_reachable [OF assms(4) start]]
  have "decided i d c"
    using steps_decided [OF assms(4) start] resolved_decided [OF reachable_inv [OF assms(1)] del] by blast
  then have "br_channel c w = Some (Sent d)" using unique_waiter [OF inv assms(5)] unfolding decided_def by blast
  then show ?thesis using del assms(5) by (simp add: wake_def finish_def time_out_def Let_def)
qed

text \<open>A request and its answer, as used below.\<close>

definition sample_request :: approval where
  "sample_request = policy_ask ''r1'' ''child-a'' ''file_write'' ''outside workspace'' ''path:/tmp/x''"

definition sample_pending :: bridge where
  "sample_pending = enqueue sample_request 0 empty_bridge"

lemma sample_pending_reachable: "bridge_reachable sample_pending"
  unfolding sample_pending_def
  by (rule reach_step [OF reach_init step_enqueue]) (simp_all add: empty_bridge_def fresh_request_def)

lemmas sample_simps = sample_pending_def sample_request_def policy_ask_def enqueue_def empty_bridge_def remove_entry_def Let_def
  bridge_resolve_def receiver_alive_def wake_def finish_def drop_waiter_def remember_def RESOLVED_CAP_def

lemma sample_answered:
  "bridge_step\<^sup>*\<^sup>* (snd (bridge_resolve ''r1'' True sample_pending)) (finish 0 (wake 0 (snd (bridge_resolve ''r1'' True sample_pending))))"
  by (rule rtranclp.rtrancl_into_rtrancl [OF r_into_rtranclp [of bridge_step, OF step_wake] step_finish])

lemma sample_answered_reachable: "bridge_reachable (finish 0 (wake 0 (snd (bridge_resolve ''r1'' True sample_pending))))"
  by (rule steps_reachable [OF sample_answered reach_step [OF sample_pending_reachable step_resolve]])

theorem bridge_invariant_witness:
  "closings (finish 0 (wake 0 (snd (bridge_resolve ''r1'' True sample_pending)))) ''r1'' = 1"
proof -
  have "br_waiter (finish 0 (wake 0 (snd (bridge_resolve ''r1'' True sample_pending)))) 0 = Some (''r1'', Returned True)"
    by (simp add: sample_simps)
  then show ?thesis using bridge_invariant [OF sample_answered_reachable] by blast
qed

theorem approval_needs_answer_witness:
  "\<exists>b0. bridge_reachable b0 \<and> fst (bridge_resolve ''r1'' True b0) = Resolved \<and>
     bridge_step\<^sup>*\<^sup>* (snd (bridge_resolve ''r1'' True b0)) (finish 0 (wake 0 (snd (bridge_resolve ''r1'' True sample_pending))))"
  by (rule approval_needs_answer [OF sample_answered_reachable, of 0]) (simp add: sample_simps)

theorem first_decision_stands_witness:
  "bridge_resolve ''r1'' False (finish 0 (wake 0 (snd (bridge_resolve ''r1'' True sample_pending)))) =
     (AlreadyResolved True, finish 0 (wake 0 (snd (bridge_resolve ''r1'' True sample_pending))))"
proof -
  have "fst (bridge_resolve ''r1'' True sample_pending) = Resolved" by (simp add: sample_simps)
  note first_decision_stands [OF sample_pending_reachable this sample_answered, of False]
  moreover have "fst (bridge_resolve ''r1'' False (finish 0 (wake 0 (snd (bridge_resolve ''r1'' True sample_pending))))) \<noteq> Unknown"
    by (simp add: sample_simps)
  ultimately show ?thesis by (metis fst_conv)
qed

theorem answer_arrives_witness:
  "br_waiter (finish 0 (wake 0 (snd (bridge_resolve ''r1'' True sample_pending)))) 0 = Some (''r1'', Returned True)"
  using answer_arrives [OF sample_pending_reachable, of "''r1''" sample_request 0 True "snd (bridge_resolve ''r1'' True sample_pending)"]
  by (simp add: sample_simps)

text \<open>
  A waiter cancelled after its answer was delivered but before it ran again publishes no closing
  event: a client that shows the prompt is not told to dismiss it.
\<close>

theorem cancelled_after_answer:
  "bridge_reachable (drop_waiter 0 (snd (bridge_resolve ''r1'' True sample_pending))) \<and>
   br_trace (drop_waiter 0 (snd (bridge_resolve ''r1'' True sample_pending))) = [PendingEvent ''r1'']"
proof
  show "bridge_reachable (drop_waiter 0 (snd (bridge_resolve ''r1'' True sample_pending)))"
    by (rule reach_step [OF reach_step [OF sample_pending_reachable step_resolve] step_drop])
qed (simp add: sample_simps)

end
