(* ===== verification/Task_Group.thy ===== *)
theory Task_Group
  imports Rust_Paths "HOL-Library.Multiset"
begin

text \<open>
  \<open>agent/task_group.rs\<close>: batches of work given to direct children. A group collects one terminal
  result per child and is claimed, when all are there, by exactly one delivery. Groups belong to a
  generation of their session; a new generation discards the groups of the old one. The store is one
  lock, so every operation is one step. Hash maps are association lists with distinct keys (their
  iteration order is never observable, as shown below), instants are numbers, and the random group
  id is an argument.
\<close>

section \<open>State\<close>

datatype child_terminal_status = ChildCompleted | ChildFailed | ChildCancelled

record child_result =
  rc_child_id :: string
  rc_status :: child_terminal_status
  rc_summary :: string
  rc_error_code :: "string option"
  rc_partial_result :: "string option"

record group_delivery =
  gv_group_id :: string
  gv_generation :: u64
  gv_results :: "child_result list"

datatype task_group_error =
    StaleGeneration string u64 u64
  | GroupNotFound string
  | GroupClosed string string
  | ChildAlreadyRegistered string string
  | ChildNotRegistered string string
  | ResultAlreadyRecorded string string

datatype group_lifecycle = GroupActive | GroupExpired

record group_record =
  gp_id :: string
  gp_session_id :: string
  gp_owner_id :: string
  gp_origin_turn_id :: "string option"
  gp_generation :: u64
  gp_deadline_at :: nat
  gp_child_ids :: "string list"
  gp_results :: "(string \<times> child_result) list"
  gp_lifecycle :: group_lifecycle

record tg_state =
  tg_generations :: "string \<rightharpoonup> u64"
  tg_groups :: "(string \<times> group_record) list"

definition empty_tg :: tg_state where
  "empty_tg = \<lparr>tg_generations = Map.empty, tg_groups = []\<rparr>"

section \<open>Operations\<close>

definition tg_current_generation :: "tg_state \<Rightarrow> string \<Rightarrow> u64" where
  "tg_current_generation st session = (case tg_generations st session of Some g \<Rightarrow> g | None \<Rightarrow> 0)"

definition ensure_generation :: "tg_state \<Rightarrow> string \<Rightarrow> u64 \<Rightarrow> task_group_error + unit" where
  "ensure_generation st session generation =
     (let current = tg_current_generation st session in
      if current \<noteq> generation then Inl (StaleGeneration session current generation) else Inr ())"

definition initialize_or_validate_generation :: "tg_state \<Rightarrow> string \<Rightarrow> u64 \<Rightarrow> task_group_error + tg_state" where
  "initialize_or_validate_generation st session generation =
     (case tg_generations st session of
        Some current \<Rightarrow> if current \<noteq> generation then Inl (StaleGeneration session current generation) else Inr st
      | None \<Rightarrow> Inr (st\<lparr>tg_generations := (tg_generations st)(session \<mapsto> generation)\<rparr>))"

definition insert_group :: "string \<Rightarrow> string \<Rightarrow> string \<Rightarrow> string option \<Rightarrow> u64 \<Rightarrow> nat \<Rightarrow> tg_state \<Rightarrow> tg_state" where
  "insert_group new_id session owner origin generation deadline st =
     st\<lparr>tg_groups := (new_id, \<lparr>gp_id = new_id, gp_session_id = session, gp_owner_id = owner, gp_origin_turn_id = origin,
          gp_generation = generation, gp_deadline_at = deadline, gp_child_ids = [], gp_results = [], gp_lifecycle = GroupActive\<rparr>)
        # tg_groups st\<rparr>"

text \<open>\<open>create_for_root_turn\<close> and \<open>create_for_parent\<close> differ in the origin turn only.\<close>

definition same_owner :: "string \<Rightarrow> string \<Rightarrow> string option \<Rightarrow> u64 \<Rightarrow> group_record \<Rightarrow> bool" where
  "same_owner session owner origin generation g \<longleftrightarrow>
     gp_session_id g = session \<and> gp_owner_id g = owner \<and> gp_origin_turn_id g = origin \<and> gp_generation g = generation"

definition create_group :: "string \<Rightarrow> string \<Rightarrow> string \<Rightarrow> string option \<Rightarrow> u64 \<Rightarrow> nat \<Rightarrow> tg_state \<Rightarrow> (task_group_error + string) \<times> tg_state" where
  "create_group new_id session owner origin generation deadline st =
     (case initialize_or_validate_generation st session generation of
        Inl err \<Rightarrow> (Inl err, st)
      | Inr st' \<Rightarrow>
          (case List.find (\<lambda>(_, g). same_owner session owner origin generation g) (tg_groups st') of
             Some (_, g) \<Rightarrow> (Inr (gp_id g), st')
           | None \<Rightarrow> (Inr new_id, insert_group new_id session owner origin generation deadline st')))"

definition create_for_root_turn :: "string \<Rightarrow> string \<Rightarrow> string \<Rightarrow> string \<Rightarrow> u64 \<Rightarrow> nat \<Rightarrow> tg_state \<Rightarrow> (task_group_error + string) \<times> tg_state" where
  "create_for_root_turn new_id session owner origin_turn = create_group new_id session owner (Some origin_turn)"

definition create_for_parent :: "string \<Rightarrow> string \<Rightarrow> string \<Rightarrow> u64 \<Rightarrow> nat \<Rightarrow> tg_state \<Rightarrow> (task_group_error + string) \<times> tg_state" where
  "create_for_parent new_id session owner = create_group new_id session owner None"

definition ensure_group_current :: "tg_state \<Rightarrow> string \<Rightarrow> task_group_error + group_record" where
  "ensure_group_current st group_id =
     (case map_of (tg_groups st) group_id of
        None \<Rightarrow> Inl (GroupNotFound group_id)
      | Some g \<Rightarrow> result_bind (ensure_generation st (gp_session_id g) (gp_generation g)) (\<lambda>_. Inr g))"

definition put_group :: "string \<Rightarrow> group_record \<Rightarrow> tg_state \<Rightarrow> tg_state" where
  "put_group group_id g st = st\<lparr>tg_groups := map (\<lambda>(i, h). (i, if i = group_id then g else h)) (tg_groups st)\<rparr>"

definition group_add_child :: "string \<Rightarrow> string \<Rightarrow> tg_state \<Rightarrow> (task_group_error + unit) \<times> tg_state" where
  "group_add_child group_id child st =
     (case ensure_group_current st group_id of
        Inl err \<Rightarrow> (Inl err, st)
      | Inr g \<Rightarrow>
          if gp_lifecycle g \<noteq> GroupActive then (Inl (GroupClosed group_id child), st)
          else if child \<in> set (gp_child_ids g) then (Inl (ChildAlreadyRegistered group_id child), st)
          else (Inr (), put_group group_id (g\<lparr>gp_child_ids := child # gp_child_ids g\<rparr>) st))"

definition group_record_result :: "string \<Rightarrow> child_result \<Rightarrow> tg_state \<Rightarrow> (task_group_error + unit) \<times> tg_state" where
  "group_record_result group_id result st =
     (case ensure_group_current st group_id of
        Inl err \<Rightarrow> (Inl err, st)
      | Inr g \<Rightarrow>
          if gp_lifecycle g \<noteq> GroupActive then (Inl (GroupClosed group_id (rc_child_id result)), st)
          else if rc_child_id result \<notin> set (gp_child_ids g) then (Inl (ChildNotRegistered group_id (rc_child_id result)), st)
          else if map_of (gp_results g) (rc_child_id result) \<noteq> None then (Inl (ResultAlreadyRecorded group_id (rc_child_id result)), st)
          else (Inr (), put_group group_id (g\<lparr>gp_results := (rc_child_id result, result) # gp_results g\<rparr>) st))"

definition group_ready :: "group_record \<Rightarrow> bool" where
  "group_ready g \<longleftrightarrow> gp_child_ids g \<noteq> [] \<and> length (gp_child_ids g) = length (gp_results g)"

definition group_is_ready :: "tg_state \<Rightarrow> string \<Rightarrow> bool" where
  "group_is_ready st group_id = (case map_of (tg_groups st) group_id of Some g \<Rightarrow> group_ready g | None \<Rightarrow> False)"

definition timeout_result :: "string \<Rightarrow> child_result" where
  "timeout_result child = \<lparr>rc_child_id = child, rc_status = ChildFailed, rc_summary = [], rc_error_code = Some ''timeout'', rc_partial_result = None\<rparr>"

definition unfinished :: "group_record \<Rightarrow> string list" where
  "unfinished g = filter (\<lambda>c. map_of (gp_results g) c = None) (gp_child_ids g)"

definition group_due :: "nat \<Rightarrow> group_record \<Rightarrow> bool" where
  "group_due now g \<longleftrightarrow> gp_lifecycle g = GroupActive \<and> gp_deadline_at g \<le> now"

definition expire_group :: "nat \<Rightarrow> group_record \<Rightarrow> group_record" where
  "expire_group now g =
     (if group_due now g
      then g\<lparr>gp_results := map (\<lambda>c. (c, timeout_result c)) (unfinished g) @ gp_results g, gp_lifecycle := GroupExpired\<rparr>
      else g)"

definition expire_due_groups :: "nat \<Rightarrow> tg_state \<Rightarrow> nat \<times> tg_state" where
  "expire_due_groups now st =
     (sum_list (map (\<lambda>(_, g). if group_due now g then length (unfinished g) else 0) (tg_groups st)),
      st\<lparr>tg_groups := filter (\<lambda>(_, g). gp_lifecycle g \<noteq> GroupExpired \<or> gp_child_ids g \<noteq> [])
           (map (\<lambda>(i, g). (i, expire_group now g)) (tg_groups st))\<rparr>)"

definition remove_group :: "string \<Rightarrow> tg_state \<Rightarrow> tg_state" where
  "remove_group group_id st = st\<lparr>tg_groups := filter (\<lambda>(i, _). i \<noteq> group_id) (tg_groups st)\<rparr>"

definition delivery_of :: "group_record \<Rightarrow> group_delivery" where
  "delivery_of g = \<lparr>gv_group_id = gp_id g, gv_generation = gp_generation g, gv_results = sort_key rc_child_id (map snd (gp_results g))\<rparr>"

definition remove_delivery :: "string \<Rightarrow> tg_state \<Rightarrow> (task_group_error + group_delivery) \<times> tg_state" where
  "remove_delivery group_id st =
     (case map_of (tg_groups st) group_id of
        None \<Rightarrow> (Inl (GroupNotFound group_id), st)
      | Some g \<Rightarrow> (Inr (delivery_of g), remove_group group_id st))"

text \<open>The least id among the ready groups a claim looks at.\<close>

definition claim_first :: "(group_record \<Rightarrow> bool) \<Rightarrow> string \<Rightarrow> u64 \<Rightarrow> tg_state \<Rightarrow> (task_group_error + group_delivery option) \<times> tg_state" where
  "claim_first wanted session generation st =
     (if tg_current_generation st session \<noteq> generation then (Inr None, st)
      else case map (\<lambda>(_, g). gp_id g) (filter (\<lambda>(_, g). wanted g \<and> group_ready g) (tg_groups st)) of
             [] \<Rightarrow> (Inr None, st)
           | i # is \<Rightarrow> (case remove_delivery (foldr min is i) st of
                 (Inr d, st') \<Rightarrow> (Inr (Some d), st') | (Inl err, st') \<Rightarrow> (Inl err, st')))"

definition claim_ready :: "string \<Rightarrow> u64 \<Rightarrow> tg_state \<Rightarrow> (task_group_error + group_delivery option) \<times> tg_state" where
  "claim_ready session generation =
     claim_first (\<lambda>g. gp_session_id g = session \<and> gp_generation g = generation) session generation"

definition claim_ready_for_owner :: "string \<Rightarrow> string \<Rightarrow> u64 \<Rightarrow> tg_state \<Rightarrow> (task_group_error + group_delivery option) \<times> tg_state" where
  "claim_ready_for_owner session owner generation =
     claim_first (\<lambda>g. gp_session_id g = session \<and> gp_owner_id g = owner \<and> gp_generation g = generation) session generation"

definition claim_specific :: "string \<Rightarrow> string \<Rightarrow> string \<Rightarrow> u64 \<Rightarrow> tg_state \<Rightarrow> (task_group_error + group_delivery option) \<times> tg_state" where
  "claim_specific group_id session owner generation st =
     (case map_of (tg_groups st) group_id of
        Some g \<Rightarrow>
          if gp_session_id g = session \<and> gp_owner_id g = owner \<and> gp_generation g = generation \<and>
             tg_current_generation st session = generation \<and> group_ready g
          then (case remove_delivery group_id st of (Inr d, st') \<Rightarrow> (Inr (Some d), st') | (Inl err, st') \<Rightarrow> (Inl err, st'))
          else (Inr None, st)
      | None \<Rightarrow> (Inr None, st))"

definition advance_generation :: "string \<Rightarrow> tg_state \<Rightarrow> u64 \<times> tg_state" where
  "advance_generation session st =
     (let generation = tg_current_generation st session + 1 in
      (generation,
       \<lparr>tg_generations = (tg_generations st)(session \<mapsto> generation),
        tg_groups = filter (\<lambda>(_, g). gp_session_id g \<noteq> session \<or> generation \<le> gp_generation g) (tg_groups st)\<rparr>))"

definition cancel_generation :: "string \<Rightarrow> u64 \<Rightarrow> tg_state \<Rightarrow> nat \<times> tg_state" where
  "cancel_generation session generation st =
     (let kept = filter (\<lambda>(_, g). gp_session_id g \<noteq> session \<or> gp_generation g \<noteq> generation) (tg_groups st) in
      (length (tg_groups st) - length kept, st\<lparr>tg_groups := kept\<rparr>))"

section \<open>Well-formed stores\<close>

definition group_ok :: "group_record \<Rightarrow> bool" where
  "group_ok g \<longleftrightarrow> distinct (gp_child_ids g) \<and> distinct (map fst (gp_results g)) \<and> fst ` set (gp_results g) \<subseteq> set (gp_child_ids g) \<and>
     (\<forall>(c, r) \<in> set (gp_results g). rc_child_id r = c) \<and> (gp_lifecycle g = GroupExpired \<longrightarrow> group_ready g)"

text \<open>Groups are stored under their id, at most one per owner and turn, and all of the current generation of their session.\<close>

definition tg_ok :: "tg_state \<Rightarrow> bool" where
  "tg_ok st \<longleftrightarrow> distinct (map fst (tg_groups st)) \<and>
     (\<forall>i g. (i, g) \<in> set (tg_groups st) \<longrightarrow> gp_id g = i \<and> group_ok g \<and> tg_generations st (gp_session_id g) = Some (gp_generation g)) \<and>
     (\<forall>i g j h. (i, g) \<in> set (tg_groups st) \<longrightarrow> (j, h) \<in> set (tg_groups st) \<longrightarrow>
        same_owner (gp_session_id g) (gp_owner_id g) (gp_origin_turn_id g) (gp_generation g) h \<longrightarrow> i = j)"

lemma tg_okI:
  assumes "distinct (map fst (tg_groups st))"
    and "\<And>i g. (i, g) \<in> set (tg_groups st) \<Longrightarrow> gp_id g = i \<and> group_ok g \<and> tg_generations st (gp_session_id g) = Some (gp_generation g)"
    and "\<And>i g j h. (i, g) \<in> set (tg_groups st) \<Longrightarrow> (j, h) \<in> set (tg_groups st) \<Longrightarrow>
        same_owner (gp_session_id g) (gp_owner_id g) (gp_origin_turn_id g) (gp_generation g) h \<Longrightarrow> i = j"
  shows "tg_ok st"
  using assms unfolding tg_ok_def by blast

lemma tg_okD:
  assumes "tg_ok st" and "(i, g) \<in> set (tg_groups st)"
  shows "gp_id g = i" "group_ok g" "tg_generations st (gp_session_id g) = Some (gp_generation g)" "map_of (tg_groups st) i = Some g"
  using assms unfolding tg_ok_def by (blast, blast, blast, simp)

lemma tg_distinct: "tg_ok st \<Longrightarrow> distinct (map fst (tg_groups st))"
  by (simp add: tg_ok_def)

lemma tg_one_per_owner:
  "tg_ok st \<Longrightarrow> (i, g) \<in> set (tg_groups st) \<Longrightarrow> (j, h) \<in> set (tg_groups st) \<Longrightarrow>
     same_owner (gp_session_id g) (gp_owner_id g) (gp_origin_turn_id g) (gp_generation g) h \<Longrightarrow> i = j"
  unfolding tg_ok_def by blast

lemma tg_lookup: "tg_ok st \<Longrightarrow> map_of (tg_groups st) i = Some g \<longleftrightarrow> (i, g) \<in> set (tg_groups st)"
  by (metis map_of_SomeD tg_okD(4))

text \<open>Keeping some of the groups keeps a store well-formed.\<close>

lemma tg_ok_filter:
  assumes "tg_ok st" and "tg_groups t = filter P (tg_groups st)"
    and "\<And>i g. (i, g) \<in> set (tg_groups t) \<Longrightarrow> tg_generations t (gp_session_id g) = Some (gp_generation g)"
  shows "tg_ok t"
proof (rule tg_okI)
  show "distinct (map fst (tg_groups t))" using tg_distinct [OF assms(1)] assms(2) by (simp add: distinct_map_filter)
  have old: "(i, g) \<in> set (tg_groups st)" if "(i, g) \<in> set (tg_groups t)" for i g using that assms(2) by simp
  show "gp_id g = i \<and> group_ok g \<and> tg_generations t (gp_session_id g) = Some (gp_generation g)"
    if "(i, g) \<in> set (tg_groups t)" for i g using tg_okD(1,2) [OF assms(1) old [OF that]] assms(3) [OF that] by simp
  show "i = j" if "(i, g) \<in> set (tg_groups t)" "(j, h) \<in> set (tg_groups t)"
      "same_owner (gp_session_id g) (gp_owner_id g) (gp_origin_turn_id g) (gp_generation g) h" for i g j h
    using tg_one_per_owner [OF assms(1) old [OF that(1)] old [OF that(2)] that(3)] .
qed

lemma remove_group_ok: "tg_ok st \<Longrightarrow> tg_ok (remove_group i st)"
  by (rule tg_ok_filter [where P = "\<lambda>(j, _). j \<noteq> i"], assumption) (auto simp: remove_group_def dest: tg_okD(3))

text \<open>Changing groups in place, without touching who they belong to.\<close>

definition same_place :: "group_record \<Rightarrow> group_record \<Rightarrow> bool" where
  "same_place g h \<longleftrightarrow> gp_id h = gp_id g \<and> gp_session_id h = gp_session_id g \<and> gp_owner_id h = gp_owner_id g \<and>
     gp_origin_turn_id h = gp_origin_turn_id g \<and> gp_generation h = gp_generation g"

lemma tg_ok_map:
  assumes "tg_ok st" and "tg_groups t = map (\<lambda>(i, g). (i, f i g)) (tg_groups st)" and "tg_generations t = tg_generations st"
    and "\<And>i g. (i, g) \<in> set (tg_groups st) \<Longrightarrow> same_place g (f i g)"
    and "\<And>i g. (i, g) \<in> set (tg_groups st) \<Longrightarrow> group_ok (f i g)"
  shows "tg_ok t"
proof (rule tg_okI)
  show "distinct (map fst (tg_groups t))" using tg_distinct [OF assms(1)] assms(2) by (simp add: case_prod_unfold comp_def)
  have old: "\<exists>k. (i, k) \<in> set (tg_groups st) \<and> g = f i k" if "(i, g) \<in> set (tg_groups t)" for i g
    using that assms(2) by auto
  show "gp_id g = i \<and> group_ok g \<and> tg_generations t (gp_session_id g) = Some (gp_generation g)"
    if "(i, g) \<in> set (tg_groups t)" for i g
  proof -
    from old [OF that] obtain k where k: "(i, k) \<in> set (tg_groups st)" "g = f i k" by blast
    show ?thesis using tg_okD [OF assms(1) k(1)] assms(4,5) [OF k(1)] assms(3) k(2) by (simp add: same_place_def)
  qed
  show "i = j" if m: "(i, g) \<in> set (tg_groups t)" "(j, h) \<in> set (tg_groups t)"
      "same_owner (gp_session_id g) (gp_owner_id g) (gp_origin_turn_id g) (gp_generation g) h" for i g j h
  proof -
    from old [OF m(1)] obtain k where k: "(i, k) \<in> set (tg_groups st)" "g = f i k" by blast
    from old [OF m(2)] obtain l where l: "(j, l) \<in> set (tg_groups st)" "h = f j l" by blast
    show ?thesis
      using tg_one_per_owner [OF assms(1) k(1) l(1)] m(3) assms(4) [OF k(1)] assms(4) [OF l(1)] k(2) l(2)
      by (simp add: same_place_def same_owner_def)
  qed
qed

lemma put_group_ok:
  assumes "tg_ok st" and "map_of (tg_groups st) i = Some g" and "same_place g h" and "group_ok h"
  shows "tg_ok (put_group i h st)"
proof (rule tg_ok_map [OF assms(1), where f = "\<lambda>j k. if j = i then h else k"])
  fix j k assume k: "(j, k) \<in> set (tg_groups st)"
  show "same_place k (if j = i then h else k)" "group_ok (if j = i then h else k)"
    using assms(2-4) tg_okD [OF assms(1) k] by (auto simp: same_place_def)
qed (simp_all add: put_group_def)

lemma ensure_group_current_iff:
  assumes "tg_ok st"
  shows "ensure_group_current st i = (case map_of (tg_groups st) i of None \<Rightarrow> Inl (GroupNotFound i) | Some g \<Rightarrow> Inr g)"
proof (cases "map_of (tg_groups st) i")
  case (Some g)
  then have "tg_generations st (gp_session_id g) = Some (gp_generation g)" using tg_okD(3) [OF assms map_of_SomeD] by blast
  then show ?thesis using Some
    by (simp add: ensure_group_current_def ensure_generation_def tg_current_generation_def Let_def)
qed (simp add: ensure_group_current_def)

lemma group_ready_iff:
  assumes "group_ok g"
  shows "group_ready g \<longleftrightarrow> gp_child_ids g \<noteq> [] \<and> set (gp_child_ids g) = fst ` set (gp_results g)"
proof -
  have "length (gp_child_ids g) = card (set (gp_child_ids g))" "length (gp_results g) = card (fst ` set (gp_results g))"
    using assms by (simp_all add: group_ok_def distinct_card) (metis distinct_card length_map list.set_map)
  moreover have "fst ` set (gp_results g) \<subseteq> set (gp_child_ids g)" using assms by (simp add: group_ok_def)
  ultimately show ?thesis unfolding group_ready_def by (metis List.finite_set card_subset_eq)
qed

section \<open>Every operation keeps the store well-formed\<close>

lemma initialize_ok:
  assumes "tg_ok st" and "initialize_or_validate_generation st session generation = Inr st'"
  shows "tg_ok st'" "tg_generations st' session = Some generation" "tg_groups st' = tg_groups st"
proof -
  show gen: "tg_generations st' session = Some generation" and groups: "tg_groups st' = tg_groups st"
    using assms(2) by (auto simp: initialize_or_validate_generation_def split: option.splits if_splits)
  have "tg_generations st' (gp_session_id g) = Some (gp_generation g)" if "(i, g) \<in> set (tg_groups st)" for i g
    using tg_okD(3) [OF assms(1) that] assms(2)
    by (auto simp: initialize_or_validate_generation_def split: option.splits if_splits)
  then show "tg_ok st'" by (intro tg_ok_filter [OF assms(1), where P = "\<lambda>_. True"]) (simp_all add: groups)
qed

lemma new_group_ok [simp]:
  "group_ok \<lparr>gp_id = i, gp_session_id = session, gp_owner_id = owner, gp_origin_turn_id = origin,
     gp_generation = generation, gp_deadline_at = deadline, gp_child_ids = [], gp_results = [], gp_lifecycle = GroupActive\<rparr>"
  by (simp add: group_ok_def)

lemma insert_group_ok:
  assumes "tg_ok st" and "new_id \<notin> fst ` set (tg_groups st)" and "tg_generations st session = Some generation"
    and "\<And>i g. (i, g) \<in> set (tg_groups st) \<Longrightarrow> \<not> same_owner session owner origin generation g"
  shows "tg_ok (insert_group new_id session owner origin generation deadline st)"
proof (rule tg_okI)
  let ?t = "insert_group new_id session owner origin generation deadline st"
  show "distinct (map fst (tg_groups ?t))" using tg_distinct [OF assms(1)] assms(2) by (simp add: insert_group_def)
  show "gp_id g = i \<and> group_ok g \<and> tg_generations ?t (gp_session_id g) = Some (gp_generation g)" if "(i, g) \<in> set (tg_groups ?t)" for i g
    using that assms(3) by (auto simp: insert_group_def dest: tg_okD(1-3) [OF assms(1)])
  show "i = j" if "(i, g) \<in> set (tg_groups ?t)" "(j, h) \<in> set (tg_groups ?t)"
      "same_owner (gp_session_id g) (gp_owner_id g) (gp_origin_turn_id g) (gp_generation g) h" for i g j h
    using that assms(4) tg_one_per_owner [OF assms(1)] by (fastforce simp: insert_group_def same_owner_def)
qed

lemma create_group_ok:
  assumes "tg_ok st" and "new_id \<notin> fst ` set (tg_groups st)" and "create_group new_id session owner origin generation deadline st = (r, t)"
  shows "tg_ok t"
proof (cases "initialize_or_validate_generation st session generation")
  case (Inl err) then show ?thesis using assms by (simp add: create_group_def)
next
  case (Inr st')
  note init = initialize_ok [OF assms(1) Inr]
  show ?thesis
  proof (cases "List.find (\<lambda>(_, g). same_owner session owner origin generation g) (tg_groups st')")
    case (Some p) then show ?thesis using assms(3) Inr init(1) by (cases p) (simp add: create_group_def)
  next
    case None
    then have "tg_ok (insert_group new_id session owner origin generation deadline st')"
      using init assms(2) by (intro insert_group_ok) (auto simp: find_None_iff)
    then show ?thesis using assms(3) Inr None by (simp add: create_group_def)
  qed
qed

lemma add_child_ok: "tg_ok st \<Longrightarrow> tg_ok (snd (group_add_child i c st))"
proof -
  assume ok: "tg_ok st"
  show ?thesis
  proof (cases "map_of (tg_groups st) i")
    case None then show ?thesis using ok by (simp add: group_add_child_def ensure_group_current_iff)
  next
    case (Some g)
    then have g: "group_ok g" using tg_okD(2) [OF ok] tg_lookup [OF ok] by blast
    have "tg_ok (put_group i (g\<lparr>gp_child_ids := c # gp_child_ids g\<rparr>) st)" if "gp_lifecycle g = GroupActive" "c \<notin> set (gp_child_ids g)"
      by (rule put_group_ok [OF ok Some]) (use g that in \<open>auto simp: same_place_def group_ok_def\<close>)
    then show ?thesis using ok Some group_lifecycle.exhaust by (auto simp: group_add_child_def ensure_group_current_iff)
  qed
qed

lemma record_result_ok: "tg_ok st \<Longrightarrow> tg_ok (snd (group_record_result i r st))"
proof -
  assume ok: "tg_ok st"
  show ?thesis
  proof (cases "map_of (tg_groups st) i")
    case None then show ?thesis using ok by (simp add: group_record_result_def ensure_group_current_iff)
  next
    case (Some g)
    then have g: "group_ok g" using tg_okD(2) [OF ok] tg_lookup [OF ok] by blast
    have "tg_ok (put_group i (g\<lparr>gp_results := (rc_child_id r, r) # gp_results g\<rparr>) st)"
      if "gp_lifecycle g = GroupActive" "rc_child_id r \<in> set (gp_child_ids g)" "map_of (gp_results g) (rc_child_id r) = None"
      by (rule put_group_ok [OF ok Some]) (use g that in \<open>auto simp: same_place_def group_ok_def map_of_eq_None_iff\<close>)
    then show ?thesis using ok Some by (auto simp: group_record_result_def ensure_group_current_iff)
  qed
qed

lemma set_unfinished: "set (unfinished g) = set (gp_child_ids g) - fst ` set (gp_results g)"
  by (auto simp: unfinished_def map_of_eq_None_iff)

lemma expire_results:
  assumes "group_ok g" and "group_due now g"
  shows "distinct (map fst (gp_results (expire_group now g)))" "fst ` set (gp_results (expire_group now g)) = set (gp_child_ids g)"
proof -
  note un = set_unfinished [of g]
  have keys: "map fst (gp_results (expire_group now g)) = unfinished g @ map fst (gp_results g)"
    using assms(2) by (simp add: expire_group_def comp_def)
  have "distinct (unfinished g)" using assms(1) by (simp add: unfinished_def group_ok_def)
  then show "distinct (map fst (gp_results (expire_group now g)))"
    unfolding keys using assms(1) un by (auto simp: group_ok_def)
  have "fst ` set (gp_results (expire_group now g)) = set (map fst (gp_results (expire_group now g)))" by simp
  also have "\<dots> = set (gp_child_ids g)" unfolding keys using un assms(1) by (auto simp: group_ok_def)
  finally show "fst ` set (gp_results (expire_group now g)) = set (gp_child_ids g)" .
qed

lemma expire_group_ok:
  assumes "group_ok g" and "gp_child_ids g \<noteq> [] \<or> \<not> group_due now g"
  shows "group_ok (expire_group now g)"
proof (cases "group_due now g")
  case True
  note res = expire_results [OF assms(1) True]
  have ids: "gp_child_ids (expire_group now g) = gp_child_ids g" by (simp add: expire_group_def)
  have "length (gp_results (expire_group now g)) = card (set (gp_child_ids g))"
    using res by (metis distinct_card length_map list.set_map)
  also have "\<dots> = length (gp_child_ids g)" using assms(1) by (simp add: group_ok_def distinct_card)
  finally have "group_ready (expire_group now g)" using assms(2) True ids by (simp add: group_ready_def)
  moreover have "\<forall>(c, r) \<in> set (gp_results (expire_group now g)). rc_child_id r = c"
    using assms(1) True by (auto simp: expire_group_def group_ok_def timeout_result_def)
  ultimately show ?thesis using assms(1) res ids by (simp add: group_ok_def)
qed (use assms(1) in \<open>simp add: expire_group_def\<close>)

lemma expire_due_ok: "tg_ok st \<Longrightarrow> tg_ok (snd (expire_due_groups now st))"
proof -
  assume ok: "tg_ok st"
  let ?P = "\<lambda>(i :: string, g). gp_lifecycle g \<noteq> GroupExpired \<or> gp_child_ids g \<noteq> []"
  let ?Q = "\<lambda>(i :: string, g). \<not> (group_due now g \<and> gp_child_ids g = [])"
  have "?P (i, expire_group now g) \<longleftrightarrow> ?Q (i, g)" if "(i, g) \<in> set (tg_groups st)" for i g
    using tg_okD(2) [OF ok that]
    by (cases "group_due now g") (auto simp: expire_group_def group_ok_def group_ready_def)
  then have eq: "filter ?P (map (\<lambda>(i, g). (i, expire_group now g)) (tg_groups st)) =
      map (\<lambda>(i, g). (i, expire_group now g)) (filter ?Q (tg_groups st))"
    unfolding filter_map by (intro arg_cong [where f = "map _"] filter_cong) auto
  have mid: "tg_ok (st\<lparr>tg_groups := filter ?Q (tg_groups st)\<rparr>)"
    by (rule tg_ok_filter [OF ok, where P = ?Q]) (auto dest: tg_okD(3) [OF ok])
  show ?thesis
  proof (rule tg_ok_map [OF mid, where f = "\<lambda>_. expire_group now"])
    show "tg_groups (snd (expire_due_groups now st)) =
        map (\<lambda>(i, g). (i, expire_group now g)) (tg_groups (st\<lparr>tg_groups := filter ?Q (tg_groups st)\<rparr>))"
      using eq by (simp add: expire_due_groups_def)
    fix i g assume "(i, g) \<in> set (tg_groups (st\<lparr>tg_groups := filter ?Q (tg_groups st)\<rparr>))"
    then have "group_ok g" "gp_child_ids g \<noteq> [] \<or> \<not> group_due now g" using tg_okD(2) [OF ok] by auto
    then show "group_ok (expire_group now g)" by (rule expire_group_ok)
  qed (simp_all add: same_place_def expire_group_def expire_due_groups_def)
qed

lemma advance_ok:
  assumes "tg_ok st" and "tg_current_generation st session + 1 \<noteq> 0"
  shows "tg_ok (snd (advance_generation session st))"
proof (rule tg_ok_filter [OF assms(1)])
  fix i g assume g: "(i, g) \<in> set (tg_groups (snd (advance_generation session st)))"
  then have in_st: "(i, g) \<in> set (tg_groups st)" by (auto simp: advance_generation_def Let_def)
  note gen = tg_okD(3) [OF assms(1) in_st]
  have "gp_session_id g \<noteq> session"
  proof
    assume s: "gp_session_id g = session"
    then have "tg_current_generation st session + 1 \<le> tg_current_generation st session"
      using g gen by (auto simp: advance_generation_def Let_def tg_current_generation_def)
    then show False using assms(2) unatSuc [of "tg_current_generation st session"] by (simp add: word_le_nat_alt add.commute)
  qed
  then show "tg_generations (snd (advance_generation session st)) (gp_session_id g) = Some (gp_generation g)"
    using gen by (simp add: advance_generation_def Let_def)
qed (simp add: advance_generation_def Let_def)

lemma cancel_ok: "tg_ok st \<Longrightarrow> tg_ok (snd (cancel_generation session generation st))"
  by (rule tg_ok_filter [where P = "\<lambda>(_, g). gp_session_id g \<noteq> session \<or> gp_generation g \<noteq> generation"])
    (auto simp: cancel_generation_def Let_def dest: tg_okD(3))

section \<open>Claims\<close>

text \<open>
  What the three ways to claim promise alike: either nothing is ready and nothing changes, or one
  ready group is handed over and taken out of the store.
\<close>

locale group_claim =
  fixes claim :: "tg_state \<Rightarrow> (task_group_error + group_delivery option) \<times> tg_state"
  assumes takes_one: "tg_ok st \<Longrightarrow> claim st = (r, t) \<Longrightarrow>
    r = Inr None \<and> t = st \<or>
    (\<exists>g. (gp_id g, g) \<in> set (tg_groups st) \<and> group_ready g \<and> r = Inr (Some (delivery_of g)) \<and> t = remove_group (gp_id g) st)"
begin

lemma claim_keeps: "tg_ok st \<Longrightarrow> claim st = (r, t) \<Longrightarrow> tg_ok t"
  using takes_one [of st r t] remove_group_ok by blast

lemma claim_never_fails: "tg_ok st \<Longrightarrow> fst (claim st) \<noteq> Inl err"
  using takes_one [of st "fst (claim st)" "snd (claim st)"] by auto

lemma claim_takes:
  assumes "tg_ok st" and "claim st = (Inr (Some d), t)"
  shows "\<exists>g. (gv_group_id d, g) \<in> set (tg_groups st) \<and> group_ready g \<and> d = delivery_of g \<and> t = remove_group (gv_group_id d) st"
  using takes_one [OF assms] by (auto simp: delivery_of_def)

end

lemma remove_delivery_ready:
  assumes "tg_ok st" and "(i, g) \<in> set (tg_groups st)"
  shows "remove_delivery i st = (Inr (delivery_of g), remove_group i st)"
  using tg_okD(4) [OF assms] by (simp add: remove_delivery_def)

lemma foldr_min_in: "foldr min xs (x :: 'a :: linorder) \<in> set (x # xs)"
  by (induction xs) (auto simp: min_def)

lemma claim_first_takes:
  assumes ok: "tg_ok st" and run: "claim_first wanted session generation st = (r, t)"
  shows "r = Inr None \<and> t = st \<or>
    (\<exists>g. (gp_id g, g) \<in> set (tg_groups st) \<and> group_ready g \<and> r = Inr (Some (delivery_of g)) \<and> t = remove_group (gp_id g) st)"
proof (cases "map (\<lambda>(_, g). gp_id g) (filter (\<lambda>(_, g). wanted g \<and> group_ready g) (tg_groups st))")
  case Nil then show ?thesis using run by (auto simp: claim_first_def split: if_splits)
next
  case (Cons i rest)
  have "foldr min rest i \<in> set (map (\<lambda>(_, g). gp_id g) (filter (\<lambda>(_, g). wanted g \<and> group_ready g) (tg_groups st)))"
    unfolding Cons by (rule foldr_min_in)
  then obtain j g where g: "(j, g) \<in> set (tg_groups st)" "group_ready g" "gp_id g = foldr min rest i" by auto
  then have j: "foldr min rest i = j" using tg_okD(1) [OF ok g(1)] by simp
  have "claim_first wanted session generation st =
      (if tg_current_generation st session \<noteq> generation then (Inr None, st) else (Inr (Some (delivery_of g)), remove_group j st))"
    unfolding claim_first_def Cons using remove_delivery_ready [OF ok g(1)] j by simp
  moreover have "(gp_id g, g) \<in> set (tg_groups st)" "gp_id g = j" using tg_okD(1) [OF ok g(1)] g(1) by simp_all
  ultimately show ?thesis using run g(2) by (metis Pair_inject)
qed

interpretation by_session: group_claim "claim_ready session generation" for session generation
  by unfold_locales (simp add: claim_ready_def claim_first_takes)

interpretation by_owner: group_claim "claim_ready_for_owner session owner generation" for session owner generation
  by unfold_locales (simp add: claim_ready_for_owner_def claim_first_takes)

interpretation by_id: group_claim "claim_specific group_id session owner generation" for group_id session owner generation
proof
  fix st r t assume ok: "tg_ok st" and run: "claim_specific group_id session owner generation st = (r, t)"
  show "r = Inr None \<and> t = st \<or>
    (\<exists>g. (gp_id g, g) \<in> set (tg_groups st) \<and> group_ready g \<and> r = Inr (Some (delivery_of g)) \<and> t = remove_group (gp_id g) st)"
  proof (cases "map_of (tg_groups st) group_id")
    case None then show ?thesis using run by (simp add: claim_specific_def)
  next
    case (Some g)
    then have g: "(group_id, g) \<in> set (tg_groups st)" by (rule map_of_SomeD)
    then show ?thesis using run Some remove_delivery_ready [OF ok g] tg_okD(1) [OF ok g]
      by (auto simp: claim_specific_def split: if_splits)
  qed
qed

text \<open>A delivery holds one result per child, in the order of the children's ids.\<close>

lemma delivery_complete:
  assumes "group_ok g" and "group_ready g"
  shows "map rc_child_id (gv_results (delivery_of g)) = sort (gp_child_ids g)"
    and "set (gv_results (delivery_of g)) = snd ` set (gp_results g)"
proof -
  have ids: "map rc_child_id (map snd (gp_results g)) = map fst (gp_results g)"
    using assms(1) by (auto simp: group_ok_def)
  have "sorted (map rc_child_id (gv_results (delivery_of g)))" by (simp add: delivery_of_def)
  moreover have "mset (map rc_child_id (gv_results (delivery_of g))) = mset (map fst (gp_results g))"
    unfolding ids [symmetric] by (simp add: delivery_of_def multiset.map_comp)
  moreover have "mset (map fst (gp_results g)) = mset (gp_child_ids g)"
    using assms group_ready_iff [OF assms(1)] by (intro set_eq_iff_mset_eq_distinct [THEN iffD1]) (auto simp: group_ok_def)
  ultimately show "map rc_child_id (gv_results (delivery_of g)) = sort (gp_child_ids g)"
    by (metis properties_for_sort)
  show "set (gv_results (delivery_of g)) = snd ` set (gp_results g)" by (simp add: delivery_of_def)
qed

section \<open>The life of the store\<close>

text \<open>
  A run of the store: its state, the ids issued so far, what has been delivered, and the ids of the
  groups a new generation or a cancellation threw away. Group ids are fresh (they are UUIDs), and a
  generation counter does not reach its limit.
\<close>

record tg_run =
  tr_store :: tg_state
  tr_issued :: "string set"
  tr_delivered :: "group_delivery list"
  tr_discarded :: "string set"

definition store_ids :: "tg_state \<Rightarrow> string set" where
  "store_ids st = fst ` set (tg_groups st)"

inductive tg_step :: "tg_run \<Rightarrow> tg_run \<Rightarrow> bool" where
  step_create: "new_id \<notin> tr_issued s \<Longrightarrow>
    tg_step s (s\<lparr>tr_store := snd (create_group new_id session owner origin generation deadline (tr_store s)), tr_issued := insert new_id (tr_issued s)\<rparr>)"
| step_child: "tg_step s (s\<lparr>tr_store := snd (group_add_child i c (tr_store s))\<rparr>)"
| step_result: "tg_step s (s\<lparr>tr_store := snd (group_record_result i r (tr_store s))\<rparr>)"
| step_expire: "tg_step s (s\<lparr>tr_store := snd (expire_due_groups now (tr_store s))\<rparr>)"
| step_claim: "claim_ready session generation (tr_store s) = (Inr (Some d), t) \<Longrightarrow> tg_step s (s\<lparr>tr_store := t, tr_delivered := tr_delivered s @ [d]\<rparr>)"
| step_claim_owner: "claim_ready_for_owner session owner generation (tr_store s) = (Inr (Some d), t) \<Longrightarrow>
    tg_step s (s\<lparr>tr_store := t, tr_delivered := tr_delivered s @ [d]\<rparr>)"
| step_claim_id: "claim_specific i session owner generation (tr_store s) = (Inr (Some d), t) \<Longrightarrow>
    tg_step s (s\<lparr>tr_store := t, tr_delivered := tr_delivered s @ [d]\<rparr>)"
| step_advance: "tg_current_generation (tr_store s) session + 1 \<noteq> 0 \<Longrightarrow>
    tg_step s (s\<lparr>tr_store := snd (advance_generation session (tr_store s)),
      tr_discarded := tr_discarded s \<union> (store_ids (tr_store s) - store_ids (snd (advance_generation session (tr_store s))))\<rparr>)"
| step_cancel: "tg_step s (s\<lparr>tr_store := snd (cancel_generation session generation (tr_store s)),
      tr_discarded := tr_discarded s \<union> (store_ids (tr_store s) - store_ids (snd (cancel_generation session generation (tr_store s))))\<rparr>)"

inductive tg_reachable :: "tg_run \<Rightarrow> bool" where
  tg_start: "tg_reachable \<lparr>tr_store = empty_tg, tr_issued = {}, tr_delivered = [], tr_discarded = {}\<rparr>"
| tg_next: "tg_reachable s \<Longrightarrow> tg_step s t \<Longrightarrow> tg_reachable t"

definition tr_ok :: "tg_run \<Rightarrow> bool" where
  "tr_ok s \<longleftrightarrow> tg_ok (tr_store s) \<and> store_ids (tr_store s) \<subseteq> tr_issued s \<and>
     gv_group_id ` set (tr_delivered s) \<subseteq> tr_issued s - store_ids (tr_store s) \<and> distinct (map gv_group_id (tr_delivered s))"

text \<open>A step that issues no id: the groups that remain are among those there were.\<close>

lemma tr_ok_shrink:
  assumes "tr_ok s" and "tg_ok t" and "store_ids t \<subseteq> store_ids (tr_store s)"
  shows "tr_ok (s\<lparr>tr_store := t, tr_discarded := D\<rparr>)" "tr_ok (s\<lparr>tr_store := t\<rparr>)"
  using assms by (auto simp: tr_ok_def)

lemma store_ids_put [simp]: "store_ids (put_group i g st) = store_ids st"
  by (force simp: store_ids_def put_group_def)

lemma store_ids_remove [simp]: "store_ids (remove_group i st) = store_ids st - {i}"
  by (force simp: store_ids_def remove_group_def)

lemma store_ids_expire: "store_ids (snd (expire_due_groups now st)) \<subseteq> store_ids st"
  by (force simp: store_ids_def expire_due_groups_def)

lemma store_ids_filter: "store_ids (snd (advance_generation session st)) \<subseteq> store_ids st"
    "store_ids (snd (cancel_generation session generation st)) \<subseteq> store_ids st"
  by (auto simp: store_ids_def advance_generation_def cancel_generation_def Let_def)

lemma store_ids_child: "store_ids (snd (group_add_child i c st)) = store_ids st"
  by (auto simp: group_add_child_def split: sum.split)

lemma store_ids_result: "store_ids (snd (group_record_result i r st)) = store_ids st"
  by (auto simp: group_record_result_def split: sum.split)

lemma store_ids_create: "store_ids (snd (create_group new_id session owner origin generation deadline st)) \<subseteq> insert new_id (store_ids st)"
  by (auto simp: create_group_def insert_group_def store_ids_def initialize_or_validate_generation_def split: option.split sum.split if_splits)

text \<open>A claim by whatever method hands over one group of the store.\<close>

lemma tr_ok_claim:
  assumes "tr_ok s" and "(gv_group_id d, g) \<in> set (tg_groups (tr_store s))" and "t = remove_group (gv_group_id d) (tr_store s)"
  shows "tr_ok (s\<lparr>tr_store := t, tr_delivered := tr_delivered s @ [d]\<rparr>)"
proof -
  have "gv_group_id d \<in> store_ids (tr_store s)" using assms(2) by (force simp: store_ids_def)
  then show ?thesis using assms(1,3) remove_group_ok by (auto simp: tr_ok_def)
qed

lemma tg_step_ok: "tg_step s t \<Longrightarrow> tr_ok s \<Longrightarrow> tr_ok t"
proof (induction rule: tg_step.induct)
  case (step_create new_id s session owner origin generation deadline)
  then have ok: "tg_ok (tr_store s)" "new_id \<notin> fst ` set (tg_groups (tr_store s))" by (auto simp: tr_ok_def store_ids_def)
  have "tg_ok (snd (create_group new_id session owner origin generation deadline (tr_store s)))"
    using create_group_ok [OF ok] by (metis prod.exhaust_sel)
  then show ?case using step_create store_ids_create [of new_id session owner origin generation deadline "tr_store s"]
    by (auto simp: tr_ok_def)
next
  case (step_claim session generation s d t)
  then show ?case using by_session.claim_takes tr_ok_claim by (metis tr_ok_def)
next
  case (step_claim_owner session owner generation s d t)
  then show ?case using by_owner.claim_takes tr_ok_claim by (metis tr_ok_def)
next
  case (step_claim_id i session owner generation s d t)
  then show ?case using by_id.claim_takes tr_ok_claim by (metis tr_ok_def)
next
  case (step_child s i c)
  then show ?case using add_child_ok by (intro tr_ok_shrink) (auto simp: tr_ok_def store_ids_child)
next
  case (step_result s i r)
  then show ?case using record_result_ok by (intro tr_ok_shrink) (auto simp: tr_ok_def store_ids_result)
next
  case (step_expire s now)
  then show ?case using expire_due_ok store_ids_expire by (intro tr_ok_shrink) (auto simp: tr_ok_def)
next
  case (step_advance s session)
  then show ?case using advance_ok store_ids_filter(1) by (intro tr_ok_shrink) (auto simp: tr_ok_def)
next
  case (step_cancel s session generation)
  then show ?case using cancel_ok store_ids_filter(2) by (intro tr_ok_shrink) (auto simp: tr_ok_def)
qed

lemma tg_reachable_ok: "tg_reachable s \<Longrightarrow> tr_ok s"
proof (induction rule: tg_reachable.induct)
  case tg_start then show ?case by (simp add: tr_ok_def tg_ok_def empty_tg_def store_ids_def)
next
  case (tg_next s t) then show ?case using tg_step_ok by blast
qed

text \<open>
  C28: exactly once and complete. Whichever way a ready group is claimed, in any state the store can
  reach: the delivery holds exactly one result for every registered child, in the order of their
  ids, and nothing but what was recorded; the group is gone afterwards and had not been delivered
  before.
\<close>

theorem delivery_exactly_once:
  assumes "tg_reachable s"
    and "claim_ready session generation (tr_store s) = (Inr (Some d), t) \<or>
         claim_ready_for_owner session owner generation (tr_store s) = (Inr (Some d), t) \<or>
         claim_specific i session owner generation (tr_store s) = (Inr (Some d), t)"
  shows "\<exists>g. (gv_group_id d, g) \<in> set (tg_groups (tr_store s)) \<and> map rc_child_id (gv_results d) = sort (gp_child_ids g) \<and>
    set (gv_results d) = snd ` set (gp_results g) \<and> gv_group_id d \<notin> store_ids t \<and> gv_group_id d \<notin> gv_group_id ` set (tr_delivered s)"
proof -
  have run: "tr_ok s" "tg_ok (tr_store s)" using tg_reachable_ok [OF assms(1)] by (simp_all add: tr_ok_def)
  obtain g where g: "(gv_group_id d, g) \<in> set (tg_groups (tr_store s))" "group_ready g" "d = delivery_of g"
      "t = remove_group (gv_group_id d) (tr_store s)"
    using assms(2) by_session.claim_takes [OF run(2)] by_owner.claim_takes [OF run(2)] by_id.claim_takes [OF run(2)] by blast
  have "gv_group_id d \<in> store_ids (tr_store s)" using g(1) by (force simp: store_ids_def)
  then have "gv_group_id d \<notin> gv_group_id ` set (tr_delivered s)" using run(1) by (auto simp: tr_ok_def)
  then show ?thesis
    using g delivery_complete [OF tg_okD(2) [OF run(2) g(1)] g(2)] by (intro exI [of _ g]) simp
qed

text \<open>A result the store holds for a child of a group.\<close>

definition holds_result :: "string \<Rightarrow> string \<Rightarrow> child_result \<Rightarrow> tg_state \<Rightarrow> bool" where
  "holds_result i c r st \<longleftrightarrow> (\<exists>g. (i, g) \<in> set (tg_groups st) \<and> (c, r) \<in> set (gp_results g))"

lemma holds_put:
  assumes "tg_ok st" and "map_of (tg_groups st) j = Some g" and "set (gp_results g) \<subseteq> set (gp_results h)" and "holds_result i c r st"
  shows "holds_result i c r (put_group j h st)"
proof -
  from assms(4) obtain k where k: "(i, k) \<in> set (tg_groups st)" "(c, r) \<in> set (gp_results k)" by (auto simp: holds_result_def)
  then have "(i, if i = j then h else k) \<in> set (tg_groups (put_group j h st))" by (force simp: put_group_def)
  moreover have "(c, r) \<in> set (gp_results (if i = j then h else k))"
    using k assms(2,3) tg_okD(4) [OF assms(1) k(1)] by auto
  ultimately show ?thesis unfolding holds_result_def by blast
qed

lemma holds_child: "tg_ok st \<Longrightarrow> holds_result i c r st \<Longrightarrow> holds_result i c r (snd (group_add_child j ch st))"
  by (auto simp: group_add_child_def ensure_group_current_iff intro!: holds_put split: option.split)

lemma holds_record: "tg_ok st \<Longrightarrow> holds_result i c r st \<Longrightarrow> holds_result i c r (snd (group_record_result j q st))"
  by (auto simp: group_record_result_def ensure_group_current_iff intro!: holds_put split: option.split)

lemma holds_expire:
  assumes "tg_ok st" and "holds_result i c r st" shows "holds_result i c r (snd (expire_due_groups now st))"
proof -
  from assms(2) obtain g where g: "(i, g) \<in> set (tg_groups st)" "(c, r) \<in> set (gp_results g)" by (auto simp: holds_result_def)
  then have "c \<in> set (gp_child_ids g)" using tg_okD(2) [OF assms(1) g(1)] by (force simp: group_ok_def)
  then have "(i, expire_group now g) \<in> set (tg_groups (snd (expire_due_groups now st)))"
    using g(1) by (force simp: expire_due_groups_def expire_group_def)
  moreover have "(c, r) \<in> set (gp_results (expire_group now g))" using g(2) by (simp add: expire_group_def)
  ultimately show ?thesis unfolding holds_result_def by blast
qed

lemma holds_create: "holds_result i c r st \<Longrightarrow> holds_result i c r (snd (create_group new_id session owner origin generation deadline st))"
  by (auto simp: holds_result_def create_group_def insert_group_def initialize_or_validate_generation_def split: option.split)

lemma holds_remove:
  assumes "tg_ok st" and "holds_result i c r st" and "(j, g) \<in> set (tg_groups st)"
  shows "holds_result i c r (remove_group j st) \<or> j = i \<and> r \<in> set (gv_results (delivery_of g))"
proof (cases "j = i")
  case True
  from assms(2) obtain h where h: "(i, h) \<in> set (tg_groups st)" "(c, r) \<in> set (gp_results h)" by (auto simp: holds_result_def)
  have "h = g" using tg_okD(4) [OF assms(1) h(1)] tg_okD(4) [OF assms(1) assms(3)] True by simp
  then show ?thesis using h(2) True by (force simp: delivery_of_def)
next
  case False then show ?thesis using assms(2) by (auto simp: holds_result_def remove_group_def)
qed

text \<open>Where a recorded result is: in the store, in a delivery of its group, or thrown away with its group.\<close>

definition accounted :: "string \<Rightarrow> string \<Rightarrow> child_result \<Rightarrow> tg_run \<Rightarrow> bool" where
  "accounted i c r s \<longleftrightarrow> holds_result i c r (tr_store s) \<or> (\<exists>d \<in> set (tr_delivered s). gv_group_id d = i \<and> r \<in> set (gv_results d)) \<or> i \<in> tr_discarded s"

lemma accounted_claim:
  assumes "tr_ok s" and "accounted i c r s" and "\<exists>g. (gv_group_id d, g) \<in> set (tg_groups (tr_store s)) \<and> group_ready g \<and> d = delivery_of g \<and> t = remove_group (gv_group_id d) (tr_store s)"
  shows "accounted i c r (s\<lparr>tr_store := t, tr_delivered := tr_delivered s @ [d]\<rparr>)"
proof -
  have ok: "tg_ok (tr_store s)" using assms(1) by (simp add: tr_ok_def)
  from assms(3) obtain g where g: "(gv_group_id d, g) \<in> set (tg_groups (tr_store s))" "d = delivery_of g" "t = remove_group (gv_group_id d) (tr_store s)" by blast
  show ?thesis using assms(2) holds_remove [OF ok _ g(1), of i c r] g(2,3) by (auto simp: accounted_def)
qed

lemma holds_discarded: "holds_result i c r st \<Longrightarrow> i \<in> store_ids st"
  by (force simp: holds_result_def store_ids_def)

lemma accounted_filter:
  assumes "accounted i c r s" and "tg_groups t = filter P (tg_groups (tr_store s))" and "tg_ok (tr_store s)"
  shows "accounted i c r (s\<lparr>tr_store := t, tr_discarded := tr_discarded s \<union> (store_ids (tr_store s) - store_ids t)\<rparr>)"
proof -
  have "holds_result i c r t \<or> i \<notin> store_ids t" if "holds_result i c r (tr_store s)"
  proof (rule disjCI, simp)
    assume "i \<in> store_ids t"
    then obtain h where h: "(i, h) \<in> set (tg_groups t)" by (force simp: store_ids_def)
    from that obtain g where g: "(i, g) \<in> set (tg_groups (tr_store s))" "(c, r) \<in> set (gp_results g)" by (auto simp: holds_result_def)
    have "h = g" using tg_okD(4) [OF assms(3) g(1)] tg_okD(4) [OF assms(3), of i h] h assms(2) by simp
    then show "holds_result i c r t" using h g(2) by (auto simp: holds_result_def)
  qed
  then show ?thesis using assms(1) holds_discarded [of i c r "tr_store s"] by (auto simp: accounted_def)
qed

lemma accounted_step: "tg_step s t \<Longrightarrow> tr_ok s \<Longrightarrow> accounted i c r s \<Longrightarrow> accounted i c r t"
proof (induction rule: tg_step.induct)
  case (step_claim session generation s d t)
  then show ?case using by_session.claim_takes by (intro accounted_claim) (auto simp: tr_ok_def)
next
  case (step_claim_owner session owner generation s d t)
  then show ?case using by_owner.claim_takes by (intro accounted_claim) (auto simp: tr_ok_def)
next
  case (step_claim_id j session owner generation s d t)
  then show ?case using by_id.claim_takes by (intro accounted_claim) (auto simp: tr_ok_def)
next
  case (step_advance s session)
  then show ?case by (intro accounted_filter) (auto simp: tr_ok_def advance_generation_def Let_def)
next
  case (step_cancel s session generation)
  then show ?case by (intro accounted_filter) (auto simp: tr_ok_def cancel_generation_def Let_def)
qed (auto simp: accounted_def tr_ok_def holds_create holds_child holds_record holds_expire)

text \<open>
  C29: no result is lost or altered. Once a child's result is recorded in a group, then after any
  further operations it is still in the group unchanged, or was handed over in the group's delivery,
  or the whole group was thrown away by a new generation or a cancellation: neither a timeout nor a
  later result of the same child replaces it.
\<close>

theorem recorded_result_kept:
  assumes "tg_reachable s" and "holds_result i c r (tr_store s)" and "tg_step\<^sup>*\<^sup>* s t"
  shows "holds_result i c r (tr_store t) \<or> (\<exists>d \<in> set (tr_delivered t). gv_group_id d = i \<and> r \<in> set (gv_results d)) \<or> i \<in> tr_discarded t"
proof -
  have "tg_reachable t \<and> accounted i c r t" using assms(3)
  proof (induction rule: rtranclp_induct)
    case base then show ?case using assms(1,2) by (simp add: accounted_def)
  next
    case (step t u)
    then show ?case using accounted_step [OF _ tg_reachable_ok] tg_next by blast
  qed
  then show ?thesis by (simp add: accounted_def)
qed

text \<open>
  C30: no group waits forever. Once its deadline has passed, expiry makes a group with children
  claimable by its owner, with the results recorded so far and a timeout failure for every child
  that has none.
\<close>

theorem deadline_delivers:
  assumes "tg_reachable s" and "(i, g) \<in> set (tg_groups (tr_store s))" and "group_due now g" and "gp_child_ids g \<noteq> []"
  shows "\<exists>d. fst (claim_specific i (gp_session_id g) (gp_owner_id g) (gp_generation g) (snd (expire_due_groups now (tr_store s)))) = Inr (Some d) \<and>
    map rc_child_id (gv_results d) = sort (gp_child_ids g) \<and>
    set (gv_results d) = snd ` set (gp_results g) \<union> timeout_result ` (set (gp_child_ids g) - fst ` set (gp_results g))"
proof -
  let ?t = "snd (expire_due_groups now (tr_store s))" and ?h = "expire_group now g"
  have ok: "tg_ok (tr_store s)" using tg_reachable_ok [OF assms(1)] by (simp add: tr_ok_def)
  note t = expire_due_ok [OF ok, of now]
  have h: "(i, ?h) \<in> set (tg_groups ?t)" using assms(2,4) by (force simp: expire_due_groups_def expire_group_def)
  have fields: "gp_session_id ?h = gp_session_id g" "gp_owner_id ?h = gp_owner_id g" "gp_generation ?h = gp_generation g"
    "gp_child_ids ?h = gp_child_ids g" "gp_lifecycle ?h = GroupExpired" using assms(3) by (simp_all add: expire_group_def)
  have ready: "group_ready ?h" using tg_okD(2) [OF t h] fields(5) by (simp add: group_ok_def)
  have "tg_current_generation ?t (gp_session_id g) = gp_generation g"
    using tg_okD(3) [OF t h] fields by (simp add: tg_current_generation_def)
  then have "claim_specific i (gp_session_id g) (gp_owner_id g) (gp_generation g) ?t = (Inr (Some (delivery_of ?h)), remove_group i ?t)"
    using tg_okD(4) [OF t h] remove_delivery_ready [OF t h] ready fields by (simp add: claim_specific_def)
  moreover have "snd ` set (gp_results ?h) = snd ` set (gp_results g) \<union> timeout_result ` (set (gp_child_ids g) - fst ` set (gp_results g))"
    using assms(3) by (simp add: expire_group_def image_Un image_image flip: set_unfinished) (simp add: Un_commute)
  ultimately show ?thesis
    using delivery_complete [OF tg_okD(2) [OF t h] ready] fields(4) by (intro exI [of _ "delivery_of ?h"]) simp
qed

section \<open>Examples\<close>

definition done_result :: child_result where
  "done_result = \<lparr>rc_child_id = ''a'', rc_status = ChildCompleted, rc_summary = ''ok'', rc_error_code = None, rc_partial_result = None\<rparr>"

definition one_group :: tg_run where
  "one_group = \<lparr>tr_store = snd (create_group ''g'' ''s'' ''o'' None 0 10 empty_tg), tr_issued = {''g''}, tr_delivered = [], tr_discarded = {}\<rparr>"

definition two_children :: tg_run where
  "two_children = one_group\<lparr>tr_store := snd (group_add_child ''g'' ''b'' (snd (group_add_child ''g'' ''a'' (tr_store one_group))))\<rparr>"

definition one_done :: tg_run where
  "one_done = two_children\<lparr>tr_store := snd (group_record_result ''g'' done_result (tr_store two_children))\<rparr>"

definition all_done :: tg_run where
  "all_done = one_done\<lparr>tr_store := snd (expire_due_groups 10 (tr_store one_done))\<rparr>"

lemma samples_reachable: "tg_reachable one_group" "tg_reachable two_children" "tg_reachable one_done" "tg_reachable all_done"
proof -
  show one: "tg_reachable one_group"
    using tg_next [OF tg_start step_create, of "''g''" "''s''" "''o''" None 0 10] by (simp add: one_group_def)
  show two: "tg_reachable two_children"
    using tg_next [OF tg_next [OF one step_child [of _ "''g''" "''a''"]] step_child [of _ "''g''" "''b''"]] by (simp add: two_children_def)
  show three: "tg_reachable one_done" unfolding one_done_def by (rule tg_next [OF two step_result])
  show "tg_reachable all_done" unfolding all_done_def by (rule tg_next [OF three step_expire])
qed

lemmas sample_group_simps = all_done_def one_done_def two_children_def one_group_def create_group_def empty_tg_def
  initialize_or_validate_generation_def insert_group_def group_add_child_def group_record_result_def ensure_group_current_def
  ensure_generation_def tg_current_generation_def put_group_def expire_due_groups_def expire_group_def group_due_def unfinished_def
  done_result_def timeout_result_def Let_def

theorem delivery_exactly_once_witness:
  "\<exists>d t. claim_ready ''s'' 0 (tr_store all_done) = (Inr (Some d), t) \<and> map rc_child_id (gv_results d) = [''a'', ''b'']"
proof -
  obtain d t where run: "claim_ready ''s'' 0 (tr_store all_done) = (Inr (Some d), t)"
    by (simp add: sample_group_simps claim_ready_def claim_first_def group_ready_def remove_delivery_def)
  from delivery_exactly_once [OF samples_reachable(4), of "''s''" 0 d t] run obtain g where
    g: "(gv_group_id d, g) \<in> set (tg_groups (tr_store all_done))" "map rc_child_id (gv_results d) = sort (gp_child_ids g)" by blast
  have "gp_child_ids g = [''b'', ''a'']" using g(1) by (auto simp: sample_group_simps)
  then show ?thesis using run g(2) by simp
qed

theorem recorded_result_kept_witness: "holds_result ''g'' ''a'' done_result (tr_store all_done)"
proof -
  have "holds_result ''g'' ''a'' done_result (tr_store one_done)" by (simp add: holds_result_def sample_group_simps)
  moreover have "tg_step\<^sup>*\<^sup>* one_done all_done" unfolding all_done_def by (rule r_into_rtranclp, rule step_expire)
  moreover have "tr_delivered all_done = []" "tr_discarded all_done = {}" by (simp_all add: sample_group_simps)
  ultimately show ?thesis using recorded_result_kept [OF samples_reachable(3)] by fastforce
qed

theorem deadline_delivers_witness:
  "\<exists>d. fst (claim_specific ''g'' ''s'' ''o'' 0 (tr_store all_done)) = Inr (Some d) \<and> set (gv_results d) = {done_result, timeout_result ''b''}"
proof -
  obtain g where g: "(''g'', g) \<in> set (tg_groups (tr_store one_done))" "group_due 10 g" "gp_child_ids g \<noteq> []" "gp_session_id g = ''s''"
    "gp_owner_id g = ''o''" "gp_generation g = 0" "snd ` set (gp_results g) = {done_result}"
    "timeout_result ` (set (gp_child_ids g) - fst ` set (gp_results g)) = {timeout_result ''b''}"
    by (auto simp: sample_group_simps)
  from deadline_delivers [OF samples_reachable(3) g(1-3)] show ?thesis unfolding g(4-8) by (auto simp: all_done_def)
qed

end
