(* ===== verification/Agent_Store.thy ===== *)
theory Agent_Store
  imports Task_Group
begin

text \<open>
  \<open>agent/store.rs\<close>: the hierarchy of agents. Every agent has one record, indexed by its session and
  id, and every parent an index of its direct children; agents see themselves and their direct
  children only. The creation and update times of a record are not modelled.
\<close>

section \<open>State\<close>

datatype agent_lifecycle_status =
  AgentPending | AgentRunning | WaitingForChildren | AgentFinalizing | AgentCancelling | AgentCompleted | AgentFailed | AgentCancelled

definition is_terminal :: "agent_lifecycle_status \<Rightarrow> bool" where
  "is_terminal status \<longleftrightarrow> status \<in> {AgentCompleted, AgentFailed, AgentCancelled}"

record child_summary =
  cs_text :: string
  cs_error_code :: "string option"

record agent_record =
  ar_session_id :: string
  ar_agent_id :: string
  ar_parent_id :: "string option"
  ar_depth :: nat
  ar_generation :: u64
  ar_status :: agent_lifecycle_status
  ar_label :: string
  ar_summary :: "child_summary option"

definition new_agent_record :: "string \<Rightarrow> string \<Rightarrow> string option \<Rightarrow> nat \<Rightarrow> agent_record" where
  "new_agent_record session agent parent depth =
     \<lparr>ar_session_id = session, ar_agent_id = agent, ar_parent_id = parent, ar_depth = depth, ar_generation = 0,
      ar_status = AgentPending, ar_label = [], ar_summary = None\<rparr>"

record direct_child_view =
  cv_agent_id :: string
  cv_status :: agent_lifecycle_status
  cv_label :: string
  cv_summary :: "string option"

record local_agent_view =
  lv_agent_id :: string
  lv_status :: agent_lifecycle_status
  lv_children :: "direct_child_view list"

datatype agent_store_error = AgentNotVisible | AgentAlreadyExists | StoreInvariant string

record agent_store =
  as_records :: "string \<times> string \<rightharpoonup> agent_record"
  as_children :: "string \<times> string option \<Rightarrow> string list"

definition empty_agent_store :: agent_store where
  "empty_agent_store = \<lparr>as_records = Map.empty, as_children = (\<lambda>_. [])\<rparr>"

section \<open>Operations\<close>

definition agent_insert :: "agent_record \<Rightarrow> agent_store \<Rightarrow> (agent_store_error + unit) \<times> agent_store" where
  "agent_insert r st =
     (let key = (ar_session_id r, ar_agent_id r); parent_key = (ar_session_id r, ar_parent_id r) in
      if as_records st key \<noteq> None then (Inl AgentAlreadyExists, st)
      else (Inr (), \<lparr>as_records = (as_records st)(key \<mapsto> r),
                     as_children = (as_children st)(parent_key := as_children st parent_key @ [ar_agent_id r])\<rparr>))"

definition records_of :: "agent_store \<Rightarrow> string \<Rightarrow> string list \<Rightarrow> agent_record list" where
  "records_of st session ids = List.map_filter (\<lambda>i. as_records st (session, i)) ids"

definition direct_children :: "agent_store \<Rightarrow> string \<Rightarrow> string \<Rightarrow> agent_record list" where
  "direct_children st session parent = sort_key ar_agent_id (records_of st session (as_children st (session, Some parent)))"

definition child_view :: "agent_record \<Rightarrow> direct_child_view" where
  "child_view r = \<lparr>cv_agent_id = ar_agent_id r, cv_status = ar_status r, cv_label = ar_label r, cv_summary = map_option cs_text (ar_summary r)\<rparr>"

definition local_view :: "agent_store \<Rightarrow> string \<Rightarrow> string \<Rightarrow> agent_store_error + local_agent_view" where
  "local_view st session caller =
     (case as_records st (session, caller) of
        None \<Rightarrow> Inl AgentNotVisible
      | Some r \<Rightarrow> Inr \<lparr>lv_agent_id = ar_agent_id r, lv_status = ar_status r,
           lv_children = sort_key cv_agent_id (map child_view (records_of st session (as_children st (session, Some caller))))\<rparr>)"

definition authorize_target :: "agent_store \<Rightarrow> string \<Rightarrow> string \<Rightarrow> string \<Rightarrow> agent_store_error + agent_record" where
  "authorize_target st session caller target =
     (if target \<noteq> caller then Inl AgentNotVisible else ok_or (as_records st (session, caller)) AgentNotVisible)"

definition record_for_trusted_ui :: "agent_store \<Rightarrow> string \<Rightarrow> string \<Rightarrow> agent_store_error + agent_record" where
  "record_for_trusted_ui st session agent = ok_or (as_records st (session, agent)) AgentNotVisible"

definition local_records_for_trusted_ui :: "agent_store \<Rightarrow> string \<Rightarrow> string \<Rightarrow> agent_store_error + agent_record \<times> agent_record list" where
  "local_records_for_trusted_ui st session agent =
     result_bind (ok_or (as_records st (session, agent)) AgentNotVisible) (\<lambda>self.
     result_bind (collect_results (\<lambda>child. ok_or (as_records st (session, child))
         (StoreInvariant (''child index references missing agent: '' @ child))) (as_children st (session, Some agent))) (\<lambda>children.
     Inr (self, sort_key ar_agent_id children)))"

text \<open>The loop of \<open>descendants\<close>: \<open>None\<close> stands for a loop that does not end.\<close>

partial_function (option) descend :: "agent_store \<Rightarrow> string \<Rightarrow> string list \<Rightarrow> agent_record list \<Rightarrow> agent_record list option" where
  "descend st session queue result =
     (if queue = [] then Some result
      else let current = last queue; rest = butlast queue in
        case as_records st (session, current) of
          Some r \<Rightarrow> descend st session (rest @ as_children st (session, Some current)) (result @ [r])
        | None \<Rightarrow> descend st session rest result)"

definition descendants :: "agent_store \<Rightarrow> string \<Rightarrow> string \<Rightarrow> agent_record list option" where
  "descendants st session root = map_option (sort_key ar_agent_id) (descend st session (as_children st (session, Some root)) [])"

definition update_agent :: "string \<Rightarrow> string \<Rightarrow> (agent_record \<Rightarrow> agent_record) \<Rightarrow> agent_store \<Rightarrow> (agent_store_error + unit) \<times> agent_store" where
  "update_agent session agent f st =
     (case as_records st (session, agent) of
        None \<Rightarrow> (Inl (StoreInvariant (''agent not found: '' @ agent)), st)
      | Some r \<Rightarrow> (Inr (), st\<lparr>as_records := (as_records st)((session, agent) \<mapsto> f r)\<rparr>))"

definition update_status :: "string \<Rightarrow> string \<Rightarrow> agent_lifecycle_status \<Rightarrow> agent_store \<Rightarrow> (agent_store_error + unit) \<times> agent_store" where
  "update_status session agent status = update_agent session agent (\<lambda>r. r\<lparr>ar_status := status\<rparr>)"

definition set_summary :: "string \<Rightarrow> string \<Rightarrow> child_summary \<Rightarrow> agent_store \<Rightarrow> (agent_store_error + unit) \<times> agent_store" where
  "set_summary session agent summary = update_agent session agent (\<lambda>r. r\<lparr>ar_summary := Some summary\<rparr>)"

section \<open>The hierarchy\<close>

text \<open>
  A well-formed hierarchy: records are stored under their key; the index lists exactly the records
  that name a parent, once each; and a parent is itself recorded, one level above.
\<close>

definition hierarchy_ok :: "agent_store \<Rightarrow> bool" where
  "hierarchy_ok st \<longleftrightarrow> finite (dom (as_records st)) \<and>
     (\<forall>s a r. as_records st (s, a) = Some r \<longrightarrow> ar_session_id r = s \<and> ar_agent_id r = a) \<and>
     (\<forall>s p. distinct (as_children st (s, p)) \<and>
        (\<forall>a. a \<in> set (as_children st (s, p)) \<longleftrightarrow> (\<exists>r. as_records st (s, a) = Some r \<and> ar_parent_id r = p))) \<and>
     (\<forall>s a r p. as_records st (s, a) = Some r \<longrightarrow> ar_parent_id r = Some p \<longrightarrow>
        (\<exists>q. as_records st (s, p) = Some q \<and> ar_depth r = Suc (ar_depth q)))"

definition child_of :: "agent_store \<Rightarrow> string \<Rightarrow> string \<Rightarrow> string \<Rightarrow> bool" where
  "child_of st session p a \<longleftrightarrow> (\<exists>r. as_records st (session, a) = Some r \<and> ar_parent_id r = Some p)"

lemma hierarchyD:
  assumes "hierarchy_ok st"
  shows "finite (dom (as_records st))"
    and "as_records st (s, a) = Some r \<Longrightarrow> ar_session_id r = s \<and> ar_agent_id r = a"
    and "distinct (as_children st (s, p))"
    and "a \<in> set (as_children st (s, p)) \<longleftrightarrow> (\<exists>r. as_records st (s, a) = Some r \<and> ar_parent_id r = p)"
    and "as_records st (s, a) = Some r \<Longrightarrow> ar_parent_id r = Some b \<Longrightarrow> \<exists>q. as_records st (s, b) = Some q \<and> ar_depth r = Suc (ar_depth q)"
  using assms unfolding hierarchy_ok_def by (blast, blast, blast, blast, blast)

lemma children_iff: "hierarchy_ok st \<Longrightarrow> a \<in> set (as_children st (s, Some p)) \<longleftrightarrow> child_of st s p a"
  by (simp add: hierarchyD(4) child_of_def)

lemma hierarchy_empty: "hierarchy_ok empty_agent_store"
  by (simp add: hierarchy_ok_def empty_agent_store_def)

text \<open>Inserting a record below a recorded parent keeps the hierarchy well-formed.\<close>

lemma insert_hierarchy:
  assumes ok: "hierarchy_ok st" and run: "agent_insert r st = (Inr (), t)"
    and parent: "\<And>p. ar_parent_id r = Some p \<Longrightarrow> \<exists>q. as_records st (ar_session_id r, p) = Some q \<and> ar_depth r = Suc (ar_depth q)"
  shows "hierarchy_ok t"
proof -
  let ?k = "(ar_session_id r, ar_agent_id r)" and ?pk = "(ar_session_id r, ar_parent_id r)"
  have new: "as_records st ?k = None" and recs: "as_records t = (as_records st)(?k \<mapsto> r)"
    and idx: "as_children t = (as_children st)(?pk := as_children st ?pk @ [ar_agent_id r])"
    using run by (auto simp: agent_insert_def Let_def split: if_splits)
  have fresh: "ar_agent_id r \<notin> set (as_children st (ar_session_id r, p))" for p
    using new hierarchyD(4) [OF ok] by simp
  have "distinct (as_children t (s, p))" for s p
    using hierarchyD(3) [OF ok] fresh by (simp add: idx)
  moreover have "a \<in> set (as_children t (s, p)) \<longleftrightarrow> (\<exists>q. as_records t (s, a) = Some q \<and> ar_parent_id q = p)" for s p a
    using hierarchyD(4) [OF ok, of a s p] new by (auto simp: idx recs)
  moreover have "\<exists>q. as_records t (s, p) = Some q \<and> ar_depth x = Suc (ar_depth q)"
    if "as_records t (s, a) = Some x" "ar_parent_id x = Some p" for s a x p
  proof -
    have "\<exists>q. as_records st (s, p) = Some q \<and> ar_depth x = Suc (ar_depth q)"
      using that parent [of p] hierarchyD(5) [OF ok, of s a x p] by (auto simp: recs split: if_splits)
    then show ?thesis using new by (auto simp: recs)
  qed
  ultimately show ?thesis
    using hierarchyD(1,2) [OF ok] unfolding hierarchy_ok_def by (auto simp: recs)
qed

lemma update_hierarchy:
  assumes ok: "hierarchy_ok st" and same: "\<And>r. ar_session_id (f r) = ar_session_id r \<and> ar_agent_id (f r) = ar_agent_id r \<and>
      ar_parent_id (f r) = ar_parent_id r \<and> ar_depth (f r) = ar_depth r"
  shows "hierarchy_ok (snd (update_agent session agent f st))"
proof (cases "as_records st (session, agent)")
  case None then show ?thesis using ok by (simp add: update_agent_def)
next
  case (Some r)
  let ?t = "snd (update_agent session agent f st)"
  have recs: "as_records ?t = (as_records st)((session, agent) \<mapsto> f r)" and idx: "as_children ?t = as_children st"
    using Some by (simp_all add: update_agent_def)
  have look: "as_records ?t (s, a) = Some x \<longleftrightarrow> (\<exists>y. as_records st (s, a) = Some y \<and> x = (if (s, a) = (session, agent) then f y else y))" for s a x
    using Some by (auto simp: recs)
  have parent: "(\<exists>x. as_records ?t (s, a) = Some x \<and> ar_parent_id x = p) \<longleftrightarrow> (\<exists>x. as_records st (s, a) = Some x \<and> ar_parent_id x = p)" for s a p
    using Some same by (auto simp: recs)
  have "\<exists>q. as_records ?t (s, p) = Some q \<and> ar_depth x = Suc (ar_depth q)"
    if x: "as_records ?t (s, a) = Some x" "ar_parent_id x = Some p" for s a x p
  proof -
    from x obtain y where y: "as_records st (s, a) = Some y" "ar_parent_id y = Some p" "ar_depth y = ar_depth x"
      using look same by (auto split: if_splits)
    from hierarchyD(5) [OF ok y(1,2)] obtain q where "as_records st (s, p) = Some q" "ar_depth x = Suc (ar_depth q)" using y(3) by auto
    then show ?thesis using Some same by (auto simp: recs)
  qed
  moreover have "ar_session_id x = s \<and> ar_agent_id x = a" if "as_records ?t (s, a) = Some x" for s a x
    using that hierarchyD(2) [OF ok] same Some by (auto simp: recs split: if_splits)
  ultimately show ?thesis
    unfolding hierarchy_ok_def idx parent using hierarchyD(1,3,4) [OF ok] by (simp add: recs)
qed

section \<open>What an agent sees\<close>

lemma records_of_set: "r \<in> set (records_of st s ids) \<longleftrightarrow> (\<exists>a \<in> set ids. as_records st (s, a) = Some r)"
  by (force simp: records_of_def List.map_filter_def)

lemma records_of_children:
  assumes "hierarchy_ok st"
  shows "r \<in> set (records_of st s (as_children st (s, Some p))) \<longleftrightarrow> as_records st (s, ar_agent_id r) = Some r \<and> ar_parent_id r = Some p"
proof
  assume "r \<in> set (records_of st s (as_children st (s, Some p)))"
  then obtain a where a: "a \<in> set (as_children st (s, Some p))" "as_records st (s, a) = Some r" by (auto simp: records_of_set)
  moreover have "ar_agent_id r = a" using hierarchyD(2) [OF assms a(2)] by simp
  ultimately show "as_records st (s, ar_agent_id r) = Some r \<and> ar_parent_id r = Some p"
    using hierarchyD(4) [OF assms, of a s "Some p"] by simp
next
  assume "as_records st (s, ar_agent_id r) = Some r \<and> ar_parent_id r = Some p"
  then show "r \<in> set (records_of st s (as_children st (s, Some p)))"
    unfolding records_of_set using hierarchyD(4) [OF assms, of "ar_agent_id r" s "Some p"] by auto
qed

text \<open>
  Strict local views. An agent is shown itself and exactly the records that name it as parent, in
  the order of their ids, once each; any other target it names is refused in the same way as one
  that does not exist.
\<close>

theorem local_view_exact:
  assumes "hierarchy_ok st"
  shows "(as_records st (s, caller) = None \<longrightarrow> local_view st s caller = Inl AgentNotVisible) \<and>
    (\<forall>v. local_view st s caller = Inr v \<longrightarrow>
       lv_agent_id v = caller \<and> sorted (map cv_agent_id (lv_children v)) \<and> distinct (map cv_agent_id (lv_children v)) \<and>
       set (lv_children v) = child_view ` {r. as_records st (s, ar_agent_id r) = Some r \<and> ar_parent_id r = Some caller}) \<and>
    (\<forall>target. target \<noteq> caller \<longrightarrow> authorize_target st s caller target = Inl AgentNotVisible)"
proof (intro conjI allI impI)
  fix v assume v: "local_view st s caller = Inr v"
  let ?rs = "records_of st s (as_children st (s, Some caller))"
  from v obtain r where r: "as_records st (s, caller) = Some r"
    and fields: "lv_agent_id v = ar_agent_id r" "lv_children v = sort_key cv_agent_id (map child_view ?rs)"
    by (auto simp: local_view_def split: option.splits)
  show "lv_agent_id v = caller" using hierarchyD(2) [OF assms r] fields(1) by simp
  show "sorted (map cv_agent_id (lv_children v))" unfolding fields by simp
  have ids: "map cv_agent_id (map child_view ?rs) = filter (\<lambda>i. as_records st (s, i) \<noteq> None) (as_children st (s, Some caller))"
    using hierarchyD(2) [OF assms, of s]
    by (auto simp: records_of_def List.map_filter_def child_view_def comp_def intro!: map_idI)
  have "distinct (map cv_agent_id (map child_view ?rs))" unfolding ids using hierarchyD(3) [OF assms] by simp
  then show "distinct (map cv_agent_id (lv_children v))" unfolding fields by (metis distinct_map distinct_sort set_sort)
  show "set (lv_children v) = child_view ` {r. as_records st (s, ar_agent_id r) = Some r \<and> ar_parent_id r = Some caller}"
    unfolding fields using records_of_children [OF assms] by auto
qed (simp_all add: local_view_def authorize_target_def)

section \<open>Descendants\<close>

lemma tranclp_unfold_left: "r\<^sup>+\<^sup>+ a b \<longleftrightarrow> (\<exists>c. r a c \<and> r\<^sup>*\<^sup>* c b)"
  by (auto dest: tranclpD intro: rtranclp_into_tranclp2)

lemma child_unique: "child_of st s p a \<Longrightarrow> child_of st s q a \<Longrightarrow> p = q"
  by (auto simp: child_of_def)

definition level :: "agent_store \<Rightarrow> string \<Rightarrow> string \<Rightarrow> nat" where
  "level st s a = (case as_records st (s, a) of Some r \<Rightarrow> ar_depth r | None \<Rightarrow> 0)"

lemma child_level: "hierarchy_ok st \<Longrightarrow> child_of st s p a \<Longrightarrow> level st s a = Suc (level st s p)"
  using hierarchyD(5) [of st s a _ p] by (auto simp: child_of_def level_def)

lemma below_level: "(child_of st s)\<^sup>*\<^sup>* a b \<Longrightarrow> hierarchy_ok st \<Longrightarrow> level st s a \<le> level st s b \<and> (level st s a = level st s b \<longrightarrow> a = b)"
proof (induction rule: rtranclp_induct)
  case (step y z)
  then show ?case using child_level [of st s y z] by simp
qed simp

text \<open>The ancestors of an agent form a chain, so subtrees of agents of one level are disjoint.\<close>

lemma ancestors_chain:
  assumes "(child_of st s)\<^sup>*\<^sup>* a x" and "hierarchy_ok st"
  shows "(child_of st s)\<^sup>*\<^sup>* b x \<Longrightarrow> level st s a \<le> level st s b \<Longrightarrow> (child_of st s)\<^sup>*\<^sup>* a b"
  using assms(1)
proof (induction arbitrary: b rule: rtranclp_induct)
  case base
  then show ?case using below_level [OF base(1) assms(2)] by auto
next
  case (step y z)
  from step.prems(1) show ?case
  proof (cases rule: rtranclp.cases)
    case rtrancl_refl then show ?thesis using step.hyps by (auto intro: rtranclp.rtrancl_into_rtrancl)
  next
    case (rtrancl_into_rtrancl w)
    then show ?thesis using step child_unique by metis
  qed
qed

lemma subtrees_disjoint:
  "hierarchy_ok st \<Longrightarrow> (child_of st s)\<^sup>*\<^sup>* a x \<Longrightarrow> (child_of st s)\<^sup>*\<^sup>* b x \<Longrightarrow> level st s a = level st s b \<Longrightarrow> a = b"
  using ancestors_chain below_level by (metis order_refl)

definition subtree :: "agent_store \<Rightarrow> string \<Rightarrow> string \<Rightarrow> agent_record set" where
  "subtree st s a = {r. \<exists>b. (child_of st s)\<^sup>*\<^sup>* a b \<and> as_records st (s, b) = Some r}"

lemma subtree_unfold:
  assumes "as_records st (s, a) = Some r"
  shows "subtree st s a = insert r (\<Union>c \<in> {c. child_of st s a c}. subtree st s c)"
proof -
  have "(child_of st s)\<^sup>*\<^sup>* a b \<longleftrightarrow> a = b \<or> (\<exists>c. child_of st s a c \<and> (child_of st s)\<^sup>*\<^sup>* c b)" for b
    by (metis converse_rtranclpE converse_rtranclp_into_rtranclp rtranclp.rtrancl_refl)
  then show ?thesis using assms unfolding subtree_def by auto
qed

text \<open>The loop takes the last agent of the queue with all of its subtree off, before it goes on.\<close>

definition takes_off :: "agent_store \<Rightarrow> string \<Rightarrow> string list \<Rightarrow> agent_record set \<Rightarrow> bool" where
  "takes_off st s cs R \<longleftrightarrow>
     (\<exists>L. (\<forall>q acc. descend st s (q @ cs) acc = descend st s q (acc @ L)) \<and> distinct (map ar_agent_id L) \<and> set L = R)"

lemma takes_off_list:
  assumes ok: "hierarchy_ok st" and "\<And>c. c \<in> set cs \<Longrightarrow> takes_off st s [c] (subtree st s c)"
    and "distinct cs" and "\<And>c. c \<in> set cs \<Longrightarrow> level st s c = n"
  shows "takes_off st s cs (\<Union>c \<in> set cs. subtree st s c)"
  using assms(2-)
proof (induction cs rule: rev_induct)
  case Nil then show ?case by (auto simp: takes_off_def intro!: exI [of _ "[]"])
next
  case (snoc c cs)
  obtain L where L: "\<And>q acc. descend st s (q @ [c]) acc = descend st s q (acc @ L)" "distinct (map ar_agent_id L)" "set L = subtree st s c"
    using snoc.prems(1) [of c] unfolding takes_off_def by auto
  obtain K where K: "\<And>q acc. descend st s (q @ cs) acc = descend st s q (acc @ K)" "distinct (map ar_agent_id K)"
      "set K = (\<Union>c \<in> set cs. subtree st s c)"
    using snoc unfolding takes_off_def by auto
  have "descend st s (q @ cs @ [c]) acc = descend st s q (acc @ L @ K)" for q acc
    using L(1) [of "q @ cs" acc] K(1) by simp
  moreover have "ar_agent_id x \<noteq> ar_agent_id y" if "x \<in> set L" "y \<in> set K" for x y
  proof
    assume same: "ar_agent_id x = ar_agent_id y"
    from that K(3) L(3) obtain d b b' where d: "d \<in> set cs" "(child_of st s)\<^sup>*\<^sup>* d b'" "as_records st (s, b') = Some y"
        "(child_of st s)\<^sup>*\<^sup>* c b" "as_records st (s, b) = Some x" by (auto simp: subtree_def)
    then have "b = b'" using hierarchyD(2) [OF ok] same by metis
    then have "c = d" using subtrees_disjoint [OF ok d(4), of d] d snoc.prems(3) by simp
    then show False using d(1) snoc.prems(2) by simp
  qed
  then have "ar_agent_id ` set L \<inter> ar_agent_id ` set K = {}" by blast
  ultimately show ?case unfolding takes_off_def
    using L(2,3) K(2,3) by (intro exI [of _ "L @ K"]) (simp add: Un_commute)
qed

lemma takes_off_one:
  assumes ok: "hierarchy_ok st" and bound: "\<And>a r. as_records st (s, a) = Some r \<Longrightarrow> ar_depth r \<le> M"
  shows "as_records st (s, a) = Some r \<Longrightarrow> M - ar_depth r < n \<Longrightarrow> takes_off st s [a] (subtree st s a)"
proof (induction n arbitrary: a r)
  case 0 then show ?case by simp
next
  case (Suc n)
  let ?cs = "as_children st (s, Some a)"
  have cs: "takes_off st s [c] (subtree st s c)" "level st s c = Suc (ar_depth r)" if "c \<in> set ?cs" for c
  proof -
    from that obtain x where x: "as_records st (s, c) = Some x" "ar_depth x = Suc (ar_depth r)"
      using hierarchyD(4,5) [OF ok] Suc.prems(1) by fastforce
    show "takes_off st s [c] (subtree st s c)" using Suc.IH [OF x(1)] x(2) bound [OF x(1)] Suc.prems(2) by simp
    show "level st s c = Suc (ar_depth r)" using x by (simp add: level_def)
  qed
  from takes_off_list [OF ok cs(1) hierarchyD(3) [OF ok, of s "Some a"] cs(2)] obtain L where
    L: "\<And>q acc. descend st s (q @ ?cs) acc = descend st s q (acc @ L)" "distinct (map ar_agent_id L)" "set L = (\<Union>c \<in> set ?cs. subtree st s c)"
    unfolding takes_off_def by auto
  have "descend st s (q @ [a]) acc = descend st s q (acc @ r # L)" for q acc
    using Suc.prems(1) L(1) [of q "acc @ [r]"] by (subst descend.simps) simp
  moreover have "ar_agent_id r \<notin> ar_agent_id ` set L"
  proof
    assume "ar_agent_id r \<in> ar_agent_id ` set L"
    then obtain c b x where x: "c \<in> set ?cs" "(child_of st s)\<^sup>*\<^sup>* c b" "as_records st (s, b) = Some x" "ar_agent_id x = ar_agent_id r"
      using L(3) by (auto simp: subtree_def)
    then have "b = a" using hierarchyD(2) [OF ok] Suc.prems(1) by metis
    then have "level st s c \<le> level st s a" using below_level [OF x(2) ok] by simp
    then show False using cs(2) [OF x(1)] Suc.prems(1) by (simp add: level_def)
  qed
  moreover have "set (r # L) = subtree st s a"
    using L(3) subtree_unfold [OF Suc.prems(1)] children_iff [OF ok] by auto
  ultimately show ?case unfolding takes_off_def using L(2) by (intro exI [of _ "r # L"]) auto
qed

text \<open>
  The descendants. In a well-formed hierarchy the search for the descendants of an agent ends, and
  it finds every agent below it exactly once, in the order of their ids, and nothing else.
\<close>

theorem descendants_correct:
  assumes "hierarchy_ok st"
  shows "\<exists>rs. descendants st s root = Some rs \<and> distinct (map ar_agent_id rs) \<and> sorted (map ar_agent_id rs) \<and>
    set rs = {r. \<exists>b. (child_of st s)\<^sup>+\<^sup>+ root b \<and> as_records st (s, b) = Some r}"
proof -
  let ?cs = "as_children st (s, Some root)" and ?M = "Max (ar_depth ` ran (as_records st))"
  have fin: "finite (ran (as_records st))" using hierarchyD(1) [OF assms] by (rule finite_ran)
  have bound: "ar_depth r \<le> ?M" if "as_records st (s, a) = Some r" for a r
    using that fin by (intro Max_ge) (auto intro: ranI)
  have one: "takes_off st s [c] (subtree st s c)" "level st s c = Suc (level st s root)" if "c \<in> set ?cs" for c
  proof -
    from that obtain x where "as_records st (s, c) = Some x" using hierarchyD(4) [OF assms] by blast
    from takes_off_one [OF assms bound this lessI] show "takes_off st s [c] (subtree st s c)" .
    show "level st s c = Suc (level st s root)" using that child_level [OF assms] children_iff [OF assms] by blast
  qed
  from takes_off_list [OF assms one(1) hierarchyD(3) [OF assms, of s "Some root"] one(2)] obtain L where
    L: "\<And>q acc. descend st s (q @ ?cs) acc = descend st s q (acc @ L)" "distinct (map ar_agent_id L)" "set L = (\<Union>c \<in> set ?cs. subtree st s c)"
    unfolding takes_off_def by auto
  have "descend st s ?cs [] = Some L" using L(1) [of "[]" "[]"] by (simp add: descend.simps)
  moreover have "set L = {r. \<exists>b. (child_of st s)\<^sup>+\<^sup>+ root b \<and> as_records st (s, b) = Some r}"
    unfolding L(3) subtree_def tranclp_unfold_left using children_iff [OF assms, of _ s root] by auto
  moreover have "distinct (map ar_agent_id (sort_key ar_agent_id L))" using L(2) by (metis distinct_map distinct_sort set_sort)
  ultimately show ?thesis by (simp add: descendants_def)
qed

section \<open>An example\<close>

definition sample_hierarchy :: agent_store where
  "sample_hierarchy = snd (agent_insert (new_agent_record ''s'' ''c'' (Some ''b'') 2)
     (snd (agent_insert (new_agent_record ''s'' ''b'' (Some ''a'') 1)
     (snd (agent_insert (new_agent_record ''s'' ''a'' None 0) empty_agent_store)))))"

lemma sample_hierarchy_ok: "hierarchy_ok sample_hierarchy"
proof -
  let ?a = "snd (agent_insert (new_agent_record ''s'' ''a'' None 0) empty_agent_store)"
  let ?b = "snd (agent_insert (new_agent_record ''s'' ''b'' (Some ''a'') 1) ?a)"
  have a: "hierarchy_ok ?a"
    by (rule insert_hierarchy [OF hierarchy_empty, of "new_agent_record ''s'' ''a'' None 0"]) (auto simp: agent_insert_def new_agent_record_def empty_agent_store_def)
  have b: "hierarchy_ok ?b"
    by (rule insert_hierarchy [OF a, of "new_agent_record ''s'' ''b'' (Some ''a'') 1"]) (auto simp: agent_insert_def new_agent_record_def empty_agent_store_def)
  show ?thesis unfolding sample_hierarchy_def
    by (rule insert_hierarchy [OF b, of "new_agent_record ''s'' ''c'' (Some ''b'') 2"]) (auto simp: agent_insert_def new_agent_record_def empty_agent_store_def)
qed

lemma sample_records:
  "as_records sample_hierarchy (''s'', ''a'') = Some (new_agent_record ''s'' ''a'' None 0)"
  "as_records sample_hierarchy (''s'', ''b'') = Some (new_agent_record ''s'' ''b'' (Some ''a'') 1)"
  "as_records sample_hierarchy (''s'', ''c'') = Some (new_agent_record ''s'' ''c'' (Some ''b'') 2)"
  by (simp_all add: sample_hierarchy_def agent_insert_def new_agent_record_def empty_agent_store_def)

theorem descendants_correct_witness:
  "\<exists>rs. descendants sample_hierarchy ''s'' ''a'' = Some rs \<and> new_agent_record ''s'' ''c'' (Some ''b'') 2 \<in> set rs"
proof -
  have "child_of sample_hierarchy ''s'' ''a'' ''b''" "child_of sample_hierarchy ''s'' ''b'' ''c''"
    using sample_records by (auto simp: child_of_def new_agent_record_def)
  then have "(child_of sample_hierarchy ''s'')\<^sup>+\<^sup>+ ''a'' ''c''" by (meson tranclp.r_into_trancl tranclp.trancl_into_trancl)
  then show ?thesis using descendants_correct [OF sample_hierarchy_ok, of "''s''" "''a''"] sample_records(3) by blast
qed

theorem local_view_exact_witness:
  "\<exists>v. local_view sample_hierarchy ''s'' ''a'' = Inr v \<and> child_view (new_agent_record ''s'' ''b'' (Some ''a'') 1) \<in> set (lv_children v)"
proof -
  obtain v where v: "local_view sample_hierarchy ''s'' ''a'' = Inr v" using sample_records(1) by (simp add: local_view_def)
  have "set (lv_children v) = child_view ` {r. as_records sample_hierarchy (''s'', ar_agent_id r) = Some r \<and> ar_parent_id r = Some ''a''}"
    using local_view_exact [OF sample_hierarchy_ok, of "''s''" "''a''"] v by blast
  moreover have "new_agent_record ''s'' ''b'' (Some ''a'') 1 \<in> {r. as_records sample_hierarchy (''s'', ar_agent_id r) = Some r \<and> ar_parent_id r = Some ''a''}"
    using sample_records(2) by (simp add: new_agent_record_def)
  ultimately show ?thesis using v by blast
qed

end
