(* ===== verification/Agent_Directory.thy ===== *)
theory Agent_Directory
  imports Agent_Store
begin

text \<open>
  The recursive directory of \<open>agent/store.rs\<close> that a trusted user interface polls: the tree below an
  agent, cut at a fixed depth and guarded by a set of visited agents. Fuel stands for the recursion;
  the theorem shows that one unit more than the depth cap is enough in a well-formed hierarchy.
\<close>

section \<open>The projection\<close>

definition max_directory_depth :: nat where "max_directory_depth = 5"

datatype directory_entry =
  DirectoryEntry (de_agent_id: string) (de_status: agent_lifecycle_status) (de_label: string) (de_summary: "string option")
    (de_depth: nat) (de_children: "directory_entry list")

definition entry_of :: "agent_record \<Rightarrow> directory_entry list \<Rightarrow> directory_entry" where
  "entry_of r children = DirectoryEntry (ar_agent_id r) (ar_status r) (ar_label r) (map_option cs_text (ar_summary r)) (ar_depth r) children"

type_synonym visited = "(string \<times> string) set"

text \<open>The loop over the children of one agent, given the recursive call.\<close>

fun directory_children ::
    "(agent_record \<Rightarrow> visited \<Rightarrow> (directory_entry \<times> visited) option) \<Rightarrow> agent_store \<Rightarrow> string \<Rightarrow> string list \<Rightarrow> visited \<Rightarrow> (directory_entry list \<times> visited) option" where
  "directory_children go st session [] visited = Some ([], visited)"
| "directory_children go st session (child_id # child_ids) visited =
     (if (session, child_id) \<in> visited then directory_children go st session child_ids visited
      else case as_records st (session, child_id) of
        None \<Rightarrow> directory_children go st session child_ids visited
      | Some child \<Rightarrow>
          if max_directory_depth < ar_depth child then directory_children go st session child_ids visited
          else case go child (insert (session, child_id) visited) of
            None \<Rightarrow> None
          | Some (entry, visited') \<Rightarrow>
              (case directory_children go st session child_ids visited' of
                 None \<Rightarrow> None
               | Some (entries, visited'') \<Rightarrow> Some (entry # entries, visited'')))"

fun directory_entry_under :: "nat \<Rightarrow> agent_store \<Rightarrow> string \<Rightarrow> agent_record \<Rightarrow> visited \<Rightarrow> (directory_entry \<times> visited) option" where
  "directory_entry_under 0 st session r visited = None"
| "directory_entry_under (Suc fuel) st session r visited =
     (if max_directory_depth \<le> ar_depth r then Some (entry_of r [], visited)
      else map_option (\<lambda>(children, visited'). (entry_of r (sort_key de_agent_id children), visited'))
        (directory_children (directory_entry_under fuel st session) st session (as_children st (session, Some (ar_agent_id r))) visited))"

definition directory_for_trusted_ui :: "nat \<Rightarrow> agent_store \<Rightarrow> string \<Rightarrow> string \<Rightarrow> agent_store_error + directory_entry option" where
  "directory_for_trusted_ui fuel st session root =
     result_bind (ok_or (as_records st (session, root)) AgentNotVisible) (\<lambda>r.
     Inr (map_option fst (directory_entry_under fuel st session r {(session, ar_agent_id r)})))"

section \<open>What it lists\<close>

fun entry_ids :: "directory_entry \<Rightarrow> string list" where
  "entry_ids (DirectoryEntry i _ _ _ _ children) = i # concat (map entry_ids children)"

fun entry_sorted :: "directory_entry \<Rightarrow> bool" where
  "entry_sorted (DirectoryEntry _ _ _ _ _ children) \<longleftrightarrow> sorted (map de_agent_id children) \<and> (\<forall>e \<in> set children. entry_sorted e)"

definition adds_ids :: "string \<Rightarrow> visited \<Rightarrow> string list \<Rightarrow> visited \<Rightarrow> bool" where
  "adds_ids s v xs v' \<longleftrightarrow> v \<subseteq> v' \<and> distinct xs \<and> Pair s ` set xs = v' - v"

lemma adds_ids_append: "adds_ids s v xs v' \<Longrightarrow> adds_ids s v' ys v'' \<Longrightarrow> adds_ids s v (xs @ ys) v''"
  unfolding adds_ids_def by (auto simp: image_Un) blast+

lemma adds_ids_Cons: "adds_ids s (insert (s, i) v) xs v' \<Longrightarrow> (s, i) \<notin> v \<Longrightarrow> adds_ids s v (i # xs) v'"
  unfolding adds_ids_def by auto

lemma concat_sort: "distinct (concat (map f (sort_key k xs))) = distinct (concat (map f xs))" "set (concat (map f (sort_key k xs))) = set (concat (map f xs))"
proof -
  have "mset (concat (map f (sort_key k xs))) = mset (concat (map f xs))"
    by (simp add: mset_concat flip: sum_mset_sum_list)
  then show "distinct (concat (map f (sort_key k xs))) = distinct (concat (map f xs))" by (rule mset_eq_imp_distinct_iff)
qed simp

lemma children_listed:
  assumes go: "\<And>c v e v'. as_records st (s, ar_agent_id c) = Some c \<Longrightarrow> go c v = Some (e, v') \<Longrightarrow>
      \<exists>xs. entry_ids e = ar_agent_id c # xs \<and> adds_ids s v xs v' \<and> entry_sorted e"
    and keyed: "\<And>i c. as_records st (s, i) = Some c \<Longrightarrow> ar_agent_id c = i"
  shows "directory_children go st s ids v = Some (es, v') \<Longrightarrow> adds_ids s v (concat (map entry_ids es)) v' \<and> (\<forall>e \<in> set es. entry_sorted e)"
proof (induction ids arbitrary: v es v')
  case Nil then show ?case by (simp add: adds_ids_def)
next
  case (Cons i ids)
  show ?case
  proof (cases "(s, i) \<in> v \<or> as_records st (s, i) = None \<or> (\<exists>c. as_records st (s, i) = Some c \<and> max_directory_depth < ar_depth c)")
    case True then show ?thesis using Cons by (auto split: if_splits)
  next
    case False
    then obtain c where c: "as_records st (s, i) = Some c" "ar_agent_id c = i" using keyed [of i] by (cases "as_records st (s, i)") auto
    obtain e w rest where e: "go c (insert (s, i) v) = Some (e, w)" "directory_children go st s ids w = Some (rest, v')" "es = e # rest"
      using Cons.prems False c by (auto split: option.splits if_splits)
    obtain xs where L: "entry_ids e = i # xs" "adds_ids s (insert (s, i) v) xs w" "entry_sorted e" using go [OF _ e(1)] c by auto
    have "adds_ids s v (i # xs) w" using adds_ids_Cons [OF L(2)] False by blast
    from adds_ids_append [OF this, of "concat (map entry_ids rest)" v'] show ?thesis using Cons.IH [OF e(2)] L(1,3) e(3) by simp
  qed
qed

lemma entry_listed:
  assumes keyed: "\<And>i c. as_records st (s, i) = Some c \<Longrightarrow> ar_agent_id c = i"
  shows "directory_entry_under fuel st s r v = Some (e, v') \<Longrightarrow> \<exists>xs. entry_ids e = ar_agent_id r # xs \<and> adds_ids s v xs v' \<and> entry_sorted e"
proof (induction fuel arbitrary: r v e v')
  case (Suc fuel)
  show ?case
  proof (cases "max_directory_depth \<le> ar_depth r")
    case True then show ?thesis using Suc.prems by (auto simp: entry_of_def adds_ids_def)
  next
    case False
    then obtain es where es: "directory_children (directory_entry_under fuel st s) st s (as_children st (s, Some (ar_agent_id r))) v = Some (es, v')"
        "e = entry_of r (sort_key de_agent_id es)" using Suc.prems by auto
    from children_listed [OF _ keyed es(1)] Suc.IH have "adds_ids s v (concat (map entry_ids es)) v'" "\<forall>e \<in> set es. entry_sorted e" by blast+
    then show ?thesis by (simp add: es(2) entry_of_def adds_ids_def concat_sort)
  qed
qed simp

text \<open>What a well-formed hierarchy holds below an agent, down to the cap.\<close>

definition shown :: "agent_store \<Rightarrow> string \<Rightarrow> string \<Rightarrow> string set" where
  "shown st s a = {b. (child_of st s)\<^sup>+\<^sup>+ a b \<and> level st s b \<le> max_directory_depth}"

lemma shown_iff: "b \<in> shown st s a \<longleftrightarrow> level st s b \<le> max_directory_depth \<and> (\<exists>c. child_of st s a c \<and> (b = c \<or> (child_of st s)\<^sup>+\<^sup>+ c b))"
  unfolding shown_def mem_Collect_eq tranclp_unfold_left [of _ a b] by (metis rtranclpD tranclp_into_rtranclp rtranclp.rtrancl_refl)

lemma below_strict: "(child_of st s)\<^sup>+\<^sup>+ a b \<Longrightarrow> hierarchy_ok st \<Longrightarrow> level st s a < level st s b"
  by (induction rule: tranclp_induct) (auto simp: child_level less_SucI)

lemma children_shown:
  assumes ok: "hierarchy_ok st" and d: "d \<le> max_directory_depth"
    and go: "\<And>c v. as_records st (s, ar_agent_id c) = Some c \<Longrightarrow> ar_depth c = d \<Longrightarrow> v \<inter> Pair s ` shown st s (ar_agent_id c) = {} \<Longrightarrow>
      \<exists>e. go c v = Some (e, v \<union> Pair s ` shown st s (ar_agent_id c))"
  shows "\<forall>i \<in> set ids. (\<exists>c. as_records st (s, i) = Some c) \<and> level st s i = d \<Longrightarrow> distinct ids \<Longrightarrow>
    v \<inter> Pair s ` (\<Union>i \<in> set ids. insert i (shown st s i)) = {} \<Longrightarrow>
    \<exists>es. directory_children go st s ids v = Some (es, v \<union> Pair s ` (\<Union>i \<in> set ids. insert i (shown st s i)))"
proof (induction ids arbitrary: v)
  case (Cons i ids)
  obtain c where c: "as_records st (s, i) = Some c" "ar_depth c = d" using Cons.prems(1) by (auto simp: level_def)
  have id: "ar_agent_id c = i" using hierarchyD(2) [OF ok c(1)] by simp
  let ?w = "insert (s, i) v \<union> Pair s ` shown st s i"
  have "i \<notin> shown st s i" using below_strict [OF _ ok, of s i i] by (auto simp: shown_def)
  then have "insert (s, i) v \<inter> Pair s ` shown st s i = {}" using Cons.prems(3) by auto
  then obtain e where e: "go c (insert (s, i) v) = Some (e, ?w)" using go [of c "insert (s, i) v"] c id by auto
  have apart: "insert i (shown st s i) \<inter> insert j (shown st s j) = {}" if "j \<in> set ids" for j
  proof -
    have "i \<noteq> j" "level st s i = level st s j" using Cons.prems(1,2) that by auto
    then show ?thesis using subtrees_disjoint [OF ok, of s i _ j] by (auto simp: shown_def dest: tranclp_into_rtranclp)
  qed
  have "?w \<inter> Pair s ` (\<Union>i \<in> set ids. insert i (shown st s i)) = {}" using Cons.prems(3) apart by fastforce
  then obtain es where "directory_children go st s ids ?w = Some (es, ?w \<union> Pair s ` (\<Union>i \<in> set ids. insert i (shown st s i)))"
    using Cons.IH [of ?w] Cons.prems(1,2) by auto
  moreover have "(s, i) \<notin> v" using Cons.prems(3) by auto
  moreover have "?w \<union> Pair s ` (\<Union>i \<in> set ids. insert i (shown st s i)) = v \<union> Pair s ` (\<Union>i \<in> set (i # ids). insert i (shown st s i))" by auto
  ultimately show ?case using c d e by simp
qed simp

lemma entry_shown:
  assumes ok: "hierarchy_ok st"
  shows "as_records st (s, ar_agent_id r) = Some r \<Longrightarrow> max_directory_depth < fuel + ar_depth r \<Longrightarrow> 0 < fuel \<Longrightarrow> v \<inter> Pair s ` shown st s (ar_agent_id r) = {} \<Longrightarrow>
    \<exists>e. directory_entry_under fuel st s r v = Some (e, v \<union> Pair s ` shown st s (ar_agent_id r))"
proof (induction fuel arbitrary: r v)
  case (Suc fuel)
  let ?a = "ar_agent_id r" and ?ids = "as_children st (s, Some (ar_agent_id r))"
  have lvl: "level st s ?a = ar_depth r" using Suc.prems(1) by (simp add: level_def)
  show ?case
  proof (cases "max_directory_depth \<le> ar_depth r")
    case True
    then have "shown st s ?a = {}" using below_strict [OF _ ok, of s ?a] lvl by (fastforce simp: shown_def)
    then show ?thesis using True by simp
  next
    case False
    have ids: "set ?ids = {c. child_of st s ?a c}" using children_iff [OF ok] by auto
    have level: "level st s c = Suc (ar_depth r)" if "c \<in> set ?ids" for c using child_level [OF ok] that ids lvl by auto
    have sh: "shown st s ?a = (\<Union>i \<in> set ?ids. insert i (shown st s i))" 
    proof (rule set_eqI)
      fix b
      have "b \<in> shown st s ?a \<longleftrightarrow> level st s b \<le> max_directory_depth \<and> (\<exists>c \<in> set ?ids. b = c \<or> (child_of st s)\<^sup>+\<^sup>+ c b)" by (simp add: shown_iff ids)
      also have "\<dots> \<longleftrightarrow> b \<in> (\<Union>i \<in> set ?ids. insert i (shown st s i))" using level False by (auto simp: shown_def)
      finally show "b \<in> shown st s ?a \<longleftrightarrow> b \<in> (\<Union>i \<in> set ?ids. insert i (shown st s i))" .
    qed
    have "\<exists>es. directory_children (directory_entry_under fuel st s) st s ?ids v = Some (es, v \<union> Pair s ` (\<Union>i \<in> set ?ids. insert i (shown st s i)))"
    proof (rule children_shown [OF ok, of "Suc (ar_depth r)"])
      show "Suc (ar_depth r) \<le> max_directory_depth" using False by simp
      show "\<exists>e. directory_entry_under fuel st s c w = Some (e, w \<union> Pair s ` shown st s (ar_agent_id c))"
        if "as_records st (s, ar_agent_id c) = Some c" "ar_depth c = Suc (ar_depth r)" "w \<inter> Pair s ` shown st s (ar_agent_id c) = {}" for c w
        using Suc.IH [OF that(1) _ _ that(3)] that(2) Suc.prems(2) False by (cases fuel) auto
      show "\<forall>i \<in> set ?ids. (\<exists>c. as_records st (s, i) = Some c) \<and> level st s i = Suc (ar_depth r)" using level ids by (auto simp: child_of_def)
      show "distinct ?ids" by (rule hierarchyD(3) [OF ok])
      show "v \<inter> Pair s ` (\<Union>i \<in> set ?ids. insert i (shown st s i)) = {}" using Suc.prems(4) sh by simp
    qed
    then show ?thesis using False sh by auto
  qed
qed simp

text \<open>
  The directory of a well-formed hierarchy. The projection ends; it lists the agent itself and then
  exactly its descendants down to the depth cap, each once; and the children of every entry are in
  the order of their ids. An agent that is not recorded is not visible.
\<close>

theorem directory_exact:
  assumes ok: "hierarchy_ok st" and fuel: "max_directory_depth < fuel"
  shows "case as_records st (s, root) of
      None \<Rightarrow> directory_for_trusted_ui fuel st s root = Inl AgentNotVisible
    | Some r \<Rightarrow> (\<exists>e xs. directory_for_trusted_ui fuel st s root = Inr (Some e) \<and> entry_ids e = root # xs \<and> distinct (entry_ids e) \<and> entry_sorted e \<and>
        set xs = {b. (child_of st s)\<^sup>+\<^sup>+ root b \<and> level st s b \<le> max_directory_depth})"
proof (cases "as_records st (s, root)")
  case None then show ?thesis by (simp add: directory_for_trusted_ui_def)
next
  case (Some r)
  have id: "ar_agent_id r = root" using hierarchyD(2) [OF ok Some] by simp
  have new: "root \<notin> shown st s root" using below_strict [OF _ ok, of s root root] by (auto simp: shown_def)
  obtain e where e: "directory_entry_under fuel st s r {(s, root)} = Some (e, {(s, root)} \<union> Pair s ` shown st s root)"
    using entry_shown [OF ok, of s r fuel "{(s, root)}"] Some id fuel new by auto
  obtain xs where L: "entry_ids e = root # xs" "adds_ids s {(s, root)} xs ({(s, root)} \<union> Pair s ` shown st s root)" "entry_sorted e"
    using entry_listed [OF _ e] hierarchyD(2) [OF ok] id by blast
  have "Pair s ` set xs = Pair s ` shown st s root" "distinct xs" using L(2) new by (auto simp: adds_ids_def)
  moreover have "inj (Pair s :: string \<Rightarrow> _)" by (simp add: inj_def)
  ultimately have "set xs = shown st s root" "distinct xs" by (simp_all add: inj_image_eq_iff)
  then show ?thesis using Some e L(1,3) new id by (auto simp: directory_for_trusted_ui_def shown_def)
qed

end
