(* ===== verification/Result_Mailbox.thy ===== *)
theory Result_Mailbox
  imports Checkpoint_Store
begin

text \<open>
  \<open>teams/subagent_mailbox.rs\<close>: what a parent gets of the result of a child. Small results are given in
  full, medium ones in full with a copy on disk, large ones as a summary with the full text on disk.
  JSON encoding, the clock, the random id, the alphanumeric characters beyond ASCII and the paths that
  can be written are parameters; the disk is a map from paths to contents.
\<close>

section \<open>The mailbox\<close>

definition max_inline_result_len :: nat where "max_inline_result_len = 4000"

definition max_full_inline_len :: nat where "max_full_inline_len = 8000"

definition summary_head_len :: nat where "summary_head_len = 1500"

record stored_result =
  sd_description :: string
  sd_subagent_type :: string
  sd_content :: string
  sd_timestamp_ms :: int
  sd_session_id :: string
  sd_is_multiline :: bool

datatype subagent_response =
    InlineResult string
  | OffloadedResult string string nat
  | SummarizedResult string string nat

definition newline :: string where "newline = [CHR 0x0A]"

fun to_content :: "subagent_response \<Rightarrow> string" where
  "to_content (InlineResult content) = content"
| "to_content (OffloadedResult content path len) =
     content @ newline @ newline @ ''---'' @ newline @ ''[Full result ('' @ show_nat len @ '' chars) persisted at: '' @ [CHR 0x60] @ path @ [CHR 0x60] @
     '' for recovery]''"
| "to_content (SummarizedResult summary path len) =
     summary @ newline @ newline @ ''---'' @ newline @ ''[Summary only. Full result ('' @ show_nat len @ '' chars) at '' @ [CHR 0x60] @ path @ [CHR 0x60, CHR 0x20] @
     [CHR 0xE2, CHR 0x80, CHR 0x94] @ '' file_read for details]''"

fun response_len :: "subagent_response \<Rightarrow> nat" where
  "response_len (InlineResult content) = length content"
| "response_len (OffloadedResult _ _ len) = len"
| "response_len (SummarizedResult _ _ len) = len"

definition response_is_empty :: "subagent_response \<Rightarrow> bool" where
  "response_is_empty r \<longleftrightarrow> response_len r = 0"

record mailbox_env =
  mb_base_dir :: string
  mb_uuid :: string
  mb_now :: int
  mb_alphanumeric :: "string \<Rightarrow> bool"
  mb_encode :: "stored_result \<Rightarrow> string option"
  mb_decode :: "string \<Rightarrow> stored_result option"
  mb_writable :: "string \<Rightarrow> bool"

type_synonym disk = "string \<rightharpoonup> string"

datatype store_outcome = StorePanics | StoreFails | StoredAt string

definition safe_char :: "mailbox_env \<Rightarrow> string \<Rightarrow> string" where
  "safe_char env c =
     (if (case c of [b] \<Rightarrow> is_ascii_alphanumeric b | _ \<Rightarrow> mb_alphanumeric env c) \<or> c = ''-'' \<or> c = ''_'' then c else ''_'')"

text \<open>A slice that does not end at a character panics.\<close>

definition make_filename :: "mailbox_env \<Rightarrow> string \<Rightarrow> string \<Rightarrow> string \<Rightarrow> string option" where
  "make_filename env subagent_type description session_id =
     (let safe_desc = concat (take 40 (map (safe_char env) (chars_of description))); n = min (length session_id) 16 in
      if is_char_boundary session_id n
      then Some (subagent_type @ ''_'' @ safe_desc @ ''_'' @ take n session_id @ ''_'' @ take 8 (mb_uuid env) @ ''.jsonl'')
      else None)"

definition store_result :: "mailbox_env \<Rightarrow> string \<Rightarrow> string \<Rightarrow> string \<Rightarrow> string \<Rightarrow> disk \<Rightarrow> store_outcome \<times> disk" where
  "store_result env subagent_type description session_id content disk =
     (case make_filename env subagent_type description session_id of
        None \<Rightarrow> (StorePanics, disk)
      | Some filename \<Rightarrow>
          (let path = path_join (mb_base_dir env) filename;
               entry = \<lparr>sd_description = description, sd_subagent_type = subagent_type, sd_content = content, sd_timestamp_ms = mb_now env,
                        sd_session_id = session_id, sd_is_multiline = False\<rparr> in
           case mb_encode env entry of
             None \<Rightarrow> (StoreFails, disk)
           | Some json \<Rightarrow> if mb_writable env path then (StoredAt path, disk(path \<mapsto> json @ newline)) else (StoreFails, disk)))"

definition read_stored :: "mailbox_env \<Rightarrow> string \<Rightarrow> disk \<Rightarrow> stored_result option" where
  "read_stored env path disk = Option.bind (disk path) (mb_decode env)"

definition offload_if_large :: "mailbox_env \<Rightarrow> string \<Rightarrow> string \<Rightarrow> string \<Rightarrow> string \<Rightarrow> disk \<Rightarrow> subagent_response option \<times> disk" where
  "offload_if_large env subagent_type description session_id content disk =
     (let len = length content in
      if len \<le> max_inline_result_len then (Some (InlineResult content), disk)
      else case store_result env subagent_type description session_id content disk of
        (StoredAt path, disk') \<Rightarrow>
          (Some (if len \<le> max_full_inline_len then OffloadedResult content path len
                 else SummarizedResult (chars_take summary_head_len content) path len), disk')
      | (StoreFails, disk') \<Rightarrow> (Some (InlineResult content), disk')
      | (StorePanics, disk') \<Rightarrow> (None, disk'))"

section \<open>No result is lost\<close>

lemma store_result_StoredAt:
  assumes "store_result env subagent_type description session_id content disk = (StoredAt path, disk')"
    and "\<And>e json. mb_encode env e = Some json \<Longrightarrow> mb_decode env (json @ newline) = Some e"
  shows "\<exists>e. read_stored env path disk' = Some e \<and> sd_content e = content" "\<forall>p. p \<noteq> path \<longrightarrow> disk' p = disk p"
  using assms by (auto simp: store_result_def read_stored_def Let_def split: option.splits if_splits)

text \<open>
  The result of a child is never lost. Provided decoding inverts encoding, a call that returns gives
  the parent either the full content, as the beginning of the text it is shown, or the first 1500
  characters of it and a path at which the full content can be read back. No other file changes, and
  a failing disk leads to the full content.
\<close>

theorem offload_loses_nothing:
  assumes serde: "\<And>e json. mb_encode env e = Some json \<Longrightarrow> mb_decode env (json @ newline) = Some e"
    and run: "offload_if_large env subagent_type description session_id content disk = (Some r, disk')"
  shows "response_len r = length content \<and>
    (prefix content (to_content r) \<and> (length content \<le> max_full_inline_len \<or> r = InlineResult content \<and> disk' = disk) \<or>
     (\<exists>summary path e. r = SummarizedResult summary path (length content) \<and> prefix summary content \<and> chars_count summary = min summary_head_len (chars_count content) \<and>
        max_full_inline_len < length content \<and> read_stored env path disk' = Some e \<and> sd_content e = content \<and> (\<forall>p. p \<noteq> path \<longrightarrow> disk' p = disk p)))"
proof (cases "length content \<le> max_inline_result_len")
  case True then show ?thesis using run by (auto simp: offload_if_large_def max_inline_result_len_def max_full_inline_len_def)
next
  case False
  obtain res d where d: "store_result env subagent_type description session_id content disk = (res, d)" by fastforce
  show ?thesis
  proof (cases res)
    case StorePanics then show ?thesis using run d False by (simp add: offload_if_large_def Let_def)
  next
    case StoreFails
    then have "d = disk" using d by (auto simp: store_result_def Let_def split: option.splits if_splits)
    then show ?thesis using run d False StoreFails by (auto simp: offload_if_large_def Let_def)
  next
    case (StoredAt path)
    note kept = store_result_StoredAt [OF d [unfolded StoredAt] serde]
    show ?thesis
    proof (cases "length content \<le> max_full_inline_len")
      case True then show ?thesis using run d False StoredAt by (auto simp: offload_if_large_def Let_def)
    next
      case large: False
      then have "r = SummarizedResult (chars_take summary_head_len content) path (length content)" "disk' = d"
        using run d False StoredAt by (simp_all add: offload_if_large_def Let_def)
      then show ?thesis using kept large chars_take_prefix chars_take_count by auto
    qed
  qed
qed

end
