(* ===== verification/Agent_Coordinator.thy ===== *)
theory Agent_Coordinator
  imports Agent_Directory Result_Mailbox Org_Contract
begin

text \<open>
  \<open>agent/coordinator.rs\<close>: the owner of spawning, concurrency and lifecycle of agents. It derives a
  child's session, parent and depth from the trusted context of the caller, holds one permit per live
  child, records terminal results into task groups, joins, finalizes and cancels subtrees.

  Random ids, the clock and the tasks of children are arguments: a task handle is the flag that one is
  registered, and the environment tells how each wait on a child ends. A computation that would wait
  for ever stops with \<open>Waits\<close>. Each operation is one run on the coordinator's state; a reservation,
  which waits for a permit between its check and its insertion, is split into those three parts.
  Error texts are replaced by the values they are built from.
\<close>

section \<open>Contexts, scopes and errors\<close>

type_synonym agent_key = "string \<times> string"

text \<open>
  A cancellation token is its line of ancestors, its own key first: it is cancelled when any of them
  has been. A token that belongs to no registered scope is the empty line.
\<close>

type_synonym token = "agent_key list"

record agent_context =
  cx_session_id :: string
  cx_agent_id :: string
  cx_parent_id :: "string option"
  cx_depth :: nat
  cx_cancellation :: token

definition context_root :: "string \<Rightarrow> string \<Rightarrow> agent_context" where
  "context_root new_id session =
     \<lparr>cx_session_id = session, cx_agent_id = new_id, cx_parent_id = None, cx_depth = 0, cx_cancellation = [(session, new_id)]\<rparr>"

definition context_child :: "agent_context \<Rightarrow> string \<Rightarrow> agent_context" where
  "context_child cx agent =
     \<lparr>cx_session_id = cx_session_id cx, cx_agent_id = agent, cx_parent_id = Some (cx_agent_id cx), cx_depth = cx_depth cx + 1,
      cx_cancellation = (cx_session_id cx, agent) # cx_cancellation cx\<rparr>"

definition key_of :: "agent_context \<Rightarrow> agent_key" where
  "key_of cx = (cx_session_id cx, cx_agent_id cx)"

definition is_root :: "agent_context \<Rightarrow> bool" where
  "is_root cx \<longleftrightarrow> cx_parent_id cx = None \<and> cx_depth cx = 0"

record spawn_child_request =
  sr_label :: string
  sr_node_type :: node_type

datatype child_terminal = TerminalCompleted string | TerminalFailed string "string option" | TerminalCancelled

fun to_status :: "child_terminal \<Rightarrow> agent_lifecycle_status" where
  "to_status (TerminalCompleted _) = AgentCompleted"
| "to_status (TerminalFailed _ _) = AgentFailed"
| "to_status TerminalCancelled = AgentCancelled"

fun to_child_status :: "child_terminal \<Rightarrow> child_terminal_status" where
  "to_child_status (TerminalCompleted _) = ChildCompleted"
| "to_child_status (TerminalFailed _ _) = ChildFailed"
| "to_child_status TerminalCancelled = ChildCancelled"

datatype join_policy = AllRequired | BestEffort | FailFast

datatype parent_outcome = OutcomeCompleted string | OutcomeFailed string "string option" | OutcomeCancelled

fun to_child_terminal :: "parent_outcome \<Rightarrow> child_terminal" where
  "to_child_terminal (OutcomeCompleted summary) = TerminalCompleted summary"
| "to_child_terminal (OutcomeFailed code partial_result) = TerminalFailed code partial_result"
| "to_child_terminal OutcomeCancelled = TerminalCancelled"

record child_result_grant =
  gr_session_id :: string
  gr_parent_id :: string
  gr_child_id :: string
  gr_generation :: u64

record scope_state =
  sc_status :: agent_lifecycle_status
  sc_cancellation :: token
  sc_task :: bool
  sc_permit :: bool
  sc_terminal :: "child_terminal option"

record owner_group_key =
  ok_session_id :: string
  ok_owner_id :: string
  ok_generation :: u64
  ok_origin_turn_id :: "string option"

datatype agent_error =
    NotVisible
  | DepthLimitReached nat
  | ConcurrencyClosed
  | ParentNotRunning
  | JoinFailed string
  | Storage agent_store_error
  | TaskGroupFailed task_group_error
  | GroupNotOwned string string
  | ChildrenStillRunning
  | RootHasNoTerminalState
  | Violation coordinator_error

fun from_store_error :: "agent_store_error \<Rightarrow> agent_error" where
  "from_store_error AgentNotVisible = NotVisible"
| "from_store_error err = Storage err"

text \<open>How a wait on a child ends, and the ways an operation stops short of a result.\<close>

datatype child_wait =
    TaskReturns "child_terminal option" child_terminal
  | TaskPanics string
  | FinishedElsewhere child_terminal
  | NeverEnds

datatype coord_stop = Fails agent_error | Waits | OutOfFuel

record coord_env =
  ae_registry :: node_registry
  ae_max_depth :: nat
  ae_wait :: "agent_key \<Rightarrow> child_wait"

record coord =
  co_store :: agent_store
  co_groups :: tg_state
  co_permits :: nat
  co_scopes :: "agent_key \<rightharpoonup> scope_state"
  co_grants :: "string \<rightharpoonup> child_result_grant"
  co_child_groups :: "(agent_key \<times> string) list"
  co_owner_groups :: "(owner_group_key \<times> string) list"
  co_fallback :: "string set"
  co_node_types :: "agent_key \<rightharpoonup> node_type"
  co_cancelled :: "agent_key set"
  co_pings :: "string list"

definition new_coord :: "nat \<Rightarrow> coord" where
  "new_coord max_concurrent =
     \<lparr>co_store = empty_agent_store, co_groups = empty_tg, co_permits = max_concurrent, co_scopes = Map.empty, co_grants = Map.empty,
      co_child_groups = [], co_owner_groups = [], co_fallback = {}, co_node_types = Map.empty, co_cancelled = {}, co_pings = []\<rparr>"

type_synonym 'a coord_run = "(coord, coord_stop, 'a) smon"

section \<open>Access to the parts of the state\<close>

definition fails :: "agent_error \<Rightarrow> 'a coord_run" where
  "fails e = throw (Fails e)"

definition attempt :: "'a coord_run \<Rightarrow> (agent_error + 'a) coord_run" where
  "attempt m = (\<lambda>s. case m s of
     (Inl (Fails e), t) \<Rightarrow> (Inr (Inl e), t) | (Inl stop, t) \<Rightarrow> (Inl stop, t) | (Inr x, t) \<Rightarrow> (Inr (Inr x), t))"

definition on_store :: "(agent_store \<Rightarrow> (agent_store_error + 'a) \<times> agent_store) \<Rightarrow> 'a coord_run" where
  "on_store f = (\<lambda>st. case f (co_store st) of
     (Inl err, s) \<Rightarrow> (Inl (Fails (from_store_error err)), st\<lparr>co_store := s\<rparr>) | (Inr x, s) \<Rightarrow> (Inr x, st\<lparr>co_store := s\<rparr>))"

definition read_store :: "(agent_store \<Rightarrow> agent_store_error + 'a) \<Rightarrow> 'a coord_run" where
  "read_store f = on_store (\<lambda>s. (f s, s))"

definition on_groups :: "(tg_state \<Rightarrow> (task_group_error + 'a) \<times> tg_state) \<Rightarrow> 'a coord_run" where
  "on_groups f = (\<lambda>st. case f (co_groups st) of
     (Inl err, g) \<Rightarrow> (Inl (Fails (TaskGroupFailed err)), st\<lparr>co_groups := g\<rparr>) | (Inr x, g) \<Rightarrow> (Inr x, st\<lparr>co_groups := g\<rparr>))"

definition set_scope :: "agent_key \<Rightarrow> (scope_state \<Rightarrow> scope_state) \<Rightarrow> coord \<Rightarrow> coord" where
  "set_scope k f st = st\<lparr>co_scopes := (co_scopes st)(k := map_option f (co_scopes st k))\<rparr>"

definition add_scope :: "agent_key \<Rightarrow> scope_state \<Rightarrow> coord \<Rightarrow> coord" where
  "add_scope k s st = st\<lparr>co_scopes := (co_scopes st)(k \<mapsto> s)\<rparr>"

definition drop_permit :: "coord \<Rightarrow> coord" where
  "drop_permit st = st\<lparr>co_permits := co_permits st + 1\<rparr>"

definition cancel_token :: "token \<Rightarrow> coord \<Rightarrow> coord" where
  "cancel_token t st = st\<lparr>co_cancelled := set (take 1 t) \<union> co_cancelled st\<rparr>"

definition is_cancelled :: "coord \<Rightarrow> token \<Rightarrow> bool" where
  "is_cancelled st t \<longleftrightarrow> (\<exists>k \<in> set t. k \<in> co_cancelled st)"

definition current_generation :: "string \<Rightarrow> u64 coord_run" where
  "current_generation session = gets (\<lambda>st. tg_current_generation (co_groups st) session)"

definition mark_fallback_used :: "string \<Rightarrow> unit coord_run" where
  "mark_fallback_used k = upd (\<lambda>st. st\<lparr>co_fallback := insert k (co_fallback st)\<rparr>)"

definition fallback_already_used :: "string \<Rightarrow> bool coord_run" where
  "fallback_already_used k = gets (\<lambda>st. k \<in> co_fallback st)"

section \<open>Spawning\<close>

definition ensure_root :: "string \<Rightarrow> string \<Rightarrow> agent_context coord_run" where
  "ensure_root new_id session =
     (let context = context_root new_id session; k = key_of context in
      bnd (gets (\<lambda>st. co_scopes st k)) (\<lambda>existing.
      case existing of
        Some s \<Rightarrow> if is_terminal (sc_status s) then fails ParentNotRunning else ret context
      | None \<Rightarrow>
          bnd (on_store (agent_insert (new_agent_record session new_id None 0))) (\<lambda>_.
          bnd (upd (add_scope k \<lparr>sc_status = AgentRunning, sc_cancellation = cx_cancellation context, sc_task = False,
                 sc_permit = False, sc_terminal = None\<rparr>)) (\<lambda>_.
          ret context))))"

definition resolve_effective_max_depth :: "nat option \<Rightarrow> nat \<Rightarrow> nat" where
  "resolve_effective_max_depth budget_max_depth global_max_depth =
     (case budget_max_depth of Some d \<Rightarrow> d | None \<Rightarrow> global_max_depth)"

definition caller_contract :: "coord_env \<Rightarrow> agent_context \<Rightarrow> node_contract coord_run" where
  "caller_contract env caller =
     bnd (gets (\<lambda>st. case co_node_types st (key_of caller) of Some t \<Rightarrow> t | None \<Rightarrow> GeneralPurpose)) (\<lambda>nt.
     require_some (registry_get (ae_registry env) nt)
       (Fails (Violation (ContractViolation nt DimNodeType ''no contract registered for caller node type''))))"

definition record_child_node_type :: "agent_context \<Rightarrow> node_type \<Rightarrow> unit coord_run" where
  "record_child_node_type cx nt = upd (\<lambda>st. st\<lparr>co_node_types := (co_node_types st)(key_of cx \<mapsto> nt)\<rparr>)"

definition with_active_child_node_type :: "agent_context \<Rightarrow> (node_type \<Rightarrow> 'a) \<Rightarrow> 'a coord_run" where
  "with_active_child_node_type caller operation =
     (if cx_parent_id caller = None then fails NotVisible
      else bnd (gets (\<lambda>st. co_scopes st (key_of caller))) (\<lambda>s.
        case s of
          None \<Rightarrow> fails NotVisible
        | Some scope \<Rightarrow>
            if sc_status scope \<noteq> AgentRunning then fails NotVisible
            else bnd (gets (\<lambda>st. co_node_types st (key_of caller))) (\<lambda>nt.
              bnd (require_some nt (Fails NotVisible)) (\<lambda>node_type. ret (operation node_type)))))"

definition active_child_node_type :: "agent_context \<Rightarrow> node_type coord_run" where
  "active_child_node_type caller = with_active_child_node_type caller (\<lambda>node_type. node_type)"

text \<open>\<open>reserve_child\<close> up to the permit, the permit, and the rest of it.\<close>

definition reserve_check :: "coord_env \<Rightarrow> agent_context \<Rightarrow> spawn_child_request \<Rightarrow> unit coord_run" where
  "reserve_check env caller request =
     bnd (caller_contract env caller) (\<lambda>contract.
     if \<not> can_spawn (nc_permissions contract)
     then fails (Violation (ContractViolation (nc_node_type contract) DimPermission ''this node type cannot spawn children''))
     else if registry_get (ae_registry env) (sr_node_type request) = None
     then fails (Violation (ContractViolation (sr_node_type request) DimNodeType ''unknown node type''))
     else bnd (gets (\<lambda>st. co_scopes st (key_of caller))) (\<lambda>s.
       case s of
         None \<Rightarrow> fails ParentNotRunning
       | Some state \<Rightarrow>
           if sc_status state = AgentCancelling \<or> is_terminal (sc_status state) then fails ParentNotRunning
           else let effective_max_depth = resolve_effective_max_depth (rb_max_depth (nc_budget contract)) (ae_max_depth env) in
             if effective_max_depth \<le> cx_depth caller then fails (DepthLimitReached effective_max_depth) else ret ()))"

definition acquire_permit :: "unit coord_run" where
  "acquire_permit =
     bnd (gets co_permits) (\<lambda>available.
     if available = 0 then throw Waits else upd (\<lambda>st. st\<lparr>co_permits := available - 1\<rparr>))"

definition reserve_commit :: "string \<Rightarrow> agent_context \<Rightarrow> spawn_child_request \<Rightarrow> agent_context coord_run" where
  "reserve_commit new_id caller request =
     (let context = context_child caller new_id; k = key_of context in
      bnd (current_generation (cx_session_id context)) (\<lambda>generation.
      bnd (attempt (on_store (agent_insert
             ((new_agent_record (cx_session_id context) (cx_agent_id context) (Some (cx_agent_id caller)) (cx_depth context))
                \<lparr>ar_label := sr_label request, ar_generation := generation\<rparr>)))) (\<lambda>inserted.
      case inserted of
        Inl err \<Rightarrow> bnd (upd drop_permit) (\<lambda>_. fails err)
      | Inr _ \<Rightarrow>
          bnd (upd (add_scope k \<lparr>sc_status = AgentPending, sc_cancellation = cx_cancellation context, sc_task = False,
                 sc_permit = True, sc_terminal = None\<rparr>)) (\<lambda>_.
          bnd (upd (set_scope k (\<lambda>s. s\<lparr>sc_status := AgentRunning\<rparr>))) (\<lambda>_.
          bnd (record_child_node_type context (sr_node_type request)) (\<lambda>_.
          ret context))))))"

definition reserve_child :: "coord_env \<Rightarrow> string \<Rightarrow> agent_context \<Rightarrow> spawn_child_request \<Rightarrow> agent_context coord_run" where
  "reserve_child env new_id caller request =
     bnd (reserve_check env caller request) (\<lambda>_. bnd acquire_permit (\<lambda>_. reserve_commit new_id caller request))"

definition create_owner_group :: "string \<Rightarrow> agent_context \<Rightarrow> string option \<Rightarrow> nat \<Rightarrow> string coord_run" where
  "create_owner_group new_id owner origin deadline =
     bnd (current_generation (cx_session_id owner)) (\<lambda>generation.
     let k = \<lparr>ok_session_id = cx_session_id owner, ok_owner_id = cx_agent_id owner, ok_generation = generation, ok_origin_turn_id = origin\<rparr> in
     bnd (gets (\<lambda>st. map_of (co_owner_groups st) k)) (\<lambda>mapped.
     case mapped of
       Some group_id \<Rightarrow> ret group_id
     | None \<Rightarrow>
         bnd (on_groups (case origin of
                Some turn \<Rightarrow> create_for_root_turn new_id (cx_session_id owner) (cx_agent_id owner) turn generation deadline
              | None \<Rightarrow> create_for_parent new_id (cx_session_id owner) (cx_agent_id owner) generation deadline)) (\<lambda>group_id.
         bnd (upd (\<lambda>st. st\<lparr>co_owner_groups := assoc_insert k group_id (co_owner_groups st)\<rparr>)) (\<lambda>_. ret group_id))))"

definition create_root_task_group :: "string \<Rightarrow> agent_context \<Rightarrow> string \<Rightarrow> nat \<Rightarrow> string coord_run" where
  "create_root_task_group new_id root origin_turn deadline =
     (if \<not> is_root root then fails NotVisible else create_owner_group new_id root (Some origin_turn) deadline)"

definition create_parent_task_group :: "string \<Rightarrow> agent_context \<Rightarrow> nat \<Rightarrow> string coord_run" where
  "create_parent_task_group new_id owner deadline =
     (if is_root owner then fails RootHasNoTerminalState else create_owner_group new_id owner None deadline)"

text \<open>Instants in seconds: a group of a turn or parent has one hour.\<close>

definition current_or_create_root_group :: "string \<Rightarrow> nat \<Rightarrow> agent_context \<Rightarrow> string \<Rightarrow> string coord_run" where
  "current_or_create_root_group new_id now root origin_turn = create_root_task_group new_id root origin_turn (now + 3600)"

definition current_or_create_parent_group :: "string \<Rightarrow> nat \<Rightarrow> agent_context \<Rightarrow> string coord_run" where
  "current_or_create_parent_group new_id now owner = create_parent_task_group new_id owner (now + 3600)"

section \<open>Ending a child\<close>

definition sanitize_child_result :: "string \<Rightarrow> child_terminal_status \<Rightarrow> string \<Rightarrow> string option \<Rightarrow> string option \<Rightarrow> child_result" where
  "sanitize_child_result child terminal summary error_code partial_result =
     \<lparr>rc_child_id = child, rc_status = terminal, rc_summary = chars_take max_inline_result_len summary, rc_error_code = error_code,
      rc_partial_result = map_option (chars_take max_full_inline_len) partial_result\<rparr>"

definition child_result_from_terminal :: "string \<Rightarrow> child_terminal \<Rightarrow> child_result" where
  "child_result_from_terminal child terminal =
     (let (summary, error_code, partial_result) = (case terminal of
            TerminalCompleted summary \<Rightarrow> (summary, None, None)
          | TerminalFailed code partial_result \<Rightarrow> ([], Some code, partial_result)
          | TerminalCancelled \<Rightarrow> ([], None, None))
      in sanitize_child_result child (to_child_status terminal) summary error_code partial_result)"

definition record_mapped_child_result :: "agent_context \<Rightarrow> child_terminal \<Rightarrow> unit coord_run" where
  "record_mapped_child_result child terminal =
     bnd (upd (\<lambda>st. st\<lparr>co_node_types := (co_node_types st)(key_of child := None)\<rparr>)) (\<lambda>_.
     bnd (gets (\<lambda>st. map_of (co_child_groups st) (key_of child))) (\<lambda>mapped.
     case mapped of
       None \<Rightarrow> ret ()
     | Some group_id \<Rightarrow>
         bnd (attempt (on_groups (group_record_result group_id (child_result_from_terminal (cx_agent_id child) terminal)))) (\<lambda>recorded.
         if (case recorded of Inr _ \<Rightarrow> True | Inl (TaskGroupFailed (ResultAlreadyRecorded _ _)) \<Rightarrow> True | Inl _ \<Rightarrow> False)
         then bnd (upd (\<lambda>st. st\<lparr>co_child_groups := filter (\<lambda>(k, _). k \<noteq> key_of child) (co_child_groups st)\<rparr>)) (\<lambda>_.
              bnd (gets (\<lambda>st. group_is_ready (co_groups st) group_id)) (\<lambda>ready.
              when_m ready (upd (\<lambda>st. st\<lparr>co_pings := co_pings st @ [cx_session_id child]\<rparr>))))
         else lift_result (case recorded of Inl e \<Rightarrow> Inl (Fails e) | Inr x \<Rightarrow> Inr x))))"

fun terminal_summary :: "child_terminal \<Rightarrow> child_summary option" where
  "terminal_summary (TerminalCompleted summary) = Some \<lparr>cs_text = summary, cs_error_code = None\<rparr>"
| "terminal_summary (TerminalFailed code _) = Some \<lparr>cs_text = [], cs_error_code = Some code\<rparr>"
| "terminal_summary TerminalCancelled = None"

definition end_scope :: "child_terminal \<Rightarrow> scope_state \<Rightarrow> scope_state" where
  "end_scope terminal s = s\<lparr>sc_status := to_status terminal, sc_terminal := Some terminal, sc_permit := False\<rparr>"

text \<open>The first critical section of \<open>finish_child\<close>: it yields the terminal of a scope that had ended before.\<close>

definition claim_terminal :: "agent_context \<Rightarrow> child_terminal \<Rightarrow> child_terminal option coord_run" where
  "claim_terminal child terminal =
     bnd (gets (\<lambda>st. co_scopes st (key_of child))) (\<lambda>scope.
     case scope of
       None \<Rightarrow> ret None
     | Some s \<Rightarrow>
         if is_terminal (sc_status s) then ret (sc_terminal s)
         else bnd (upd (set_scope (key_of child) (end_scope terminal))) (\<lambda>_.
              bnd (when_m (sc_permit s) (upd drop_permit)) (\<lambda>_. ret None)))"

definition finish_child :: "agent_context \<Rightarrow> child_terminal \<Rightarrow> unit coord_run" where
  "finish_child child terminal =
     (if is_root child then fails RootHasNoTerminalState
      else bnd (claim_terminal child terminal) (\<lambda>existing.
        case existing of
          Some stored \<Rightarrow> record_mapped_child_result child stored
        | None \<Rightarrow>
            bnd (on_store (update_status (cx_session_id child) (cx_agent_id child) (to_status terminal))) (\<lambda>_.
            bnd (case terminal_summary terminal of
                   Some summary \<Rightarrow> on_store (set_summary (cx_session_id child) (cx_agent_id child) summary)
                 | None \<Rightarrow> ret ()) (\<lambda>_.
            record_mapped_child_result child terminal))))"

definition force_record_child_result :: "agent_context \<Rightarrow> child_terminal \<Rightarrow> unit coord_run" where
  "force_record_child_result child terminal = bnd (attempt (record_mapped_child_result child terminal)) (\<lambda>_. ret ())"

text \<open>The part of \<open>reserve_child_in_group\<close> after the reservation.\<close>

definition enlist_child :: "agent_context \<Rightarrow> agent_context \<Rightarrow> string \<Rightarrow> agent_context coord_run" where
  "enlist_child caller child group_id =
     bnd (gets (\<lambda>st. \<exists>(k, mapped) \<in> set (co_owner_groups st).
            ok_session_id k = cx_session_id caller \<and> ok_owner_id k = cx_agent_id caller \<and> mapped = group_id)) (\<lambda>group_is_owned.
     if \<not> group_is_owned
     then bnd (finish_child child TerminalCancelled) (\<lambda>_. fails (GroupNotOwned group_id (cx_agent_id caller)))
     else bnd (attempt (on_groups (group_add_child group_id (cx_agent_id child)))) (\<lambda>added.
       case added of
         Inl err \<Rightarrow> bnd (finish_child child TerminalCancelled) (\<lambda>_. fails err)
       | Inr _ \<Rightarrow>
           bnd (upd (\<lambda>st. st\<lparr>co_child_groups := assoc_insert (key_of child) group_id (co_child_groups st)\<rparr>)) (\<lambda>_. ret child)))"

definition reserve_child_in_group ::
    "coord_env \<Rightarrow> string \<Rightarrow> agent_context \<Rightarrow> spawn_child_request \<Rightarrow> string \<Rightarrow> agent_context coord_run" where
  "reserve_child_in_group env new_id caller request group_id =
     bnd (reserve_child env new_id caller request) (\<lambda>child. enlist_child caller child group_id)"

section \<open>Reading\<close>

definition issue_result_handle :: "string \<Rightarrow> agent_context \<Rightarrow> agent_context \<Rightarrow> u64 \<Rightarrow> string coord_run" where
  "issue_result_handle handle parent child generation =
     bnd (upd (\<lambda>st. st\<lparr>co_grants := (co_grants st)(handle \<mapsto>
            \<lparr>gr_session_id = cx_session_id parent, gr_parent_id = cx_agent_id parent, gr_child_id = cx_agent_id child, gr_generation = generation\<rparr>)\<rparr>))
       (\<lambda>_. ret handle)"

definition read_result :: "agent_context \<Rightarrow> string \<Rightarrow> child_result coord_run" where
  "read_result caller handle =
     bnd (gets (\<lambda>st. co_grants st handle)) (\<lambda>found.
     bnd (require_some found (Fails NotVisible)) (\<lambda>grant.
     if gr_session_id grant \<noteq> cx_session_id caller \<or> gr_parent_id grant \<noteq> cx_agent_id caller then fails NotVisible
     else bnd (gets (\<lambda>st. direct_children (co_store st) (cx_session_id caller) (cx_agent_id caller))) (\<lambda>children.
       bnd (require_some (List.find (\<lambda>c. ar_agent_id c = gr_child_id grant) children) (Fails NotVisible)) (\<lambda>child.
       if ar_generation child \<noteq> gr_generation grant then fails NotVisible
       else let (status, summary, error_code) = (case ar_summary child of
                  Some s \<Rightarrow> if cs_error_code s \<noteq> None then (ChildFailed, cs_text s, cs_error_code s) else (ChildCompleted, cs_text s, None)
                | None \<Rightarrow> (ChildCancelled, [], None))
            in ret (sanitize_child_result (ar_agent_id child) status summary error_code None)))))"

definition read_status :: "agent_context \<Rightarrow> string \<Rightarrow> direct_child_view coord_run" where
  "read_status caller target =
     (if target = cx_agent_id caller
      then bnd (read_store (\<lambda>s. authorize_target s (cx_session_id caller) (cx_agent_id caller) (cx_agent_id caller))) (\<lambda>r. ret (child_view r))
      else bnd (gets (\<lambda>st. direct_children (co_store st) (cx_session_id caller) (cx_agent_id caller))) (\<lambda>children.
        bnd (require_some (List.find (\<lambda>c. ar_agent_id c = target) children) (Fails NotVisible)) (\<lambda>child. ret (child_view child))))"

definition read_transcript :: "agent_context \<Rightarrow> string \<Rightarrow> string coord_run" where
  "read_transcript caller target =
     bnd (read_status caller target) (\<lambda>_.
     ret (''transcript for '' @ target @ '' (session '' @ cx_session_id caller @ ''): authorized''))"

definition list_local :: "agent_context \<Rightarrow> local_agent_view coord_run" where
  "list_local caller = read_store (\<lambda>s. local_view s (cx_session_id caller) (cx_agent_id caller))"

definition trusted_ui_record :: "string \<Rightarrow> string \<Rightarrow> agent_record coord_run" where
  "trusted_ui_record session agent = read_store (\<lambda>s. record_for_trusted_ui s session agent)"

definition trusted_ui_local_records :: "string \<Rightarrow> string \<Rightarrow> (agent_record \<times> agent_record list) coord_run" where
  "trusted_ui_local_records session agent = read_store (\<lambda>s. local_records_for_trusted_ui s session agent)"

definition trusted_ui_directory :: "nat \<Rightarrow> string \<Rightarrow> string \<Rightarrow> directory_entry option coord_run" where
  "trusted_ui_directory fuel session root = read_store (\<lambda>s. directory_for_trusted_ui fuel s session root)"

definition coord_status :: "agent_context \<Rightarrow> agent_lifecycle_status coord_run" where
  "coord_status cx =
     bnd (gets (\<lambda>st. co_scopes st (key_of cx))) (\<lambda>scope.
     case scope of
       Some s \<Rightarrow> ret (sc_status s)
     | None \<Rightarrow> bnd (read_store (\<lambda>s. authorize_target s (cx_session_id cx) (cx_agent_id cx) (cx_agent_id cx))) (\<lambda>r. ret (ar_status r)))"

section \<open>Lifecycle of an owner and its groups\<close>

definition transition_status_if_current :: "agent_context \<Rightarrow> agent_lifecycle_status \<Rightarrow> agent_lifecycle_status \<Rightarrow> bool coord_run" where
  "transition_status_if_current cx expected status =
     bnd (gets (\<lambda>st. co_scopes st (key_of cx))) (\<lambda>scope.
     bnd (require_some scope (Fails ParentNotRunning)) (\<lambda>state.
     if sc_status state \<noteq> expected then ret False
     else bnd (on_store (update_status (cx_session_id cx) (cx_agent_id cx) status)) (\<lambda>_.
          bnd (upd (set_scope (key_of cx) (\<lambda>s. s\<lparr>sc_status := status\<rparr>))) (\<lambda>_. ret True))))"

definition active_owner_status :: "agent_context \<Rightarrow> agent_lifecycle_status coord_run" where
  "active_owner_status cx =
     bnd (coord_status cx) (\<lambda>status.
     if status = AgentRunning \<or> status = WaitingForChildren then ret status else fails ParentNotRunning)"

definition remove_owner_group :: "string \<Rightarrow> coord \<Rightarrow> coord" where
  "remove_owner_group group_id st = st\<lparr>co_owner_groups := filter (\<lambda>(_, mapped). mapped \<noteq> group_id) (co_owner_groups st)\<rparr>"

definition claim_ready_root_group :: "nat \<Rightarrow> agent_context \<Rightarrow> u64 \<Rightarrow> group_delivery option coord_run" where
  "claim_ready_root_group now root generation =
     (if \<not> is_root root then fails NotVisible
      else bnd (upd (\<lambda>st. st\<lparr>co_groups := snd (expire_due_groups now (co_groups st))\<rparr>)) (\<lambda>_.
        bnd (on_groups (claim_ready_for_owner (cx_session_id root) (cx_agent_id root) generation)) (\<lambda>delivery.
        bnd (case delivery of Some d \<Rightarrow> upd (remove_owner_group (gv_group_id d)) | None \<Rightarrow> ret ()) (\<lambda>_.
        ret delivery))))"

definition clean_generation_mappings :: "string \<Rightarrow> (u64 \<Rightarrow> bool) \<Rightarrow> coord \<Rightarrow> coord" where
  "clean_generation_mappings session should_remove st =
     (let stale = (\<lambda>(k, _). ok_session_id k = session \<and> should_remove (ok_generation k));
          stale_groups = map snd (filter stale (co_owner_groups st)) in
      st\<lparr>co_owner_groups := filter (\<lambda>e. \<not> stale e) (co_owner_groups st),
         co_child_groups := filter (\<lambda>(_, group_id). group_id \<notin> set stale_groups) (co_child_groups st)\<rparr>)"

definition coord_advance_generation :: "string \<Rightarrow> u64 coord_run" where
  "coord_advance_generation session =
     bnd (gets (\<lambda>st. advance_generation session (co_groups st))) (\<lambda>(generation, groups).
     bnd (upd (\<lambda>st. clean_generation_mappings session (\<lambda>mapped. mapped < generation) (st\<lparr>co_groups := groups\<rparr>))) (\<lambda>_.
     ret generation))"

definition coord_cancel_generation :: "string \<Rightarrow> u64 \<Rightarrow> nat coord_run" where
  "coord_cancel_generation session generation =
     bnd (gets (\<lambda>st. cancel_generation session generation (co_groups st))) (\<lambda>(removed, groups).
     bnd (upd (\<lambda>st. clean_generation_mappings session (\<lambda>mapped. mapped = generation) (st\<lparr>co_groups := groups\<rparr>))) (\<lambda>_.
     ret removed))"

definition register_task :: "agent_context \<Rightarrow> unit coord_run" where
  "register_task child =
     bnd (gets (\<lambda>st. co_scopes st (key_of child))) (\<lambda>scope.
     bnd (require_some scope (Fails ParentNotRunning)) (\<lambda>_.
     upd (set_scope (key_of child) (\<lambda>s. s\<lparr>sc_task := True\<rparr>))))"

definition is_live :: "agent_lifecycle_status \<Rightarrow> bool" where
  "is_live status \<longleftrightarrow> \<not> is_terminal status \<and> status \<noteq> AgentCancelling"

definition scope_token :: "coord \<Rightarrow> agent_key \<Rightarrow> token" where
  "scope_token st k = (case co_scopes st k of Some s \<Rightarrow> sc_cancellation s | None \<Rightarrow> [])"

definition child_context :: "coord \<Rightarrow> agent_context \<Rightarrow> agent_record \<Rightarrow> agent_context" where
  "child_context st caller child =
     \<lparr>cx_session_id = ar_session_id child, cx_agent_id = ar_agent_id child, cx_parent_id = Some (cx_agent_id caller), cx_depth = ar_depth child,
      cx_cancellation = scope_token st (ar_session_id child, ar_agent_id child)\<rparr>"

definition live_direct_children :: "agent_context \<Rightarrow> agent_context list coord_run" where
  "live_direct_children caller = gets (\<lambda>st.
     map (child_context st caller)
       (filter (\<lambda>child. is_live (case co_scopes st (cx_session_id caller, ar_agent_id child) of Some s \<Rightarrow> sc_status s | None \<Rightarrow> ar_status child))
          (direct_children (co_store st) (cx_session_id caller) (cx_agent_id caller))))"

definition begin_finalizing :: "agent_context \<Rightarrow> unit coord_run" where
  "begin_finalizing caller =
     (if is_root caller then fails RootHasNoTerminalState
      else bnd (active_owner_status caller) (\<lambda>status.
        bnd (live_direct_children caller) (\<lambda>live.
        if live \<noteq> [] then fails ChildrenStillRunning
        else bnd (transition_status_if_current caller status AgentFinalizing) (\<lambda>moved.
          if moved then ret () else fails ParentNotRunning))))"

section \<open>Joining\<close>

definition stored_terminal :: "agent_context \<Rightarrow> child_terminal option coord_run" where
  "stored_terminal child = gets (\<lambda>st. case co_scopes st (key_of child) of
     Some s \<Rightarrow> if is_terminal (sc_status s) then sc_terminal s else None | None \<Rightarrow> None)"

definition take_task :: "agent_context \<Rightarrow> bool coord_run" where
  "take_task child =
     bnd (gets (\<lambda>st. case co_scopes st (key_of child) of Some s \<Rightarrow> sc_task s | None \<Rightarrow> False)) (\<lambda>task.
     bnd (upd (set_scope (key_of child) (\<lambda>s. s\<lparr>sc_task := False\<rparr>))) (\<lambda>_. ret task))"

text \<open>What another task does to the child during a wait.\<close>

definition finished_by :: "agent_context \<Rightarrow> child_terminal option \<Rightarrow> unit coord_run" where
  "finished_by child other =
     (case other of None \<Rightarrow> ret () | Some terminal \<Rightarrow> bnd (attempt (finish_child child terminal)) (\<lambda>_. ret ()))"

definition wait_for_child :: "coord_env \<Rightarrow> agent_context \<Rightarrow> bool \<Rightarrow> child_terminal coord_run" where
  "wait_for_child env child task =
     (case ae_wait env (key_of child) of
        TaskReturns other terminal \<Rightarrow>
          if task then bnd (finished_by child other) (\<lambda>_. bnd (finish_child child terminal) (\<lambda>_. ret terminal)) else throw Waits
      | TaskPanics message \<Rightarrow> if task then fails (JoinFailed message) else throw Waits
      | FinishedElsewhere terminal \<Rightarrow>
          bnd (finished_by child (Some terminal)) (\<lambda>_. bnd (stored_terminal child) (\<lambda>ended. require_some ended Waits))
      | NeverEnds \<Rightarrow> throw Waits)"

definition await_child_terminal :: "coord_env \<Rightarrow> agent_context \<Rightarrow> child_terminal coord_run" where
  "await_child_terminal env child =
     bnd (stored_terminal child) (\<lambda>ended.
     case ended of
       Some terminal \<Rightarrow> ret terminal
     | None \<Rightarrow> bnd (take_task child) (wait_for_child env child))"

definition join_child :: "coord_env \<Rightarrow> agent_context \<Rightarrow> agent_record \<Rightarrow> child_result coord_run" where
  "join_child env caller child =
     bnd (gets (\<lambda>st. child_context st caller child)) (\<lambda>context.
     bnd (await_child_terminal env context) (\<lambda>terminal. ret (child_result_from_terminal (ar_agent_id child) terminal)))"

definition join_children :: "coord_env \<Rightarrow> agent_context \<Rightarrow> child_result list coord_run" where
  "join_children env caller =
     bnd (gets (\<lambda>st. direct_children (co_store st) (cx_session_id caller) (cx_agent_id caller))) (map_each (join_child env caller))"

definition claim_owned_group :: "agent_context \<Rightarrow> child_result list \<Rightarrow> child_result list coord_run" where
  "claim_owned_group caller joined =
     bnd (current_generation (cx_session_id caller)) (\<lambda>generation.
     bnd (gets (\<lambda>st. map_of (co_owner_groups st)
            \<lparr>ok_session_id = cx_session_id caller, ok_owner_id = cx_agent_id caller, ok_generation = generation, ok_origin_turn_id = None\<rparr>)) (\<lambda>mapped.
     case mapped of
       None \<Rightarrow> ret joined
     | Some group_id \<Rightarrow>
         bnd (on_groups (claim_specific group_id (cx_session_id caller) (cx_agent_id caller) generation)) (\<lambda>delivery.
         case delivery of
           None \<Rightarrow> ret joined
         | Some d \<Rightarrow> bnd (upd (remove_owner_group (gv_group_id d))) (\<lambda>_. ret (gv_results d)))))"

definition collect_children_for_synthesis :: "coord_env \<Rightarrow> agent_context \<Rightarrow> child_result list coord_run" where
  "collect_children_for_synthesis env caller =
     (if is_root caller then fails RootHasNoTerminalState
      else bnd (active_owner_status caller) (\<lambda>initial_status.
        bnd (live_direct_children caller) (\<lambda>live.
        bnd (if live \<noteq> [] \<and> initial_status = AgentRunning
             then transition_status_if_current caller AgentRunning WaitingForChildren else ret False) (\<lambda>_.
        bnd (attempt (join_children env caller)) (\<lambda>joined.
        bnd (case joined of Inr results \<Rightarrow> bnd (claim_owned_group caller results) (\<lambda>rs. ret (Inr rs)) | Inl e \<Rightarrow> ret (Inl e)) (\<lambda>result.
        bnd (transition_status_if_current caller WaitingForChildren AgentRunning) (\<lambda>_.
        lift_result (case result of Inl e \<Rightarrow> Inl (Fails e) | Inr rs \<Rightarrow> Inr rs))))))))"

section \<open>Cancelling\<close>

definition await_cancelled_child :: "coord_env \<Rightarrow> agent_context \<Rightarrow> unit coord_run" where
  "await_cancelled_child env child =
     bnd (gets (\<lambda>st. co_scopes st (key_of child))) (\<lambda>scope.
     if (case scope of Some s \<Rightarrow> is_terminal (sc_status s) | None \<Rightarrow> False) then ret ()
     else bnd (take_task child) (\<lambda>task.
       if \<not> task then finish_child child TerminalCancelled
       else case ae_wait env (key_of child) of
         TaskReturns other terminal \<Rightarrow> bnd (finished_by child other) (\<lambda>_. finish_child child terminal)
       | TaskPanics message \<Rightarrow> fails (JoinFailed message)
       | FinishedElsewhere terminal \<Rightarrow> bnd (finished_by child (Some terminal)) (\<lambda>_. finish_child child TerminalCancelled)
       | NeverEnds \<Rightarrow> finish_child child TerminalCancelled))"

definition mark_status :: "agent_context \<Rightarrow> agent_lifecycle_status \<Rightarrow> unit coord_run" where
  "mark_status cx status =
     bnd (upd (set_scope (key_of cx) (\<lambda>s. s\<lparr>sc_status := status\<rparr>))) (\<lambda>_.
     on_store (update_status (cx_session_id cx) (cx_agent_id cx) status))"

definition begin_cancel :: "agent_context \<Rightarrow> token option coord_run" where
  "begin_cancel scope =
     bnd (gets (\<lambda>st. co_scopes st (key_of scope))) (\<lambda>found.
     case found of
       None \<Rightarrow> ret None
     | Some state \<Rightarrow>
         if is_terminal (sc_status state) then ret None
         else bnd (mark_status scope AgentCancelling) (\<lambda>_. ret (Some (sc_cancellation state))))"

text \<open>The recursion ends with the depth of the hierarchy; fuel stands for it.\<close>

fun cancel_descendants :: "coord_env \<Rightarrow> nat \<Rightarrow> agent_context \<Rightarrow> unit coord_run" where
  "cancel_descendants env 0 = (\<lambda>_. throw OutOfFuel)"
| "cancel_descendants env (Suc fuel) = (\<lambda>scope.
     bnd (begin_cancel scope) (\<lambda>begun.
     case begun of
       None \<Rightarrow> ret ()
     | Some tok \<Rightarrow>
         bnd (upd (cancel_token tok)) (\<lambda>_.
         bnd (live_direct_children scope) (\<lambda>live.
         bnd (for_each (cancel_descendants env fuel) live) (\<lambda>_.
         for_each (await_cancelled_child env) live)))))"

definition cancel_scope :: "coord_env \<Rightarrow> nat \<Rightarrow> agent_context \<Rightarrow> unit coord_run" where
  "cancel_scope env fuel caller =
     (if is_root caller then fails RootHasNoTerminalState
      else bnd (cancel_descendants env fuel caller) (\<lambda>_. finish_child caller TerminalCancelled))"

definition cancel_subtree :: "coord_env \<Rightarrow> nat \<Rightarrow> agent_context \<Rightarrow> string \<Rightarrow> unit coord_run" where
  "cancel_subtree env fuel caller target =
     bnd (gets (\<lambda>st. direct_children (co_store st) (cx_session_id caller) (cx_agent_id caller))) (\<lambda>children.
     let is_self = (target = cx_agent_id caller); is_direct_child = (\<not> is_self \<and> (\<exists>c \<in> set children. ar_agent_id c = target)) in
     if \<not> is_self \<and> \<not> is_direct_child then fails NotVisible
     else if is_self \<and> is_root caller then fails RootHasNoTerminalState
     else bnd (if is_self then ret caller
               else bnd (require_some (List.find (\<lambda>c. ar_agent_id c = target) children) (Fails NotVisible)) (\<lambda>child.
                    gets (\<lambda>st. child_context st caller child))) (\<lambda>target_context.
          bnd (cancel_descendants env fuel target_context) (\<lambda>_. finish_child target_context TerminalCancelled)))"

fun cancel_each :: "coord_env \<Rightarrow> nat \<Rightarrow> agent_context \<Rightarrow> agent_record list \<Rightarrow> nat \<Rightarrow> nat coord_run" where
  "cancel_each env fuel root [] cancelled = ret cancelled"
| "cancel_each env fuel root (child # children) cancelled =
     (if is_terminal (ar_status child) then cancel_each env fuel root children cancelled
      else bnd (attempt (cancel_subtree env fuel root (ar_agent_id child))) (\<lambda>r.
        case r of
          Inr _ \<Rightarrow> cancel_each env fuel root children (cancelled + 1)
        | Inl NotVisible \<Rightarrow> cancel_each env fuel root children cancelled
        | Inl e \<Rightarrow> fails e))"

definition cancel_root_children :: "coord_env \<Rightarrow> nat \<Rightarrow> agent_context \<Rightarrow> nat coord_run" where
  "cancel_root_children env fuel root =
     (if \<not> is_root root then fails NotVisible
      else bnd (gets (\<lambda>st. direct_children (co_store st) (cx_session_id root) (cx_agent_id root))) (\<lambda>children.
        cancel_each env fuel root children 0))"

section \<open>Finalizing\<close>

fun join_failfast :: "coord_env \<Rightarrow> nat \<Rightarrow> agent_context \<Rightarrow> agent_record list \<Rightarrow> bool \<Rightarrow> child_result list coord_run" where
  "join_failfast env fuel caller [] failed = ret []"
| "join_failfast env fuel caller (child # children) failed =
     bnd (gets (\<lambda>st. child_context st caller child)) (\<lambda>context.
     bnd (when_m failed (cancel_descendants env fuel context)) (\<lambda>_.
     bnd (await_child_terminal env context) (\<lambda>terminal.
     bnd (join_failfast env fuel caller children
            (failed \<or> (case terminal of TerminalCompleted _ \<Rightarrow> False | _ \<Rightarrow> True))) (\<lambda>results.
     ret (child_result_from_terminal (ar_agent_id child) terminal # results)))))"

definition join_children_failfast :: "coord_env \<Rightarrow> nat \<Rightarrow> agent_context \<Rightarrow> child_result list coord_run" where
  "join_children_failfast env fuel caller =
     bnd (gets (\<lambda>st. direct_children (co_store st) (cx_session_id caller) (cx_agent_id caller))) (\<lambda>children.
     join_failfast env fuel caller children False)"

definition begin_waiting :: "agent_context \<Rightarrow> unit coord_run" where
  "begin_waiting caller =
     bnd (gets (\<lambda>st. co_scopes st (key_of caller))) (\<lambda>found.
     case found of
       None \<Rightarrow> ret ()
     | Some state \<Rightarrow> when_m (is_live (sc_status state)) (mark_status caller WaitingForChildren))"

definition enter_finalizing :: "agent_context \<Rightarrow> unit coord_run" where
  "enter_finalizing caller =
     bnd (gets (\<lambda>st. co_scopes st (key_of caller))) (\<lambda>found.
     when_m (found \<noteq> None) (mark_status caller AgentFinalizing))"

definition finalize_scope :: "coord_env \<Rightarrow> nat \<Rightarrow> agent_context \<Rightarrow> parent_outcome \<Rightarrow> join_policy \<Rightarrow> child_result list coord_run" where
  "finalize_scope env fuel caller outcome policy =
     (if is_root caller then fails RootHasNoTerminalState
      else bnd (live_direct_children caller) (\<lambda>live.
        bnd (when_m (live \<noteq> []) (begin_waiting caller)) (\<lambda>_.
        bnd (if policy = FailFast then join_children_failfast env fuel caller else join_children env caller) (\<lambda>results.
        bnd (enter_finalizing caller) (\<lambda>_.
        bnd (finish_child caller (to_child_terminal outcome)) (\<lambda>_.
        ret results))))))"

end
