(* ===== verification/Agent_Lifecycle.thy ===== *)
theory Agent_Lifecycle
  imports Agent_Coordinator
begin

text \<open>
  What the agent coordinator keeps true: one permit per child that has not ended, scopes and records
  in step, roles that may not spawn without children, depths within the limit. The relation
  \<open>keeps_coord\<close> carries this, and the shape of the hierarchy, through every operation.
\<close>

named_theorems coord_rules "operations that keep the coordinator's invariant and every outcome"
named_theorems keeps_rules "operations that keep the coordinator's invariant"

section \<open>The invariant\<close>

text \<open>
  A scope and its record agree on being terminal; a terminal scope knows its outcome; a spawned agent
  holds its permit exactly until its first outcome.
\<close>

definition scope_ok :: "scope_state \<Rightarrow> agent_record \<Rightarrow> bool" where
  "scope_ok s r \<longleftrightarrow> is_terminal (sc_status s) = is_terminal (ar_status r) \<and> (is_terminal (sc_status s) \<longrightarrow> sc_terminal s \<noteq> None) \<and>
     (sc_permit s \<longleftrightarrow> ar_parent_id r \<noteq> None \<and> sc_terminal s = None)"

definition token_ok :: "coord \<Rightarrow> agent_key \<Rightarrow> scope_state \<Rightarrow> agent_record \<Rightarrow> bool" where
  "token_ok st k s r \<longleftrightarrow> (case ar_parent_id r of
     None \<Rightarrow> ar_depth r = 0 \<and> sc_cancellation s = [k]
   | Some p \<Rightarrow> \<exists>sp. co_scopes st (fst k, p) = Some sp \<and> sc_cancellation s = k # sc_cancellation sp)"

definition holders :: "coord \<Rightarrow> agent_key set" where
  "holders st = {k. \<exists>s. co_scopes st k = Some s \<and> sc_permit s}"

definition may_spawn :: "coord_env \<Rightarrow> node_type \<Rightarrow> bool" where
  "may_spawn env t \<longleftrightarrow> (case registry_get (ae_registry env) t of Some c \<Rightarrow> can_spawn (nc_permissions c) | None \<Rightarrow> False)"

text \<open>The deepest level any registered role may spawn at.\<close>

definition depth_limit :: "coord_env \<Rightarrow> nat" where
  "depth_limit env = foldr max (map (\<lambda>t. case registry_get (ae_registry env) t of
     Some c \<Rightarrow> resolve_effective_max_depth (rb_max_depth (nc_budget c)) (ae_max_depth env) | None \<Rightarrow> 0) canonical_order) 0"

definition types_ok :: "coord_env \<Rightarrow> coord \<Rightarrow> bool" where
  "types_ok env st \<longleftrightarrow> (\<forall>k t. co_node_types st k = Some t \<longrightarrow>
     k \<in> dom (co_scopes st) \<and> (may_spawn env t \<or> as_children (co_store st) (fst k, Some (snd k)) = []))"

definition coord_ok :: "coord_env \<Rightarrow> nat \<Rightarrow> coord \<Rightarrow> bool" where
  "coord_ok env n st \<longleftrightarrow> hierarchy_ok (co_store st) \<and> dom (co_scopes st) = dom (as_records (co_store st)) \<and>
     (\<forall>k s r. co_scopes st k = Some s \<longrightarrow> as_records (co_store st) k = Some r \<longrightarrow> scope_ok s r \<and> token_ok st k s r) \<and>
     co_permits st + card (holders st) = n \<and> types_ok env st \<and>
     (\<forall>k r. as_records (co_store st) k = Some r \<longrightarrow> ar_depth r \<le> depth_limit env)"

lemma coord_okD:
  assumes "coord_ok env n st"
  shows "hierarchy_ok (co_store st)" "dom (co_scopes st) = dom (as_records (co_store st))"
    "co_scopes st k = Some s \<Longrightarrow> as_records (co_store st) k = Some r \<Longrightarrow> scope_ok s r \<and> token_ok st k s r"
    "co_permits st + card (holders st) = n" "types_ok env st" "as_records (co_store st) k = Some r \<Longrightarrow> ar_depth r \<le> depth_limit env"
  using assms unfolding coord_ok_def by (blast, blast, blast, blast, blast, blast)

lemma coord_ok_record: "coord_ok env n st \<Longrightarrow> co_scopes st k = Some s \<Longrightarrow> \<exists>r. as_records (co_store st) k = Some r \<and> scope_ok s r \<and> token_ok st k s r"
  using coord_okD(2,3) by (metis domD domI)

lemma finite_holders: "coord_ok env n st \<Longrightarrow> finite (holders st)"
  by (rule finite_subset [of _ "dom (co_scopes st)"]) (auto simp: holders_def coord_okD(2) hierarchyD(1) [OF coord_okD(1)] dest: coord_ok_record)

text \<open>The shape of the hierarchy: who is whose child, at which depth, with which token.\<close>

definition place :: "agent_record \<Rightarrow> string \<times> string \<times> string option \<times> nat" where
  "place r = (ar_session_id r, ar_agent_id r, ar_parent_id r, ar_depth r)"

definition steady :: "coord \<Rightarrow> coord \<Rightarrow> bool" where
  "steady s t \<longleftrightarrow> as_children (co_store t) = as_children (co_store s) \<and>
     (\<forall>k. map_option place (as_records (co_store t) k) = map_option place (as_records (co_store s) k)) \<and>
     (\<forall>k. map_option sc_cancellation (co_scopes t k) = map_option sc_cancellation (co_scopes s k)) \<and>
     co_node_types t \<subseteq>\<^sub>m co_node_types s \<and> co_cancelled s \<subseteq> co_cancelled t"

definition keeps_coord :: "coord_env \<Rightarrow> coord \<Rightarrow> coord \<Rightarrow> bool" where
  "keeps_coord env s t \<longleftrightarrow> (\<forall>n. coord_ok env n s \<longrightarrow> coord_ok env n t \<and> steady s t)"

text \<open>An outcome, once there, stays.\<close>

definition settled :: "coord \<Rightarrow> coord \<Rightarrow> bool" where
  "settled s t \<longleftrightarrow> (\<forall>k a. co_scopes s k = Some a \<longrightarrow> is_terminal (sc_status a) \<longrightarrow>
     (\<exists>b. co_scopes t k = Some b \<and> sc_status b = sc_status a \<and> sc_terminal b = sc_terminal a))"

definition settles_coord :: "coord_env \<Rightarrow> coord \<Rightarrow> coord \<Rightarrow> bool" where
  "settles_coord env s t \<longleftrightarrow> (\<forall>n. coord_ok env n s \<longrightarrow> coord_ok env n t \<and> steady s t \<and> settled s t)"

lemma steady_refl [simp]: "steady s s"
  by (simp add: steady_def)

lemma steady_trans: "steady s t \<Longrightarrow> steady t u \<Longrightarrow> steady s u"
  unfolding steady_def by (metis (no_types) map_le_trans subset_trans)

lemma settled_trans: "settled s t \<Longrightarrow> settled t u \<Longrightarrow> settled s u"
  unfolding settled_def by (metis (no_types))

lemma settled_refl [simp]: "settled s s"
  by (simp add: settled_def)

interpretation kc: state_preorder "keeps_coord env" for env
  by unfold_locales (auto simp: keeps_coord_def intro: steady_trans)

interpretation sc: state_preorder "settles_coord env" for env
  by unfold_locales (simp_all add: settles_coord_def, blast intro: steady_trans settled_trans)

lemma settles_keeps: "obeys (settles_coord env) m \<Longrightarrow> obeys (keeps_coord env) m"
  by (auto simp: obeys_def settles_coord_def keeps_coord_def)

section \<open>Changes of the state\<close>

lemma types_ok_mono:
  assumes "types_ok env st" and le: "co_node_types t \<subseteq>\<^sub>m co_node_types st" and dom: "dom (co_scopes st) \<subseteq> dom (co_scopes t)"
    and ch: "as_children (co_store t) = as_children (co_store st)"
  shows "types_ok env t"
  unfolding types_ok_def ch
proof (intro allI impI)
  fix k ty assume "co_node_types t k = Some ty"
  then have "co_node_types st k = Some ty" using le by (metis domI map_le_def)
  then have "k \<in> dom (co_scopes st)" "may_spawn env ty \<or> as_children (co_store st) (fst k, Some (snd k)) = []"
    using assms(1) unfolding types_ok_def by blast+
  then show "k \<in> dom (co_scopes t) \<and> (may_spawn env ty \<or> as_children (co_store st) (fst k, Some (snd k)) = [])" using dom by blast
qed

lemma same_scopes:
  assumes "co_scopes t = co_scopes st" shows "token_ok t = token_ok st" "holders t = holders st"
  unfolding token_ok_def [abs_def] holders_def assms by (rule refl)+

text \<open>Fields the invariant does not speak of.\<close>

lemma keep_rest:
  assumes "coord_ok env n st" and "co_store t = co_store st" "co_scopes t = co_scopes st" "co_permits t = co_permits st"
    and "co_node_types t \<subseteq>\<^sub>m co_node_types st" "co_cancelled st \<subseteq> co_cancelled t"
  shows "coord_ok env n t" "steady st t" "settled st t"
proof -
  have "types_ok env t" by (rule types_ok_mono [OF coord_okD(5) [OF assms(1)] assms(5)]) (simp_all add: assms)
  moreover note same_scopes [OF assms(3)]
  ultimately show "coord_ok env n t" using assms(1) unfolding coord_ok_def by (simp add: assms(2-4))
  show "steady st t" using assms by (simp add: steady_def)
  show "settled st t" using assms by (simp add: settled_def)
qed

text \<open>A new state of one scope and its record.\<close>

lemma records_put_hierarchy:
  assumes "hierarchy_ok s" and "as_records s k = Some r" and "place q = place r"
    and "as_records t = (as_records s)(k \<mapsto> q)" and "as_children t = as_children s"
  shows "hierarchy_ok t"
proof -
  have "t = snd (update_agent (fst k) (snd k) (\<lambda>x. if x = r then q else x) s)"
    using assms(2,4,5) by (cases t) (simp add: update_agent_def)
  then show ?thesis using assms(3) update_hierarchy [OF assms(1), of "\<lambda>x. if x = r then q else x"] by (simp add: place_def)
qed

lemma holders_put:
  assumes "co_scopes st k = Some a" and "co_scopes t = (co_scopes st)(k \<mapsto> b)"
  shows "holders t = (if sc_permit b then insert k (holders st) else holders st - {k})"
  using assms by (auto simp: holders_def)

lemma put_scope_ok:
  assumes ok: "coord_ok env n st" and a: "co_scopes st k = Some a" and r: "as_records (co_store st) k = Some r"
    and t: "co_scopes t = (co_scopes st)(k \<mapsto> b)" "as_records (co_store t) = (as_records (co_store st))(k \<mapsto> q)"
      "as_children (co_store t) = as_children (co_store st)" "co_node_types t \<subseteq>\<^sub>m co_node_types st" "co_cancelled st \<subseteq> co_cancelled t"
    and b: "sc_cancellation b = sc_cancellation a" "place q = place r" "scope_ok b q"
    and permits: "co_permits t + of_bool (sc_permit b) = co_permits st + of_bool (sc_permit a)"
  shows "coord_ok env n t" "steady st t"
proof -
  have place: "ar_parent_id q = ar_parent_id r" "ar_depth q = ar_depth r" using b(2) by (simp_all add: place_def)
  have tok: "token_ok t j s x" if "token_ok st j s' x'" "sc_cancellation s = sc_cancellation s'" "ar_parent_id x = ar_parent_id x'" "ar_depth x = ar_depth x'" for j s s' x x'
    using that t(1) a b(1) by (auto simp: token_ok_def split: option.splits)
  have "co_scopes t j = Some s \<Longrightarrow> as_records (co_store t) j = Some x \<Longrightarrow> scope_ok s x \<and> token_ok t j s x" for j s x
  proof (cases "j = k")
    case True
    moreover assume "co_scopes t j = Some s" "as_records (co_store t) j = Some x"
    ultimately show ?thesis using b(3) tok [of k a r b q] coord_okD(3) [OF ok a r] b(1) place t(1,2) by simp
  next
    case False
    moreover assume "co_scopes t j = Some s" "as_records (co_store t) j = Some x"
    ultimately show ?thesis using tok [of j s x s x] coord_okD(3) [OF ok, of j s x] t(1,2) by simp
  qed
  moreover have "co_permits t + card (holders t) = n"
  proof -
    have "card (holders t) + of_bool (sc_permit a) = card (holders st) + of_bool (sc_permit b)"
    proof -
      have k: "k \<in> holders st \<longleftrightarrow> sc_permit a" using a by (simp add: holders_def)
      then show ?thesis using finite_holders [OF ok] card_gt_0_iff [of "holders st"]
        by (cases "sc_permit a") (auto simp: holders_put [OF a t(1)] card_insert_if)
    qed
    then show ?thesis using permits coord_okD(4) [OF ok] by linarith
  qed
  moreover have "types_ok env t" by (rule types_ok_mono [OF coord_okD(5) [OF ok] t(4)]) (auto simp: t a)
  moreover have "as_records (co_store t) j = Some x \<Longrightarrow> ar_depth x \<le> depth_limit env" for j x
    using coord_okD(6) [OF ok] r t(2) place by (auto split: if_splits)
  moreover have "dom (co_scopes t) = dom (as_records (co_store t))" using coord_okD(2) [OF ok] a r t by auto
  moreover have "hierarchy_ok (co_store t)" by (rule records_put_hierarchy [OF coord_okD(1) [OF ok] r b(2) t(2,3)])
  ultimately show "coord_ok env n t" unfolding coord_ok_def by blast
  show "steady st t" using a r t b by (auto simp: steady_def)
qed

section \<open>Operations that keep the invariant\<close>

lemma settles_upd:
  assumes "\<And>st. co_store (f st) = co_store st" "\<And>st. co_scopes (f st) = co_scopes st" "\<And>st. co_permits (f st) = co_permits st"
    and "\<And>st. co_node_types (f st) \<subseteq>\<^sub>m co_node_types st" "\<And>st. co_cancelled st \<subseteq> co_cancelled (f st)"
  shows "obeys (settles_coord env) (upd f)"
  by (rule obeysI) (simp add: settles_coord_def keep_rest [OF _ assms])

lemma settles_fails [coord_rules]: "obeys (settles_coord env) (fails e)"
  unfolding fails_def by (rule sc.obeys_pure)

lemma snd_attempt [simp]: "snd (attempt m st) = snd (m st)"
  by (auto simp: attempt_def split: prod.split sum.split coord_stop.split)

lemma obeys_attempt [coord_rules]: "obeys R m \<Longrightarrow> obeys R (attempt m)"
  by (simp add: obeys_def)

lemma settles_groups [coord_rules]: "obeys (settles_coord env) (on_groups f)"
proof (rule obeysI)
  fix st show "settles_coord env st (snd (on_groups f st))"
  proof -
    have "\<exists>g. snd (on_groups f st) = st\<lparr>co_groups := g\<rparr>" by (auto simp: on_groups_def split: prod.split sum.split)
    then obtain g where g: "snd (on_groups f st) = st\<lparr>co_groups := g\<rparr>" ..
    show ?thesis unfolding settles_coord_def g by (intro allI impI conjI) (erule keep_rest; simp)+
  qed
qed

lemma settles_read_store [coord_rules]: "obeys (settles_coord env) (read_store f)"
  by (auto simp: obeys_def read_store_def on_store_def sc.R_refl split: sum.split)

lemma settles_generation [coord_rules]: "obeys (settles_coord env) (current_generation session)"
  unfolding current_generation_def by (rule sc.obeys_pure)

lemmas settles_steps = sc.obeys_rules settles_upd

lemma settles_record_mapped [coord_rules]: "obeys (settles_coord env) (record_mapped_child_result child terminal)"
  unfolding record_mapped_child_result_def by (intro settles_steps coord_rules) (auto simp: map_le_def)

text \<open>Replacing the state of one scope, and with it the record.\<close>

lemma settles_scope:
  assumes "\<And>s. sc_cancellation (f s) = sc_cancellation s \<and> sc_permit (f s) = sc_permit s \<and> sc_status (f s) = sc_status s \<and> sc_terminal (f s) = sc_terminal s"
  shows "obeys (settles_coord env) (upd (set_scope k f))"
proof (rule obeysI)
  fix st show "settles_coord env st (snd (upd (set_scope k f) st))"
  proof (cases "co_scopes st k")
    case None then show ?thesis by (simp add: set_scope_def fun_upd_idem sc.R_refl)
  next
    case (Some a)
    have "coord_ok env n (set_scope k f st) \<and> steady st (set_scope k f st) \<and> settled st (set_scope k f st)" if ok: "coord_ok env n st" for n
    proof -
      obtain r where r: "as_records (co_store st) k = Some r" "scope_ok a r" using coord_ok_record [OF ok Some] by blast
      have "scope_ok (f a) r" using r(2) assms by (simp add: scope_ok_def)
      then show ?thesis
        using put_scope_ok [OF ok Some r(1), of "set_scope k f st" "f a" r] Some r(1) assms
        by (auto simp: set_scope_def settled_def fun_upd_idem)
    qed
    then show ?thesis by (simp add: settles_coord_def)
  qed
qed

lemma settles_take_task [coord_rules]: "obeys (settles_coord env) (take_task child)"
  unfolding take_task_def by (intro settles_steps coord_rules settles_scope) auto

lemma settles_register_task [coord_rules]: "obeys (settles_coord env) (register_task child)"
  unfolding register_task_def by (intro settles_steps coord_rules settles_scope) auto

text \<open>The scope and the record of an agent with a new status.\<close>

definition with_status :: "agent_key \<Rightarrow> agent_lifecycle_status \<Rightarrow> coord \<Rightarrow> coord" where
  "with_status k status st = st\<lparr>co_scopes := (co_scopes st)(k := map_option (\<lambda>s. s\<lparr>sc_status := status\<rparr>) (co_scopes st k)),
     co_store := (co_store st)\<lparr>as_records := (as_records (co_store st))(k := map_option (\<lambda>r. r\<lparr>ar_status := status\<rparr>) (as_records (co_store st) k))\<rparr>\<rparr>"

lemma with_status_ok:
  assumes ok: "coord_ok env n st" and a: "co_scopes st k = Some a" and "\<not> is_terminal status"
  shows "coord_ok env n (with_status k status st)" "steady st (with_status k status st)"
    "\<not> is_terminal (sc_status a) \<Longrightarrow> settled st (with_status k status st)"
proof -
  obtain r where r: "as_records (co_store st) k = Some r" "scope_ok a r" using coord_ok_record [OF ok a] by blast
  have "scope_ok (a\<lparr>sc_status := status\<rparr>) (r\<lparr>ar_status := status\<rparr>)" using r(2) assms(3) by (simp add: scope_ok_def)
  then show "coord_ok env n (with_status k status st)" "steady st (with_status k status st)"
    using put_scope_ok [OF ok a r(1), of "with_status k status st" "a\<lparr>sc_status := status\<rparr>" "r\<lparr>ar_status := status\<rparr>"] a r
    by (simp_all add: with_status_def place_def)
  show "settled st (with_status k status st)" if "\<not> is_terminal (sc_status a)" using that a by (auto simp: settled_def with_status_def)
qed

lemma mark_status_run:
  assumes "coord_ok env n st" and "co_scopes st (key_of cx) = Some a"
  shows "mark_status cx status st = (Inr (), with_status (key_of cx) status st)"
proof -
  obtain r where "as_records (co_store st) (key_of cx) = Some r" using coord_ok_record [OF assms] by blast
  then show ?thesis
    using assms(2) by (simp add: mark_status_def on_store_def update_status_def update_agent_def set_scope_def with_status_def key_of_def)
qed

lemma transition_run:
  assumes "coord_ok env n st" and "co_scopes st (key_of cx) = Some a"
  shows "transition_status_if_current cx expected status st =
    (if sc_status a = expected then (Inr True, with_status (key_of cx) status st) else (Inr False, st))"
proof -
  obtain r where "as_records (co_store st) (key_of cx) = Some r" using coord_ok_record [OF assms] by blast
  then show ?thesis
    using assms(2) by (simp add: transition_status_if_current_def bnd_def on_store_def update_status_def update_agent_def set_scope_def with_status_def key_of_def)
qed

lemma keeps_transition [keeps_rules]:
  assumes "\<not> is_terminal status" shows "obeys (keeps_coord env) (transition_status_if_current cx expected status)"
proof (rule obeysI)
  fix st show "keeps_coord env st (snd (transition_status_if_current cx expected status st))"
  proof (cases "co_scopes st (key_of cx)")
    case None then show ?thesis by (simp add: transition_status_if_current_def kc.R_refl)
  next
    case (Some a) then show ?thesis
      using with_status_ok [OF _ Some assms] by (auto simp: keeps_coord_def transition_run)
  qed
qed

lemma settles_begin_cancel [coord_rules]: "obeys (settles_coord env) (begin_cancel scope)"
proof (rule obeysI)
  fix st show "settles_coord env st (snd (begin_cancel scope st))"
  proof (cases "co_scopes st (key_of scope)")
    case None then show ?thesis by (simp add: begin_cancel_def sc.R_refl)
  next
    case (Some a)
    then show ?thesis
      using with_status_ok [OF _ Some, of env _ AgentCancelling]
      by (auto simp: settles_coord_def begin_cancel_def bnd_def mark_status_run is_terminal_def [of AgentCancelling])
  qed
qed

lemma keeps_begin_waiting [keeps_rules]: "obeys (keeps_coord env) (begin_waiting caller)"
proof (rule obeysI)
  fix st show "keeps_coord env st (snd (begin_waiting caller st))"
  proof (cases "co_scopes st (key_of caller)")
    case None then show ?thesis by (simp add: begin_waiting_def kc.R_refl)
  next
    case (Some a)
    then show ?thesis
      using with_status_ok [OF _ Some, of env _ WaitingForChildren]
      by (auto simp: keeps_coord_def begin_waiting_def when_m_def mark_status_run is_terminal_def [of WaitingForChildren])
  qed
qed

lemma keeps_enter_finalizing [keeps_rules]: "obeys (keeps_coord env) (enter_finalizing caller)"
proof (rule obeysI)
  fix st show "keeps_coord env st (snd (enter_finalizing caller st))"
  proof (cases "co_scopes st (key_of caller)")
    case None then show ?thesis by (simp add: enter_finalizing_def kc.R_refl)
  next
    case (Some a)
    then show ?thesis
      using with_status_ok [OF _ Some, of env _ AgentFinalizing]
      by (auto simp: keeps_coord_def enter_finalizing_def mark_status_run is_terminal_def [of AgentFinalizing])
  qed
qed

text \<open>The scope and the record of an agent that ends.\<close>

definition ended :: "agent_key \<Rightarrow> child_terminal \<Rightarrow> coord \<Rightarrow> coord" where
  "ended k terminal st = st\<lparr>co_scopes := (co_scopes st)(k := map_option (end_scope terminal) (co_scopes st k)),
     co_permits := co_permits st + of_bool (k \<in> holders st),
     co_store := (co_store st)\<lparr>as_records := (as_records (co_store st))(k := map_option
       (\<lambda>r. r\<lparr>ar_status := to_status terminal, ar_summary := (case terminal_summary terminal of Some s \<Rightarrow> Some s | None \<Rightarrow> ar_summary r)\<rparr>)
       (as_records (co_store st) k))\<rparr>\<rparr>"

lemma to_status_terminal [simp]: "is_terminal (to_status terminal)"
  by (cases terminal) (simp_all add: is_terminal_def)

lemma ended_ok:
  assumes ok: "coord_ok env n st" and a: "co_scopes st k = Some a"
  shows "coord_ok env n (ended k terminal st)" "steady st (ended k terminal st)"
    "\<not> is_terminal (sc_status a) \<Longrightarrow> settled st (ended k terminal st)"
proof -
  obtain r where r: "as_records (co_store st) k = Some r" "scope_ok a r" using coord_ok_record [OF ok a] by blast
  let ?q = "r\<lparr>ar_status := to_status terminal, ar_summary := (case terminal_summary terminal of Some s \<Rightarrow> Some s | None \<Rightarrow> ar_summary r)\<rparr>"
  have "scope_ok (end_scope terminal a) ?q" by (simp add: scope_ok_def end_scope_def)
  then show "coord_ok env n (ended k terminal st)" "steady st (ended k terminal st)"
    using put_scope_ok [OF ok a r(1), of "ended k terminal st" "end_scope terminal a" ?q] a r
    by (simp_all add: ended_def place_def end_scope_def holders_def)
  show "settled st (ended k terminal st)" if "\<not> is_terminal (sc_status a)" using that a by (auto simp: settled_def ended_def)
qed

lemma finish_live:
  assumes ok: "coord_ok env n st" and a: "co_scopes st (key_of child) = Some a" "\<not> is_terminal (sc_status a)" and "\<not> is_root child"
  shows "finish_child child terminal st = record_mapped_child_result child terminal (ended (key_of child) terminal st)"
proof -
  obtain r where r: "as_records (co_store st) (key_of child) = Some r" using coord_ok_record [OF ok a(1)] by blast
  have "sc_permit a \<longleftrightarrow> key_of child \<in> holders st" using a(1) by (simp add: holders_def)
  moreover have "k\<lparr>co_scopes := x, co_permits := p, co_store := y\<rparr> = k\<lparr>co_scopes := x, co_store := y, co_permits := p\<rparr>" for k :: coord and x p y
    by simp
  ultimately show ?thesis using a r assms(4)
    by (cases "sc_permit a"; cases terminal)
      (simp_all add: finish_child_def claim_terminal_def bnd_def on_store_def update_status_def set_summary_def update_agent_def set_scope_def drop_permit_def ended_def
        key_of_def)
qed

lemma finish_ended:
  assumes "coord_ok env n st" and "co_scopes st (key_of child) = Some a" "is_terminal (sc_status a)" "\<not> is_root child"
  shows "finish_child child terminal st = record_mapped_child_result child (the (sc_terminal a)) st"
proof -
  obtain stored where "sc_terminal a = Some stored" using coord_ok_record [OF assms(1,2)] assms(3) by (auto simp: scope_ok_def)
  then show ?thesis using assms by (simp add: finish_child_def claim_terminal_def bnd_def)
qed

lemma finish_unknown:
  assumes "coord_ok env n st" and "co_scopes st (key_of child) = None" "\<not> is_root child"
  shows "snd (finish_child child terminal st) = st"
proof -
  have "as_records (co_store st) (key_of child) = None" using coord_okD(2) [OF assms(1)] assms(2) by (metis domIff)
  then show ?thesis using assms
    by (simp add: finish_child_def claim_terminal_def bnd_def on_store_def update_status_def update_agent_def key_of_def)
qed

lemma settles_finish [coord_rules]: "obeys (settles_coord env) (finish_child child terminal)"
proof (rule obeysI)
  fix st show "settles_coord env st (snd (finish_child child terminal st))"
  proof (cases "is_root child")
    case True then show ?thesis by (simp add: finish_child_def fails_def sc.R_refl)
  next
    case False
    note rec = settles_record_mapped [THEN obeysD, of env]
    have "coord_ok env n (snd (finish_child child terminal st)) \<and> steady st (snd (finish_child child terminal st)) \<and>
        settled st (snd (finish_child child terminal st))" if ok: "coord_ok env n st" for n
    proof (cases "co_scopes st (key_of child)")
      case None then show ?thesis using finish_unknown [OF ok None False] ok by simp
    next
      case (Some a)
      show ?thesis
      proof (cases "is_terminal (sc_status a)")
        case True
        then show ?thesis using finish_ended [OF ok Some True False] rec [of st child "the (sc_terminal a)"] ok by (simp add: settles_coord_def)
      next
        case live: False
        let ?u = "ended (key_of child) terminal st"
        note u = ended_ok [OF ok Some, of terminal]
        have "settles_coord env ?u (snd (finish_child child terminal st))" using finish_live [OF ok Some live False] rec [of ?u child terminal] by simp
        then have "coord_ok env n (snd (finish_child child terminal st))" "steady ?u (snd (finish_child child terminal st))"
            "settled ?u (snd (finish_child child terminal st))" using u(1) by (simp_all add: settles_coord_def)
        then show ?thesis using u(2,3) live by (blast intro: steady_trans settled_trans)
      qed
    qed
    then show ?thesis by (simp add: settles_coord_def)
  qed
qed

lemma settles_force_record [coord_rules]: "obeys (settles_coord env) (force_record_child_result child terminal)"
  unfolding force_record_child_result_def by (intro settles_steps coord_rules)

lemma settles_enlist [coord_rules]: "obeys (settles_coord env) (enlist_child caller child group_id)"
  unfolding enlist_child_def by (intro settles_steps coord_rules) auto

lemma settles_finished_by [coord_rules]: "obeys (settles_coord env) (finished_by child other)"
  unfolding finished_by_def by (intro settles_steps coord_rules)

lemma obeys_case_wait [coord_rules]:
  "(\<And>a b. obeys R (f a b)) \<Longrightarrow> (\<And>a. obeys R (g a)) \<Longrightarrow> (\<And>a. obeys R (h a)) \<Longrightarrow> obeys R i \<Longrightarrow>
   obeys R (case w of TaskReturns a b \<Rightarrow> f a b | TaskPanics a \<Rightarrow> g a | FinishedElsewhere a \<Rightarrow> h a | NeverEnds \<Rightarrow> i)"
  by (cases w) simp_all

lemma settles_stored [coord_rules]: "obeys (settles_coord env) (stored_terminal child)"
  unfolding stored_terminal_def by (rule sc.obeys_pure)

lemma settles_live_children [coord_rules]: "obeys (settles_coord env) (live_direct_children caller)"
  unfolding live_direct_children_def by (rule sc.obeys_pure)

lemma settles_await [coord_rules]: "obeys (settles_coord env) (await_child_terminal wenv child)"
  unfolding await_child_terminal_def wait_for_child_def by (intro settles_steps coord_rules)

lemma settles_join_child [coord_rules]: "obeys (settles_coord env) (join_child wenv caller child)"
  unfolding join_child_def by (intro settles_steps coord_rules)

lemma settles_join [coord_rules]: "obeys (settles_coord env) (join_children wenv caller)"
  unfolding join_children_def by (intro settles_steps coord_rules)

lemma settles_await_cancelled [coord_rules]: "obeys (settles_coord env) (await_cancelled_child wenv child)"
  unfolding await_cancelled_child_def by (intro settles_steps coord_rules)

lemma settles_cancel_descendants [coord_rules]: "obeys (settles_coord env) (cancel_descendants wenv fuel scope)"
  by (induction fuel arbitrary: scope) (auto intro!: settles_steps coord_rules simp: cancel_token_def)

lemma settles_cancel_scope [coord_rules]: "obeys (settles_coord env) (cancel_scope wenv fuel caller)"
  unfolding cancel_scope_def by (intro settles_steps coord_rules)

lemma settles_cancel_subtree [coord_rules]: "obeys (settles_coord env) (cancel_subtree wenv fuel caller target)"
  unfolding cancel_subtree_def by (intro settles_steps coord_rules)

lemma settles_cancel_each [coord_rules]: "obeys (settles_coord env) (cancel_each wenv fuel root children cancelled)"
  by (induction children arbitrary: cancelled) (auto intro!: settles_steps coord_rules split: sum.split agent_error.split)

lemma settles_cancel_root_children [coord_rules]: "obeys (settles_coord env) (cancel_root_children wenv fuel root)"
  unfolding cancel_root_children_def by (intro settles_steps coord_rules)

lemma settles_failfast [coord_rules]: "obeys (settles_coord env) (join_failfast wenv fuel caller children failed)"
  by (induction children arbitrary: failed) (auto intro!: settles_steps coord_rules)

lemma settles_join_failfast [coord_rules]: "obeys (settles_coord env) (join_children_failfast wenv fuel caller)"
  unfolding join_children_failfast_def by (intro settles_steps coord_rules)

lemma settles_owner_group [coord_rules]: "obeys (settles_coord env) (create_owner_group new_id owner origin deadline)"
  unfolding create_owner_group_def by (intro settles_steps coord_rules) auto

lemma settles_group_ops [coord_rules]:
  "obeys (settles_coord env) (create_root_task_group new_id root turn deadline)"
  "obeys (settles_coord env) (create_parent_task_group new_id owner deadline)"
  "obeys (settles_coord env) (claim_ready_root_group now root generation)"
  "obeys (settles_coord env) (coord_advance_generation session)"
  "obeys (settles_coord env) (coord_cancel_generation session generation)"
  "obeys (settles_coord env) (claim_owned_group caller joined)"
  unfolding create_root_task_group_def create_parent_task_group_def claim_ready_root_group_def coord_advance_generation_def
    coord_cancel_generation_def claim_owned_group_def
  by (intro settles_steps coord_rules; auto simp: remove_owner_group_def clean_generation_mappings_def Let_def)+

lemma settles_tables [coord_rules]:
  "obeys (settles_coord env) (issue_result_handle handle parent child generation)" "obeys (settles_coord env) (mark_fallback_used k)"
  unfolding issue_result_handle_def mark_fallback_used_def by (intro settles_steps coord_rules; simp)+

lemma settles_active [coord_rules]: "obeys (settles_coord env) (active_owner_status cx)"
  unfolding active_owner_status_def coord_status_def by (intro settles_steps coord_rules)

lemmas keeps_steps = kc.obeys_rules keeps_rules coord_rules [THEN settles_keeps]

lemma keeps_collect: "obeys (keeps_coord env) (collect_children_for_synthesis wenv caller)"
  unfolding collect_children_for_synthesis_def by (intro keeps_steps coord_rules) (simp_all add: is_terminal_def)

lemma keeps_begin_finalizing: "obeys (keeps_coord env) (begin_finalizing caller)"
  unfolding begin_finalizing_def by (intro keeps_steps coord_rules) (simp_all add: is_terminal_def)

lemma keeps_finalize: "obeys (keeps_coord env) (finalize_scope wenv fuel caller outcome policy)"
  unfolding finalize_scope_def by (intro keeps_steps)

section \<open>New agents\<close>

definition trusted :: "coord \<Rightarrow> agent_context \<Rightarrow> bool" where
  "trusted st cx \<longleftrightarrow> (\<exists>s r. co_scopes st (key_of cx) = Some s \<and> as_records (co_store st) (key_of cx) = Some r \<and>
     ar_parent_id r = cx_parent_id cx \<and> ar_depth r = cx_depth cx \<and> sc_cancellation s = cx_cancellation cx)"

lemma trusted_steady:
  assumes "steady st t" and "trusted st cx" shows "trusted t cx"
proof -
  from assms(2) obtain s r where "co_scopes st (key_of cx) = Some s" "as_records (co_store st) (key_of cx) = Some r"
    "ar_parent_id r = cx_parent_id cx" "ar_depth r = cx_depth cx" "sc_cancellation s = cx_cancellation cx" by (auto simp: trusted_def)
  moreover have "map_option place (as_records (co_store t) (key_of cx)) = map_option place (as_records (co_store st) (key_of cx))"
    "map_option sc_cancellation (co_scopes t (key_of cx)) = map_option sc_cancellation (co_scopes st (key_of cx))"
    using assms(1) unfolding steady_def by blast+
  ultimately show ?thesis by (auto simp: trusted_def place_def map_option_eq_Some)
qed

lemma inserted:
  "agent_insert r s = (Inr (), u) \<Longrightarrow> as_records s (ar_session_id r, ar_agent_id r) = None \<and>
     as_records u = (as_records s)((ar_session_id r, ar_agent_id r) \<mapsto> r) \<and>
     as_children u = (as_children s)((ar_session_id r, ar_parent_id r) := as_children s (ar_session_id r, ar_parent_id r) @ [ar_agent_id r])"
  by (auto simp: agent_insert_def Let_def split: if_splits)

lemma unrecorded_childless:
  assumes "hierarchy_ok s" and "as_records s (session, a) = None"
  shows "as_children s (session, Some a) = []"
proof -
  have "c \<notin> set (as_children s (session, Some a))" for c
    using hierarchyD(4) [OF assms(1), of c session "Some a"] hierarchyD(5) [OF assms(1), of session c _ a] assms(2) by auto
  then show ?thesis by (cases "as_children s (session, Some a)") auto
qed

text \<open>A new agent: a root of its own, or a child of a recorded agent that may spawn.\<close>

definition fits :: "coord_env \<Rightarrow> coord \<Rightarrow> agent_key \<Rightarrow> agent_record \<Rightarrow> scope_state \<Rightarrow> bool" where
  "fits env st k r b \<longleftrightarrow> k = (ar_session_id r, ar_agent_id r) \<and> ar_depth r \<le> depth_limit env \<and>
     \<not> is_terminal (sc_status b) \<and> \<not> is_terminal (ar_status r) \<and> sc_terminal b = None \<and> (sc_permit b \<longleftrightarrow> ar_parent_id r \<noteq> None) \<and>
     (case ar_parent_id r of
        None \<Rightarrow> ar_depth r = 0 \<and> sc_cancellation b = [k]
      | Some p \<Rightarrow> \<exists>sp q. co_scopes st (fst k, p) = Some sp \<and> as_records (co_store st) (fst k, p) = Some q \<and>
          ar_depth r = Suc (ar_depth q) \<and> sc_cancellation b = k # sc_cancellation sp \<and> (\<forall>ty. co_node_types st (fst k, p) = Some ty \<longrightarrow> may_spawn env ty))"

lemma add_types_ok:
  assumes ok: "coord_ok env n st" and fits: "fits env st k r b"
    and ins: "agent_insert r (co_store st) = (Inr (), co_store t)" and scopes: "co_scopes t = (co_scopes st)(k \<mapsto> b)"
    and types: "\<And>j ty. co_node_types t j = Some ty \<Longrightarrow> j = k \<or> co_node_types st j = Some ty"
  shows "types_ok env t"
  unfolding types_ok_def
proof (intro allI impI)
  fix j ty assume ty: "co_node_types t j = Some ty"
  have k: "k = (ar_session_id r, ar_agent_id r)" using fits by (simp add: fits_def)
  note new = inserted [OF ins, folded k]
  have idx: "as_children (co_store t) (fst i, Some (snd i)) =
      as_children (co_store st) (fst i, Some (snd i)) @ (if fst i = fst k \<and> ar_parent_id r = Some (snd i) then [snd k] else [])" for i
    using new k by auto
  show "j \<in> dom (co_scopes t) \<and> (may_spawn env ty \<or> as_children (co_store t) (fst j, Some (snd j)) = [])"
  proof (cases "j = k")
    case True
    moreover have "ar_parent_id r \<noteq> Some (snd k)" using fits new by (auto simp: fits_def)
    ultimately show ?thesis using unrecorded_childless [OF coord_okD(1) [OF ok], of "fst k" "snd k"] new scopes by (simp add: idx)
  next
    case False
    then have old: "co_node_types st j = Some ty" using types [OF ty] by simp
    then have "j \<in> dom (co_scopes st)" "may_spawn env ty \<or> as_children (co_store st) (fst j, Some (snd j)) = []"
      using coord_okD(5) [OF ok] unfolding types_ok_def by blast+
    moreover have "may_spawn env ty" if "fst j = fst k" "ar_parent_id r = Some (snd j)"
      using fits that old by (cases j) (auto simp: fits_def)
    ultimately show ?thesis by (auto simp: scopes idx)
  qed
qed

lemma add_agent_ok:
  assumes ok: "coord_ok env n st" and fits: "fits env st k r b"
    and ins: "agent_insert r (co_store st) = (Inr (), co_store t)" and scopes: "co_scopes t = (co_scopes st)(k \<mapsto> b)"
    and types: "\<And>j ty. co_node_types t j = Some ty \<Longrightarrow> j = k \<or> co_node_types st j = Some ty"
  shows "coord_ok env (co_permits t + card (holders st) + of_bool (sc_permit b)) t"
proof -
  have k: "k = (ar_session_id r, ar_agent_id r)" using fits by (simp add: fits_def)
  note new = inserted [OF ins, folded k]
  have none: "co_scopes st k = None" using new coord_okD(2) [OF ok] by (metis domIff)
  have hier: "hierarchy_ok (co_store t)"
    using insert_hierarchy [OF coord_okD(1) [OF ok] ins] fits by (fastforce simp: fits_def)
  have tok: "token_ok t j s x" if "token_ok st j s x" for j s x
    using that none by (auto simp: token_ok_def scopes split: option.splits)
  have "scope_ok s x \<and> token_ok t j s x" if "co_scopes t j = Some s" "as_records (co_store t) j = Some x" for j s x
  proof (cases "j = k")
    case True
    then have "s = b" "x = r" using that scopes new by auto
    moreover have "token_ok t k b r" using fits none by (auto simp: fits_def token_ok_def scopes split: option.splits)
    ultimately show ?thesis using fits True by (simp add: scope_ok_def fits_def)
  next
    case False then show ?thesis using that scopes new tok coord_okD(3) [OF ok] by simp
  qed
  moreover have "card (holders t) = card (holders st) + of_bool (sc_permit b)"
  proof -
    have "holders t = (if sc_permit b then insert k (holders st) else holders st)" "k \<notin> holders st"
      using none by (auto simp: holders_def scopes)
    then show ?thesis using finite_holders [OF ok] by simp
  qed
  moreover have "types_ok env t" by (rule add_types_ok [OF ok fits ins scopes types])
  moreover have "dom (co_scopes t) = dom (as_records (co_store t))" using coord_okD(2) [OF ok] new by (simp add: scopes)
  moreover have "as_records (co_store t) j = Some x \<Longrightarrow> ar_depth x \<le> depth_limit env" for j x
    using coord_okD(6) [OF ok] fits new by (auto simp: fits_def split: if_splits)
  ultimately show ?thesis unfolding coord_ok_def using hier by simp
qed

lemma trusted_add:
  assumes "coord_ok env n st" and "co_scopes st k = None" and "co_scopes t = (co_scopes st)(k \<mapsto> b)"
    and "as_records (co_store t) = (as_records (co_store st))(k \<mapsto> r)" and "trusted st cx"
  shows "trusted t cx" "key_of cx \<noteq> k"
proof -
  show "key_of cx \<noteq> k" using assms(2,5) by (auto simp: trusted_def)
  then show "trusted t cx" using assms(3-5) by (simp add: trusted_def)
qed

text \<open>A root that was not there before.\<close>

lemma ensure_root_run:
  assumes ok: "coord_ok env n st"
  shows "snd (ensure_root new_id session st) = st \<or>
    coord_ok env n (snd (ensure_root new_id session st)) \<and> (\<forall>cx. trusted st cx \<longrightarrow> trusted (snd (ensure_root new_id session st)) cx) \<and>
    co_node_types (snd (ensure_root new_id session st)) = co_node_types st"
proof (cases "co_scopes st (session, new_id)")
  case (Some s) then show ?thesis by (simp add: ensure_root_def context_root_def key_of_def fails_def Let_def)
next
  case None
  let ?t = "snd (ensure_root new_id session st)" and ?k = "(session, new_id)" and ?r = "new_agent_record session new_id None 0"
  have none: "as_records (co_store st) ?k = None" using None coord_okD(2) [OF ok] by (metis domIff)
  let ?b = "\<lparr>sc_status = AgentRunning, sc_cancellation = [?k], sc_task = False, sc_permit = False, sc_terminal = None\<rparr>"
  have t: "co_scopes ?t = (co_scopes st)(?k \<mapsto> ?b)" "co_node_types ?t = co_node_types st" "co_permits ?t = co_permits st"
      "agent_insert ?r (co_store st) = (Inr (), co_store ?t)"
    using None none by (simp_all add: ensure_root_def context_root_def key_of_def Let_def bnd_def on_store_def agent_insert_def add_scope_def new_agent_record_def)
  have "fits env st ?k ?r ?b" by (simp add: fits_def new_agent_record_def is_terminal_def)
  from add_agent_ok [OF ok this t(4,1)] have "coord_ok env n ?t" using t(2,3) coord_okD(4) [OF ok] by simp
  moreover have "as_records (co_store ?t) = (as_records (co_store st))(?k \<mapsto> ?r)" using inserted [OF t(4)] by (simp add: new_agent_record_def)
  ultimately show ?thesis using trusted_add(1) [OF ok None t(1)] t(2) by blast
qed

text \<open>What a passed check of a reservation means, and keeps meaning while it waits.\<close>

definition admissible :: "coord_env \<Rightarrow> coord \<Rightarrow> agent_context \<Rightarrow> bool" where
  "admissible env st caller \<longleftrightarrow> trusted st caller \<and> cx_depth caller < depth_limit env \<and>
     (\<forall>ty. co_node_types st (key_of caller) = Some ty \<longrightarrow> may_spawn env ty)"

lemma depth_limit_ge:
  assumes "registry_get (ae_registry env) t = Some c"
  shows "resolve_effective_max_depth (rb_max_depth (nc_budget c)) (ae_max_depth env) \<le> depth_limit env"
proof -
  have in_max: "x \<in> set xs \<Longrightarrow> x \<le> foldr max xs 0" for x :: nat and xs by (induction xs) auto
  have "t \<in> set canonical_order" by (cases t) (simp_all add: canonical_order_def)
  then show ?thesis unfolding depth_limit_def using assms by (intro in_max) (force simp: image_iff)
qed

lemma reserve_check_state [simp]: "snd (reserve_check env caller request st) = st"
  by (auto simp: reserve_check_def caller_contract_def bnd_def require_some_def fails_def Let_def split: option.split)

lemma reserve_check_admits:
  assumes "trusted st caller" and "reserve_check env caller request st = (Inr (), t)"
  shows "admissible env st caller"
proof -
  let ?ty = "case co_node_types st (key_of caller) of Some ty \<Rightarrow> ty | None \<Rightarrow> GeneralPurpose"
  obtain c where c: "registry_get (ae_registry env) ?ty = Some c" "can_spawn (nc_permissions c)"
      "cx_depth caller < resolve_effective_max_depth (rb_max_depth (nc_budget c)) (ae_max_depth env)"
    using assms(2) by (auto simp: reserve_check_def caller_contract_def bnd_def require_some_def fails_def Let_def split: option.splits if_splits)
  have "cx_depth caller < depth_limit env" using c(3) depth_limit_ge [OF c(1)] by simp
  then show ?thesis using assms(1) c(1,2) by (auto simp: admissible_def may_spawn_def)
qed

lemma admissible_steady: "steady st t \<Longrightarrow> admissible env st cx \<Longrightarrow> admissible env t cx"
  unfolding admissible_def using trusted_steady by (metis domI map_le_def steady_def)

lemma permits_ok:
  assumes "coord_ok env n st" and "t = st\<lparr>co_permits := p\<rparr>"
  shows "coord_ok env (p + card (holders st)) t"
proof -
  have "types_ok env t" by (rule types_ok_mono [OF coord_okD(5) [OF assms(1)]]) (simp_all add: assms(2))
  moreover have "co_scopes t = co_scopes st" by (simp add: assms(2))
  note same_scopes [OF this]
  ultimately show ?thesis using assms(1) unfolding coord_ok_def by (simp add: assms(2))
qed

text \<open>The context, record and scope of a committed child.\<close>

definition child_record :: "coord \<Rightarrow> string \<Rightarrow> agent_context \<Rightarrow> spawn_child_request \<Rightarrow> agent_record" where
  "child_record st new_id caller request =
     \<lparr>ar_session_id = cx_session_id caller, ar_agent_id = new_id, ar_parent_id = Some (cx_agent_id caller), ar_depth = Suc (cx_depth caller),
      ar_generation = tg_current_generation (co_groups st) (cx_session_id caller), ar_status = AgentPending, ar_label = sr_label request, ar_summary = None\<rparr>"

definition child_scope :: "string \<Rightarrow> agent_context \<Rightarrow> scope_state" where
  "child_scope new_id caller = \<lparr>sc_status = AgentRunning, sc_cancellation = (cx_session_id caller, new_id) # cx_cancellation caller,
     sc_task = False, sc_permit = True, sc_terminal = None\<rparr>"

lemma reserve_commit_fresh:
  assumes "as_records (co_store st) (cx_session_id caller, new_id) = None"
  defines "k \<equiv> (cx_session_id caller, new_id)"
  shows "\<exists>t. reserve_commit new_id caller request st = (Inr (context_child caller new_id), t) \<and>
    co_scopes t = (co_scopes st)(k \<mapsto> child_scope new_id caller) \<and> agent_insert (child_record st new_id caller request) (co_store st) = (Inr (), co_store t) \<and>
    co_node_types t = (co_node_types st)(k \<mapsto> sr_node_type request) \<and> co_permits t = co_permits st \<and> co_groups t = co_groups st \<and> co_cancelled t = co_cancelled st"
  using assms(1)
  by (simp add: reserve_commit_def context_child_def key_of_def Let_def bnd_def attempt_def on_store_def current_generation_def new_agent_record_def agent_insert_def
      add_scope_def set_scope_def record_child_node_type_def child_record_def child_scope_def k_def)

lemma reserve_commit_taken:
  assumes "as_records (co_store st) (cx_session_id caller, new_id) = Some r"
  shows "reserve_commit new_id caller request st = (Inl (Fails (Storage AgentAlreadyExists)), drop_permit st)"
  using assms by (simp add: reserve_commit_def context_child_def key_of_def Let_def bnd_def attempt_def on_store_def current_generation_def new_agent_record_def
      agent_insert_def fails_def drop_permit_def)

lemma reserve_commit_ok:
  assumes ok: "coord_ok env n st" and adm: "admissible env st caller"
  shows "coord_ok env (Suc n) (snd (reserve_commit new_id caller request st))"
    and "admissible env st cx \<Longrightarrow> admissible env (snd (reserve_commit new_id caller request st)) cx"
proof -
  let ?k = "(cx_session_id caller, new_id)" and ?t = "snd (reserve_commit new_id caller request st)"
  have "coord_ok env (Suc n) ?t \<and> (admissible env st cx \<longrightarrow> admissible env ?t cx)"
  proof (cases "as_records (co_store st) ?k")
    case (Some r)
    have t: "?t = st\<lparr>co_permits := co_permits st + 1\<rparr>" by (simp add: reserve_commit_taken [OF Some] drop_permit_def)
    then show ?thesis using permits_ok [OF ok t] coord_okD(4) [OF ok] by (simp add: admissible_def trusted_def)
  next
    case None
    from reserve_commit_fresh [OF None, of request] obtain t where t: "?t = t" "co_scopes t = (co_scopes st)(?k \<mapsto> child_scope new_id caller)"
        "agent_insert (child_record st new_id caller request) (co_store st) = (Inr (), co_store t)"
        "co_node_types t = (co_node_types st)(?k \<mapsto> sr_node_type request)" "co_permits t = co_permits st" by auto
    have fits: "fits env st ?k (child_record st new_id caller request) (child_scope new_id caller)"
      using adm by (auto simp: fits_def child_record_def child_scope_def is_terminal_def admissible_def trusted_def key_of_def)
    have "coord_ok env (Suc n) t"
      using add_agent_ok [OF ok fits t(3,2)] t(4,5) coord_okD(4) [OF ok] by (simp add: child_scope_def split: if_splits)
    moreover have "co_scopes st ?k = None" using None coord_okD(2) [OF ok] by (metis domIff)
    note add = trusted_add [OF ok this t(2)]
    have "as_records (co_store t) = (as_records (co_store st))(?k \<mapsto> child_record st new_id caller request)"
      using inserted [OF t(3)] by (simp add: child_record_def)
    from add [OF this] have "admissible env st cx \<longrightarrow> admissible env t cx" using t(4) by (simp add: admissible_def)
    ultimately show ?thesis using t(1) by simp
  qed
  then show "coord_ok env (Suc n) ?t" "admissible env st cx \<Longrightarrow> admissible env ?t cx" by blast+
qed

section \<open>Runs of the coordinator\<close>

text \<open>
  A run: roots and reservations, whose check, permit and commit are separate steps with anything in
  between, and every other operation on whatever context, with whatever way its waits end.
\<close>

inductive coord_op :: "coord_env \<Rightarrow> coord \<Rightarrow> coord \<Rightarrow> bool" for env where
  op_finish: "coord_op env st (snd (finish_child child terminal st))"
| op_force: "coord_op env st (snd (force_record_child_result child terminal st))"
| op_enlist: "coord_op env st (snd (enlist_child caller child group_id st))"
| op_register: "coord_op env st (snd (register_task child st))"
| op_root_group: "coord_op env st (snd (create_root_task_group new_id root turn deadline st))"
| op_parent_group: "coord_op env st (snd (create_parent_task_group new_id owner deadline st))"
| op_claim: "coord_op env st (snd (claim_ready_root_group now root generation st))"
| op_advance: "coord_op env st (snd (coord_advance_generation session st))"
| op_cancel_generation: "coord_op env st (snd (coord_cancel_generation session generation st))"
| op_begin_finalizing: "coord_op env st (snd (begin_finalizing caller st))"
| op_collect: "coord_op env st (snd (collect_children_for_synthesis (env\<lparr>ae_wait := w\<rparr>) caller st))"
| op_join: "coord_op env st (snd (join_children (env\<lparr>ae_wait := w\<rparr>) caller st))"
| op_finalize: "coord_op env st (snd (finalize_scope (env\<lparr>ae_wait := w\<rparr>) fuel caller outcome policy st))"
| op_cancel_scope: "coord_op env st (snd (cancel_scope (env\<lparr>ae_wait := w\<rparr>) fuel caller st))"
| op_cancel_subtree: "coord_op env st (snd (cancel_subtree (env\<lparr>ae_wait := w\<rparr>) fuel caller target st))"
| op_cancel_root: "coord_op env st (snd (cancel_root_children (env\<lparr>ae_wait := w\<rparr>) fuel root st))"
| op_handle: "coord_op env st (snd (issue_result_handle handle parent child generation st))"
| op_fallback: "coord_op env st (snd (mark_fallback_used name st))"

lemma coord_op_keeps: "coord_op env st t \<Longrightarrow> keeps_coord env st t"
  by (induction rule: coord_op.induct)
    (rule obeysD, (rule keeps_collect keeps_begin_finalizing keeps_finalize | rule settles_keeps, rule coord_rules))+

record coord_sys =
  cs_coord :: coord
  cs_admitted :: "(agent_context \<times> spawn_child_request) list"
  cs_granted :: "(agent_context \<times> spawn_child_request) list"

inductive coord_step :: "coord_env \<Rightarrow> coord_sys \<Rightarrow> coord_sys \<Rightarrow> bool" for env where
  step_root: "coord_step env s (s\<lparr>cs_coord := snd (ensure_root new_id session (cs_coord s))\<rparr>)"
| step_admit: "trusted (cs_coord s) caller \<Longrightarrow> reserve_check env caller request (cs_coord s) = (Inr (), t) \<Longrightarrow>
    coord_step env s (s\<lparr>cs_admitted := (caller, request) # cs_admitted s\<rparr>)"
| step_acquire: "e \<in> set (cs_admitted s) \<Longrightarrow> acquire_permit (cs_coord s) = (Inr (), t) \<Longrightarrow>
    coord_step env s (s\<lparr>cs_coord := t, cs_admitted := remove1 e (cs_admitted s), cs_granted := e # cs_granted s\<rparr>)"
| step_commit: "(caller, request) \<in> set (cs_granted s) \<Longrightarrow>
    coord_step env s (s\<lparr>cs_coord := snd (reserve_commit new_id caller request (cs_coord s)), cs_granted := remove1 (caller, request) (cs_granted s)\<rparr>)"
| step_give_up: "coord_step env s (s\<lparr>cs_admitted := remove1 e (cs_admitted s)\<rparr>)"
| step_drop: "e \<in> set (cs_granted s) \<Longrightarrow>
    coord_step env s (s\<lparr>cs_coord := drop_permit (cs_coord s), cs_granted := remove1 e (cs_granted s)\<rparr>)"
| step_op: "coord_op env (cs_coord s) t \<Longrightarrow> coord_step env s (s\<lparr>cs_coord := t\<rparr>)"

inductive coord_reachable :: "coord_env \<Rightarrow> nat \<Rightarrow> coord_sys \<Rightarrow> bool" for env limit where
  coord_start: "coord_reachable env limit \<lparr>cs_coord = new_coord limit, cs_admitted = [], cs_granted = []\<rparr>"
| coord_next: "coord_reachable env limit s \<Longrightarrow> coord_step env s t \<Longrightarrow> coord_reachable env limit t"

definition in_flight :: "coord_sys \<Rightarrow> agent_context set" where
  "in_flight s = fst ` (set (cs_admitted s) \<union> set (cs_granted s))"

definition sys_ok :: "coord_env \<Rightarrow> nat \<Rightarrow> coord_sys \<Rightarrow> bool" where
  "sys_ok env limit s \<longleftrightarrow> (\<exists>n. coord_ok env n (cs_coord s) \<and> n + length (cs_granted s) = limit) \<and> (\<forall>c \<in> in_flight s. admissible env (cs_coord s) c)"

lemma sys_okI:
  "coord_ok env n (cs_coord t) \<Longrightarrow> n + length (cs_granted t) = limit \<Longrightarrow> in_flight t \<subseteq> P \<Longrightarrow> \<forall>c \<in> P. admissible env st c \<Longrightarrow>
   (\<And>c. admissible env st c \<Longrightarrow> admissible env (cs_coord t) c) \<Longrightarrow> sys_ok env limit t"
  unfolding sys_ok_def by blast

lemma sys_okE:
  assumes "sys_ok env limit s"
  obtains n where "coord_ok env n (cs_coord s)" "n + length (cs_granted s) = limit" "\<forall>c \<in> in_flight s. admissible env (cs_coord s) c"
  using assms unfolding sys_ok_def by blast

lemma admissible_permits [simp]: "admissible env (st\<lparr>co_permits := p\<rparr>) c \<longleftrightarrow> admissible env st c"
  by (simp add: admissible_def trusted_def)

lemma in_flight_remove: "fst ` (set (remove1 e xs) \<union> set ys) \<subseteq> fst ` (set xs \<union> set ys)" "fst ` (set xs \<union> set (remove1 e ys)) \<subseteq> fst ` (set xs \<union> set ys)"
  using set_remove1_subset by fastforce+

lemma coord_step_ok:
  assumes step: "coord_step env s t" and "sys_ok env limit s" shows "sys_ok env limit t"
proof -
  from assms(2) obtain n where n: "coord_ok env n (cs_coord s)" "n + length (cs_granted s) = limit"
    "\<forall>c \<in> in_flight s. admissible env (cs_coord s) c" by (rule sys_okE)
  have less: "Suc n + length (remove1 e (cs_granted s)) = limit" if e: "e \<in> set (cs_granted s)" for e
  proof -
    obtain m where "length (cs_granted s) = Suc m" using e by (cases "cs_granted s") auto
    then show ?thesis using n(2) e by (simp add: length_remove1)
  qed
  from step show ?thesis
  proof (cases rule: coord_step.cases)
    case (step_root new_id session)
    have "coord_ok env n (cs_coord t)" "admissible env (cs_coord s) c \<Longrightarrow> admissible env (cs_coord t) c" for c
      using ensure_root_run [OF n(1), of new_id session] n(1) by (auto simp: step_root admissible_def)
    then show ?thesis using n by (intro sys_okI [OF _ _ subset_refl]) (simp_all add: step_root in_flight_def)
  next
    case (step_admit caller request u)
    then show ?thesis using n reserve_check_admits [OF step_admit(2,3)]
      by (intro sys_okI [where P = "insert caller (in_flight s)" and st = "cs_coord s"]) (auto simp: in_flight_def)
  next
    case (step_acquire e u)
    have u: "u = (cs_coord s)\<lparr>co_permits := co_permits (cs_coord s) - 1\<rparr>" "co_permits (cs_coord s) \<noteq> 0"
      using step_acquire(3) by (auto simp: acquire_permit_def split: if_splits)
    obtain m where "n = Suc m" "coord_ok env m u" using permits_ok [OF n(1) u(1)] coord_okD(4) [OF n(1)] u(2) by (cases "co_permits (cs_coord s)") auto
    moreover have "in_flight t \<subseteq> in_flight s" using step_acquire(2) set_remove1_subset by (fastforce simp: step_acquire(1) in_flight_def)
    ultimately show ?thesis using n(2) by (intro sys_okI [OF _ _ _ n(3)]) (simp_all add: step_acquire(1) u)
  next
    case (step_commit caller request new_id)
    have "caller \<in> in_flight s" using step_commit(2) by (force simp: in_flight_def)
    then show ?thesis using reserve_commit_ok [OF n(1), of caller] n(3) less [OF step_commit(2)]
      by (intro sys_okI [where n = "Suc n", OF _ _ _ n(3)]) (simp_all add: step_commit(1) in_flight_def in_flight_remove)
  next
    case (step_give_up e)
    then show ?thesis using n by (intro sys_okI [OF _ _ _ n(3)]) (simp_all add: in_flight_def in_flight_remove)
  next
    case (step_drop e)
    have "coord_ok env (Suc n) (drop_permit (cs_coord s))"
      using permits_ok [OF n(1) drop_permit_def] coord_okD(4) [OF n(1)] by simp
    then show ?thesis using less [OF step_drop(2)] by (intro sys_okI [where n = "Suc n", OF _ _ _ n(3)]) (simp_all add: step_drop(1) in_flight_def in_flight_remove drop_permit_def)
  next
    case (step_op u)
    have "coord_ok env n u" "steady (cs_coord s) u" using coord_op_keeps [OF step_op(2)] n(1) by (simp_all add: keeps_coord_def)
    then show ?thesis using n(2) admissible_steady by (intro sys_okI [OF _ _ _ n(3)]) (simp_all add: step_op(1) in_flight_def)
  qed
qed

lemma new_coord_ok: "coord_ok env n (new_coord n)"
  by (simp add: coord_ok_def new_coord_def hierarchy_empty holders_def types_ok_def) (simp add: empty_agent_store_def)

lemma coord_reachable_ok: "coord_reachable env limit s \<Longrightarrow> sys_ok env limit s"
proof (induction rule: coord_reachable.induct)
  case coord_start show ?case using new_coord_ok by (simp add: sys_ok_def in_flight_def)
qed (rule coord_step_ok)

section \<open>What every run keeps\<close>

text \<open>
  C23: In every reachable state of the coordinator the available permits, those held by scopes and
  those held by reservations on their way to commit add up to the configured limit; a spawned agent
  holds its permit exactly as long as it has no outcome, so no more than that many children run at
  once; and the scope of an agent and its record agree on whether it is terminal.
\<close>

theorem permits_accounted:
  assumes "coord_reachable env limit s"
  shows "co_permits (cs_coord s) + card {k. \<exists>a. co_scopes (cs_coord s) k = Some a \<and> sc_permit a} + length (cs_granted s) = limit \<and>
    dom (co_scopes (cs_coord s)) = dom (as_records (co_store (cs_coord s))) \<and>
    (\<forall>k a r. co_scopes (cs_coord s) k = Some a \<longrightarrow> as_records (co_store (cs_coord s)) k = Some r \<longrightarrow>
       (sc_permit a \<longleftrightarrow> ar_parent_id r \<noteq> None \<and> sc_terminal a = None) \<and>
       (is_terminal (sc_status a) \<longleftrightarrow> is_terminal (ar_status r)) \<and> (is_terminal (sc_status a) \<longrightarrow> sc_terminal a \<noteq> None))"
proof -
  from coord_reachable_ok [OF assms] obtain n where "coord_ok env n (cs_coord s)" "n + length (cs_granted s) = limit" by (rule sys_okE)
  note ok = this
  show ?thesis
  proof (intro conjI allI impI)
    show "co_permits (cs_coord s) + card {k. \<exists>a. co_scopes (cs_coord s) k = Some a \<and> sc_permit a} + length (cs_granted s) = limit"
      using coord_okD(4) [OF ok(1)] ok(2) by (simp add: holders_def)
    show "dom (co_scopes (cs_coord s)) = dom (as_records (co_store (cs_coord s)))" by (rule coord_okD(2) [OF ok(1)])
  qed (use coord_okD(3) [OF ok(1)] in \<open>auto simp: scope_ok_def\<close>)
qed

lemma builtin_depth_limit: "ae_registry env = builtin_registry l \<Longrightarrow> depth_limit env = ae_max_depth env"
  by (simp add: depth_limit_def canonical_order_def registry_get_def builtin_registry_def contract_defs default_resource_budget_def resolve_effective_max_depth_def)

text \<open>
  C26: Spawning stays within the contracts. In every reachable state the hierarchy is well-formed, no
  agent is deeper than the deepest limit of a registered role allows, which for the built-in
  contracts is the configured depth, and an agent recorded with a role that may not spawn has no
  children.
\<close>

theorem spawning_within_contracts:
  assumes "coord_reachable env limit s"
  shows "hierarchy_ok (co_store (cs_coord s)) \<and>
    (\<forall>k r. as_records (co_store (cs_coord s)) k = Some r \<longrightarrow>
       ar_depth r \<le> depth_limit env \<and> (\<forall>l. ae_registry env = builtin_registry l \<longrightarrow> ar_depth r \<le> ae_max_depth env)) \<and>
    (\<forall>session p a t. child_of (co_store (cs_coord s)) session p a \<longrightarrow> co_node_types (cs_coord s) (session, p) = Some t \<longrightarrow>
       (\<exists>c. registry_get (ae_registry env) t = Some c \<and> can_spawn (nc_permissions c)))"
proof -
  from coord_reachable_ok [OF assms] obtain n where ok: "coord_ok env n (cs_coord s)" by (rule sys_okE)
  have "\<exists>c. registry_get (ae_registry env) t = Some c \<and> can_spawn (nc_permissions c)"
    if a: "child_of (co_store (cs_coord s)) session p a" and t: "co_node_types (cs_coord s) (session, p) = Some t" for session p a t
  proof -
    have "as_children (co_store (cs_coord s)) (session, Some p) \<noteq> []" using children_iff [OF coord_okD(1) [OF ok], of a session p] a by auto
    then have "may_spawn env t" using coord_okD(5) [OF ok] t unfolding types_ok_def by force
    then show ?thesis by (auto simp: may_spawn_def split: option.splits)
  qed
  then show ?thesis using coord_okD(1,6) [OF ok] builtin_depth_limit by metis
qed

section \<open>An example\<close>

text \<open>One root and one child, with the built-in contracts, depth 2 and a single permit.\<close>

definition sample_env :: coord_env where
  "sample_env = \<lparr>ae_registry = builtin_registry default_subagent_limits, ae_max_depth = 2, ae_wait = (\<lambda>_. NeverEnds)\<rparr>"

definition sample_root :: coord where
  "sample_root = snd (ensure_root ''r'' ''s'' (new_coord 1))"

definition sample_request :: spawn_child_request where
  "sample_request = \<lparr>sr_label = ''look'', sr_node_type = Explore\<rparr>"

definition sample_sys :: coord_sys where
  "sample_sys = \<lparr>cs_coord = snd (reserve_commit ''c'' (context_root ''r'' ''s'') sample_request (sample_root\<lparr>co_permits := 0\<rparr>)),
     cs_admitted = [], cs_granted = []\<rparr>"

lemma sample_root_simps:
  "co_scopes sample_root = [(''s'', ''r'') \<mapsto> \<lparr>sc_status = AgentRunning, sc_cancellation = [(''s'', ''r'')], sc_task = False, sc_permit = False, sc_terminal = None\<rparr>]"
  "as_records (co_store sample_root) = [(''s'', ''r'') \<mapsto> new_agent_record ''s'' ''r'' None 0]"
  "as_children (co_store sample_root) = (\<lambda>_. [])((''s'', None) := [''r''])" "co_permits sample_root = 1" "co_node_types sample_root = Map.empty"
  "co_groups sample_root = empty_tg"
  by (simp_all add: sample_root_def ensure_root_def context_root_def key_of_def new_coord_def Let_def bnd_def on_store_def agent_insert_def empty_agent_store_def
      add_scope_def new_agent_record_def)

lemma sample_root_reachable: "coord_reachable sample_env 1 \<lparr>cs_coord = sample_root, cs_admitted = [], cs_granted = []\<rparr>"
  using coord_next [OF coord_start step_root, of sample_env 1 "''r''" "''s''"] by (simp add: sample_root_def)

lemma sample_root_trusted: "trusted sample_root (context_root ''r'' ''s'')"
  by (simp add: trusted_def sample_root_simps context_root_def key_of_def new_agent_record_def)

lemma sample_reachable: "coord_reachable sample_env 1 sample_sys"
proof -
  let ?r = "context_root ''r'' ''s''" and ?s = "\<lparr>cs_coord = sample_root, cs_admitted = [], cs_granted = []\<rparr>"
  note sample_root_reachable
  moreover have "coord_step sample_env ?s (?s\<lparr>cs_admitted := [(?r, sample_request)]\<rparr>)"
  proof -
    note sample_root_trusted
    moreover have "reserve_check sample_env ?r sample_request sample_root = (Inr (), sample_root)"
      by (simp add: reserve_check_def caller_contract_def bnd_def sample_root_simps sample_env_def registry_get_def builtin_registry_def contract_defs sample_request_def
          context_root_def key_of_def is_terminal_def resolve_effective_max_depth_def default_resource_budget_def)
    ultimately show ?thesis using step_admit [of ?s ?r sample_env sample_request sample_root] by simp
  qed
  ultimately have "coord_reachable sample_env 1 (?s\<lparr>cs_admitted := [(?r, sample_request)]\<rparr>)" by (rule coord_next)
  moreover have "coord_step sample_env (?s\<lparr>cs_admitted := [(?r, sample_request)]\<rparr>)
      (?s\<lparr>cs_coord := sample_root\<lparr>co_permits := 0\<rparr>, cs_granted := [(?r, sample_request)]\<rparr>)"
    using step_acquire [of "(?r, sample_request)" "?s\<lparr>cs_admitted := [(?r, sample_request)]\<rparr>" "sample_root\<lparr>co_permits := 0\<rparr>" sample_env]
    by (simp add: acquire_permit_def sample_root_simps)
  ultimately have "coord_reachable sample_env 1 (?s\<lparr>cs_coord := sample_root\<lparr>co_permits := 0\<rparr>, cs_granted := [(?r, sample_request)]\<rparr>)" by (rule coord_next)
  from coord_next [OF this step_commit [of ?r sample_request _ sample_env "''c''"]] show ?thesis by (simp add: sample_sys_def)
qed

lemma reachable_coord_ok: "coord_reachable env n \<lparr>cs_coord = st, cs_admitted = [], cs_granted = []\<rparr> \<Longrightarrow> coord_ok env n st"
  using coord_reachable_ok by (fastforce elim: sys_okE)

lemma sample_ok: "coord_ok sample_env 1 sample_root" "coord_ok sample_env 1 (cs_coord sample_sys)"
  using sample_root_reachable sample_reachable by (auto intro: reachable_coord_ok simp: sample_sys_def)

lemma sample_simps:
  "co_scopes (cs_coord sample_sys) = (co_scopes sample_root)((''s'', ''c'') \<mapsto> child_scope ''c'' (context_root ''r'' ''s''))"
  "as_records (co_store (cs_coord sample_sys)) = (as_records (co_store sample_root))((''s'', ''c'') \<mapsto> child_record sample_root ''c'' (context_root ''r'' ''s'') sample_request)"
  "as_children (co_store (cs_coord sample_sys)) = (as_children (co_store sample_root))((''s'', Some ''r'') := [''c''])"
  "co_child_groups (cs_coord sample_sys) = []"
proof -
  let ?r = "context_root ''r'' ''s''"
  have "as_records (co_store (sample_root\<lparr>co_permits := 0\<rparr>)) (cx_session_id ?r, ''c'') = None" by (simp add: sample_root_simps context_root_def)
  from reserve_commit_fresh [OF this, of sample_request]
  have c: "co_scopes (cs_coord sample_sys) = (co_scopes sample_root)((''s'', ''c'') \<mapsto> child_scope ''c'' ?r)"
      "agent_insert (child_record sample_root ''c'' ?r sample_request) (co_store sample_root) = (Inr (), co_store (cs_coord sample_sys))"
    by (auto simp: sample_sys_def context_root_def child_record_def)
  show "co_scopes (cs_coord sample_sys) = (co_scopes sample_root)((''s'', ''c'') \<mapsto> child_scope ''c'' ?r)" by (rule c(1))
  show "as_records (co_store (cs_coord sample_sys)) = (as_records (co_store sample_root))((''s'', ''c'') \<mapsto> child_record sample_root ''c'' ?r sample_request)"
    "as_children (co_store (cs_coord sample_sys)) = (as_children (co_store sample_root))((''s'', Some ''r'') := [''c''])"
    using inserted [OF c(2)] by (simp_all add: child_record_def context_root_def sample_root_simps)
  show "co_child_groups (cs_coord sample_sys) = []"
    by (simp add: sample_sys_def reserve_commit_def context_root_def context_child_def key_of_def Let_def bnd_def attempt_def on_store_def current_generation_def
        new_agent_record_def agent_insert_def add_scope_def set_scope_def record_child_node_type_def sample_root_simps)
      (simp add: sample_root_def ensure_root_def context_root_def key_of_def new_coord_def Let_def bnd_def on_store_def agent_insert_def empty_agent_store_def add_scope_def)
qed

theorem permits_accounted_witness:
  "co_permits (cs_coord sample_sys) + card {k. \<exists>a. co_scopes (cs_coord sample_sys) k = Some a \<and> sc_permit a} = 1"
  using permits_accounted [OF sample_reachable] by (simp add: sample_sys_def)

theorem spawning_within_contracts_witness:
  "child_of (co_store (cs_coord sample_sys)) ''s'' ''r'' ''c'' \<and> hierarchy_ok (co_store (cs_coord sample_sys))"
  using spawning_within_contracts [OF sample_reachable] by (simp add: child_of_def sample_simps child_record_def context_root_def)

end
