(* ===== verification/Agent_Scopes.thy ===== *)
theory Agent_Scopes
  imports Agent_Lifecycle
begin

text \<open>
  What the operations of the agent coordinator do: who may reserve a child and what it gets, that the
  first outcome of a child stands, that a parent is finalized only after its children, and that a
  cancelled subtree ends.
\<close>

section \<open>Reserving a child\<close>

definition admitted :: "coord_env \<Rightarrow> coord \<Rightarrow> agent_context \<Rightarrow> spawn_child_request \<Rightarrow> bool" where
  "admitted env st caller request \<longleftrightarrow>
     (\<exists>c s. registry_get (ae_registry env) (case co_node_types st (key_of caller) of Some t \<Rightarrow> t | None \<Rightarrow> GeneralPurpose) = Some c \<and>
        can_spawn (nc_permissions c) \<and> registry_get (ae_registry env) (sr_node_type request) \<noteq> None \<and>
        co_scopes st (key_of caller) = Some s \<and> sc_status s \<noteq> AgentCancelling \<and> \<not> is_terminal (sc_status s) \<and>
        cx_depth caller < resolve_effective_max_depth (rb_max_depth (nc_budget c)) (ae_max_depth env))"

lemma reserve_check_iff: "reserve_check env caller request st = (Inr (), st) \<longleftrightarrow> admitted env st caller request"
proof -
  let ?ty = "case co_node_types st (key_of caller) of Some t \<Rightarrow> t | None \<Rightarrow> GeneralPurpose"
  show ?thesis
    by (cases "registry_get (ae_registry env) ?ty"; cases "co_scopes st (key_of caller)")
      (simp_all add: reserve_check_def caller_contract_def admitted_def bnd_def fails_def Let_def not_le)
qed

lemma reserve_check_cases:
  obtains "admitted env st caller request" "reserve_check env caller request st = (Inr (), st)"
  | e where "\<not> admitted env st caller request" "reserve_check env caller request st = (Inl e, st)"
proof (cases "reserve_check env caller request st")
  case (Pair r t)
  then have "t = st" using reserve_check_state [of env caller request st] by simp
  then show thesis using Pair that reserve_check_iff [of env caller request st] by (cases r) auto
qed

text \<open>
  C25: Reserving a child under a fresh id. It succeeds exactly when the contract of the caller allows
  spawning, the requested role is registered, the caller is neither cancelling nor terminal and above
  its depth limit, and a permit is available. Then the child is recorded one level below the caller
  in its session, with the current generation; its scope runs, holds one permit and has a token below
  the caller's; and its role is remembered. Otherwise nothing changes.
\<close>

theorem reserve_child_correct:
  assumes ok: "coord_ok env n st" and caller: "trusted st caller" and fresh: "as_records (co_store st) (cx_session_id caller, new_id) = None"
  defines "k \<equiv> (cx_session_id caller, new_id)"
  shows "if admitted env st caller request \<and> 0 < co_permits st
    then \<exists>t. reserve_child env new_id caller request st = (Inr (context_child caller new_id), t) \<and> coord_ok env n t \<and>
      trusted t (context_child caller new_id) \<and> as_records (co_store t) = (as_records (co_store st))(k \<mapsto> child_record st new_id caller request) \<and>
      co_scopes t = (co_scopes st)(k \<mapsto> child_scope new_id caller) \<and> co_node_types t = (co_node_types st)(k \<mapsto> sr_node_type request) \<and>
      co_permits t + 1 = co_permits st
    else \<exists>e. reserve_child env new_id caller request st = (Inl e, st) \<and> (e = Waits \<or> \<not> admitted env st caller request)"
proof (cases "admitted env st caller request \<and> 0 < co_permits st")
  case False
  then show ?thesis
    by (cases rule: reserve_check_cases [of env st caller request]) (auto simp: reserve_child_def bnd_def acquire_permit_def)
next
  case True
  let ?u = "st\<lparr>co_permits := co_permits st - 1\<rparr>" and ?cx = "context_child caller new_id"
  have check: "reserve_check env caller request st = (Inr (), st)" using True reserve_check_iff by blast
  obtain p where p: "co_permits st = Suc p" using True by (cases "co_permits st") auto
  have u: "coord_ok env (n - 1) ?u" "Suc (n - 1) = n" using permits_ok [OF ok refl, of "co_permits st - 1"] coord_okD(4) [OF ok] p by auto
  have adm: "admissible env ?u caller" using reserve_check_admits [OF caller check] by simp
  obtain t where t: "reserve_commit new_id caller request ?u = (Inr ?cx, t)" "co_scopes t = (co_scopes st)(k \<mapsto> child_scope new_id caller)"
      "agent_insert (child_record ?u new_id caller request) (co_store ?u) = (Inr (), co_store t)"
      "co_node_types t = (co_node_types st)(k \<mapsto> sr_node_type request)" "co_permits t = co_permits ?u"
    using reserve_commit_fresh [of ?u caller new_id request] fresh by (auto simp: k_def)
  have run: "reserve_child env new_id caller request st = (Inr ?cx, t)"
    using check p t(1) by (simp add: reserve_child_def bnd_def acquire_permit_def)
  have recs: "as_records (co_store t) = (as_records (co_store st))(k \<mapsto> child_record st new_id caller request)"
    using inserted [OF t(3)] by (simp add: child_record_def k_def)
  moreover have "trusted t ?cx" by (simp add: trusted_def key_of_def context_child_def t(2) recs k_def [symmetric]) (simp add: k_def child_scope_def child_record_def)
  moreover have "coord_ok env n t" using reserve_commit_ok(1) [OF u(1) adm, of new_id request] t(1) u(2) by simp
  ultimately show ?thesis using True run t(2,4,5) p by simp
qed

section \<open>Ending a child\<close>

lemma record_mapped_frame:
  "co_scopes (snd (record_mapped_child_result child terminal st)) = co_scopes st" "co_store (snd (record_mapped_child_result child terminal st)) = co_store st"
  "co_permits (snd (record_mapped_child_result child terminal st)) = co_permits st" "co_cancelled (snd (record_mapped_child_result child terminal st)) = co_cancelled st"
  "co_node_types (snd (record_mapped_child_result child terminal st)) = (co_node_types st)(key_of child := None)"
  by (auto simp: record_mapped_child_result_def bnd_def attempt_def on_groups_def when_m_def split: option.split sum.split prod.split coord_stop.split)

text \<open>No group that a child is mapped to has expired, been claimed or been dropped.\<close>

definition groups_current :: "coord \<Rightarrow> bool" where
  "groups_current st \<longleftrightarrow> (\<forall>(k, i) \<in> set (co_child_groups st). \<exists>g. ensure_group_current (co_groups st) i = Inr g \<and>
     gp_lifecycle g = GroupActive \<and> snd k \<in> set (gp_child_ids g))"

lemma current_after_put:
  assumes "ensure_group_current st i = Inr g" and "ensure_group_current st j = Inr h"
    and "gp_session_id g' = gp_session_id g" "gp_generation g' = gp_generation g"
  shows "ensure_group_current (put_group i g' st) j = Inr (if j = i then g' else h)"
proof -
  have look: "map_of (map (\<lambda>(l, h). (l, if l = i then g' else h)) xs) j = map_option (\<lambda>h. if j = i then g' else h) (map_of xs j)" for xs :: "(string \<times> group_record) list"
    by (induction xs) auto
  show ?thesis using assms
    by (auto simp: ensure_group_current_def put_group_def look ensure_generation_def tg_current_generation_def Let_def result_bind_Inr_iff split: option.splits if_splits)
qed

lemma record_mapped_current:
  assumes "groups_current st"
  shows "\<exists>t. record_mapped_child_result child terminal st = (Inr (), t) \<and> groups_current t"
proof (cases "map_of (co_child_groups st) (key_of child)")
  case None
  then show ?thesis using assms by (simp add: record_mapped_child_result_def groups_current_def)
next
  case (Some i)
  let ?r = "child_result_from_terminal (cx_agent_id child) terminal"
  obtain g where g: "ensure_group_current (co_groups st) i = Inr g" "gp_lifecycle g = GroupActive" "cx_agent_id child \<in> set (gp_child_ids g)"
    using assms map_of_SomeD [OF Some] by (auto simp: groups_current_def key_of_def)
  have id: "rc_child_id ?r = cx_agent_id child" by (simp add: child_result_from_terminal_def sanitize_child_result_def split: child_terminal.split)
  let ?g' = "g\<lparr>gp_results := (cx_agent_id child, ?r) # gp_results g\<rparr>"
  show ?thesis
  proof (cases "map_of (gp_results g) (cx_agent_id child)")
    case (Some old)
    then show ?thesis using \<open>map_of (co_child_groups st) _ = _\<close> g id assms
      by (auto simp: record_mapped_child_result_def bnd_def attempt_def on_groups_def group_record_result_def when_m_def groups_current_def)
  next
    case None
    have "\<exists>h'. ensure_group_current (put_group i ?g' (co_groups st)) j = Inr h' \<and> gp_lifecycle h' = GroupActive \<and> snd k \<in> set (gp_child_ids h')"
      if kj: "(k, j) \<in> set (co_child_groups st)" for k j
    proof -
      obtain h where "ensure_group_current (co_groups st) j = Inr h" "gp_lifecycle h = GroupActive" "snd k \<in> set (gp_child_ids h)"
        using assms kj by (auto simp: groups_current_def)
      moreover from this g have "j = i \<Longrightarrow> h = g" by simp
      ultimately show ?thesis using current_after_put [OF g(1), of j h ?g'] by auto
    qed
    then show ?thesis using None Some g id
      by (auto simp: record_mapped_child_result_def bnd_def attempt_def on_groups_def group_record_result_def when_m_def groups_current_def)
  qed
qed

lemma record_mapped_delivers:
  assumes "map_of (co_child_groups st) (key_of child) = Some i" and "ensure_group_current (co_groups st) i = Inr g"
    and "gp_lifecycle g = GroupActive" "cx_agent_id child \<in> set (gp_child_ids g)" "map_of (gp_results g) (cx_agent_id child) = None"
  shows "\<exists>g'. ensure_group_current (co_groups (snd (record_mapped_child_result child terminal st))) i = Inr g' \<and>
    map_of (gp_results g') (cx_agent_id child) = Some (child_result_from_terminal (cx_agent_id child) terminal)"
proof -
  let ?r = "child_result_from_terminal (cx_agent_id child) terminal"
  have id: "rc_child_id ?r = cx_agent_id child" by (simp add: child_result_from_terminal_def sanitize_child_result_def split: child_terminal.split)
  have "co_groups (snd (record_mapped_child_result child terminal st)) = put_group i (g\<lparr>gp_results := (cx_agent_id child, ?r) # gp_results g\<rparr>) (co_groups st)"
    using assms id by (simp add: record_mapped_child_result_def bnd_def attempt_def on_groups_def group_record_result_def when_m_def)
  then show ?thesis using current_after_put [OF assms(2,2), of "g\<lparr>gp_results := (cx_agent_id child, ?r) # gp_results g\<rparr>"] by simp
qed

lemma finish_frame:
  fixes terminal :: child_terminal
  assumes ok: "coord_ok env n st" and a: "co_scopes st (key_of child) = Some a" "\<not> is_root child"
  defines "b \<equiv> if is_terminal (sc_status a) then a else end_scope terminal a"
  shows "co_scopes (snd (finish_child child terminal st)) = (co_scopes st)(key_of child \<mapsto> b)" "is_terminal (sc_status b)"
    "co_cancelled (snd (finish_child child terminal st)) = co_cancelled st"
proof -
  have "co_scopes (snd (finish_child child terminal st)) = (co_scopes st)(key_of child \<mapsto> b) \<and> co_cancelled (snd (finish_child child terminal st)) = co_cancelled st"
  proof (cases "is_terminal (sc_status a)")
    case True then show ?thesis using finish_ended [OF ok a(1) True a(2)] a(1) by (simp add: b_def record_mapped_frame fun_upd_idem)
  next
    case False then show ?thesis using finish_live [OF ok a(1) False a(2)] a(1) by (simp add: b_def record_mapped_frame ended_def)
  qed
  then show "co_scopes (snd (finish_child child terminal st)) = (co_scopes st)(key_of child \<mapsto> b)"
    "co_cancelled (snd (finish_child child terminal st)) = co_cancelled st" by blast+
  show "is_terminal (sc_status b)" by (simp add: b_def end_scope_def)
qed

lemma finish_current:
  assumes ok: "coord_ok env n st" and a: "co_scopes st (key_of child) = Some a" "\<not> is_root child" and cur: "groups_current st"
  shows "\<exists>t. finish_child child terminal st = (Inr (), t) \<and> groups_current t"
proof (cases "is_terminal (sc_status a)")
  case True then show ?thesis using finish_ended [OF ok a(1) True a(2)] record_mapped_current [OF cur] by simp
next
  case False
  have "groups_current (ended (key_of child) terminal st)" using cur by (simp add: groups_current_def ended_def)
  then show ?thesis using finish_live [OF ok a(1) False a(2)] record_mapped_current by simp
qed

text \<open>
  C27: The first outcome of a child stands. Finishing a child that has none records it in its scope and
  its record, gives back the permit it holds, forgets its role and, when it is mapped to an open group
  that lacks its result, leaves exactly its bounded result there. Finishing it again, with whatever
  outcome, changes neither scopes nor records nor permits.
\<close>

theorem first_outcome_stands:
  assumes ok: "coord_ok env n st" and a: "co_scopes st (key_of child) = Some a" "\<not> is_terminal (sc_status a)" "\<not> is_root child"
    and run: "finish_child child first st = (res, t)"
  shows "co_scopes t = (co_scopes st)(key_of child \<mapsto> end_scope first a) \<and> co_permits t = co_permits st + of_bool (sc_permit a) \<and>
    (\<exists>r. as_records (co_store t) (key_of child) = Some r \<and> ar_status r = to_status first) \<and> co_node_types t (key_of child) = None \<and>
    (\<forall>second u. snd (finish_child child second t) = u \<longrightarrow> co_scopes u = co_scopes t \<and> co_store u = co_store t \<and> co_permits u = co_permits t) \<and>
    (\<forall>i g. map_of (co_child_groups st) (key_of child) = Some i \<longrightarrow> ensure_group_current (co_groups st) i = Inr g \<longrightarrow> gp_lifecycle g = GroupActive \<longrightarrow>
       cx_agent_id child \<in> set (gp_child_ids g) \<longrightarrow> map_of (gp_results g) (cx_agent_id child) = None \<longrightarrow>
       (\<exists>g'. ensure_group_current (co_groups t) i = Inr g' \<and>
          map_of (gp_results g') (cx_agent_id child) = Some (child_result_from_terminal (cx_agent_id child) first)))"
proof -
  let ?u = "ended (key_of child) first st"
  have run': "record_mapped_child_result child first ?u = (res, t)" using finish_live [OF ok a] run by simp
  then have t: "co_scopes t = co_scopes ?u" "co_store t = co_store ?u" "co_permits t = co_permits ?u" "co_node_types t = (co_node_types ?u)(key_of child := None)"
    using record_mapped_frame [of child first ?u] by simp_all
  have scopes: "co_scopes t = (co_scopes st)(key_of child \<mapsto> end_scope first a)" using t(1) a(1) by (simp add: ended_def)
  have permits: "co_permits t = co_permits st + of_bool (sc_permit a)" using t(3) a(1) by (simp add: ended_def holders_def)
  have rec: "\<exists>r. as_records (co_store t) (key_of child) = Some r \<and> ar_status r = to_status first"
    using t(2) coord_ok_record [OF ok a(1)] by (auto simp: ended_def)
  have types: "co_node_types t (key_of child) = None" using t(4) by simp
  have ok': "coord_ok env n t" using obeysD [OF settles_finish, of env st child first] run ok by (simp add: settles_coord_def)
  have "finish_child child second t = record_mapped_child_result child first t" for second
    using finish_ended [OF ok', of child "end_scope first a"] scopes a(3) by (simp add: end_scope_def)
  then have again: "\<forall>second u. snd (finish_child child second t) = u \<longrightarrow> co_scopes u = co_scopes t \<and> co_store u = co_store t \<and> co_permits u = co_permits t"
    using record_mapped_frame [of child first t] by auto
  have delivered: "\<forall>i g. map_of (co_child_groups st) (key_of child) = Some i \<longrightarrow> ensure_group_current (co_groups st) i = Inr g \<longrightarrow> gp_lifecycle g = GroupActive \<longrightarrow>
       cx_agent_id child \<in> set (gp_child_ids g) \<longrightarrow> map_of (gp_results g) (cx_agent_id child) = None \<longrightarrow>
       (\<exists>g'. ensure_group_current (co_groups t) i = Inr g' \<and>
          map_of (gp_results g') (cx_agent_id child) = Some (child_result_from_terminal (cx_agent_id child) first))"
    using record_mapped_delivers [of ?u child _ _ first] run' by (simp add: ended_def)
  show ?thesis by (intro conjI) (fact scopes permits rec types again delivered)+
qed

section \<open>Joining and finalizing\<close>

definition over :: "coord \<Rightarrow> agent_key \<Rightarrow> bool" where
  "over st k \<longleftrightarrow> (\<exists>b. co_scopes st k = Some b \<and> is_terminal (sc_status b))"

lemma over_settled:
  assumes "settled s t" and "over s k" shows "over t k"
proof -
  from assms(2) obtain a where a: "co_scopes s k = Some a" "is_terminal (sc_status a)" by (auto simp: over_def)
  then obtain b where "co_scopes t k = Some b" "sc_status b = sc_status a" using assms(1) unfolding settled_def by blast
  then show ?thesis using a(2) by (simp add: over_def)
qed

lemma settles_run:
  assumes "obeys (settles_coord env) m" and "coord_ok env n st" and "m st = (r, t)"
  shows "coord_ok env n t" "steady st t" "settled st t"
  using obeysD [OF assms(1), of st] assms(2,3) by (simp_all add: settles_coord_def)

lemma steady_dom: "steady st t \<Longrightarrow> co_scopes st k = Some a \<Longrightarrow> \<exists>b. co_scopes t k = Some b"
  unfolding steady_def by (metis map_option_is_None not_None_eq)

lemma finish_over:
  assumes "coord_ok env n st" and "co_scopes st (key_of child) \<noteq> None" "\<not> is_root child"
  shows "over (snd (finish_child child terminal st)) (key_of child)"
proof -
  obtain a where a: "co_scopes st (key_of child) = Some a" using assms(2) by blast
  show ?thesis using finish_frame(1,2) [OF assms(1) a assms(3), of terminal] unfolding over_def by simp
qed

lemma stored_over: "stored_terminal child u = (Inr (Some x), v) \<Longrightarrow> v = u \<and> over u (key_of child)"
  by (auto simp: stored_terminal_def over_def split: option.splits if_splits)

lemma wait_over:
  assumes ok: "coord_ok env n st" and a: "co_scopes st (key_of child) \<noteq> None" "\<not> is_root child" and run: "wait_for_child wenv child task st = (Inr terminal, t)"
  shows "over t (key_of child)"
proof (cases "ae_wait wenv (key_of child)")
  case (TaskReturns other x)
  then obtain y v z where v: "finished_by child other st = (Inr y, v)" "finish_child child x v = (Inr z, t)"
    using run by (auto simp: wait_for_child_def bnd_Inr_iff split: if_splits)
  note u = settles_run [OF settles_finished_by ok v(1)]
  have "co_scopes v (key_of child) \<noteq> None" using steady_dom [OF u(2)] a(1) by fastforce
  from finish_over [OF u(1) this a(2), of x] show ?thesis using v(2) by simp
next
  case (FinishedElsewhere x)
  then obtain y v z w where "finished_by child (Some x) st = (Inr y, v)" "stored_terminal child v = (Inr z, w)" "require_some z Waits w = (Inr terminal, t)"
    using run by (auto simp: wait_for_child_def bnd_Inr_iff)
  then show ?thesis using stored_over [of child v terminal w] by (cases z) auto
qed (use run in \<open>auto simp: wait_for_child_def fails_def split: if_splits\<close>)

lemma await_over:
  assumes ok: "coord_ok env n st" and a: "co_scopes st (key_of child) \<noteq> None" "\<not> is_root child" and run: "await_child_terminal wenv child st = (Inr terminal, t)"
  shows "over t (key_of child)"
proof -
  from run obtain e u where e: "stored_terminal child st = (Inr e, u)"
      "(case e of Some terminal \<Rightarrow> ret terminal | None \<Rightarrow> bnd (take_task child) (wait_for_child wenv child)) u = (Inr terminal, t)"
    unfolding await_child_terminal_def by (rule bnd_InrE)
  show ?thesis
  proof (cases e)
    case (Some x) then show ?thesis using e stored_over [of child st x u] by simp
  next
    case None
    have "u = st" using e(1) by (simp add: stored_terminal_def)
    then obtain task v where v: "take_task child st = (Inr task, v)" "wait_for_child wenv child task v = (Inr terminal, t)"
      using e(2) None by (auto elim: bnd_InrE)
    note u = settles_run [OF settles_take_task ok v(1)]
    have "co_scopes v (key_of child) \<noteq> None" using steady_dom [OF u(2)] a(1) by fastforce
    then show ?thesis by (rule wait_over [OF u(1) _ a(2) v(2)])
  qed
qed

abbreviation record_key :: "agent_record \<Rightarrow> agent_key" where
  "record_key c \<equiv> (ar_session_id c, ar_agent_id c)"

lemma child_context_simps [simp]: "key_of (child_context st caller c) = record_key c" "\<not> is_root (child_context st caller c)"
  by (simp_all add: child_context_def key_of_def is_root_def)

lemma result_child_id [simp]: "rc_child_id (child_result_from_terminal a terminal) = a"
  by (simp add: child_result_from_terminal_def sanitize_child_result_def split: child_terminal.split)

lemma join_over:
  assumes "coord_ok env n st" and "\<forall>c \<in> set cs. co_scopes st (record_key c) \<noteq> None" and "map_each (join_child wenv caller) cs st = (Inr rs, t)"
  shows "map rc_child_id rs = map ar_agent_id cs \<and> (\<forall>c \<in> set cs. over t (record_key c))"
  using assms
proof (induction cs arbitrary: st rs)
  case (Cons c cs)
  from Cons.prems(3) obtain x u ys where x: "join_child wenv caller c st = (Inr x, u)" "map_each (join_child wenv caller) cs u = (Inr ys, t)" "rs = x # ys"
    by (auto simp: bnd_Inr_iff)
  note u = settles_run [OF settles_join_child Cons.prems(1) x(1)]
  have c: "over u (record_key c)" "rc_child_id x = ar_agent_id c"
    using await_over [OF Cons.prems(1), of "child_context st caller c" wenv _ u] x(1) Cons.prems(2) by (auto simp: join_child_def bnd_Inr_iff)
  have "settled u t" by (rule settles_run(3) [OF sc.obeys_map_each [OF settles_join_child] u(1) x(2)])
  moreover have "\<forall>c \<in> set cs. co_scopes u (record_key c) \<noteq> None" using Cons.prems(2) steady_dom [OF u(2)] by fastforce
  ultimately show ?case using Cons.IH [OF u(1) _ x(2)] x(3) over_settled c by auto
qed simp

lemma failfast_over:
  assumes "coord_ok env n st" and "\<forall>c \<in> set cs. co_scopes st (record_key c) \<noteq> None"
    and "join_failfast wenv fuel caller cs failed st = (Inr rs, t)"
  shows "map rc_child_id rs = map ar_agent_id cs \<and> (\<forall>c \<in> set cs. over t (record_key c))"
  using assms
proof (induction cs arbitrary: st rs failed)
  case (Cons c cs)
  let ?cx = "child_context st caller c"
  from Cons.prems(3) obtain v x u ys failed' y where x: "when_m failed (cancel_descendants wenv fuel ?cx) st = (Inr y, v)"
      "await_child_terminal wenv ?cx v = (Inr x, u)" "join_failfast wenv fuel caller cs failed' u = (Inr ys, t)"
      "rs = child_result_from_terminal (ar_agent_id c) x # ys"
    by (auto simp: bnd_Inr_iff)
  note v = settles_run [OF sc.obeys_when [OF settles_cancel_descendants] Cons.prems(1) x(1)]
  note u = settles_run [OF settles_await v(1) x(2)]
  have "co_scopes v (record_key c) \<noteq> None" using Cons.prems(2) steady_dom [OF v(2)] by fastforce
  then have "over u (record_key c)" using await_over [OF v(1) _ _ x(2)] by simp
  moreover have "settled u t" by (rule settles_run(3) [OF settles_failfast u(1) x(3)])
  moreover have "\<forall>c \<in> set cs. co_scopes u (record_key c) \<noteq> None"
    using Cons.prems(2) steady_dom [OF steady_trans [OF v(2) u(2)]] by fastforce
  ultimately show ?case using Cons.IH [OF u(1) _ x(3)] x(4) over_settled by auto
qed simp

lemma direct_children_iff:
  "hierarchy_ok st \<Longrightarrow> r \<in> set (direct_children st s p) \<longleftrightarrow> as_records st (s, ar_agent_id r) = Some r \<and> ar_parent_id r = Some p"
  by (simp add: direct_children_def records_of_children)

lemma direct_children_scoped:
  assumes "coord_ok env n st"
  shows "\<forall>c \<in> set (direct_children (co_store st) s p). co_scopes st (record_key c) \<noteq> None \<and> ar_session_id c = s"
proof
  fix c assume "c \<in> set (direct_children (co_store st) s p)"
  then have c: "as_records (co_store st) (s, ar_agent_id c) = Some c" using direct_children_iff [OF coord_okD(1) [OF assms]] by blast
  then have "ar_session_id c = s" using hierarchyD(2) [OF coord_okD(1) [OF assms]] by blast
  moreover have "(s, ar_agent_id c) \<in> dom (co_scopes st)" using c coord_okD(2) [OF assms] by blast
  ultimately show "co_scopes st (record_key c) \<noteq> None \<and> ar_session_id c = s" by auto
qed

lemma child_of_alt: "child_of st s p a \<longleftrightarrow> map_option ar_parent_id (as_records st (s, a)) = Some (Some p)"
  by (auto simp: child_of_def)

lemma steady_parents: "steady st t \<Longrightarrow> map_option ar_parent_id (as_records (co_store t) k) = map_option ar_parent_id (as_records (co_store st) k)"
proof -
  assume "steady st t"
  then have "map_option (fst \<circ> snd \<circ> snd) (map_option place (as_records (co_store t) k)) = map_option (fst \<circ> snd \<circ> snd) (map_option place (as_records (co_store st) k))"
    unfolding steady_def by (simp only:)
  then show ?thesis by (simp add: place_def comp_def option.map_comp)
qed

lemma steady_child_of: "steady st t \<Longrightarrow> child_of (co_store t) = child_of (co_store st)"
  by (intro ext) (simp add: child_of_alt steady_parents)

lemma map_sort_key: "map f (sort_key f xs) = sort (map f xs)"
  by (rule properties_for_sort [symmetric]) simp_all

lemma steady_ids:
  assumes "steady st t"
  shows "map ar_agent_id (direct_children (co_store t) s p) = map ar_agent_id (direct_children (co_store st) s p)"
proof -
  have id: "map_option ar_agent_id (as_records (co_store t) k) = map_option ar_agent_id (as_records (co_store st) k)" for k
  proof -
    have "map_option (fst \<circ> snd) (map_option place (as_records (co_store t) k)) = map_option (fst \<circ> snd) (map_option place (as_records (co_store st) k))"
      using assms unfolding steady_def by (simp only:)
    then show ?thesis by (simp add: place_def comp_def option.map_comp)
  qed
  have "map ar_agent_id (records_of (co_store u) s ids) = List.map_filter (\<lambda>i. map_option ar_agent_id (as_records (co_store u) (s, i))) ids" for u :: coord and ids
    unfolding records_of_def by (induction ids) (auto simp: List.map_filter_simps split: option.split)
  then show ?thesis using assms by (simp add: direct_children_def map_sort_key id steady_def)
qed

lemma joined_over:
  assumes ok: "coord_ok env n st"
    and run: "(if policy = FailFast then join_children_failfast wenv fuel caller else join_children wenv caller) st = (Inr rs, t)"
  shows "map rc_child_id rs = map ar_agent_id (direct_children (co_store st) (cx_session_id caller) (cx_agent_id caller))"
    "child_of (co_store st) (cx_session_id caller) (cx_agent_id caller) a \<Longrightarrow> over t (cx_session_id caller, a)"
    "coord_ok env n t" "steady st t" "settled st t"
proof -
  let ?s = "cx_session_id caller"
  let ?cs = "direct_children (co_store st) ?s (cx_agent_id caller)"
  have scoped: "\<forall>c \<in> set ?cs. co_scopes st (record_key c) \<noteq> None" using direct_children_scoped [OF ok] by blast
  have all: "map rc_child_id rs = map ar_agent_id ?cs \<and> (\<forall>c \<in> set ?cs. over t (record_key c))"
  proof (cases "policy = FailFast")
    case True
    then show ?thesis using failfast_over [OF ok scoped, of wenv fuel caller False rs t] run by (simp add: join_children_failfast_def)
  next
    case False
    then show ?thesis using join_over [OF ok scoped, of wenv caller rs t] run by (simp add: join_children_def)
  qed
  then show "map rc_child_id rs = map ar_agent_id ?cs" by blast
  show "over t (?s, a)" if "child_of (co_store st) ?s (cx_agent_id caller) a"
  proof -
    from that obtain r where r: "as_records (co_store st) (?s, a) = Some r" "ar_parent_id r = Some (cx_agent_id caller)" by (auto simp: child_of_def)
    then have "ar_agent_id r = a" "ar_session_id r = ?s" using hierarchyD(2) [OF coord_okD(1) [OF ok]] by blast+
    then show ?thesis using all r direct_children_iff [OF coord_okD(1) [OF ok], of r ?s "cx_agent_id caller"] by auto
  qed
  have "obeys (settles_coord env) (if policy = FailFast then join_children_failfast wenv fuel caller else join_children wenv caller)"
    by (intro settles_steps coord_rules)
  from settles_run [OF this ok run] show "coord_ok env n t" "steady st t" "settled st t" by blast+
qed


section \<open>Examples\<close>

theorem reserve_child_correct_witness:
  "\<exists>t. reserve_child sample_env ''c'' (context_root ''r'' ''s'') sample_request sample_root = (Inr (context_child (context_root ''r'' ''s'') ''c''), t) \<and>
    co_permits t + 1 = co_permits sample_root"
proof -
  have "as_records (co_store sample_root) (cx_session_id (context_root ''r'' ''s''), ''c'') = None" by (simp add: sample_root_simps context_root_def)
  moreover have "admitted sample_env sample_root (context_root ''r'' ''s'') sample_request"
    by (simp add: admitted_def sample_root_simps sample_env_def registry_get_def builtin_registry_def contract_defs sample_request_def
        context_root_def key_of_def is_terminal_def resolve_effective_max_depth_def default_resource_budget_def)
  ultimately show ?thesis
    using reserve_child_correct [OF sample_ok(1) sample_root_trusted, of "''c''" sample_request] by (auto simp: sample_root_simps)
qed

lemma sample_child:
  "key_of (context_child (context_root ''r'' ''s'') ''c'') = (''s'', ''c'')" "\<not> is_root (context_child (context_root ''r'' ''s'') ''c'')"
  "trusted (cs_coord sample_sys) (context_child (context_root ''r'' ''s'') ''c'')" "groups_current (cs_coord sample_sys)"
  "co_scopes (cs_coord sample_sys) (''s'', ''c'') = Some (child_scope ''c'' (context_root ''r'' ''s''))"
  by (simp_all add: key_of_def is_root_def trusted_def groups_current_def sample_simps child_scope_def child_record_def context_child_def context_root_def)

theorem first_outcome_stands_witness:
  "co_permits (snd (finish_child (context_child (context_root ''r'' ''s'') ''c'') (TerminalCompleted ''ok'') (cs_coord sample_sys))) =
     co_permits (cs_coord sample_sys) + 1"
proof -
  let ?cx = "context_child (context_root ''r'' ''s'') ''c''"
  obtain res t where run: "finish_child ?cx (TerminalCompleted ''ok'') (cs_coord sample_sys) = (res, t)" by fastforce
  have a: "co_scopes (cs_coord sample_sys) (key_of ?cx) = Some (child_scope ''c'' (context_root ''r'' ''s''))"
      "\<not> is_terminal (sc_status (child_scope ''c'' (context_root ''r'' ''s'')))"
    using sample_child(1,5) by (simp_all add: child_scope_def is_terminal_def)
  note stands = first_outcome_stands [OF sample_ok(2) a sample_child(2) run]
  show ?thesis using stands [THEN conjunct2, THEN conjunct1] by (simp add: run child_scope_def)
qed


end
