(* ===== verification/Agent_Cancel.thy ===== *)
theory Agent_Cancel
  imports Agent_Scopes
begin

text \<open>
  Cancelling a subtree of agents: the recursion of \<open>cancel_descendants\<close> ends, and every agent it
  reaches through live agents is terminal afterwards.
\<close>

section \<open>What a step may touch\<close>

definition frame :: "agent_key set \<Rightarrow> coord \<Rightarrow> coord \<Rightarrow> bool" where
  "frame K s t \<longleftrightarrow> (\<forall>k. k \<notin> K \<longrightarrow> co_scopes t k = co_scopes s k)"

lemma frame_refl [simp]: "frame K s s"
  by (simp add: frame_def)

lemma frame_trans: "frame K s t \<Longrightarrow> frame L t u \<Longrightarrow> frame (K \<union> L) s u"
  by (simp add: frame_def)

lemma frame_mono: "frame K s t \<Longrightarrow> K \<subseteq> L \<Longrightarrow> frame L s t"
  by (auto simp: frame_def)

text \<open>A state from which the children can be finished without an error.\<close>

definition calm :: "coord_env \<Rightarrow> bool" where
  "calm env \<longleftrightarrow> (\<forall>k m. ae_wait env k \<noteq> TaskPanics m)"

definition sound :: "coord_env \<Rightarrow> nat \<Rightarrow> coord \<Rightarrow> bool" where
  "sound env n st \<longleftrightarrow> coord_ok env n st \<and> groups_current st"

text \<open>One successful step that touches only the scopes \<open>K\<close>.\<close>

definition goes :: "coord_env \<Rightarrow> nat \<Rightarrow> agent_key set \<Rightarrow> coord \<Rightarrow> coord \<Rightarrow> bool" where
  "goes env n K st t \<longleftrightarrow> sound env n t \<and> steady st t \<and> settled st t \<and> frame K st t"

lemma goes_trans: "goes env n K s t \<Longrightarrow> goes env n L t u \<Longrightarrow> goes env n (K \<union> L) s u"
  unfolding goes_def by (blast intro: steady_trans settled_trans frame_trans)

lemma goes_mono: "goes env n K s t \<Longrightarrow> K \<subseteq> L \<Longrightarrow> goes env n L s t"
  unfolding goes_def by (blast intro: frame_mono)

lemma goesD:
  assumes "goes env n K s t" shows "sound env n t" "coord_ok env n t" "groups_current t" "steady s t" "settled s t" "frame K s t"
  using assms by (simp_all add: goes_def sound_def)

lemma goesI:
  assumes "obeys (settles_coord env) m" and "sound env n st" and "m st = (r, t)" and "groups_current t" and "frame K st t"
  shows "goes env n K st t"
  using settles_run [OF assms(1) _ assms(3), of n] assms(2,4,5) by (simp add: goes_def sound_def)

lemma goes_dom: "goes env n K s t \<Longrightarrow> co_scopes s k \<noteq> None \<Longrightarrow> co_scopes t k \<noteq> None"
  using steady_dom [of s t k] goesD(4) by fastforce

lemma goes_refl: "sound env n s \<Longrightarrow> goes env n K s s"
  by (simp add: goes_def)

section \<open>Waiting for one child\<close>

lemma finish_goes:
  assumes s: "sound env n st" and child: "co_scopes st (key_of child) \<noteq> None" "\<not> is_root child"
  shows "\<exists>t. finish_child child terminal st = (Inr (), t) \<and> goes env n {key_of child} st t \<and> over t (key_of child) \<and> co_cancelled t = co_cancelled st"
proof -
  obtain a where a: "co_scopes st (key_of child) = Some a" using child(1) by blast
  have ok: "coord_ok env n st" "groups_current st" using s by (simp_all add: sound_def)
  from finish_current [OF ok(1) a child(2) ok(2), of terminal] obtain t where t: "finish_child child terminal st = (Inr (), t)" "groups_current t" by blast
  have "frame {key_of child} st t" using finish_frame(1) [OF ok(1) a child(2), of terminal] t(1) by (simp add: frame_def)
  then have "goes env n {key_of child} st t" by (rule goesI [OF settles_finish s t])
  moreover have "over t (key_of child)" using finish_over [OF ok(1) child, of terminal] t(1) by simp
  moreover have "co_cancelled t = co_cancelled st" using finish_frame(3) [OF ok(1) a child(2), of terminal] t(1) by simp
  ultimately show ?thesis using t(1) by blast
qed

lemma finished_by_goes:
  assumes s: "sound env n st" and child: "co_scopes st (key_of child) \<noteq> None" "\<not> is_root child"
  shows "\<exists>t. finished_by child other st = (Inr (), t) \<and> goes env n {key_of child} st t \<and> co_cancelled t = co_cancelled st"
proof (cases other)
  case None then show ?thesis using goes_refl [OF s] by (simp add: finished_by_def)
next
  case (Some terminal)
  then show ?thesis using finish_goes [OF assms, of terminal] by (auto simp: finished_by_def bnd_def attempt_def)
qed

lemma take_task_goes:
  assumes "sound env n st"
  shows "\<exists>task t. take_task child st = (Inr task, t) \<and> goes env n {key_of child} st t \<and> co_cancelled t = co_cancelled st"
proof -
  let ?t = "set_scope (key_of child) (\<lambda>s. s\<lparr>sc_task := False\<rparr>) st"
  obtain task where run: "take_task child st = (Inr task, ?t)" by (simp add: take_task_def)
  have "goes env n {key_of child} st ?t"
    by (rule goesI [OF settles_take_task assms run]) (use assms in \<open>auto simp: sound_def groups_current_def set_scope_def frame_def\<close>)
  then show ?thesis using run by (simp add: set_scope_def)
qed

lemma await_cancelled_goes:
  assumes calm: "calm env" and s: "sound env n st" and child: "co_scopes st (key_of child) \<noteq> None" "\<not> is_root child"
  shows "\<exists>t. await_cancelled_child env child st = (Inr (), t) \<and> goes env n {key_of child} st t \<and> over t (key_of child) \<and> co_cancelled t = co_cancelled st"
proof (cases "over st (key_of child)")
  case True
  then show ?thesis using goes_refl [OF s] by (auto simp: await_cancelled_child_def over_def)
next
  case False
  let ?K = "{key_of child}"
  obtain task u where u: "take_task child st = (Inr task, u)" "goes env n ?K st u" "co_cancelled u = co_cancelled st"
    using take_task_goes [OF s] by blast
  have finish: "\<exists>t. finish_child child terminal v = (Inr (), t) \<and> goes env n ?K st t \<and> over t (key_of child) \<and> co_cancelled t = co_cancelled st"
    if v: "goes env n ?K st v" "co_cancelled v = co_cancelled st" for terminal v
    using finish_goes [OF goesD(1) [OF v(1)] goes_dom [OF v(1) child(1)] child(2), of terminal] goes_trans [OF v(1), of ?K] v(2) by fastforce
  have other: "\<exists>t. bnd (finished_by child other) (\<lambda>_. finish_child child terminal) u = (Inr (), t) \<and> goes env n ?K st t \<and> over t (key_of child) \<and>
      co_cancelled t = co_cancelled st" for other terminal
  proof -
    obtain v where "finished_by child other u = (Inr (), v)" "goes env n ?K u v" "co_cancelled v = co_cancelled u"
      using finished_by_goes [OF goesD(1) [OF u(2)] goes_dom [OF u(2) child(1)] child(2)] by blast
    then show ?thesis using finish [of v terminal] goes_trans [OF u(2), of ?K v] u(3) by (simp add: bnd_def)
  qed
  have "await_cancelled_child env child st = (if \<not> task then finish_child child TerminalCancelled
       else case ae_wait env (key_of child) of
         TaskReturns other terminal \<Rightarrow> bnd (finished_by child other) (\<lambda>_. finish_child child terminal)
       | TaskPanics message \<Rightarrow> fails (JoinFailed message)
       | FinishedElsewhere terminal \<Rightarrow> bnd (finished_by child (Some terminal)) (\<lambda>_. finish_child child TerminalCancelled)
       | NeverEnds \<Rightarrow> finish_child child TerminalCancelled) u"
    using False u(1) by (auto simp: await_cancelled_child_def over_def bnd_def split: option.splits)
  moreover have "ae_wait env (key_of child) \<noteq> TaskPanics m" for m using calm unfolding calm_def by blast
  ultimately show ?thesis using finish [OF u(2,3)] other by (cases "ae_wait env (key_of child)") auto
qed

section \<open>The recursion\<close>

definition below :: "coord \<Rightarrow> string \<Rightarrow> string \<Rightarrow> agent_key set" where
  "below st s a = Pair s ` {b. (child_of (co_store st) s)\<^sup>*\<^sup>* a b}"

definition live_child :: "coord \<Rightarrow> string \<Rightarrow> string \<Rightarrow> string \<Rightarrow> bool" where
  "live_child st s p a \<longleftrightarrow> child_of (co_store st) s p a \<and> (\<exists>x. co_scopes st (s, a) = Some x \<and> is_live (sc_status x))"

lemma live_path_below: "(live_child st s)\<^sup>+\<^sup>+ a b \<Longrightarrow> (child_of (co_store st) s)\<^sup>*\<^sup>* a b"
  by (induction rule: tranclp_induct) (auto simp: live_child_def)

lemma steady_below: "steady st t \<Longrightarrow> below t s a = below st s a"
  by (simp add: below_def steady_child_of)

lemma steady_level: "steady st t \<Longrightarrow> level (co_store t) s a = level (co_store st) s a"
proof -
  assume "steady st t"
  then have "map_option (snd \<circ> snd \<circ> snd) (map_option place (as_records (co_store t) (s, a))) = map_option (snd \<circ> snd \<circ> snd) (map_option place (as_records (co_store st) (s, a)))"
    unfolding steady_def by (simp only:)
  then have "map_option ar_depth (as_records (co_store t) (s, a)) = map_option ar_depth (as_records (co_store st) (s, a))"
    by (simp add: place_def comp_def option.map_comp)
  then show ?thesis by (cases "as_records (co_store t) (s, a)"; cases "as_records (co_store st) (s, a)") (auto simp: level_def)
qed

lemma below_disjoint:
  assumes "hierarchy_ok (co_store st)" and "level (co_store st) s a = level (co_store st) s b" and "a \<noteq> b"
  shows "below st s a \<inter> below st s b = {}"
  using subtrees_disjoint [OF assms(1)] assms(2,3) by (fastforce simp: below_def)

lemma live_child_kept:
  assumes "live_child st s p c" and "(s, c) \<notin> K" and "goes env n K st t"
  shows "live_child t s p c"
  using assms steady_child_of [OF goesD(4) [OF assms(3)]] goesD(6) [OF assms(3)] by (simp add: live_child_def frame_def)

lemma live_path_kept:
  assumes "(live_child st s)\<^sup>+\<^sup>+ a b" and "goes env n K st t" and "\<And>c. (live_child st s)\<^sup>+\<^sup>+ a c \<Longrightarrow> (s, c) \<notin> K"
  shows "(live_child t s)\<^sup>+\<^sup>+ a b"
  using assms(1)
proof (induction rule: tranclp_induct)
  case (base y)
  then show ?case using live_child_kept [OF base _ assms(2)] assms(3) by blast
next
  case (step y z)
  have "(live_child st s)\<^sup>+\<^sup>+ a z" using step.hyps by (rule tranclp.trancl_into_trancl)
  then show ?case using live_child_kept [OF step.hyps(2) _ assms(2)] assms(3) step.IH by (meson tranclp.trancl_into_trancl)
qed

lemma live_path_apart: "K \<inter> below st s a = {} \<Longrightarrow> (live_child st s)\<^sup>+\<^sup>+ a c \<Longrightarrow> (s, c) \<notin> K"
  using live_path_below [of st s a c] by (auto simp: below_def)

lemma live_path_level: "(live_child st s)\<^sup>+\<^sup>+ a b \<Longrightarrow> hierarchy_ok (co_store st) \<Longrightarrow> level (co_store st) s a < level (co_store st) s b"
  by (induction rule: tranclp_induct) (auto simp: live_child_def child_level less_SucI)

lemma awaits_go:
  assumes "calm env" and "sound env n st" and "\<forall>c \<in> set cs. co_scopes st (key_of c) \<noteq> None \<and> \<not> is_root c"
  shows "\<exists>t. for_each (await_cancelled_child env) cs st = (Inr (), t) \<and> goes env n (key_of ` set cs) st t \<and> (\<forall>c \<in> set cs. over t (key_of c))"
  using assms(2,3)
proof (induction cs arbitrary: st)
  case Nil then show ?case using goes_refl by simp
next
  case (Cons c cs)
  have c: "co_scopes st (key_of c) \<noteq> None" "\<not> is_root c" using Cons.prems(2) by auto
  obtain u where u: "await_cancelled_child env c st = (Inr (), u)" "goes env n {key_of c} st u" "over u (key_of c)"
    using await_cancelled_goes [OF assms(1) Cons.prems(1) c] by blast
  have "\<forall>c \<in> set cs. co_scopes u (key_of c) \<noteq> None \<and> \<not> is_root c" using Cons.prems(2) goes_dom [OF u(2)] by auto
  from Cons.IH [OF goesD(1) [OF u(2)] this] obtain t where
    t: "for_each (await_cancelled_child env) cs u = (Inr (), t)" "goes env n (key_of ` set cs) u t" "\<forall>c \<in> set cs. over t (key_of c)" by blast
  have "goes env n (key_of ` set (c # cs)) st t" using goes_trans [OF u(2) t(2)] by simp
  moreover have "over t (key_of c)" using over_settled [OF goesD(5) [OF t(2)] u(3)] .
  ultimately show ?case using u(1) t(1,3) by (simp add: bnd_def)
qed

text \<open>What cancelling the descendants of one agent achieves.\<close>

definition cancelled_below :: "coord_env \<Rightarrow> nat \<Rightarrow> string \<Rightarrow> string \<Rightarrow> coord \<Rightarrow> coord \<Rightarrow> bool" where
  "cancelled_below env n s a st t \<longleftrightarrow> goes env n (below st s a) st t \<and>
     co_scopes t (s, a) = map_option (\<lambda>x. x\<lparr>sc_status := AgentCancelling\<rparr>) (co_scopes st (s, a)) \<and> (s, a) \<in> co_cancelled t \<and>
     (\<forall>b. (live_child st s)\<^sup>+\<^sup>+ a b \<longrightarrow> over t (s, b))"

definition cancellable :: "coord \<Rightarrow> string \<Rightarrow> nat \<Rightarrow> agent_context \<Rightarrow> bool" where
  "cancellable st s d cx \<longleftrightarrow> cx_session_id cx = s \<and> (\<exists>x. co_scopes st (s, cx_agent_id cx) = Some x \<and> \<not> is_terminal (sc_status x)) \<and>
     level (co_store st) s (cx_agent_id cx) = d"

lemma cancel_all:
  assumes one: "\<And>st cx. sound env n st \<Longrightarrow> cancellable st s d cx \<Longrightarrow>
      \<exists>t. cancel_descendants env fuel cx st = (Inr (), t) \<and> cancelled_below env n s (cx_agent_id cx) st t"
    and "sound env n st" and "\<forall>c \<in> set cs. cancellable st s d c" and "distinct (map cx_agent_id cs)"
  shows "\<exists>t. for_each (cancel_descendants env fuel) cs st = (Inr (), t) \<and> goes env n (\<Union>c \<in> set cs. below st s (cx_agent_id c)) st t \<and>
    (\<forall>c \<in> set cs. \<forall>b. (live_child st s)\<^sup>+\<^sup>+ (cx_agent_id c) b \<longrightarrow> over t (s, b))"
  using assms(2-)
proof (induction cs arbitrary: st)
  case Nil then show ?case using goes_refl by simp
next
  case (Cons c cs)
  have ok: "hierarchy_ok (co_store st)" using Cons.prems(1) coord_okD(1) by (auto simp: sound_def)
  obtain u where u: "cancel_descendants env fuel c st = (Inr (), u)" "goes env n (below st s (cx_agent_id c)) st u"
      "\<forall>b. (live_child st s)\<^sup>+\<^sup>+ (cx_agent_id c) b \<longrightarrow> over u (s, b)"
    using one [OF Cons.prems(1), of c] Cons.prems(2) by (auto simp: cancelled_below_def)
  have apart: "below st s (cx_agent_id c) \<inter> below st s (cx_agent_id c') = {}" if "c' \<in> set cs" for c'
  proof (rule below_disjoint [OF ok])
    show "level (co_store st) s (cx_agent_id c) = level (co_store st) s (cx_agent_id c')" using Cons.prems(2) that by (simp add: cancellable_def)
    show "cx_agent_id c \<noteq> cx_agent_id c'" using Cons.prems(3) that by auto
  qed
  have "cancellable u s d c'" if c': "c' \<in> set cs" for c'
  proof -
    have "(s, cx_agent_id c') \<in> below st s (cx_agent_id c')" by (simp add: below_def)
    then have "(s, cx_agent_id c') \<notin> below st s (cx_agent_id c)" using apart [OF c'] by blast
    then show ?thesis using Cons.prems(2) c' goesD(6) [OF u(2)] steady_level [OF goesD(4) [OF u(2)]] by (simp add: cancellable_def frame_def)
  qed
  then obtain t where t: "for_each (cancel_descendants env fuel) cs u = (Inr (), t)" "goes env n (\<Union>c \<in> set cs. below u s (cx_agent_id c)) u t"
      "\<forall>c \<in> set cs. \<forall>b. (live_child u s)\<^sup>+\<^sup>+ (cx_agent_id c) b \<longrightarrow> over t (s, b)"
    using Cons.IH [OF goesD(1) [OF u(2)]] Cons.prems(3) by auto
  have "goes env n (\<Union>c \<in> set (c # cs). below st s (cx_agent_id c)) st t"
    using goes_trans [OF u(2) t(2)] steady_below [OF goesD(4) [OF u(2)]] by simp
  moreover have "over t (s, b)" if "(live_child st s)\<^sup>+\<^sup>+ (cx_agent_id c) b" for b using u(3) that over_settled [OF goesD(5) [OF t(2)]] by blast
  moreover have "over t (s, b)" if "c' \<in> set cs" "(live_child st s)\<^sup>+\<^sup>+ (cx_agent_id c') b" for c' b
    using live_path_kept [OF that(2) u(2) live_path_apart [OF apart [OF that(1)]]] t(3) that(1) by blast
  ultimately show ?case using u(1) t(1) by (auto simp: bnd_def)
qed

lemma direct_children_ids:
  assumes "hierarchy_ok st" shows "distinct (map ar_agent_id (direct_children st s p))"
proof -
  have "map ar_agent_id (records_of st s (as_children st (s, Some p))) = filter (\<lambda>i. as_records st (s, i) \<noteq> None) (as_children st (s, Some p))"
    using hierarchyD(2) [OF assms, of s] by (auto simp: records_of_def List.map_filter_def comp_def intro!: map_idI)
  then show ?thesis using hierarchyD(3) [OF assms] by (simp add: direct_children_def map_sort_key)
qed

lemma begin_goes:
  assumes s: "sound env n st" and x: "co_scopes st (key_of cx) = Some x" "\<not> is_terminal (sc_status x)"
  defines "u \<equiv> cancel_token (sc_cancellation x) (with_status (key_of cx) AgentCancelling st)"
  shows "bnd (begin_cancel cx) (\<lambda>begun. case begun of None \<Rightarrow> ret () | Some tok \<Rightarrow> bnd (upd (cancel_token tok)) k) st = k () u"
    "goes env n {key_of cx} st u" "key_of cx \<in> co_cancelled u" "co_scopes u (key_of cx) = Some (x\<lparr>sc_status := AgentCancelling\<rparr>)"
proof -
  let ?w = "with_status (key_of cx) AgentCancelling st"
  have ok: "coord_ok env n st" "groups_current st" using s by (simp_all add: sound_def)
  show "bnd (begin_cancel cx) (\<lambda>begun. case begun of None \<Rightarrow> ret () | Some tok \<Rightarrow> bnd (upd (cancel_token tok)) k) st = k () u"
    using x mark_status_run [OF ok(1) x(1)] by (simp add: begin_cancel_def bnd_def u_def)
  have w: "coord_ok env n ?w" "steady st ?w" "settled st ?w" using with_status_ok [OF ok(1) x(1), of AgentCancelling] x(2) by (simp_all add: is_terminal_def)
  have u: "coord_ok env n u" "steady ?w u" "settled ?w u" by (rule keep_rest [OF w(1)]; simp add: u_def cancel_token_def; blast)+
  have "groups_current u" "frame {key_of cx} st u" using ok(2) by (simp_all add: u_def cancel_token_def with_status_def groups_current_def frame_def)
  then show "goes env n {key_of cx} st u" unfolding goes_def sound_def using u steady_trans [OF w(2)] settled_trans [OF w(3)] by blast
  obtain r where "token_ok st (key_of cx) x r" using coord_ok_record [OF ok(1) x(1)] by blast
  then have "set (take 1 (sc_cancellation x)) = {key_of cx}" by (auto simp: token_ok_def split: option.splits)
  then show "key_of cx \<in> co_cancelled u" by (simp add: u_def cancel_token_def)
  show "co_scopes u (key_of cx) = Some (x\<lparr>sc_status := AgentCancelling\<rparr>)" using x(1) by (simp add: u_def cancel_token_def with_status_def)
qed

lemma pick_unique:
  assumes "\<And>c. c \<in> D \<and> f c = a \<longleftrightarrow> c = r \<and> p" shows "(\<exists>c \<in> D. P c \<and> f c = a) \<longleftrightarrow> p \<and> P r"
  using assms by metis

text \<open>The live children the recursion visits.\<close>

lemma live_children_run:
  assumes ok: "coord_ok env n st"
  shows "\<exists>cs. live_direct_children cx st = (Inr cs, st) \<and> distinct (map cx_agent_id cs) \<and>
    (\<forall>c \<in> set cs. \<not> is_root c \<and> cx_session_id c = cx_session_id cx) \<and>
    (\<forall>a. (\<exists>c \<in> set cs. cx_agent_id c = a) \<longleftrightarrow> live_child st (cx_session_id cx) (cx_agent_id cx) a)"
proof -
  let ?s = "cx_session_id cx"
  let ?ds = "direct_children (co_store st) ?s (cx_agent_id cx)"
  let ?live = "\<lambda>c. is_live (case co_scopes st (?s, ar_agent_id c) of Some x \<Rightarrow> sc_status x | None \<Rightarrow> ar_status c)"
  let ?cs = "map (child_context st cx) (filter ?live ?ds)"
  note h = coord_okD(1) [OF ok]
  have id: "cx_agent_id (child_context st cx c) = ar_agent_id c" "cx_session_id (child_context st cx c) = ar_session_id c" for c
    by (simp_all add: child_context_def)
  have ids: "map cx_agent_id ?cs = map ar_agent_id (filter ?live ?ds)" by (simp add: id)
  have distinct: "distinct (map cx_agent_id ?cs)" unfolding ids using direct_children_ids [OF h] by (simp add: distinct_map_filter)
  have iff: "(\<exists>c \<in> set ?cs. cx_agent_id c = a) \<longleftrightarrow> live_child st ?s (cx_agent_id cx) a" for a
  proof -
    have left: "(\<exists>c \<in> set ?cs. cx_agent_id c = a) \<longleftrightarrow> (\<exists>c \<in> set ?ds. ?live c \<and> ar_agent_id c = a)" by (auto simp: id)
    show ?thesis
    proof (cases "as_records (co_store st) (?s, a)")
      case None
      have "c \<in> set ?ds \<Longrightarrow> ar_agent_id c \<noteq> a" for c using direct_children_iff [OF h, of c ?s "cx_agent_id cx"] None by auto
      then have "\<not> (\<exists>c \<in> set ?ds. ?live c \<and> ar_agent_id c = a)" by blast
      then show ?thesis unfolding left using None by (simp add: live_child_def child_of_def)
    next
      case (Some r)
      obtain x where x: "co_scopes st (?s, a) = Some x" using Some coord_okD(2) [OF ok] by blast
      have r: "ar_agent_id r = a" using hierarchyD(2) [OF h Some] by simp
      have "c \<in> set ?ds \<and> ar_agent_id c = a \<longleftrightarrow> c = r \<and> ar_parent_id r = Some (cx_agent_id cx)" for c
        unfolding direct_children_iff [OF h, of c ?s "cx_agent_id cx"] using Some r by (metis option.inject)
      then have "(\<exists>c \<in> set ?ds. ?live c \<and> ar_agent_id c = a) \<longleftrightarrow> ar_parent_id r = Some (cx_agent_id cx) \<and> ?live r" by (rule pick_unique)
      then show ?thesis unfolding left using Some x r by (simp add: live_child_def child_of_def)
    qed
  qed
  have inner: "\<forall>c \<in> set ?cs. \<not> is_root c \<and> cx_session_id c = ?s" using direct_children_scoped [OF ok] by (auto simp: id)
  have run: "live_direct_children cx st = (Inr ?cs, st)" by (simp add: live_direct_children_def)
  show ?thesis using run distinct inner iff by blast
qed

lemma cancel_children:
  assumes calm: "calm env" and u: "sound env n u" and s: "cx_session_id cx = s" "level (co_store u) s (cx_agent_id cx) = d"
    and one: "\<And>st c. sound env n st \<Longrightarrow> cancellable st s (Suc d) c \<Longrightarrow>
      \<exists>t. cancel_descendants env fuel c st = (Inr (), t) \<and> cancelled_below env n s (cx_agent_id c) st t"
  shows "\<exists>t. bnd (live_direct_children cx) (\<lambda>live. bnd (for_each (cancel_descendants env fuel) live) (\<lambda>_. for_each (await_cancelled_child env) live)) u = (Inr (), t) \<and>
    goes env n (below u s (cx_agent_id cx) - {(s, cx_agent_id cx)}) u t \<and> (\<forall>b. (live_child u s)\<^sup>+\<^sup>+ (cx_agent_id cx) b \<longrightarrow> over t (s, b))"
proof -
  let ?a = "cx_agent_id cx"
  have ok: "coord_ok env n u" "hierarchy_ok (co_store u)" using u coord_okD(1) by (auto simp: sound_def)
  obtain cs where cs: "live_direct_children cx u = (Inr cs, u)" "distinct (map cx_agent_id cs)" "\<forall>c \<in> set cs. \<not> is_root c \<and> cx_session_id c = s"
      "\<And>a. (\<exists>c \<in> set cs. cx_agent_id c = a) \<longleftrightarrow> live_child u s ?a a"
    using live_children_run [OF ok(1), of cx] s(1) by auto
  have child: "live_child u s ?a (cx_agent_id c)" "cancellable u s (Suc d) c" "key_of c = (s, cx_agent_id c)" if "c \<in> set cs" for c
  proof -
    show live: "live_child u s ?a (cx_agent_id c)" using cs(4) [of "cx_agent_id c"] that by blast
    then show "cancellable u s (Suc d) c" using child_level [OF ok(2), of s ?a "cx_agent_id c"] s(2) cs(3) that
      by (auto simp: live_child_def cancellable_def is_live_def)
    show "key_of c = (s, cx_agent_id c)" using cs(3) that by (simp add: key_of_def)
  qed
  let ?K = "\<Union>c \<in> set cs. below u s (cx_agent_id c)"
  obtain v where v: "for_each (cancel_descendants env fuel) cs u = (Inr (), v)" "goes env n ?K u v"
      "\<forall>c \<in> set cs. \<forall>b. (live_child u s)\<^sup>+\<^sup>+ (cx_agent_id c) b \<longrightarrow> over v (s, b)" using cancel_all [OF one u _ cs(2)] child(2) by blast
  have "\<forall>c \<in> set cs. co_scopes v (key_of c) \<noteq> None \<and> \<not> is_root c"
  proof
    fix c assume c: "c \<in> set cs"
    have "co_scopes u (key_of c) \<noteq> None" using child(2,3) [OF c] by (auto simp: cancellable_def)
    then show "co_scopes v (key_of c) \<noteq> None \<and> \<not> is_root c" using goes_dom [OF v(2)] cs(3) c by blast
  qed
  from awaits_go [OF calm goesD(1) [OF v(2)] this] obtain t where
    t: "for_each (await_cancelled_child env) cs v = (Inr (), t)" "goes env n (key_of ` set cs) v t" "\<forall>c \<in> set cs. over t (key_of c)" by blast
  have K: "key_of ` set cs \<subseteq> ?K" "?K \<subseteq> below u s ?a - {(s, ?a)}"
  proof -
    show "key_of ` set cs \<subseteq> ?K" using child(3) by (auto simp: below_def)
    have "(s, ?a) \<notin> below u s (cx_agent_id c)" if "c \<in> set cs" for c
      using below_level [of "co_store u" s "cx_agent_id c" ?a] ok(2) child(2) [OF that] s(2) by (auto simp: below_def cancellable_def)
    then show "?K \<subseteq> below u s ?a - {(s, ?a)}" using child(1) by (auto simp: live_child_def below_def intro: converse_rtranclp_into_rtranclp)
  qed
  have "over t (s, b)" if path: "(live_child u s)\<^sup>+\<^sup>+ ?a b" for b
  proof -
    obtain c' where c': "live_child u s ?a c'" "c' = b \<or> (live_child u s)\<^sup>+\<^sup>+ c' b" using path by (metis tranclp_unfold_left rtranclpD)
    then obtain c where c: "c \<in> set cs" "cx_agent_id c = c'" using cs(4) by blast
    show ?thesis using c'(2)
    proof
      assume "c' = b" then show ?thesis using t(3) c child(3) by metis
    next
      assume "(live_child u s)\<^sup>+\<^sup>+ c' b" then show ?thesis using v(3) c over_settled [OF goesD(5) [OF t(2)]] by blast
    qed
  qed
  moreover have "goes env n (below u s ?a - {(s, ?a)}) u t" using goes_mono [OF goes_trans [OF v(2) t(2)]] K by blast
  ultimately show ?thesis using cs(1) v(1) t(1) by (simp add: bnd_def)
qed

lemma cancel_goes:
  assumes calm: "calm env"
  shows "sound env n st \<Longrightarrow> cancellable st s d cx \<Longrightarrow> depth_limit env < fuel + d \<Longrightarrow>
    \<exists>t. cancel_descendants env fuel cx st = (Inr (), t) \<and> cancelled_below env n s (cx_agent_id cx) st t"
proof (induction fuel arbitrary: st d cx)
  case 0
  then obtain x where x: "co_scopes st (s, cx_agent_id cx) = Some x" by (auto simp: cancellable_def)
  have ok: "coord_ok env n st" using 0 by (simp add: sound_def)
  obtain r where r: "as_records (co_store st) (s, cx_agent_id cx) = Some r" using coord_ok_record [OF ok x] by blast
  then have "d \<le> depth_limit env" using coord_okD(6) [OF ok r] 0(2) by (simp add: cancellable_def level_def)
  then show ?case using 0(3) by simp
next
  case (Suc fuel)
  let ?a = "cx_agent_id cx"
  obtain x where x: "co_scopes st (key_of cx) = Some x" "\<not> is_terminal (sc_status x)" and key: "key_of cx = (s, ?a)" "cx_session_id cx = s"
    using Suc.prems(2) by (auto simp: cancellable_def key_of_def)
  define u where "u = cancel_token (sc_cancellation x) (with_status (key_of cx) AgentCancelling st)"
  note u = begin_goes [OF Suc.prems(1) x, folded u_def]
  have d: "level (co_store u) s ?a = d" using steady_level [OF goesD(4) [OF u(2)]] Suc.prems(2) by (simp add: cancellable_def)
  have one: "\<exists>t. cancel_descendants env fuel c st = (Inr (), t) \<and> cancelled_below env n s (cx_agent_id c) st t"
    if "sound env n st" "cancellable st s (Suc d) c" for st c using Suc.IH [OF that] Suc.prems(3) by simp
  obtain t where t: "bnd (live_direct_children cx) (\<lambda>live. bnd (for_each (cancel_descendants env fuel) live) (\<lambda>_. for_each (await_cancelled_child env) live)) u = (Inr (), t)"
      "goes env n (below u s ?a - {(s, ?a)}) u t" "\<forall>b. (live_child u s)\<^sup>+\<^sup>+ ?a b \<longrightarrow> over t (s, b)"
    using cancel_children [OF calm goesD(1) [OF u(2)] key(2) d one] by blast
  have run: "cancel_descendants env (Suc fuel) cx st = (Inr (), t)" using u(1) t(1) by simp
  have same: "below u s ?a = below st s ?a" "(s, ?a) \<in> below st s ?a" using steady_below [OF goesD(4) [OF u(2)]] by (simp_all add: below_def)
  have "(s, c) \<notin> {key_of cx}" if "(live_child st s)\<^sup>+\<^sup>+ ?a c" for c
    using live_path_level [OF that] coord_okD(1) Suc.prems(1) key(1) by (auto simp: sound_def)
  then have ends: "\<forall>b. (live_child st s)\<^sup>+\<^sup>+ ?a b \<longrightarrow> over t (s, b)" using live_path_kept [OF _ u(2)] t(3) by blast
  have "goes env n (below st s ?a) st t" using goes_mono [OF goes_trans [OF u(2) t(2)]] same key(1) by simp
  moreover have "co_scopes t (s, ?a) = map_option (\<lambda>x. x\<lparr>sc_status := AgentCancelling\<rparr>) (co_scopes st (s, ?a))"
    using goesD(6) [OF t(2)] u(4) key(1) x(1) by (simp add: frame_def)
  moreover have "(s, ?a) \<in> co_cancelled t" using u(3) key(1) goesD(4) [OF t(2)] by (auto simp: steady_def)
  ultimately show ?case using run ends by (simp add: cancelled_below_def)
qed

section \<open>Cancelling a subtree\<close>

lemma token_lineage:
  assumes "(child_of (co_store st) s)\<^sup>*\<^sup>* a b" and ok: "coord_ok env n st"
  shows "co_scopes st (s, b) = Some y \<Longrightarrow> (s, a) \<in> set (sc_cancellation y)"
  using assms(1)
proof (induction arbitrary: y rule: rtranclp_induct)
  case base
  then show ?case using coord_ok_record [OF ok base] by (auto simp: token_ok_def split: option.splits)
next
  case (step p b)
  from step.hyps(2) obtain r where r: "as_records (co_store st) (s, b) = Some r" "ar_parent_id r = Some p" by (auto simp: child_of_def)
  then obtain sp where "co_scopes st (s, p) = Some sp" "sc_cancellation y = (s, b) # sc_cancellation sp"
    using coord_okD(3) [OF ok step.prems r(1)] by (auto simp: token_ok_def)
  then show ?case using step.IH by simp
qed

lemma over_no_permit: "coord_ok env n t \<Longrightarrow> over t k \<Longrightarrow> \<exists>y. co_scopes t k = Some y \<and> is_terminal (sc_status y) \<and> \<not> sc_permit y"
  using coord_ok_record [of env n t k] by (fastforce simp: over_def scope_ok_def)

lemma find_child:
  assumes "hierarchy_ok st" and "child_of st s p a"
  shows "\<exists>r. List.find (\<lambda>c. ar_agent_id c = a) (direct_children st s p) = Some r \<and> as_records st (s, a) = Some r"
proof -
  from assms(2) obtain r where r: "as_records st (s, a) = Some r" "ar_parent_id r = Some p" by (auto simp: child_of_def)
  have "r \<in> set (direct_children st s p)" "ar_agent_id r = a" using r hierarchyD(2) [OF assms(1) r(1)] by (simp_all add: direct_children_iff [OF assms(1)])
  then obtain x where x: "List.find (\<lambda>c. ar_agent_id c = a) (direct_children st s p) = Some x" by (metis (mono_tags, lifting) find_None_iff option.exhaust)
  then have "ar_agent_id x = a" "x \<in> set (direct_children st s p)" by (auto simp: find_Some_iff)
  then show ?thesis using x by (auto simp: direct_children_iff [OF assms(1)])
qed



end
