(* ===== verification/Agent_Fallback.thy ===== *)
theory Agent_Fallback
  imports Agent_Coordinator
begin

text \<open>
  \<open>agent/fallback.rs\<close>: what is done when a sub-agent cannot be dispatched. A structural failure may be
  answered by running the task inline in a ghost of the caller, once per key. The coordinator is
  locked twice, to look the key up and to mark it, so the two steps are separate here and calls of
  several callers interleave between them.
\<close>

section \<open>Eligibility\<close>

datatype fallback_kind = ModelUnavailable | Structural

fun fallback_eligible_from_coordinator_error :: "agent_error \<Rightarrow> fallback_kind option" where
  "fallback_eligible_from_coordinator_error (DepthLimitReached _) = Some Structural"
| "fallback_eligible_from_coordinator_error ConcurrencyClosed = Some Structural"
| "fallback_eligible_from_coordinator_error (TaskGroupFailed _) = Some Structural"
| "fallback_eligible_from_coordinator_error _ = None"

definition fallback_eligible_from_child_result :: "child_result \<Rightarrow> fallback_kind option" where
  "fallback_eligible_from_child_result r =
     (if rc_status r \<noteq> ChildFailed then None
      else if rc_error_code r = Some ''subagent_model_unavailable'' then Some ModelUnavailable else None)"

definition is_root_caller :: "agent_context \<Rightarrow> bool" where
  "is_root_caller cx \<longleftrightarrow> cx_parent_id cx = None"

section \<open>Preparation\<close>

record fallback_prepared =
  fp_ghost :: agent_context
  fp_agent_id :: string

datatype fallback_blocked = RootCaller | AlreadyUsed

definition ghost_of :: "agent_context \<Rightarrow> string \<Rightarrow> agent_context" where
  "ghost_of caller agent_id =
     \<lparr>cx_session_id = cx_session_id caller, cx_agent_id = agent_id, cx_parent_id = None, cx_depth = cx_depth caller,
      cx_cancellation = (cx_session_id caller, agent_id) # cx_cancellation caller\<rparr>"

text \<open>The part up to the look-up of the key, and the part from the marking on.\<close>

definition fallback_guard :: "agent_context \<Rightarrow> string \<Rightarrow> fallback_blocked option coord_run" where
  "fallback_guard caller key =
     (if is_root_caller caller then ret (Some RootCaller)
      else bnd (fallback_already_used key) (\<lambda>used. ret (if used then Some AlreadyUsed else None)))"

definition fallback_grant :: "string \<Rightarrow> agent_context \<Rightarrow> string \<Rightarrow> fallback_prepared coord_run" where
  "fallback_grant agent_id caller key =
     bnd (mark_fallback_used key) (\<lambda>_. ret \<lparr>fp_ghost = ghost_of caller agent_id, fp_agent_id = agent_id\<rparr>)"

definition prepare_structural_fallback :: "string \<Rightarrow> agent_context \<Rightarrow> string \<Rightarrow> (fallback_blocked + fallback_prepared) coord_run" where
  "prepare_structural_fallback agent_id caller key =
     bnd (fallback_guard caller key) (\<lambda>blocked. case blocked of
       Some why \<Rightarrow> ret (Inl why)
     | None \<Rightarrow> bnd (fallback_grant agent_id caller key) (\<lambda>p. ret (Inr p)))"

lemmas fallback_defs = prepare_structural_fallback_def fallback_guard_def fallback_grant_def mark_fallback_used_def
  fallback_already_used_def bnd_def ret_def gets_def upd_def

lemma prepare_structural_fallback_cases:
  "prepare_structural_fallback agent_id caller key st =
     (if is_root_caller caller then (Inr (Inl RootCaller), st)
      else if key \<in> co_fallback st then (Inr (Inl AlreadyUsed), st)
      else (Inr (Inr \<lparr>fp_ghost = ghost_of caller agent_id, fp_agent_id = agent_id\<rparr>), st\<lparr>co_fallback := insert key (co_fallback st)\<rparr>))"
  by (simp add: fallback_defs)

section \<open>Calls one after the other\<close>

type_synonym fallback_call = "string \<times> agent_context \<times> string"

fun serve_calls :: "fallback_call list \<Rightarrow> coord \<Rightarrow> (fallback_blocked + fallback_prepared) list \<times> coord" where
  "serve_calls [] st = ([], st)"
| "serve_calls ((agent_id, caller, key) # calls) st =
     (case prepare_structural_fallback agent_id caller key st of
        (Inl _, st') \<Rightarrow> serve_calls calls st'
      | (Inr r, st') \<Rightarrow> (let (rs, st'') = serve_calls calls st' in (r # rs, st'')))"

definition granted :: "fallback_blocked + fallback_prepared \<Rightarrow> bool" where
  "granted r \<longleftrightarrow> (\<exists>p. r = Inr p)"

text \<open>What the documentation promises: a call is granted iff its caller has a parent and no earlier call for the key was granted.\<close>

fun first_served :: "string set \<Rightarrow> fallback_call list \<Rightarrow> bool list" where
  "first_served used [] = []"
| "first_served used ((_, caller, key) # calls) =
     (let g = cx_parent_id caller \<noteq> None \<and> key \<notin> used in g # first_served (if g then insert key used else used) calls)"

text \<open>
  Calls that do not overlap are served at most once per key, and exactly as announced: the first call
  of a caller with a parent gets the ghost, every later call for the key and every call of a root is
  refused. Nothing but the set of used keys changes, and a ghost keeps the session and depth of its
  caller and ends with it.
\<close>

theorem fallback_once:
  "map granted (fst (serve_calls calls st)) = first_served (co_fallback st) calls \<and>
   snd (serve_calls calls st)\<lparr>co_fallback := co_fallback st\<rparr> = st \<and>
   list_all2 (\<lambda>(agent_id, caller, key) r. \<forall>p. r = Inr p \<longrightarrow>
      fp_ghost p = ghost_of caller agent_id \<and> cx_cancellation (fp_ghost p) = (cx_session_id caller, agent_id) # cx_cancellation caller \<and> \<not> is_root_caller caller)
     calls (fst (serve_calls calls st))"
proof (induction calls arbitrary: st)
  case (Cons c calls)
  obtain agent_id caller key where c: "c = (agent_id, caller, key)" by (cases c)
  note IH = Cons.IH [of "st\<lparr>co_fallback := insert key (co_fallback st)\<rparr>"] Cons.IH [of st]
  have snd_eq: "t\<lparr>co_fallback := co_fallback st\<rparr> = st" if "t\<lparr>co_fallback := insert key (co_fallback st)\<rparr> = st\<lparr>co_fallback := insert key (co_fallback st)\<rparr>" for t
    using arg_cong [OF that, of "\<lambda>u. u\<lparr>co_fallback := co_fallback st\<rparr>"] by simp
  show ?case
    using IH snd_eq [of "snd (serve_calls calls (st\<lparr>co_fallback := insert key (co_fallback st)\<rparr>))"]
    by (auto simp: c prepare_structural_fallback_cases Let_def split_beta granted_def is_root_caller_def ghost_of_def)
qed simp

section \<open>Calls that overlap\<close>

text \<open>One call is in one of three places; a step moves one call across one of the two locks.\<close>

datatype fallback_phase = Called | Passed | Done "fallback_blocked + fallback_prepared"

fun fallback_step :: "fallback_call \<Rightarrow> fallback_phase \<times> coord \<Rightarrow> fallback_phase \<times> coord" where
  "fallback_step (agent_id, caller, key) (Called, st) =
     (case fallback_guard caller key st of
        (Inr None, st') \<Rightarrow> (Passed, st') | (Inr (Some why), st') \<Rightarrow> (Done (Inl why), st') | (Inl _, st') \<Rightarrow> (Called, st'))"
| "fallback_step (agent_id, caller, key) (Passed, st) =
     (case fallback_grant agent_id caller key st of (Inr p, st') \<Rightarrow> (Done (Inr p), st') | (Inl _, st') \<Rightarrow> (Passed, st'))"
| "fallback_step c (Done r, st) = (Done r, st)"

text \<open>A schedule names the call that moves next.\<close>

fun interleave :: "nat list \<Rightarrow> fallback_call list \<Rightarrow> fallback_phase list \<times> coord \<Rightarrow> fallback_phase list \<times> coord" where
  "interleave [] calls (ps, st) = (ps, st)"
| "interleave (i # is') calls (ps, st) =
     (if i < length calls \<and> i < length ps
      then let (p, st') = fallback_step (calls ! i) (ps ! i, st) in interleave is' calls (ps[i := p], st')
      else interleave is' calls (ps, st))"

text \<open>Without overlap a call in two steps is the call as a whole.\<close>

lemma fallback_step_twice:
  "fallback_step c (fallback_step c (Called, st)) =
     (case c of (agent_id, caller, key) \<Rightarrow> case prepare_structural_fallback agent_id caller key st of
        (Inr r, st') \<Rightarrow> (Done r, st') | (Inl _, st') \<Rightarrow> (Called, st'))"
  by (cases c) (simp add: fallback_defs)

text \<open>
  Two overlapping calls with one key can both be granted: each looks the key up before the other marks
  it. So the single shot is a promise of calls that do not overlap only.
\<close>

theorem fallback_race:
  assumes "\<not> is_root_caller caller" "key \<notin> co_fallback st"
  shows "\<exists>schedule ps st'. interleave schedule [(a, caller, key), (b, caller, key)] ([Called, Called], st) = (ps, st') \<and>
    (\<forall>p \<in> set ps. \<exists>q. p = Done (Inr q)) \<and> length ps = 2"
proof -
  have "interleave [0, 1, 0, 1] [(a, caller, key), (b, caller, key)] ([Called, Called], st) =
      ([Done (Inr \<lparr>fp_ghost = ghost_of caller a, fp_agent_id = a\<rparr>), Done (Inr \<lparr>fp_ghost = ghost_of caller b, fp_agent_id = b\<rparr>)],
       st\<lparr>co_fallback := insert key (co_fallback st)\<rparr>)"
    using assms by (simp add: fallback_defs)
  then show ?thesis by (intro exI [of _ "[0, 1, 0, 1]"]) (simp del: interleave.simps)
qed

end
