(* ===== verification/Task_Tracker.thy ===== *)
theory Task_Tracker
  imports Rust_Paths
begin

text \<open>
  \<open>tasks/types.rs\<close>, \<open>tasks/graph.rs\<close>, \<open>tasks/store.rs\<close> and \<open>tasks/management.rs\<close>: the tasks an agent keeps,
  which may block one another, and the tool that changes them. The hash map of tasks is an
  association list with distinct keys, its order stands for the unspecified order of iteration. The
  directory of a store is the list of the tasks in its files. Random ids, the clock and the success of a
  write are an environment of each call.
\<close>

section \<open>Tasks\<close>

datatype task_status = TaskPending | TaskInProgress | TaskCompleted | TaskDeleted

datatype task_priority = PriorityLow | PriorityMedium | PriorityHigh | PriorityCritical

record task =
  tk_id :: string
  tk_subject :: string
  tk_description :: string
  tk_status :: task_status
  tk_created_at :: int
  tk_updated_at :: int
  tk_metadata :: "(string \<times> json) list"
  tk_tags :: "string list"
  tk_priority :: task_priority
  tk_blocked_by :: "string list"

type_synonym tasks = "(string \<times> task) list"

text \<open>No character outside ASCII has one of these words as its lower case.\<close>

definition parse_task_status :: "string \<Rightarrow> task_status option" where
  "parse_task_status s =
     (if eq_ignore_ascii_case s ''pending'' then Some TaskPending
      else if eq_ignore_ascii_case s ''in_progress'' then Some TaskInProgress
      else if eq_ignore_ascii_case s ''completed'' then Some TaskCompleted
      else if eq_ignore_ascii_case s ''deleted'' then Some TaskDeleted else None)"

definition parse_task_priority :: "string \<Rightarrow> task_priority option" where
  "parse_task_priority s =
     (if eq_ignore_ascii_case s ''low'' then Some PriorityLow
      else if eq_ignore_ascii_case s ''medium'' then Some PriorityMedium
      else if eq_ignore_ascii_case s ''high'' then Some PriorityHigh
      else if eq_ignore_ascii_case s ''critical'' then Some PriorityCritical else None)"

section \<open>The graph of blockers\<close>

definition open_blocker :: "tasks \<Rightarrow> string \<Rightarrow> bool" where
  "open_blocker all b = (case map_of all b of Some t \<Rightarrow> tk_status t \<noteq> TaskCompleted | None \<Rightarrow> True)"

definition is_blocked :: "task \<Rightarrow> tasks \<Rightarrow> bool" where
  "is_blocked t all =
     (if tk_status t = TaskCompleted \<or> tk_status t = TaskDeleted then False else list_ex (open_blocker all) (tk_blocked_by t))"

definition open_blockers :: "task \<Rightarrow> tasks \<Rightarrow> string list" where
  "open_blockers t all = filter (open_blocker all) (tk_blocked_by t)"

definition blocked_tasks :: "tasks \<Rightarrow> task list" where
  "blocked_tasks all =
     filter (\<lambda>t. tk_status t \<noteq> TaskDeleted \<and> tk_status t \<noteq> TaskCompleted \<and> is_blocked t all) (map snd all)"

definition ready_tasks :: "tasks \<Rightarrow> task list" where
  "ready_tasks all =
     filter (\<lambda>t. (tk_status t = TaskPending \<or> tk_status t = TaskInProgress) \<and> \<not> is_blocked t all) (map snd all)"

text \<open>The depth-first search for a cycle. The top of the stack is the head of the list.\<close>

definition blockers_of :: "tasks \<Rightarrow> string \<Rightarrow> string list" where
  "blockers_of all c = (case map_of all c of Some node \<Rightarrow> tk_blocked_by node | None \<Rightarrow> [])"

function cycle_search :: "string \<Rightarrow> tasks \<Rightarrow> string list \<Rightarrow> string set \<Rightarrow> bool" where
  "cycle_search task_id all [] visited = False"
| "cycle_search task_id all (current # stack) visited =
     (if current = task_id then True
      else if current \<in> visited then cycle_search task_id all stack visited
      else cycle_search task_id all (rev (blockers_of all current) @ stack) (insert current visited))"
  by pat_completeness auto
termination
proof (relation "measures [\<lambda>(_, all, _, visited). card (dom (map_of all) - visited), \<lambda>(_, _, stack, _). length stack]", goal_cases)
  case (3 task_id all current stack visited)
  show ?case
  proof (cases "map_of all current")
    case None
    then have "dom (map_of all) - insert current visited = dom (map_of all) - visited" by blast
    then show ?thesis using None by (simp add: blockers_of_def)
  next
    case (Some t)
    then have "card (dom (map_of all) - insert current visited) < card (dom (map_of all) - visited)"
      using 3 by (intro psubset_card_mono) (auto simp: finite_dom_map_of)
    then show ?thesis by simp
  qed
qed auto

definition would_create_cycle :: "string \<Rightarrow> string list \<Rightarrow> tasks \<Rightarrow> bool" where
  "would_create_cycle task_id proposed_blocked_by all =
     (if task_id \<in> set proposed_blocked_by then True else cycle_search task_id all (rev proposed_blocked_by) {})"

datatype task_error =
    MissingParameter | MissingSubject | MissingDescription | InvalidPriority | InvalidStatus | MissingTaskId | TaskNotFound
  | TaskBlocked | BlockerNotFound | DependencyCycle | TaskStoreError | InvalidOperation

fun validate_blockers_exist :: "string list \<Rightarrow> tasks \<Rightarrow> bool" where
  "validate_blockers_exist [] all = True"
| "validate_blockers_exist (b # bs) all =
     (case map_of all b of
        None \<Rightarrow> False
      | Some t \<Rightarrow> if tk_status t = TaskDeleted then False else validate_blockers_exist bs all)"

section \<open>The store\<close>

definition reserved_names :: "string list" where
  "reserved_names = [''CON'', ''PRN'', ''AUX'', ''NUL'', ''COM1'', ''COM2'', ''COM3'', ''COM4'', ''COM5'', ''COM6'', ''COM7'', ''COM8'', ''COM9'',
     ''LPT1'', ''LPT2'', ''LPT3'', ''LPT4'', ''LPT5'', ''LPT6'', ''LPT7'', ''LPT8'', ''LPT9'']"

definition validate_id :: "string \<Rightarrow> bool" where
  "validate_id i \<longleftrightarrow>
     i \<noteq> [] \<and> length i \<le> 255 \<and> CHR ''/'' \<notin> set i \<and> CHR 0x5C \<notin> set i \<and> \<not> contains_str ''..'' i \<and>
     CHR 0x00 \<notin> set i \<and> \<not> prefix ''.'' i \<and> \<not> list_ex (eq_ignore_ascii_case (takeWhile (\<lambda>c. c \<noteq> CHR ''.'') i)) reserved_names"

record task_tool =
  tt_tasks :: tasks
  tt_store :: "tasks option"

record task_env =
  te_new_id :: string
  te_now :: int
  te_disk_ok :: bool

type_synonym 'a task_run = "(task_tool, task_error, 'a) smon"

definition store_save :: "task_env \<Rightarrow> task \<Rightarrow> tasks \<Rightarrow> tasks option" where
  "store_save env t disk = (if validate_id (tk_id t) \<and> te_disk_ok env then Some (assoc_insert (tk_id t) t disk) else None)"

definition store_load :: "string \<Rightarrow> tasks \<Rightarrow> task option" where
  "store_load i disk = (if validate_id i then map_of disk i else None)"

definition store_delete :: "task_env \<Rightarrow> string \<Rightarrow> tasks \<Rightarrow> tasks" where
  "store_delete env i disk = (if validate_id i \<and> te_disk_ok env then assoc_remove i disk else disk)"

definition store_load_all :: "tasks \<Rightarrow> task list" where
  "store_load_all disk = map snd disk"

text \<open>\<open>if let Some(ref store)\<close> with the result of saving passed on, or dropped.\<close>

definition save_or_fail :: "task_env \<Rightarrow> task \<Rightarrow> unit task_run" where
  "save_or_fail env t = (\<lambda>s. case tt_store s of
     None \<Rightarrow> (Inr (), s)
   | Some disk \<Rightarrow> (case store_save env t disk of None \<Rightarrow> (Inl TaskStoreError, s) | Some d \<Rightarrow> (Inr (), s\<lparr>tt_store := Some d\<rparr>)))"

definition save_if_possible :: "task_env \<Rightarrow> task \<Rightarrow> unit task_run" where
  "save_if_possible env t = (\<lambda>s. (Inr (), snd (save_or_fail env t s)))"

definition load_from_store :: "task_env \<Rightarrow> unit task_run" where
  "load_from_store env = (\<lambda>s. case tt_store s of
     None \<Rightarrow> (Inr (), s)
   | Some disk \<Rightarrow>
       if te_disk_ok env
       then (Inr (), s\<lparr>tt_tasks := foldl (\<lambda>cache t. assoc_insert (tk_id t) t cache) (tt_tasks s) (store_load_all disk)\<rparr>)
       else (Inl TaskStoreError, s))"

section \<open>Operations\<close>

definition put_task :: "string \<Rightarrow> task \<Rightarrow> unit task_run" where
  "put_task i t = upd (\<lambda>s. s\<lparr>tt_tasks := assoc_insert i t (tt_tasks s)\<rparr>)"

definition get_all_tasks :: "task list task_run" where
  "get_all_tasks = gets (\<lambda>s. filter (\<lambda>t. tk_status t \<noteq> TaskDeleted) (map snd (tt_tasks s)))"

definition strings_of :: "json list \<Rightarrow> string list" where
  "strings_of = List.map_filter as_str"

definition array_field :: "json \<Rightarrow> string \<Rightarrow> string list option" where
  "array_field input k = map_option strings_of (Option.bind (json_get input k) as_array)"

fun as_object :: "json \<Rightarrow> (string \<times> json) list option" where
  "as_object (JObject kvs) = Some kvs"
| "as_object _ = None"

definition merge_metadata :: "(string \<times> json) list \<Rightarrow> (string \<times> json) list \<Rightarrow> (string \<times> json) list" where
  "merge_metadata old kvs = foldl (\<lambda>m (k, v). assoc_insert k v m) old kvs"

definition create_task :: "task_env \<Rightarrow> json \<Rightarrow> task_error + task" where
  "create_task env input =
     result_bind (ok_or (str_field input ''subject'') MissingSubject) (\<lambda>subject.
     result_bind (ok_or (str_field input ''description'') MissingDescription) (\<lambda>description.
     result_bind (ok_or (parse_task_priority (case str_field input ''priority'' of Some p \<Rightarrow> p | None \<Rightarrow> ''medium'')) InvalidPriority) (\<lambda>priority.
     Inr \<lparr>tk_id = te_new_id env, tk_subject = subject, tk_description = description, tk_status = TaskPending,
          tk_created_at = te_now env, tk_updated_at = te_now env,
          tk_metadata = (case Option.bind (json_get input ''metadata'') as_object of Some kvs \<Rightarrow> merge_metadata [] kvs | None \<Rightarrow> []),
          tk_tags = (case array_field input ''tags'' of Some ts \<Rightarrow> ts | None \<Rightarrow> []),
          tk_priority = priority,
          tk_blocked_by = (case array_field input ''blockedBy'' of Some bs \<Rightarrow> bs | None \<Rightarrow> [])\<rparr>)))"

text \<open>The fields are written in place one after the other: an error leaves what was written before it.\<close>

definition update_fields :: "task_env \<Rightarrow> json \<Rightarrow> task \<Rightarrow> (task_error + unit) \<times> task" where
  "update_fields env input t0 =
     (let t1 = (case str_field input ''subject'' of Some x \<Rightarrow> t0\<lparr>tk_subject := x\<rparr> | None \<Rightarrow> t0);
          t2 = (case str_field input ''description'' of Some x \<Rightarrow> t1\<lparr>tk_description := x\<rparr> | None \<Rightarrow> t1);
          status = map_option parse_task_status (str_field input ''status'') in
      if status = Some None then (Inl InvalidStatus, t2)
      else
        let t3 = (case status of Some (Some x) \<Rightarrow> t2\<lparr>tk_status := x\<rparr> | _ \<Rightarrow> t2);
            priority = map_option parse_task_priority (str_field input ''priority'') in
        if priority = Some None then (Inl InvalidPriority, t3)
        else
          let t4 = (case priority of Some (Some x) \<Rightarrow> t3\<lparr>tk_priority := x\<rparr> | _ \<Rightarrow> t3);
              t5 = (case array_field input ''tags'' of Some ts \<Rightarrow> t4\<lparr>tk_tags := ts\<rparr> | None \<Rightarrow> t4);
              t6 = (case Option.bind (json_get input ''metadata'') as_object of
                      Some kvs \<Rightarrow> t5\<lparr>tk_metadata := merge_metadata (tk_metadata t5) kvs\<rparr> | None \<Rightarrow> t5)
          in (Inr (), t6\<lparr>tk_updated_at := te_now env\<rparr>))"

definition update_task :: "task_env \<Rightarrow> string \<Rightarrow> json \<Rightarrow> task task_run" where
  "update_task env task_id input =
     bnd (gets tt_tasks) (\<lambda>tasks.
     bnd (require_some (map_of tasks task_id) TaskNotFound) (\<lambda>t.
     bnd (put_task task_id (snd (update_fields env input t))) (\<lambda>_.
     bnd (lift_result (fst (update_fields env input t))) (\<lambda>_.
     ret (snd (update_fields env input t))))))"

definition can_transition_to :: "task \<Rightarrow> task_status \<Rightarrow> tasks \<Rightarrow> task_error + unit" where
  "can_transition_to t new_status all =
     (if (new_status = TaskInProgress \<or> new_status = TaskCompleted) \<and> is_blocked t all then Inl TaskBlocked else Inr ())"

definition validate_dependency_assignment :: "string \<Rightarrow> string list \<Rightarrow> tasks \<Rightarrow> task_error + unit" where
  "validate_dependency_assignment task_id blocked_by all =
     (if \<not> validate_blockers_exist blocked_by all then Inl BlockerNotFound
      else if would_create_cycle task_id blocked_by all then Inl DependencyCycle else Inr ())"

datatype task_output =
    TaskCreated string
  | TaskUpdated task
  | TaskRemoved
  | TaskListed "task list"
  | TaskMarked task
  | TaskShown task
  | DependenciesUpdated task
  | BlockedListed "(task \<times> string list) list"

text \<open>
  Creating and updating take the lock twice, so each is two steps: a check under the read lock and a
  write.
\<close>

definition create_check :: "task_env \<Rightarrow> json \<Rightarrow> task task_run" where
  "create_check env input =
     bnd (lift_result (create_task env input)) (\<lambda>t.
     bnd (gets tt_tasks) (\<lambda>tasks.
     bnd (lift_result (validate_dependency_assignment (tk_id t) (tk_blocked_by t) tasks)) (\<lambda>_. ret t)))"

definition create_commit :: "task_env \<Rightarrow> task \<Rightarrow> task_output task_run" where
  "create_commit env t = bnd (save_or_fail env t) (\<lambda>_. bnd (put_task (tk_id t) t) (\<lambda>_. ret (TaskCreated (tk_id t))))"

definition handle_create :: "task_env \<Rightarrow> json \<Rightarrow> task_output task_run" where
  "handle_create env input = bnd (create_check env input) (create_commit env)"

definition update_check :: "string \<Rightarrow> json \<Rightarrow> unit task_run" where
  "update_check task_id input =
     (case str_field input ''status'' of
        None \<Rightarrow> ret ()
      | Some status_str \<Rightarrow>
          bnd (require_some (parse_task_status status_str) InvalidStatus) (\<lambda>new_status.
          bnd (gets tt_tasks) (\<lambda>tasks.
          bnd (require_some (map_of tasks task_id) TaskNotFound) (\<lambda>t.
          lift_result (can_transition_to t new_status tasks)))))"

definition update_commit :: "task_env \<Rightarrow> string \<Rightarrow> json \<Rightarrow> task_output task_run" where
  "update_commit env task_id input =
     bnd (update_task env task_id input) (\<lambda>t. bnd (save_or_fail env t) (\<lambda>_. ret (TaskUpdated t)))"

definition handle_update :: "task_env \<Rightarrow> json \<Rightarrow> task_output task_run" where
  "handle_update env input =
     bnd (require_some (str_field input ''task_id'') MissingTaskId) (\<lambda>task_id.
     bnd (update_check task_id input) (\<lambda>_. update_commit env task_id input))"

definition handle_delete :: "task_env \<Rightarrow> json \<Rightarrow> task_output task_run" where
  "handle_delete env input =
     bnd (require_some (str_field input ''task_id'') MissingTaskId) (\<lambda>task_id.
     bnd (gets tt_tasks) (\<lambda>tasks.
     bnd (require_some (map_of tasks task_id) TaskNotFound) (\<lambda>_.
     bnd (upd (\<lambda>s. s\<lparr>tt_tasks := assoc_remove task_id (tt_tasks s), tt_store := map_option (store_delete env task_id) (tt_store s)\<rparr>)) (\<lambda>_.
     ret TaskRemoved))))"

fun status_name :: "task_status \<Rightarrow> string" where
  "status_name TaskPending = ''pending''"
| "status_name TaskInProgress = ''in_progress''"
| "status_name TaskCompleted = ''completed''"
| "status_name TaskDeleted = ''deleted''"

fun priority_name :: "task_priority \<Rightarrow> string" where
  "priority_name PriorityLow = ''low''"
| "priority_name PriorityMedium = ''medium''"
| "priority_name PriorityHigh = ''high''"
| "priority_name PriorityCritical = ''critical''"

definition list_filter :: "json \<Rightarrow> task \<Rightarrow> bool" where
  "list_filter flt t \<longleftrightarrow>
     (case str_field flt ''status'' of Some x \<Rightarrow> status_name (tk_status t) = x | None \<Rightarrow> True) \<and>
     (case str_field flt ''priority'' of Some x \<Rightarrow> priority_name (tk_priority t) = x | None \<Rightarrow> True) \<and>
     (case array_field flt ''tags'' of Some ts \<Rightarrow> list_all (\<lambda>tag. tag \<in> set (tk_tags t)) ts | None \<Rightarrow> True)"

definition handle_list :: "json \<Rightarrow> task_output task_run" where
  "handle_list input =
     gets (\<lambda>s. TaskListed (filter (list_filter (case json_get input ''filter'' of Some f \<Rightarrow> f | None \<Rightarrow> JNull)) (map snd (tt_tasks s))))"

definition handle_complete :: "task_env \<Rightarrow> json \<Rightarrow> task_output task_run" where
  "handle_complete env input =
     bnd (require_some (str_field input ''task_id'') MissingTaskId) (\<lambda>task_id.
     bnd (gets tt_tasks) (\<lambda>tasks.
     bnd (require_some (map_of tasks task_id) TaskNotFound) (\<lambda>t.
     bnd (lift_result (can_transition_to t TaskCompleted tasks)) (\<lambda>_.
       let t' = t\<lparr>tk_status := TaskCompleted, tk_updated_at := te_now env\<rparr> in
       bnd (put_task task_id t') (\<lambda>_.
       bnd (save_if_possible env t') (\<lambda>_. ret (TaskMarked t')))))))"

definition handle_get :: "json \<Rightarrow> task_output task_run" where
  "handle_get input =
     bnd (require_some (str_field input ''task_id'') MissingTaskId) (\<lambda>task_id.
     bnd (gets tt_tasks) (\<lambda>tasks.
     bnd (require_some (map_of tasks task_id) TaskNotFound) (\<lambda>t. ret (TaskShown t))))"

definition handle_set_dependencies :: "task_env \<Rightarrow> json \<Rightarrow> task_output task_run" where
  "handle_set_dependencies env input =
     bnd (require_some (str_field input ''task_id'') MissingTaskId) (\<lambda>task_id.
       let blocked_by = (case array_field input ''blockedBy'' of Some bs \<Rightarrow> bs | None \<Rightarrow> []) in
       bnd (gets tt_tasks) (\<lambda>tasks.
       bnd (require_some (map_of tasks task_id) TaskNotFound) (\<lambda>t.
       bnd (lift_result (validate_dependency_assignment task_id blocked_by tasks)) (\<lambda>_.
         let t' = t\<lparr>tk_blocked_by := blocked_by, tk_updated_at := te_now env\<rparr> in
         bnd (put_task task_id t') (\<lambda>_.
         bnd (save_if_possible env t') (\<lambda>_. ret (DependenciesUpdated t')))))))"

definition handle_blocked_tasks :: "task_output task_run" where
  "handle_blocked_tasks =
     gets (\<lambda>s. BlockedListed (map (\<lambda>t. (t, open_blockers t (tt_tasks s))) (blocked_tasks (tt_tasks s))))"

definition handle_ready_tasks :: "task_output task_run" where
  "handle_ready_tasks = gets (\<lambda>s. TaskListed (ready_tasks (tt_tasks s)))"

definition task_execute :: "task_env \<Rightarrow> json \<Rightarrow> task_output task_run" where
  "task_execute env input =
     bnd (require_some (str_field input ''operation'') MissingParameter) (\<lambda>op.
       if op = ''create'' then handle_create env input
       else if op = ''update'' then handle_update env input
       else if op = ''delete'' then handle_delete env input
       else if op = ''list'' then handle_list input
       else if op = ''complete'' then handle_complete env input
       else if op = ''get'' then handle_get input
       else if op = ''set_dependencies'' then handle_set_dependencies env input
       else if op = ''blocked'' then handle_blocked_tasks
       else if op = ''ready'' then handle_ready_tasks
       else throw InvalidOperation)"

end
