(* ===== verification/Task_Dependencies.thy ===== *)
theory Task_Dependencies
  imports Task_Tracker
begin

text \<open>
  What the tool of \<open>tasks/management.rs\<close> guarantees of the dependencies between tasks: the search for a
  cycle is exact, no interleaving of calls makes a cycle, so there is always something to do, and a
  blocked task is neither started nor completed.
\<close>

section \<open>The search is exact\<close>

definition needs :: "tasks \<Rightarrow> (string \<times> string) set" where
  "needs all = {(c, b). b \<in> set (blockers_of all c)}"

lemma needs_simps: "(c, b) \<in> needs all \<longleftrightarrow> b \<in> set (blockers_of all c)"
  by (simp add: needs_def)

lemma leaves_through:
  assumes "(v, t) \<in> R\<^sup>*" "v \<in> V" "t \<notin> V" "R `` V \<subseteq> V \<union> S"
  shows "\<exists>s \<in> S. (s, t) \<in> R\<^sup>*"
  using assms by (induction rule: converse_rtrancl_induct) auto

lemma cycle_search_exact:
  assumes "task_id \<notin> visited" "needs all `` visited \<subseteq> visited \<union> set stack"
  shows "cycle_search task_id all stack visited \<longleftrightarrow> (\<exists>c \<in> set stack. (c, task_id) \<in> (needs all)\<^sup>*)"
  using assms
proof (induction task_id all stack visited rule: cycle_search.induct)
  case (2 task_id all current stack visited)
  consider "current = task_id" | "current \<noteq> task_id" "current \<in> visited" | "current \<noteq> task_id" "current \<notin> visited" by blast
  then show ?case
  proof cases
    case 2
    then have "needs all `` visited \<subseteq> visited \<union> set stack" using "2.prems" by auto
    then show ?thesis
      using "2.IH"(1) "2.prems"(1) 2 leaves_through [of current task_id "needs all" visited "set stack"] by auto
  next
    case 3
    have "(current, task_id) \<in> (needs all)\<^sup>* \<longleftrightarrow> (\<exists>b \<in> set (blockers_of all current). (b, task_id) \<in> (needs all)\<^sup>*)"
      using 3(1) by (metis converse_rtranclE converse_rtrancl_into_rtrancl needs_simps)
    moreover have "needs all `` insert current visited \<subseteq> insert current visited \<union> set (rev (blockers_of all current) @ stack)"
      using "2.prems"(2) by (auto simp: needs_simps)
    ultimately show ?thesis using "2.IH"(2) "2.prems"(1) 3 by auto
  qed auto
qed simp

lemma would_create_cycle_iff:
  "would_create_cycle task_id bs all \<longleftrightarrow> (\<exists>b \<in> set bs. (b, task_id) \<in> (needs all)\<^sup>*)"
  using cycle_search_exact [of task_id "{}" all "rev bs"] by (auto simp: would_create_cycle_def)

lemma validate_blockers_exist_iff:
  "validate_blockers_exist bs all \<longleftrightarrow> (\<forall>b \<in> set bs. \<exists>t. map_of all b = Some t \<and> tk_status t \<noteq> TaskDeleted)"
  by (induction bs) (auto split: option.split)

section \<open>No cycle\<close>

lemma acyclic_new_targets:
  assumes "finite B" "acyclic R" "\<forall>b \<in> B. (b, i) \<notin> R\<^sup>*"
  shows "acyclic (R \<union> {i} \<times> B)"
  using assms
proof (induction B)
  case (insert b B)
  have "(b, i) \<in> R\<^sup>*" if "(b, i) \<in> (R \<union> {i} \<times> B)\<^sup>*"
    using that by (induction rule: converse_rtrancl_induct) (auto intro: converse_rtrancl_into_rtrancl)
  then have "(b, i) \<notin> (R \<union> {i} \<times> B)\<^sup>*" using insert.prems by blast
  then have "acyclic (insert (i, b) (R \<union> {i} \<times> B))" using insert by (simp add: acyclic_insert)
  then show ?case by (simp add: insert_commute Sigma_def Un_insert_right)
qed simp

lemma needs_insert:
  "needs (assoc_insert i t all) = {e \<in> needs all. fst e \<noteq> i} \<union> {i} \<times> set (tk_blocked_by t)"
  by (auto simp: needs_def blockers_of_def split: if_splits)

lemma needs_remove: "needs (assoc_remove i all) \<subseteq> needs all"
  by (auto simp: needs_def blockers_of_def split: if_splits)

lemma needs_same:
  assumes "map_of all i = Some t" "tk_blocked_by t' = tk_blocked_by t"
  shows "blockers_of (assoc_insert i t' all) = blockers_of all" "needs (assoc_insert i t' all) = needs all"
proof -
  show "blockers_of (assoc_insert i t' all) = blockers_of all" using assms by (simp add: blockers_of_def fun_eq_iff)
  then show "needs (assoc_insert i t' all) = needs all" by (simp add: needs_def)
qed

lemma acyclic_insert_task:
  assumes "acyclic (needs all)" "\<forall>b \<in> set (tk_blocked_by t). (b, i) \<notin> (needs all)\<^sup>*"
  shows "acyclic (needs (assoc_insert i t all))"
  unfolding needs_insert
proof (rule acyclic_new_targets)
  have sub: "{e \<in> needs all. fst e \<noteq> i} \<subseteq> needs all" by blast
  then show "acyclic {e \<in> needs all. fst e \<noteq> i}" using assms(1) by (rule acyclic_subset [rotated])
  show "\<forall>b \<in> set (tk_blocked_by t). (b, i) \<notin> {e \<in> needs all. fst e \<noteq> i}\<^sup>*" using assms(2) rtrancl_mono [OF sub] by blast
qed simp


section \<open>Calls and their interleavings\<close>

text \<open>An id that a new UUID cannot be: one that a task has or names, in the map or in a call on its way.\<close>

definition fresh_id :: "string \<Rightarrow> task_tool \<Rightarrow> task list \<Rightarrow> bool" where
  "fresh_id i s fl \<longleftrightarrow> map_of (tt_tasks s) i = None \<and> i \<notin> Range (needs (tt_tasks s)) \<and> (\<forall>u \<in> set fl. tk_id u \<noteq> i \<and> i \<notin> set (tk_blocked_by u))"

text \<open>
  The state and the tasks that calls of create have checked but not written. Every other call writes
  under one lock; the checks of an update only restrict when its write happens.
\<close>

inductive task_step :: "task_tool \<times> task list \<Rightarrow> task_tool \<times> task list \<Rightarrow> bool" where
  create_starts: "create_check env input s = (Inr t, s') \<Longrightarrow> fresh_id (te_new_id env) s fl \<Longrightarrow> task_step (s, fl) (s', t # fl)"
| create_ends: "t \<in> set fl \<Longrightarrow> task_step (s, fl) (snd (create_commit env t s), remove1 t fl)"
| update_writes: "task_step (s, fl) (snd (update_commit env task_id input s), fl)"
| deletes: "task_step (s, fl) (snd (handle_delete env input s), fl)"
| completes: "task_step (s, fl) (snd (handle_complete env input s), fl)"
| sets_dependencies: "task_step (s, fl) (snd (handle_set_dependencies env input s), fl)"

definition tasks_ok :: "task_tool \<times> task list \<Rightarrow> bool" where
  "tasks_ok x \<longleftrightarrow> (case x of (s, fl) \<Rightarrow>
     distinct (map fst (tt_tasks s)) \<and> acyclic (needs (tt_tasks s)) \<and> distinct (map tk_id fl) \<and>
     (\<forall>t \<in> set fl. map_of (tt_tasks s) (tk_id t) = None \<and> tk_id t \<notin> Range (needs (tt_tasks s)) \<and> (\<forall>u \<in> set fl. tk_id t \<notin> set (tk_blocked_by u))))"

text \<open>How the map of tasks changes in a call, whatever its result.\<close>

inductive tasks_change :: "tasks \<Rightarrow> tasks \<Rightarrow> bool" where
  unchanged: "tasks_change all all"
| rewritten: "map_of all i = Some t \<Longrightarrow> tk_blocked_by t' = tk_blocked_by t \<Longrightarrow> tasks_change all (assoc_insert i t' all)"
| removed: "tasks_change all (assoc_remove i all)"
| redirected: "map_of all i = Some t \<Longrightarrow> validate_dependency_assignment i (tk_blocked_by t') all = Inr () \<Longrightarrow> tasks_change all (assoc_insert i t' all)"

lemma save_or_fail_tasks [simp]: "tt_tasks (snd (save_or_fail env t s)) = tt_tasks s"
  by (auto simp: save_or_fail_def split: option.split)

lemma save_if_possible_tasks [simp]: "tt_tasks (snd (save_if_possible env t s)) = tt_tasks s" "fst (save_if_possible env t s) = Inr ()"
  by (auto simp: save_if_possible_def)

lemma update_fields_blocked_by: "tk_blocked_by (snd (update_fields env input t)) = tk_blocked_by t"
  by (auto simp: update_fields_def Let_def split: option.splits)

lemmas task_run_defs = monad_defs require_some_def put_task_def Let_def

lemma update_commit_tasks:
  "tt_tasks (snd (update_commit env task_id input s)) =
     (case map_of (tt_tasks s) task_id of None \<Rightarrow> tt_tasks s | Some t \<Rightarrow> assoc_insert task_id (snd (update_fields env input t)) (tt_tasks s))"
proof (cases "map_of (tt_tasks s) task_id")
  case (Some t)
  let ?s = "s\<lparr>tt_tasks := assoc_insert task_id (snd (update_fields env input t)) (tt_tasks s)\<rparr>"
  obtain r s' where r: "save_or_fail env (snd (update_fields env input t)) ?s = (r, s')" by fastforce
  then have "tt_tasks s' = tt_tasks ?s" using save_or_fail_tasks by (metis snd_conv)
  then show ?thesis using Some r by (cases r; cases "fst (update_fields env input t)") (simp_all add: update_commit_def update_task_def task_run_defs)
qed (simp add: update_commit_def update_task_def task_run_defs)

lemma update_commit_change: "tasks_change (tt_tasks s) (tt_tasks (snd (update_commit env task_id input s)))"
  by (auto simp: update_commit_tasks intro: tasks_change.intros update_fields_blocked_by split: option.split)

lemma handle_complete_change: "tasks_change (tt_tasks s) (tt_tasks (snd (handle_complete env input s)))"
  by (auto simp: handle_complete_def task_run_defs save_if_possible_def split: option.splits sum.splits intro: tasks_change.intros)

lemma handle_delete_change: "tasks_change (tt_tasks s) (tt_tasks (snd (handle_delete env input s)))"
  by (auto simp: handle_delete_def task_run_defs split: option.splits intro: tasks_change.intros)

lemma handle_set_dependencies_change: "tasks_change (tt_tasks s) (tt_tasks (snd (handle_set_dependencies env input s)))"
  by (auto simp: handle_set_dependencies_def task_run_defs save_if_possible_def split: option.splits sum.splits intro: tasks_change.intros)

lemma tasks_change_ok:
  assumes "tasks_change all all'" "distinct (map fst all)" "acyclic (needs all)"
  shows "distinct (map fst all')" "acyclic (needs all')" "dom (map_of all') \<subseteq> dom (map_of all)" "Range (needs all') \<subseteq> Range (needs all) \<union> dom (map_of all)"
  using assms
proof (induction rule: tasks_change.induct)
  case (rewritten all i t t')
  { case 1 then show ?case by blast }
  { case 2 then show ?case using needs_same [OF rewritten] by simp }
  { case 3 show ?case by (rule dom_assoc_insert [OF rewritten(1)]) }
  { case 4 then show ?case using needs_same [OF rewritten] by simp }
next
  case (removed all i)
  { case 1 then show ?case by blast }
  { case 2 then show ?case using needs_remove acyclic_subset by blast }
  { case 3 show ?case by (rule dom_assoc_remove) }
  { case 4 then show ?case using needs_remove [of i all] by blast }
next
  case (redirected all i t t')
  have bs: "\<forall>b \<in> set (tk_blocked_by t'). b \<in> dom (map_of all) \<and> (b, i) \<notin> (needs all)\<^sup>*"
    using redirected(2) by (auto simp: validate_dependency_assignment_def would_create_cycle_iff validate_blockers_exist_iff split: if_splits)
  { case 1 then show ?case by blast }
  { case 2 then show ?case using bs acyclic_insert_task by blast }
  { case 3 show ?case by (rule dom_assoc_insert [OF redirected(1)]) }
  { case 4 then show ?case using bs by (auto simp: needs_insert) }
qed auto


lemma tasks_ok_change:
  assumes "tasks_ok (s, fl)" "tasks_change (tt_tasks s) (tt_tasks s')"
  shows "tasks_ok (s', fl)"
proof -
  have ok: "distinct (map fst (tt_tasks s))" "acyclic (needs (tt_tasks s))" using assms(1) by (simp_all add: tasks_ok_def)
  note c = tasks_change_ok [OF assms(2) ok]
  have "map_of (tt_tasks s') (tk_id t) = None \<and> tk_id t \<notin> Range (needs (tt_tasks s'))" if "t \<in> set fl" for t
  proof -
    have "tk_id t \<notin> dom (map_of (tt_tasks s))" "tk_id t \<notin> Range (needs (tt_tasks s))"
      using assms(1) that by (simp_all add: tasks_ok_def domIff)
    then show ?thesis using c(3,4) by blast
  qed
  then show ?thesis using assms(1) c(1,2) by (simp add: tasks_ok_def)
qed

lemma tasks_ok_create:
  assumes ok: "tasks_ok (s, fl)" and t: "t \<in> set fl" and s': "tt_tasks s' = assoc_insert (tk_id t) t (tt_tasks s)"
  shows "tasks_ok (s', remove1 t fl)"
proof -
  have new: "map_of (tt_tasks s) (tk_id t) = None" "tk_id t \<notin> Range (needs (tt_tasks s))" "tk_id t \<notin> set (tk_blocked_by t)"
    using ok t by (auto simp: tasks_ok_def)
  then have "\<forall>b \<in> set (tk_blocked_by t). (b, tk_id t) \<notin> (needs (tt_tasks s))\<^sup>*" by (metis Range.intros rtranclE)
  then have "acyclic (needs (tt_tasks s'))" using ok acyclic_insert_task by (simp add: s' tasks_ok_def)
  moreover have "map_of (tt_tasks s') (tk_id u) = None \<and> tk_id u \<notin> Range (needs (tt_tasks s'))" if "u \<in> set (remove1 t fl)" for u
  proof -
    have fl: "distinct (map tk_id fl)" "distinct fl" using ok by (simp_all add: tasks_ok_def distinct_map)
    then have "u \<in> set fl" "u \<noteq> t" using that by (auto simp: set_remove1_eq)
    moreover have "tk_id u \<noteq> tk_id t" using fl calculation t by (auto simp: distinct_map inj_on_def)
    ultimately show ?thesis using ok t by (auto simp: s' needs_insert tasks_ok_def)
  qed
  moreover have "distinct (map tk_id (remove1 t fl))" "set (remove1 t fl) \<subseteq> set fl"
    using ok set_remove1_subset [of t fl] by (auto simp: tasks_ok_def distinct_map intro: inj_on_subset)
  moreover have "\<forall>u \<in> set (remove1 t fl). \<forall>v \<in> set (remove1 t fl). tk_id u \<notin> set (tk_blocked_by v)"
    using ok calculation(4) by (simp add: tasks_ok_def subset_iff)
  moreover have "distinct (map fst (tt_tasks s'))" using ok by (auto simp: s' tasks_ok_def)
  ultimately show ?thesis by (simp add: tasks_ok_def)
qed

lemma create_check_facts:
  assumes "create_check env input s = (Inr t, s')"
  shows "s' = s" "tk_id t = te_new_id env" "set (tk_blocked_by t) \<subseteq> dom (map_of (tt_tasks s))"
proof -
  have "create_task env input = Inr t" and v: "s' = s" "validate_dependency_assignment (tk_id t) (tk_blocked_by t) (tt_tasks s) = Inr ()"
    using assms by (auto simp: create_check_def task_run_defs split: sum.splits)
  then show "s' = s" "tk_id t = te_new_id env" by (auto simp: create_task_def ok_or_def split: option.splits)
  show "set (tk_blocked_by t) \<subseteq> dom (map_of (tt_tasks s))"
    using v(2) by (auto simp: validate_dependency_assignment_def validate_blockers_exist_iff split: if_splits)
qed

lemma tasks_ok_less: "tasks_ok (s, fl) \<Longrightarrow> tt_tasks s' = tt_tasks s \<Longrightarrow> tasks_ok (s', remove1 t fl)"
  using set_remove1_subset [of t fl] distinct_remove1 [of "map tk_id fl"]
  by (auto simp: tasks_ok_def distinct_map intro: distinct_remove1 inj_on_subset)

lemma create_commit_tasks:
  "tt_tasks (snd (create_commit env t s)) = tt_tasks s \<or> tt_tasks (snd (create_commit env t s)) = assoc_insert (tk_id t) t (tt_tasks s)"
proof -
  obtain r s' where r: "save_or_fail env t s = (r, s')" by fastforce
  then have "tt_tasks s' = tt_tasks s" using save_or_fail_tasks [of env t s] by simp
  then show ?thesis using r by (cases r) (simp_all add: create_commit_def task_run_defs)
qed

lemma task_step_ok: "task_step x y \<Longrightarrow> tasks_ok x \<Longrightarrow> tasks_ok y"
proof (induction rule: task_step.induct)
  case (create_starts env input s t s' fl)
  note t = create_check_facts [OF create_starts(1)]
  have "tk_id t \<notin> set (tk_blocked_by t)" "\<forall>u \<in> set fl. tk_id u \<notin> set (tk_blocked_by t)"
    using t(3) create_starts(2,3) t(2) by (auto simp: fresh_id_def tasks_ok_def)
  then show ?case using create_starts(2,3) t(1,2) by (auto simp: fresh_id_def tasks_ok_def)
next
  case (create_ends t fl s env)
  consider "tt_tasks (snd (create_commit env t s)) = tt_tasks s" | "tt_tasks (snd (create_commit env t s)) = assoc_insert (tk_id t) t (tt_tasks s)"
    using create_commit_tasks by blast
  then show ?case
  proof cases
    case 1 then show ?thesis using create_ends tasks_ok_less by simp
  next
    case 2 then show ?thesis using create_ends tasks_ok_create by blast
  qed
next
  case (update_writes s fl env task_id input) then show ?case using tasks_ok_change update_commit_change by blast
next
  case (deletes s fl env input) then show ?case using tasks_ok_change handle_delete_change by blast
next
  case (completes s fl env input) then show ?case using tasks_ok_change handle_complete_change by blast
next
  case (sets_dependencies s fl env input) then show ?case using tasks_ok_change handle_set_dependencies_change by blast
qed


lemma task_steps_ok: "task_step\<^sup>*\<^sup>* x y \<Longrightarrow> tasks_ok x \<Longrightarrow> tasks_ok y"
  by (induction rule: rtranclp_induct) (auto dest: task_step_ok)

text \<open>A call as a whole is made of these steps, with nothing left on its way.\<close>

lemma handle_create_steps:
  assumes "fresh_id (te_new_id env) s fl"
  shows "task_step\<^sup>*\<^sup>* (s, fl) (snd (handle_create env input s), fl)"
proof -
  obtain r s' where r: "create_check env input s = (r, s')" by fastforce
  show ?thesis
  proof (cases r)
    case (Inl e)
    have "s' = s" using r Inl by (auto simp: create_check_def task_run_defs split: sum.splits)
    then show ?thesis using r Inl by (simp add: handle_create_def bnd_def)
  next
    case (Inr t)
    have "s' = s" using create_check_facts(1) [OF r [unfolded Inr]] .
    then show ?thesis
      using task_step.create_starts [OF r [unfolded Inr] assms] task_step.create_ends [of t "t # fl" s env] r Inr
      by (simp add: handle_create_def bnd_def converse_rtranclp_into_rtranclp)
  qed
qed

lemma handle_update_steps: "task_step\<^sup>*\<^sup>* (s, fl) (snd (handle_update env input s), fl)"
proof (cases "str_field input ''task_id''")
  case (Some task_id)
  obtain r s' where r: "update_check task_id input s = (r, s')" by fastforce
  then have "s' = s" by (auto simp: update_check_def task_run_defs split: option.splits)
  then show ?thesis
    using r Some task_step.update_writes [of s fl env task_id input]
    by (cases r) (auto simp: handle_update_def require_some_def ret_def bnd_def)
qed (simp add: handle_update_def task_run_defs)

lemma task_execute_steps:
  assumes "fresh_id (te_new_id env) s fl"
  shows "task_step\<^sup>*\<^sup>* (s, fl) (snd (task_execute env input s), fl)"
proof (cases "str_field input ''operation''")
  case (Some operation)
  have reads: "snd (handle_list input s) = s" "snd (handle_get input s) = s" "snd (handle_blocked_tasks s) = s" "snd (handle_ready_tasks s) = s"
    by (auto simp: handle_list_def handle_get_def handle_blocked_tasks_def handle_ready_tasks_def task_run_defs split: option.splits)
  note writes = handle_create_steps [OF assms, of input] handle_update_steps [of s fl env input] r_into_rtranclp [of task_step, OF task_step.deletes [of s fl env input]]
    r_into_rtranclp [of task_step, OF task_step.completes [of s fl env input]] r_into_rtranclp [of task_step, OF task_step.sets_dependencies [of s fl env input]]
  show ?thesis by (simp add: task_execute_def Some require_some_def ret_def bnd_def throw_def reads writes)
qed (simp add: task_execute_def task_run_defs)


section \<open>Guarantees\<close>

lemma ready_blocked_iff:
  "t \<in> set (ready_tasks all) \<longleftrightarrow> t \<in> snd ` set all \<and> (tk_status t = TaskPending \<or> tk_status t = TaskInProgress) \<and>
     (\<forall>b \<in> set (tk_blocked_by t). \<exists>u. map_of all b = Some u \<and> tk_status u = TaskCompleted)"
  "t \<in> set (blocked_tasks all) \<longleftrightarrow> t \<in> snd ` set all \<and> (tk_status t = TaskPending \<or> tk_status t = TaskInProgress) \<and>
     \<not> (\<forall>b \<in> set (tk_blocked_by t). \<exists>u. map_of all b = Some u \<and> tk_status u = TaskCompleted)"
  by (cases "tk_status t"; auto simp: ready_tasks_def blocked_tasks_def is_blocked_def open_blocker_def list_ex_iff split: option.splits)+

lemma finite_needs: "finite (needs all)"
proof -
  have "c \<in> dom (map_of all)" if "(c, b) \<in> needs all" for c b
    using that by (cases "map_of all c") (simp_all add: needs_simps blockers_of_def domI)
  then have "needs all \<subseteq> Sigma (dom (map_of all)) (\<lambda>c. set (blockers_of all c))" by (metis SigmaI needs_simps subrelI)
  then show ?thesis by (rule finite_subset) (simp add: finite_dom_map_of)
qed

abbreviation unfinished :: "task \<Rightarrow> bool" where
  "unfinished t \<equiv> tk_status t = TaskPending \<or> tk_status t = TaskInProgress"

definition blockers_known :: "tasks \<Rightarrow> bool" where
  "blockers_known all \<longleftrightarrow> (\<forall>t \<in> snd ` set all. unfinished t \<longrightarrow>
     (\<forall>b \<in> set (tk_blocked_by t). \<exists>u. map_of all b = Some u \<and> tk_status u \<noteq> TaskDeleted))"

lemma ready_exists:
  assumes ok: "distinct (map fst all)" "acyclic (needs all)" and some: "t \<in> snd ` set all" "unfinished t" and known: "blockers_known all"
  shows "ready_tasks all \<noteq> []"
proof -
  let ?Q = "{i. \<exists>t. map_of all i = Some t \<and> unfinished t}"
  obtain j where "(j, t) \<in> set all" using some(1) by fastforce
  then have Q: "j \<in> ?Q" using some(2) ok(1) by auto
  have "wf ((needs all)\<inverse>)" using finite_acyclic_wf_converse [OF finite_needs ok(2)] .
  then obtain i where i: "i \<in> ?Q" "\<And>b. (b, i) \<in> (needs all)\<inverse> \<Longrightarrow> b \<notin> ?Q" using wfE_min [OF _ Q] by blast
  then obtain w where w: "map_of all i = Some w" "unfinished w" by blast
  then have member: "w \<in> snd ` set all" by (metis imageI map_of_SomeD snd_conv)
  have "\<exists>u. map_of all b = Some u \<and> tk_status u = TaskCompleted" if b: "b \<in> set (tk_blocked_by w)" for b
  proof -
    obtain u where u: "map_of all b = Some u" "tk_status u \<noteq> TaskDeleted" using known w(2) b member unfolding blockers_known_def by blast
    have "b \<notin> ?Q" using i(2) [of b] b w(1) by (simp add: needs_simps blockers_of_def)
    then show ?thesis using u by (cases "tk_status u") auto
  qed
  then have "w \<in> set (ready_tasks all)" using w member unfolding ready_blocked_iff by blast
  then show ?thesis by (metis empty_iff empty_set)
qed

text \<open>
  C33: A dependency is accepted exactly when it makes no cycle: the search answers that a cycle would arise iff
  the task itself can be reached from one of the proposed blockers, whatever the size and shape of
  the graph, cyclic ones included.
\<close>

theorem would_create_cycle_exact:
  "would_create_cycle task_id proposed all \<longleftrightarrow> (\<exists>b \<in> set proposed. (b, task_id) \<in> (needs all)\<^sup>*)"
  by (rule would_create_cycle_iff)

text \<open>
  C14: Work never deadlocks. Start with tasks without a cyclic dependency, and let calls of the tool
  interleave in any way, ids of new tasks being new. Then no task ever needs itself, directly or
  through others; and if every blocker of an unfinished task is a task that has not been deleted, some
  unfinished task is ready, that is, all its blockers are completed.
\<close>

theorem tasks_never_deadlock:
  assumes "distinct (map fst (tt_tasks s0))" "acyclic (needs (tt_tasks s0))" "task_step\<^sup>*\<^sup>* (s0, []) (s, fl)"
  shows "(\<forall>i. (i, i) \<notin> (needs (tt_tasks s))\<^sup>+) \<and>
    (blockers_known (tt_tasks s) \<and> (\<exists>t \<in> snd ` set (tt_tasks s). unfinished t) \<longrightarrow> ready_tasks (tt_tasks s) \<noteq> [])"
proof -
  have "tasks_ok (s, fl)" using task_steps_ok [OF assms(3)] assms(1,2) by (simp add: tasks_ok_def)
  then have ok: "distinct (map fst (tt_tasks s))" "acyclic (needs (tt_tasks s))" by (simp_all add: tasks_ok_def)
  show ?thesis using ok(2) ready_exists [OF ok] unfolding acyclic_def by blast
qed


section \<open>Blocked tasks\<close>

definition guarded :: "tasks \<Rightarrow> tasks \<Rightarrow> bool" where
  "guarded all all' \<longleftrightarrow> (\<forall>i t t'. map_of all i = Some t \<and> map_of all' i = Some t' \<and> unfinished t \<and> tk_status t' \<noteq> tk_status t \<and>
     (tk_status t' = TaskInProgress \<or> tk_status t' = TaskCompleted) \<longrightarrow>
     (\<forall>b \<in> set (tk_blocked_by t). \<exists>u. map_of all b = Some u \<and> tk_status u = TaskCompleted))"

lemma not_blocked_iff:
  "unfinished t \<Longrightarrow> \<not> is_blocked t all \<longleftrightarrow> (\<forall>b \<in> set (tk_blocked_by t). \<exists>u. map_of all b = Some u \<and> tk_status u = TaskCompleted)"
  by (auto simp: is_blocked_def open_blocker_def list_ex_iff split: option.splits)

lemma guarded_same [simp]: "guarded all all"
  by (auto simp: guarded_def)

lemma guarded_remove: "guarded all (assoc_remove i all)"
  unfolding guarded_def map_of_assoc_remove by (metis fun_upd_apply option.distinct(1) option.inject)

lemma guarded_insert:
  assumes "\<And>t. map_of all i = Some t \<Longrightarrow> can_transition_to t (tk_status t') all = Inr () \<or> tk_status t' = tk_status t"
  shows "guarded all (assoc_insert i t' all)"
  unfolding guarded_def map_of_assoc_insert
proof (intro allI impI, elim conjE)
  fix j t u
  assume a: "map_of all j = Some t" "((map_of all)(i \<mapsto> t')) j = Some u" "unfinished t" "tk_status u \<noteq> tk_status t"
    "tk_status u = TaskInProgress \<or> tk_status u = TaskCompleted"
  then have "j = i" "u = t'" by (auto split: if_splits)
  then have "\<not> is_blocked t all" using a assms [of t] by (auto simp: can_transition_to_def split: if_splits)
  then show "\<forall>b \<in> set (tk_blocked_by t). \<exists>u. map_of all b = Some u \<and> tk_status u = TaskCompleted"
    using not_blocked_iff [OF a(3)] by simp
qed

lemma update_fields_status:
  "tk_status (snd (update_fields env input t)) = tk_status t \<or>
   (\<exists>x new. str_field input ''status'' = Some x \<and> parse_task_status x = Some new \<and> tk_status (snd (update_fields env input t)) = new)"
  by (auto simp: update_fields_def Let_def split: option.splits)

lemma handle_update_guarded: "guarded (tt_tasks s) (tt_tasks (snd (handle_update env input s)))"
proof (cases "str_field input ''task_id''")
  case (Some task_id)
  obtain r s' where r: "update_check task_id input s = (r, s')" by fastforce
  then have s': "s' = s" by (auto simp: update_check_def task_run_defs split: option.splits)
  show ?thesis
  proof (cases r)
    case (Inl e) then show ?thesis using Some r s' by (simp add: handle_update_def require_some_def ret_def bnd_def)
  next
    case (Inr u)
    have "guarded (tt_tasks s) (assoc_insert task_id (snd (update_fields env input t)) (tt_tasks s))" if "map_of (tt_tasks s) task_id = Some t" for t
      using r Inr that update_fields_status [of env input t]
      by (intro guarded_insert) (auto simp: update_check_def task_run_defs split: option.splits)
    then show ?thesis using Some r s' Inr
      by (simp add: handle_update_def require_some_def ret_def bnd_def update_commit_tasks split: option.split)
  qed
qed (simp add: handle_update_def task_run_defs)


lemma handle_complete_guarded: "guarded (tt_tasks s) (tt_tasks (snd (handle_complete env input s)))"
  by (auto simp: handle_complete_def task_run_defs save_if_possible_def split: option.splits sum.splits intro!: guarded_insert)

lemma handle_delete_guarded: "guarded (tt_tasks s) (tt_tasks (snd (handle_delete env input s)))"
  by (auto simp: handle_delete_def task_run_defs guarded_remove split: option.splits)

lemma handle_set_dependencies_guarded: "guarded (tt_tasks s) (tt_tasks (snd (handle_set_dependencies env input s)))"
  by (auto simp: handle_set_dependencies_def task_run_defs save_if_possible_def split: option.splits sum.splits intro!: guarded_insert)

lemma handle_create_guarded:
  assumes "map_of (tt_tasks s) (te_new_id env) = None"
  shows "guarded (tt_tasks s) (tt_tasks (snd (handle_create env input s)))"
proof -
  obtain r s' where r: "create_check env input s = (r, s')" by fastforce
  show ?thesis
  proof (cases r)
    case (Inl e)
    have "s' = s" using r Inl by (auto simp: create_check_def task_run_defs split: sum.splits)
    then show ?thesis using r Inl by (simp add: handle_create_def bnd_def)
  next
    case (Inr t)
    note t = create_check_facts(1,2) [OF r [unfolded Inr]]
    have "guarded (tt_tasks s) (assoc_insert (tk_id t) t (tt_tasks s))" using assms t by (intro guarded_insert) simp
    then show ?thesis using create_commit_tasks [of env t s] r Inr t by (auto simp: handle_create_def bnd_def)
  qed
qed

text \<open>
  A blocked task waits. Whatever a call of the tool does and however it ends, an unfinished task is put in progress or
  completed only if all its blockers exist and are completed at that moment.
\<close>

theorem blocked_task_waits:
  assumes "map_of (tt_tasks s) (te_new_id env) = None" "task_execute env input s = (r, s')"
    "map_of (tt_tasks s) i = Some t" "map_of (tt_tasks s') i = Some t'" "unfinished t" "tk_status t' \<noteq> tk_status t"
    "tk_status t' = TaskInProgress \<or> tk_status t' = TaskCompleted"
  shows "\<forall>b \<in> set (tk_blocked_by t). \<exists>u. map_of (tt_tasks s) b = Some u \<and> tk_status u = TaskCompleted"
proof (cases "str_field input ''operation''")
  case (Some operation)
  note writes = handle_create_guarded [OF assms(1), of input] handle_update_guarded [of s env input] handle_delete_guarded [of s env input]
    handle_complete_guarded [of s env input] handle_set_dependencies_guarded [of s env input]
  have reads: "snd (handle_list input s) = s" "snd (handle_get input s) = s" "snd (handle_blocked_tasks s) = s" "snd (handle_ready_tasks s) = s"
    by (auto simp: handle_list_def handle_get_def handle_blocked_tasks_def handle_ready_tasks_def task_run_defs split: option.splits)
  have "guarded (tt_tasks s) (tt_tasks (snd (task_execute env input s)))"
    by (simp add: task_execute_def Some require_some_def ret_def bnd_def throw_def reads writes)
  then show ?thesis using assms(2-) unfolding guarded_def by (metis snd_conv)
next
  case None
  then have "s' = s" using assms(2) by (simp add: task_execute_def task_run_defs)
  then show ?thesis using assms by simp
qed

section \<open>Examples\<close>

definition sample_task :: "string \<Rightarrow> task_status \<Rightarrow> string list \<Rightarrow> task" where
  "sample_task i status bs =
     \<lparr>tk_id = i, tk_subject = i, tk_description = [], tk_status = status, tk_created_at = 0, tk_updated_at = 0, tk_metadata = [],
      tk_tags = [], tk_priority = PriorityMedium, tk_blocked_by = bs\<rparr>"

definition sample_tool :: "task_status \<Rightarrow> task_tool" where
  "sample_tool status =
     (let tasks = [(''a'', sample_task ''a'' TaskPending [''b'']), (''b'', sample_task ''b'' status [])] in \<lparr>tt_tasks = tasks, tt_store = Some tasks\<rparr>)"

definition sample_task_env :: "bool \<Rightarrow> task_env" where
  "sample_task_env ok = \<lparr>te_new_id = ''n'', te_now = 1, te_disk_ok = ok\<rparr>"

definition set_call :: "string \<Rightarrow> string list \<Rightarrow> json" where
  "set_call i bs =
     JObject [(''operation'', JString ''set_dependencies''), (''task_id'', JString i), (''blockedBy'', JArray (map JString bs))]"

definition complete_call :: "string \<Rightarrow> json" where
  "complete_call i = JObject [(''operation'', JString ''complete''), (''task_id'', JString i)]"

lemma sample_acyclic: "acyclic (needs (tt_tasks (sample_tool status)))"
proof -
  have "needs (tt_tasks (sample_tool status)) = {(''a'', ''b'')}"
    by (simp add: needs_def blockers_of_def sample_tool_def sample_task_def Let_def set_eq_iff)
  moreover have "acyclic ({} :: (string \<times> string) set)" by (simp add: acyclic_def)
  ultimately show ?thesis by simp
qed

theorem tasks_never_deadlock_witness:
  "let s = snd (handle_complete (sample_task_env True) (complete_call ''b'') (sample_tool TaskPending)) in
   (\<forall>i. (i, i) \<notin> (needs (tt_tasks s))\<^sup>+) \<and> ready_tasks (tt_tasks s) \<noteq> []"
proof -
  let ?s = "snd (handle_complete (sample_task_env True) (complete_call ''b'') (sample_tool TaskPending))"
  have run: "task_step\<^sup>*\<^sup>* (sample_tool TaskPending, []) (?s, [])" by (rule r_into_rtranclp, rule completes)
  have tasks: "tt_tasks ?s = [(''b'', (sample_task ''b'' TaskCompleted [])\<lparr>tk_updated_at := 1\<rparr>), (''a'', sample_task ''a'' TaskPending [''b''])]"
    by code_simp
  have "blockers_known (tt_tasks ?s)" "\<exists>t \<in> snd ` set (tt_tasks ?s). unfinished t"
    unfolding tasks by (simp_all add: blockers_known_def sample_task_def)
  moreover have "distinct (map fst (tt_tasks (sample_tool TaskPending)))" by code_simp
  ultimately show ?thesis using tasks_never_deadlock [OF _ sample_acyclic run] unfolding Let_def by blast
qed

theorem blocked_task_waits_witness:
  "\<exists>t t'. map_of (tt_tasks (sample_tool TaskCompleted)) ''a'' = Some t \<and>
     map_of (tt_tasks (snd (task_execute (sample_task_env True) (complete_call ''a'') (sample_tool TaskCompleted)))) ''a'' = Some t' \<and>
     tk_status t = TaskPending \<and> tk_status t' = TaskCompleted \<and> tk_blocked_by t = [''b''] \<and>
     (\<forall>b \<in> set (tk_blocked_by t). \<exists>u. map_of (tt_tasks (sample_tool TaskCompleted)) b = Some u \<and> tk_status u = TaskCompleted)"
proof -
  let ?s = "sample_tool TaskCompleted" and ?t = "sample_task ''a'' TaskPending [''b'']"
  let ?r = "task_execute (sample_task_env True) (complete_call ''a'') ?s"
  have "map_of (tt_tasks ?s) (te_new_id (sample_task_env True)) = None" and t: "map_of (tt_tasks ?s) ''a'' = Some ?t"
    and t': "map_of (tt_tasks (snd ?r)) ''a'' = Some (?t\<lparr>tk_status := TaskCompleted, tk_updated_at := 1\<rparr>)"
    by code_simp+
  then have "\<forall>b \<in> set (tk_blocked_by ?t). \<exists>u. map_of (tt_tasks ?s) b = Some u \<and> tk_status u = TaskCompleted"
    using blocked_task_waits [of ?s "sample_task_env True" "complete_call ''a''" "fst ?r" "snd ?r" "''a''" ?t] by (simp add: sample_task_def)
  then show ?thesis using t t' by (intro exI [of _ ?t] exI [of _ "?t\<lparr>tk_status := TaskCompleted, tk_updated_at := 1\<rparr>"]) (simp add: sample_task_def)
qed

text \<open>
  The graph is acyclic in memory only. Saving a changed dependency may fail without an error, and after a
  restart the old dependency meets the new ones: two tasks wait for each other.
\<close>

definition restart_run :: "unit task_run" where
  "restart_run =
     bnd (task_execute (sample_task_env False) (set_call ''a'' [])) (\<lambda>_.
     bnd (task_execute (sample_task_env True) (set_call ''b'' [''a''])) (\<lambda>_.
     bnd (upd (\<lambda>s. s\<lparr>tt_tasks := []\<rparr>)) (\<lambda>_.
     load_from_store (sample_task_env True))))"

theorem restart_can_deadlock:
  "fst (restart_run (sample_tool TaskPending)) = Inr () \<and>
   (let all = tt_tasks (snd (restart_run (sample_tool TaskPending))) in
    (''a'', ''b'') \<in> needs all \<and> (''b'', ''a'') \<in> needs all \<and> ready_tasks all = [])"
proof -
  let ?r = "restart_run (sample_tool TaskPending)"
  have "fst ?r = Inr ()" by code_simp
  moreover have "blockers_of (tt_tasks (snd ?r)) ''a'' = [''b'']" "blockers_of (tt_tasks (snd ?r)) ''b'' = [''a'']"
    "ready_tasks (tt_tasks (snd ?r)) = []"
    by code_simp+
  ultimately show ?thesis by (simp add: needs_simps)
qed


text \<open>
  A completed task is never blocked, so it may be put in progress again although a blocker it was given since is
  open.
\<close>

theorem completed_task_reopens:
  "let s = \<lparr>tt_tasks = [(''a'', sample_task ''a'' TaskCompleted [''b'']), (''b'', sample_task ''b'' TaskPending [])], tt_store = None\<rparr>;
       call = JObject [(''operation'', JString ''update''), (''task_id'', JString ''a''), (''status'', JString ''in_progress'')];
       s' = snd (task_execute (sample_task_env True) call s) in
   map_option tk_status (map_of (tt_tasks s') ''a'') = Some TaskInProgress \<and> open_blocker (tt_tasks s') ''b''"
  by code_simp

end
