(* ===== verification/Chat_View.thy ===== *)
theory Chat_View
  imports Rust_Paths
begin

text \<open>
  What the agent loop sends to the model: the messages of \<open>api/types.rs\<close> with the two repairs of the
  pairing of tool calls and results, the compaction of \<open>agent/runtime/compaction.rs\<close>, and the part of
  \<open>agent/runtime/loop_.rs\<close> that builds the view of a round and decides whether to compact. Strings are bytes
  of UTF-8. Parsing JSON is a parameter, as is the summary a compactor returns. Sizes stay far below
  \<open>2\<^sup>6\<^sup>4\<close> and are natural numbers.
\<close>

section \<open>Messages\<close>

record chat_tool_call =
  tc_id :: string
  tc_type :: string
  tc_name :: string
  tc_arguments :: string

record chat_message =
  cm_role :: string
  cm_content :: "string option"
  cm_reasoning_content :: "string option"
  cm_tool_calls :: "chat_tool_call list option"
  cm_tool_call_id :: "string option"

definition msg_user :: "string \<Rightarrow> chat_message" where
  "msg_user content = \<lparr>cm_role = ''user'', cm_content = Some content, cm_reasoning_content = None, cm_tool_calls = None, cm_tool_call_id = None\<rparr>"

definition msg_assistant :: "string \<Rightarrow> chat_message" where
  "msg_assistant content = \<lparr>cm_role = ''assistant'', cm_content = Some content, cm_reasoning_content = None, cm_tool_calls = None, cm_tool_call_id = None\<rparr>"

definition msg_assistant_with_tools :: "chat_tool_call list \<Rightarrow> chat_message" where
  "msg_assistant_with_tools tool_calls =
     \<lparr>cm_role = ''assistant'', cm_content = None, cm_reasoning_content = None, cm_tool_calls = Some tool_calls, cm_tool_call_id = None\<rparr>"

definition msg_system :: "string \<Rightarrow> chat_message" where
  "msg_system content = \<lparr>cm_role = ''system'', cm_content = Some content, cm_reasoning_content = None, cm_tool_calls = None, cm_tool_call_id = None\<rparr>"

definition msg_tool :: "string \<Rightarrow> string \<Rightarrow> chat_message" where
  "msg_tool tool_call_id content =
     \<lparr>cm_role = ''tool'', cm_content = Some content, cm_reasoning_content = None, cm_tool_calls = None, cm_tool_call_id = Some tool_call_id\<rparr>"

abbreviation is_assistant :: "chat_message \<Rightarrow> bool" where
  "is_assistant m \<equiv> cm_role m = ''assistant''"

abbreviation is_tool :: "chat_message \<Rightarrow> bool" where
  "is_tool m \<equiv> cm_role m = ''tool''"

definition calls_of :: "chat_message \<Rightarrow> chat_tool_call list" where
  "calls_of m = (case cm_tool_calls m of Some tcs \<Rightarrow> tcs | None \<Rightarrow> [])"

section \<open>Repairing the pairing of calls and results\<close>

definition interrupted_tool_result :: string where
  "interrupted_tool_result = ''[Tool execution interrupted by user]''"

definition answered_ids :: "chat_message list \<Rightarrow> string set" where
  "answered_ids ms = set (List.map_filter cm_tool_call_id (filter is_tool ms))"

definition backfill :: "chat_tool_call list \<Rightarrow> string set \<Rightarrow> chat_message list" where
  "backfill tool_calls answered =
     map (\<lambda>tc. msg_tool (tc_id tc) interrupted_tool_result) (filter (\<lambda>tc. tc_id tc \<notin> answered) tool_calls)"

function sanitize_tool_call_pairing :: "chat_message list \<Rightarrow> chat_message list" where
  "sanitize_tool_call_pairing [] = []"
| "sanitize_tool_call_pairing (m # ms) =
     (if is_assistant m \<and> calls_of m \<noteq> []
      then let between = takeWhile (\<lambda>x. \<not> is_assistant x) ms in
           m # between @ backfill (calls_of m) (answered_ids between) @ sanitize_tool_call_pairing (dropWhile (\<lambda>x. \<not> is_assistant x) ms)
      else m # sanitize_tool_call_pairing ms)"
  by pat_completeness auto
termination by (relation "measure length") (auto simp: le_imp_less_Suc length_dropWhile_le)

definition demoted :: "chat_message \<Rightarrow> chat_message" where
  "demoted m = msg_user (''[Previous tool result, pairing lost on restore: '' @ (case cm_content m of Some c \<Rightarrow> c | None \<Rightarrow> []) @ '']'')"

fun demote_loop :: "string set \<Rightarrow> chat_message list \<Rightarrow> chat_message list" where
  "demote_loop pending [] = []"
| "demote_loop pending (m # ms) =
     (if is_assistant m then m # demote_loop (pending \<union> set (map tc_id (calls_of m))) ms
      else if is_tool m then
        (case cm_tool_call_id m of
           Some i \<Rightarrow> if i \<in> pending then m # demote_loop (pending - {i}) ms else demoted m # demote_loop pending ms
         | None \<Rightarrow> demoted m # demote_loop pending ms)
      else m # demote_loop pending ms)"

definition demote_orphan_tool_results :: "chat_message list \<Rightarrow> chat_message list" where
  "demote_orphan_tool_results ms = demote_loop {} ms"

section \<open>Compaction\<close>

definition micro_compact_keep_tool_results :: nat where "micro_compact_keep_tool_results = 3"

definition positions :: "(chat_message \<Rightarrow> bool) \<Rightarrow> chat_message list \<Rightarrow> nat list" where
  "positions P ms = filter (\<lambda>i. P (ms ! i)) [0..<length ms]"

definition split_for_compaction :: "chat_message list \<Rightarrow> chat_message list \<times> chat_message list" where
  "split_for_compaction history =
     (case positions is_assistant history of
        [] \<Rightarrow> (history, [])
      | is' \<Rightarrow> (take (last is') history, drop (last is') history))"

definition nl :: string where "nl = [CHR 0x0A]"

definition continue_note :: string where
  "continue_note = ''Conversation history was just compacted. Continue the current task using the summary above.''"

definition assemble_post_compaction_history :: "chat_message list \<Rightarrow> string \<Rightarrow> chat_message list \<Rightarrow> chat_message list" where
  "assemble_post_compaction_history system_messages summary tail =
     system_messages @
     [msg_system (''<previous_conversation_summary>'' @ nl @ summary @ nl @ ''</previous_conversation_summary>''), msg_user continue_note] @ tail"

definition opt_len :: "string option \<Rightarrow> nat" where
  "opt_len s = (case s of Some x \<Rightarrow> length x | None \<Rightarrow> 0)"

definition message_size :: "chat_message \<Rightarrow> nat" where
  "message_size m = opt_len (cm_content m) + opt_len (cm_reasoning_content m) + sum_list (map (length \<circ> tc_arguments) (calls_of m))"

definition request_size_chars :: "chat_message list \<Rightarrow> nat" where
  "request_size_chars ms = sum_list (map message_size ms)"

definition estimate_prompt_tokens :: "chat_message list \<Rightarrow> nat" where
  "estimate_prompt_tokens ms = request_size_chars ms div 4"

record calibration =
  cal_last_measured_tokens :: nat
  cal_last_request_chars :: nat

definition estimate_prompt_tokens_calibrated :: "chat_message list \<Rightarrow> nat \<Rightarrow> calibration option \<Rightarrow> nat" where
  "estimate_prompt_tokens_calibrated ms overhead cal =
     (let total_chars = request_size_chars ms + overhead in
      case cal of
        Some c \<Rightarrow> if 0 < cal_last_request_chars c then total_chars * cal_last_measured_tokens c div cal_last_request_chars c else total_chars div 4
      | None \<Rightarrow> total_chars div 4)"

definition needs_compaction :: "chat_message list \<Rightarrow> nat \<Rightarrow> nat \<Rightarrow> nat \<Rightarrow> calibration option \<Rightarrow> bool" where
  "needs_compaction ms context_window max_tokens overhead cal \<longleftrightarrow>
     context_window * 4 div 5 - max_tokens < estimate_prompt_tokens_calibrated ms overhead cal"

text \<open>The map from call ids to tool names: a later call with the same id wins.\<close>

definition call_names :: "chat_message list \<Rightarrow> string \<rightharpoonup> string" where
  "call_names ms = map_of (rev (map (\<lambda>tc. (tc_id tc, tc_name tc)) (concat (map calls_of (filter is_assistant ms)))))"

definition tool_name_of :: "(string \<rightharpoonup> string) \<Rightarrow> chat_message \<Rightarrow> string option" where
  "tool_name_of names m = Option.bind (cm_tool_call_id m) names"

definition reads_file :: "string option \<Rightarrow> bool" where
  "reads_file name \<longleftrightarrow> name = Some ''file_read'' \<or> name = Some ''read_file''"

definition marked :: "chat_message \<Rightarrow> string \<Rightarrow> chat_message" where
  "marked m marker =
     \<lparr>cm_role = ''tool'', cm_content = Some marker, cm_reasoning_content = None, cm_tool_calls = None, cm_tool_call_id = cm_tool_call_id m\<rparr>"

definition name_or_unknown :: "string option \<Rightarrow> string" where
  "name_or_unknown name = (case name of Some n \<Rightarrow> n | None \<Rightarrow> ''unknown tool'')"

definition micro_compact_messages :: "chat_message list \<Rightarrow> chat_message list" where
  "micro_compact_messages history =
     (let names = call_names history;
          tools = positions is_tool history;
          keep = set (drop (length tools - micro_compact_keep_tool_results) tools) in
      map (\<lambda>(i, m).
        if is_tool m \<and> i \<notin> keep \<and> \<not> reads_file (tool_name_of names m)
        then marked m (''[Previous: used '' @ name_or_unknown (tool_name_of names m) @ '']'')
        else m) (enumerate 0 history))"

definition ellipsis :: string where "ellipsis = [CHR 0xE2, CHR 0x80, CHR 0xA6]"

definition truncate_chars :: "string \<Rightarrow> nat \<Rightarrow> string" where
  "truncate_chars s max_len = (if chars_count s \<le> max_len then s else chars_take (max_len - 1) s @ ellipsis)"

text \<open>\<open>lines().next()\<close> of a string that is not empty.\<close>

definition first_line :: "string \<Rightarrow> string" where
  "first_line s =
     (let line = takeWhile (\<lambda>c. c \<noteq> CHR 0x0A) s in
      if line \<noteq> s \<and> line \<noteq> [] \<and> last line = CHR 0x0D then butlast line else line)"

definition envelope_error :: "json \<Rightarrow> string option" where
  "envelope_error v =
     (if Option.bind (json_get v ''success'') as_bool = Some False
      then Option.bind (json_get v ''error'') (\<lambda>err. case Option.bind (json_get err ''message'') as_str of Some msg \<Rightarrow> Some msg | None \<Rightarrow> as_str err)
      else None)"

definition sniff_tool_error :: "(string \<Rightarrow> json option) \<Rightarrow> string \<Rightarrow> string option" where
  "sniff_tool_error parse content =
     (case Option.bind (parse content) envelope_error of
        Some msg \<Rightarrow> Some msg
      | None \<Rightarrow>
          (let trimmed = trim_start content in
           if prefix (''Tool '' @ [CHR 0x27]) trimmed \<and> contains_str '' blocked by hook: '' trimmed then Some (first_line trimmed) else None))"

definition error_head_marker :: "(string \<Rightarrow> json option) \<Rightarrow> string option \<Rightarrow> string \<Rightarrow> string" where
  "error_head_marker parse tool_name content =
     (case sniff_tool_error parse content of
        Some err \<Rightarrow> ''[Previous: used '' @ name_or_unknown tool_name @ ''; error: '' @ truncate_chars err 200 @ '']''
      | None \<Rightarrow> ''[Previous: used '' @ name_or_unknown tool_name @ '']'')"

text \<open>With nothing to keep, the position looked up is past the last one: the call panics.\<close>

definition advance_frontier :: "chat_message list \<Rightarrow> nat \<Rightarrow> nat option" where
  "advance_frontier ms keep =
     (let tools = positions is_tool ms in
      if length tools \<le> keep then Some 0 else if keep = 0 then None else Some (tools ! (length tools - keep)))"

definition compact_frontier_segment :: "(string \<Rightarrow> json option) \<Rightarrow> chat_message list \<Rightarrow> chat_message list" where
  "compact_frontier_segment parse segment =
     (let names = call_names segment in
      map (\<lambda>m.
        if \<not> is_tool m \<or> reads_file (tool_name_of names m) then m
        else marked m (error_head_marker parse (tool_name_of names m) (case cm_content m of Some c \<Rightarrow> c | None \<Rightarrow> []))) segment)"

definition build_request_tail :: "(string \<Rightarrow> json option) \<Rightarrow> chat_message list \<Rightarrow> nat \<Rightarrow> nat \<Rightarrow> chat_message list" where
  "build_request_tail parse raw boundary0 frontier0 =
     (let boundary = min boundary0 (length raw); frontier = min (max frontier0 boundary) (length raw) in
      if frontier = boundary then drop boundary raw
      else compact_frontier_segment parse (drop boundary (take frontier raw)) @ drop frontier raw)"

section \<open>The view of a round\<close>

record loop_config =
  lc_context_window :: nat
  lc_max_tokens :: nat

record loop_state =
  ls_compact_requested :: bool
  ls_compaction_failed :: bool
  ls_compacted_summary :: string
  ls_compaction_boundary :: nat
  ls_micro_compact_frontier :: nat
  ls_last_measured_prompt_tokens :: "nat option"
  ls_last_request_chars :: "nat option"
  ls_micro_compact_attempted :: bool

definition build_calibration :: "loop_state \<Rightarrow> calibration option" where
  "build_calibration st =
     (case (ls_last_measured_prompt_tokens st, ls_last_request_chars st) of
        (Some tokens, Some chars) \<Rightarrow> if 0 < chars then Some \<lparr>cal_last_measured_tokens = tokens, cal_last_request_chars = chars\<rparr> else None
      | _ \<Rightarrow> None)"

definition build_view ::
    "(string \<Rightarrow> json option) \<Rightarrow> chat_message list \<Rightarrow> chat_message list \<Rightarrow> nat \<Rightarrow> string \<Rightarrow> nat \<Rightarrow> chat_message list" where
  "build_view parse system_messages raw boundary summary frontier =
     (let tail_msgs = build_request_tail parse raw boundary frontier in
      if summary = [] then system_messages @ tail_msgs else assemble_post_compaction_history system_messages summary tail_msgs)"

definition repair :: "chat_message list \<Rightarrow> chat_message list" where
  "repair ms = sanitize_tool_call_pairing (demote_orphan_tool_results ms)"

definition round_view ::
    "(string \<Rightarrow> json option) \<Rightarrow> loop_config \<Rightarrow> nat \<Rightarrow> chat_message list \<Rightarrow> chat_message list \<Rightarrow> loop_state \<Rightarrow> chat_message list \<times> loop_state" where
  "round_view parse config overhead system_messages raw st =
     (let boundary = min (ls_compaction_boundary st) (length raw);
          watermark = lc_context_window config * 3 div 5 - lc_max_tokens config;
          frontier = min (max (ls_micro_compact_frontier st) boundary) (length raw);
          view = build_view parse system_messages raw boundary (ls_compacted_summary st);
          advanced = (case advance_frontier raw micro_compact_keep_tool_results of Some n \<Rightarrow> n | None \<Rightarrow> 0) in
      if watermark < estimate_prompt_tokens_calibrated (view frontier) overhead (build_calibration st) \<and> frontier < advanced
      then (repair (view advanced), st\<lparr>ls_micro_compact_frontier := advanced\<rparr>)
      else (repair (view frontier), st))"

text \<open>
  What the loop does next: send the messages, or compact and start the round again. The compactor is
  absent, or returns a summary or none; it does not change the history.
\<close>

datatype next_action = Send "chat_message list" | CompactedAgain

definition round_compact ::
    "(string \<Rightarrow> json option) \<Rightarrow> loop_config \<Rightarrow> nat \<Rightarrow> chat_message list \<Rightarrow> chat_message list \<Rightarrow> string option option \<Rightarrow>
     chat_message list \<Rightarrow> loop_state \<Rightarrow> next_action \<times> loop_state" where
  "round_compact parse config overhead system_messages raw compactor messages st =
     (let cal = build_calibration st;
          too_large = (\<lambda>ms. needs_compaction ms (lc_context_window config) (lc_max_tokens config) overhead cal);
          want_compact = ls_compact_requested st \<or> too_large messages;
          st0 = st\<lparr>ls_compact_requested := False\<rparr> in
      if want_compact \<and> \<not> ls_compaction_failed st0 then
        (case compactor of
           Some (Some summary) \<Rightarrow>
             if is_blank summary then (Send messages, st0\<lparr>ls_compaction_failed := True\<rparr>)
             else
               let new_boundary = length (fst (split_for_compaction raw));
                   frontier = min (max (ls_micro_compact_frontier st0) new_boundary) (length raw);
                   view = assemble_post_compaction_history system_messages summary (build_request_tail parse raw new_boundary frontier)
               in (CompactedAgain, st0\<lparr>ls_compaction_boundary := new_boundary, ls_compacted_summary := summary,
                     ls_micro_compact_frontier := frontier, ls_compaction_failed := too_large view\<rparr>)
         | _ \<Rightarrow> (Send messages, st0\<lparr>ls_compaction_failed := True\<rparr>))
      else (Send messages, st0))"

definition round_start ::
    "(string \<Rightarrow> json option) \<Rightarrow> loop_config \<Rightarrow> nat \<Rightarrow> chat_message list \<Rightarrow> chat_message list \<Rightarrow> string option option \<Rightarrow>
     loop_state \<Rightarrow> next_action \<times> loop_state" where
  "round_start parse config overhead system_messages raw compactor st =
     (let (messages, st') = round_view parse config overhead system_messages raw st in
      round_compact parse config overhead system_messages raw compactor messages st')"

section \<open>The fallback after a refused request\<close>

definition is_payload_too_large_error :: "string \<Rightarrow> bool" where
  "is_payload_too_large_error err =
     (let lower = map to_ascii_lower err in
      contains_str ''413'' lower \<or> contains_str ''payload too large'' lower \<or> contains_str ''length limit exceeded'' lower \<or>
      contains_str ''body limit'' lower \<or> contains_str ''request body too large'' lower)"

definition fallback_micro_compact :: "chat_message list \<Rightarrow> bool \<times> chat_message list" where
  "fallback_micro_compact history =
     (let micro = micro_compact_messages history in
      if request_size_chars micro < request_size_chars history then (True, micro) else (False, history))"

definition send_failed :: "string \<Rightarrow> chat_message list \<Rightarrow> loop_state \<Rightarrow> bool \<times> chat_message list \<times> loop_state" where
  "send_failed err history st =
     (if is_payload_too_large_error err \<and> \<not> ls_micro_compact_attempted st
      then (case fallback_micro_compact history of
              (True, micro) \<Rightarrow> (True, micro, st\<lparr>ls_micro_compact_attempted := True\<rparr>)
            | (False, h) \<Rightarrow> (False, h, st))
      else (False, history, st))"

end
