(* ===== verification/Chat_Pairing.thy ===== *)
theory Chat_Pairing
  imports Chat_View
begin

text \<open>
  What holds of the messages the loop sends: calls and results are paired, compaction keeps the shape
  of the conversation and everything recent, and compacting ends.
\<close>

section \<open>Pairing\<close>

definition issued :: "chat_message \<Rightarrow> string set" where
  "issued m = (if is_assistant m then tc_id ` set (calls_of m) else {})"

definition all_issued :: "chat_message list \<Rightarrow> string set" where
  "all_issued ms = (\<Union>m \<in> set ms. issued m)"

text \<open>Every tool result answers a call issued before it; every call is answered before the next message of the assistant.\<close>

definition results_matched :: "chat_message list \<Rightarrow> bool" where
  "results_matched ms \<longleftrightarrow> (\<forall>k < length ms. is_tool (ms ! k) \<longrightarrow> (\<exists>i. cm_tool_call_id (ms ! k) = Some i \<and> i \<in> all_issued (take k ms)))"

definition calls_answered :: "chat_message list \<Rightarrow> bool" where
  "calls_answered ms \<longleftrightarrow> (\<forall>k < length ms. issued (ms ! k) \<subseteq> answered_ids (takeWhile (\<lambda>x. \<not> is_assistant x) (drop (Suc k) ms)))"

text \<open>The same by recursion, the ids issued so far as an argument.\<close>

fun matched_from :: "string set \<Rightarrow> chat_message list \<Rightarrow> bool" where
  "matched_from K [] = True"
| "matched_from K (m # ms) = ((is_tool m \<longrightarrow> (\<exists>i \<in> K. cm_tool_call_id m = Some i)) \<and> matched_from (K \<union> issued m) ms)"

fun answered_from :: "chat_message list \<Rightarrow> bool" where
  "answered_from [] = True"
| "answered_from (m # ms) = (issued m \<subseteq> answered_ids (takeWhile (\<lambda>x. \<not> is_assistant x) ms) \<and> answered_from ms)"

lemma all_issued_simps [simp]:
  "all_issued [] = {}" "all_issued (m # ms) = issued m \<union> all_issued ms" "all_issued (xs @ ys) = all_issued xs \<union> all_issued ys"
  by (auto simp: all_issued_def)

lemma issued_not_assistant [simp]: "\<not> is_assistant m \<Longrightarrow> issued m = {}"
  by (simp add: issued_def)

lemma matched_from_nth:
  "matched_from K ms \<longleftrightarrow> (\<forall>k < length ms. is_tool (ms ! k) \<longrightarrow> (\<exists>i. cm_tool_call_id (ms ! k) = Some i \<and> i \<in> K \<union> all_issued (take k ms)))"
  by (induction ms arbitrary: K) (auto simp: All_less_Suc2 Bex_def Un_assoc)

lemma results_matched_iff: "results_matched ms \<longleftrightarrow> matched_from {} ms"
  by (simp add: results_matched_def matched_from_nth)

lemma calls_answered_iff: "calls_answered ms \<longleftrightarrow> answered_from ms"
proof (induction ms)
  case (Cons m ms)
  then show ?case by (simp add: calls_answered_def All_less_Suc2)
qed (simp add: calls_answered_def)

lemma matched_from_append: "matched_from K (xs @ ys) \<longleftrightarrow> matched_from K xs \<and> matched_from (K \<union> all_issued xs) ys"
  by (induction xs arbitrary: K) (auto simp: Un_assoc)

lemma answered_from_append: "\<forall>x \<in> set xs. \<not> is_assistant x \<Longrightarrow> answered_from (xs @ ys) \<longleftrightarrow> answered_from ys"
  by (induction xs) auto

lemma answered_ids_append [simp]: "answered_ids (xs @ ys) = answered_ids xs \<union> answered_ids ys"
  by (auto simp: answered_ids_def List.map_filter_def)

section \<open>The repairs\<close>

lemma demoted_role [simp]: "cm_role (demoted m) = ''user''"
  by (simp add: demoted_def msg_user_def)

lemma demote_matched: "pending \<subseteq> K \<Longrightarrow> matched_from K (demote_loop pending ms)"
proof (induction ms arbitrary: pending K)
  case (Cons m ms)
  consider "is_assistant m" | i where "is_tool m" "cm_tool_call_id m = Some i" "i \<in> pending"
    | "is_tool m" "\<forall>i. cm_tool_call_id m = Some i \<longrightarrow> i \<notin> pending" | "\<not> is_assistant m" "\<not> is_tool m" by blast
  then show ?case
  proof cases
    case 1
    then show ?thesis using Cons.IH [of "pending \<union> issued m" "K \<union> issued m"] Cons.prems by (auto simp: issued_def)
  next
    case (2 i)
    then show ?thesis using Cons.IH [of "pending - {i}" K] Cons.prems by auto
  next
    case 3
    then show ?thesis using Cons.IH [of pending K] Cons.prems by (auto split: option.split)
  next
    case 4
    then show ?thesis using Cons.IH [of pending K] Cons.prems by simp
  qed
qed simp

lemma backfill_facts:
  "\<forall>x \<in> set (backfill tcs A). is_tool x \<and> (\<exists>i \<in> tc_id ` set tcs. cm_tool_call_id x = Some i)"
  "answered_ids (backfill tcs A) = tc_id ` set tcs - A"
  by (auto simp: backfill_def msg_tool_def answered_ids_def List.map_filter_def)

lemma matched_from_tools:
  "\<forall>x \<in> set xs. is_tool x \<and> (\<exists>i \<in> K. cm_tool_call_id x = Some i) \<Longrightarrow> matched_from K xs \<and> all_issued xs = {}"
  by (induction xs) auto

lemma sanitize_matched: "matched_from K ms \<Longrightarrow> matched_from K (sanitize_tool_call_pairing ms)"
proof (induction ms arbitrary: K rule: sanitize_tool_call_pairing.induct)
  case (2 m ms)
  let ?tw = "takeWhile (\<lambda>x. \<not> is_assistant x) ms" and ?dw = "dropWhile (\<lambda>x. \<not> is_assistant x) ms"
  show ?case
  proof (cases "is_assistant m \<and> calls_of m \<noteq> []")
    case True
    have "matched_from (K \<union> issued m) (?tw @ ?dw)" using "2.prems" True by simp
    then have parts: "matched_from (K \<union> issued m) ?tw" "matched_from (K \<union> issued m \<union> all_issued ?tw) ?dw" by (simp_all only: matched_from_append)
    let ?fill = "backfill (calls_of m) (answered_ids ?tw)"
    have "matched_from (K \<union> issued m \<union> all_issued ?tw) ?fill \<and> all_issued ?fill = {}"
      using backfill_facts(1) [of "calls_of m" "answered_ids ?tw"] True by (intro matched_from_tools) (auto simp: issued_def)
    moreover
    have "matched_from (K \<union> issued m \<union> all_issued ?tw) (sanitize_tool_call_pairing ?dw)" using "2.IH"(1) [OF True refl] parts(2) by blast
    ultimately show ?thesis using True parts(1) by (simp add: matched_from_append Let_def)
  next
    case False
    then show ?thesis using "2.IH"(2) "2.prems" by auto
  qed
qed simp

lemma sanitize_answered: "answered_from (sanitize_tool_call_pairing ms)"
proof (induction ms rule: sanitize_tool_call_pairing.induct)
  case (2 m ms)
  let ?tw = "takeWhile (\<lambda>x. \<not> is_assistant x) ms" and ?dw = "dropWhile (\<lambda>x. \<not> is_assistant x) ms"
  show ?case
  proof (cases "is_assistant m \<and> calls_of m \<noteq> []")
    case True
    let ?fill = "backfill (calls_of m) (answered_ids ?tw)"
    have "\<not> is_assistant x" if "x \<in> set ?fill" for x using backfill_facts(1) that by fastforce
    moreover have "\<not> is_assistant x" if "x \<in> set ?tw" for x using set_takeWhileD [OF that] by simp
    ultimately have quiet: "\<forall>x \<in> set (?tw @ ?fill). \<not> is_assistant x" by (metis UnE set_append)
    have first: "takeWhile (\<lambda>x. \<not> is_assistant x) ((?tw @ ?fill) @ sanitize_tool_call_pairing ?dw) =
        (?tw @ ?fill) @ takeWhile (\<lambda>x. \<not> is_assistant x) (sanitize_tool_call_pairing ?dw)"
      using quiet by (intro takeWhile_append2) blast
    have "issued m \<subseteq> answered_ids (?tw @ ?fill)" using True by (simp add: issued_def backfill_facts(2))
    then have "issued m \<subseteq> answered_ids (takeWhile (\<lambda>x. \<not> is_assistant x) ((?tw @ ?fill) @ sanitize_tool_call_pairing ?dw))"
      unfolding first answered_ids_append by blast
    moreover have "answered_from ((?tw @ ?fill) @ sanitize_tool_call_pairing ?dw)"
      using "2.IH"(1) [OF True refl] answered_from_append [OF quiet] by blast
    ultimately show ?thesis using True by (simp add: Let_def)
  next
    case False
    then have "issued m = {}" by (auto simp: issued_def)
    then show ?thesis using False "2.IH"(2) by auto
  qed
qed simp

lemma repair_paired: "results_matched (repair ms)" "calls_answered (repair ms)"
  by (simp_all add: results_matched_iff calls_answered_iff repair_def demote_orphan_tool_results_def demote_matched sanitize_matched sanitize_answered)


section \<open>Where the repairs do nothing\<close>

fun paired_from :: "string set \<Rightarrow> chat_message list \<Rightarrow> bool" where
  "paired_from pending [] = True"
| "paired_from pending (m # ms) =
     (if is_tool m then (case cm_tool_call_id m of Some i \<Rightarrow> i \<in> pending \<and> paired_from (pending - {i}) ms | None \<Rightarrow> False)
      else paired_from (pending \<union> issued m) ms)"

definition well_paired :: "chat_message list \<Rightarrow> bool" where
  "well_paired ms \<longleftrightarrow> paired_from {} ms \<and> answered_from ms"

definition plain :: "chat_message \<Rightarrow> bool" where
  "plain m \<longleftrightarrow> \<not> is_assistant m \<and> \<not> is_tool m"

lemma demote_noop: "paired_from pending ms \<Longrightarrow> demote_loop pending ms = ms"
  by (induction pending ms rule: paired_from.induct) (auto simp: issued_def split: option.splits if_splits)

lemma sanitize_noop: "answered_from ms \<Longrightarrow> sanitize_tool_call_pairing ms = ms"
proof (induction ms rule: sanitize_tool_call_pairing.induct)
  case (2 m ms)
  let ?tw = "takeWhile (\<lambda>x. \<not> is_assistant x) ms" and ?dw = "dropWhile (\<lambda>x. \<not> is_assistant x) ms"
  show ?case
  proof (cases "is_assistant m \<and> calls_of m \<noteq> []")
    case True
    have "answered_from (?tw @ ?dw)" using "2.prems" by simp
    moreover have "\<not> is_assistant x" if "x \<in> set ?tw" for x using set_takeWhileD [OF that] by simp
    ultimately have "answered_from ?dw" using answered_from_append [of ?tw ?dw] by blast
    moreover have "backfill (calls_of m) (answered_ids ?tw) = []"
      using "2.prems" True by (simp add: backfill_def issued_def image_subset_iff filter_empty_conv)
    ultimately show ?thesis using "2.IH"(1) [OF True refl] True by (simp add: Let_def)
  next
    case False
    then show ?thesis using "2.IH"(2) "2.prems" by auto
  qed
qed simp

lemma repair_noop: "well_paired ms \<Longrightarrow> repair ms = ms"
  by (simp add: well_paired_def repair_def demote_orphan_tool_results_def demote_noop sanitize_noop)

lemma repair_plain: "\<forall>m \<in> set xs. plain m \<Longrightarrow> repair (xs @ ys) = xs @ repair ys"
  by (induction xs) (simp_all add: repair_def demote_orphan_tool_results_def plain_def)

lemma well_paired_plain: "\<forall>m \<in> set xs. plain m \<Longrightarrow> well_paired (xs @ ys) \<longleftrightarrow> well_paired ys"
  by (induction xs) (simp_all add: well_paired_def plain_def)

section \<open>The shape of the conversation\<close>

definition same_shape :: "chat_message \<Rightarrow> chat_message \<Rightarrow> bool" where
  "same_shape x y \<longleftrightarrow> y = x \<or> is_tool x \<and> (\<exists>marker. y = marked x marker)"

lemma same_shapeD:
  assumes "same_shape x y"
  shows "cm_role y = cm_role x" "cm_tool_call_id y = cm_tool_call_id x" "issued y = issued x"
  using assms by (auto simp: same_shape_def marked_def issued_def)

lemma compact_segment_shape: "list_all2 same_shape segment (compact_frontier_segment parse segment)"
  by (auto simp: compact_frontier_segment_def Let_def list_all2_conv_all_nth same_shape_def)

lemma micro_compact_shape: "list_all2 same_shape history (micro_compact_messages history)"
  by (auto simp: micro_compact_messages_def Let_def list_all2_conv_all_nth same_shape_def nth_enumerate_eq)

lemma request_tail_shape: "list_all2 same_shape (drop boundary raw) (build_request_tail parse raw boundary frontier)"
proof (cases "min (max frontier (min boundary (length raw))) (length raw) = min boundary (length raw)")
  case True
  then show ?thesis by (cases "boundary \<le> length raw") (auto simp: build_request_tail_def Let_def same_shape_def list_all2_refl min_def)
next
  case False
  then have b: "boundary < length raw" "boundary < frontier" by (auto simp: min_def max_def split: if_splits)
  let ?f = "min frontier (length raw)"
  have "drop boundary raw = drop boundary (take ?f raw) @ drop ?f raw"
    using b by (metis append_take_drop_id diff_is_0_eq' drop0 drop_append length_take less_imp_le min.absorb4 min.commute min_less_iff_conj)
  moreover have "build_request_tail parse raw boundary frontier = compact_frontier_segment parse (drop boundary (take ?f raw)) @ drop ?f raw"
    using b by (simp add: build_request_tail_def Let_def min_def max_def)
  ultimately show ?thesis using compact_segment_shape by (auto intro!: list_all2_appendI simp: list_all2_refl same_shape_def)
qed

lemma answered_ids_Cons:
  "answered_ids (m # ms) = (if is_tool m then set_option (cm_tool_call_id m) else {}) \<union> answered_ids ms"
  by (simp add: answered_ids_def map_filter_simps split: option.split)

lemma takeWhile_shape: "list_all2 same_shape xs ys \<Longrightarrow> answered_ids (takeWhile (\<lambda>x. \<not> is_assistant x) ys) = answered_ids (takeWhile (\<lambda>x. \<not> is_assistant x) xs)"
  by (induction rule: list_all2_induct) (simp_all add: answered_ids_Cons same_shapeD)

lemma paired_from_shape: "list_all2 same_shape xs ys \<Longrightarrow> paired_from pending ys \<longleftrightarrow> paired_from pending xs"
  by (induction arbitrary: pending rule: list_all2_induct) (simp_all add: same_shapeD split: option.split)

lemma answered_from_shape: "list_all2 same_shape xs ys \<Longrightarrow> answered_from ys \<longleftrightarrow> answered_from xs"
  by (induction rule: list_all2_induct) (simp_all add: same_shapeD takeWhile_shape)

lemma well_paired_shape: "list_all2 same_shape xs ys \<Longrightarrow> well_paired ys \<longleftrightarrow> well_paired xs"
  by (simp add: well_paired_def paired_from_shape answered_from_shape)


section \<open>Requests\<close>

abbreviation system_only :: "chat_message list \<Rightarrow> bool" where
  "system_only ms \<equiv> \<forall>m \<in> set ms. cm_role m = ''system''"

lemma plain_system: "system_only ms \<Longrightarrow> m \<in> set ms \<Longrightarrow> plain m"
  by (simp add: plain_def)

lemma plain_head: "system_only sys \<Longrightarrow> m \<in> set (sys @ [msg_system a, msg_user b]) \<Longrightarrow> plain m"
  by (auto simp: plain_def msg_system_def msg_user_def)

lemma assemble_append:
  "assemble_post_compaction_history sys summary tail = (sys @ [msg_system (''<previous_conversation_summary>'' @ nl @ summary @ nl @ ''</previous_conversation_summary>''), msg_user continue_note]) @ tail"
  by (simp add: assemble_post_compaction_history_def)

lemma repair_assemble:
  "system_only sys \<Longrightarrow> repair (assemble_post_compaction_history sys summary tail) = assemble_post_compaction_history sys summary (repair tail)"
  unfolding assemble_append by (rule repair_plain) (blast intro: plain_head)

lemma round_view_repair: "\<exists>frontier. fst (round_view parse config overhead sys raw st) =
    repair (build_view parse sys raw (min (ls_compaction_boundary st) (length raw)) (ls_compacted_summary st) frontier)"
  by (auto simp: round_view_def Let_def)

lemma round_start_Send: "round_start parse config overhead sys raw compactor st = (Send ms, st') \<Longrightarrow> ms = fst (round_view parse config overhead sys raw st)"
  by (auto simp: round_start_def round_compact_def Let_def split: prod.splits if_splits option.splits)

text \<open>
  C13: Calls and results are paired in every request. Whatever the history, interrupted or restored from an old
  session included, every tool result that is sent answers a call sent before it, and every call is answered before the
  next message of the assistant. After a compaction, when the prompt consists of system messages, the first message that is not one is the
  user's.
\<close>

theorem request_well_formed:
  assumes "round_start parse config overhead sys raw compactor st = (Send ms, st')"
  shows "results_matched ms \<and> calls_answered ms \<and>
    (system_only sys \<and> ls_compacted_summary st \<noteq> [] \<longrightarrow> (\<exists>pre post. ms = pre @ msg_user continue_note # post \<and> system_only pre))"
proof -
  obtain frontier where ms: "ms = repair (build_view parse sys raw (min (ls_compaction_boundary st) (length raw)) (ls_compacted_summary st) frontier)"
    using round_start_Send [OF assms] round_view_repair by metis
  have "\<exists>pre post. ms = pre @ msg_user continue_note # post \<and> system_only pre" if "system_only sys" "ls_compacted_summary st \<noteq> []"
  proof -
    let ?s = "msg_system (''<previous_conversation_summary>'' @ nl @ ls_compacted_summary st @ nl @ ''</previous_conversation_summary>'')"
    have "\<exists>tail. ms = assemble_post_compaction_history sys (ls_compacted_summary st) tail"
      using that repair_assemble [OF that(1)] by (auto simp: ms build_view_def Let_def)
    then obtain tail where "ms = (sys @ [?s]) @ msg_user continue_note # tail" by (auto simp: assemble_append)
    then show ?thesis using that(1) by (intro exI [of _ "sys @ [?s]"] exI [of _ tail]) (simp add: msg_system_def)
  qed
  then show ?thesis using repair_paired by (simp add: ms)
qed

section \<open>Compacting ends\<close>

definition boundary_of :: "chat_message list \<Rightarrow> nat" where
  "boundary_of raw = length (fst (split_for_compaction raw))"

definition compacted_view :: "(string \<Rightarrow> json option) \<Rightarrow> chat_message list \<Rightarrow> chat_message list \<Rightarrow> string \<Rightarrow> nat \<Rightarrow> chat_message list" where
  "compacted_view parse sys raw summary frontier =
     assemble_post_compaction_history sys summary (build_request_tail parse raw (boundary_of raw) frontier)"

definition advanced_of :: "chat_message list \<Rightarrow> nat" where
  "advanced_of raw = (case advance_frontier raw micro_compact_keep_tool_results of Some n \<Rightarrow> n | None \<Rightarrow> 0)"

definition over :: "loop_config \<Rightarrow> nat \<Rightarrow> loop_state \<Rightarrow> chat_message list \<Rightarrow> bool" where
  "over config overhead st ms \<longleftrightarrow> needs_compaction ms (lc_context_window config) (lc_max_tokens config) overhead (build_calibration st)"

text \<open>The state after a compaction: what it knows of the view it made.\<close>

definition compacted :: "(string \<Rightarrow> json option) \<Rightarrow> loop_config \<Rightarrow> nat \<Rightarrow> chat_message list \<Rightarrow> chat_message list \<Rightarrow> loop_state \<Rightarrow> bool" where
  "compacted parse config overhead sys raw st \<longleftrightarrow>
     \<not> ls_compact_requested st \<and> ls_compacted_summary st \<noteq> [] \<and> ls_compaction_boundary st = boundary_of raw \<and>
     boundary_of raw \<le> ls_micro_compact_frontier st \<and> ls_micro_compact_frontier st \<le> length raw \<and>
     (ls_compaction_failed st \<or> \<not> over config overhead st (compacted_view parse sys raw (ls_compacted_summary st) (ls_micro_compact_frontier st)))"

lemma boundary_le: "boundary_of raw \<le> length raw"
  by (auto simp: boundary_of_def split_for_compaction_def split: list.split)

lemma advanced_le: "advanced_of raw \<le> length raw"
proof -
  have "n \<le> length raw" if "n \<in> set (positions is_tool raw)" for n using that by (auto simp: positions_def)
  then show ?thesis by (auto simp: advanced_of_def advance_frontier_def Let_def micro_compact_keep_tool_results_def)
qed

lemma is_blank_nonempty: "is_blank []"
  by code_simp

lemma calibration_kept:
  "build_calibration (st\<lparr>ls_micro_compact_frontier := f\<rparr>) = build_calibration st"
  "build_calibration (st\<lparr>ls_compact_requested := r\<rparr>) = build_calibration st"
  "build_calibration (st\<lparr>ls_compaction_boundary := b\<rparr>) = build_calibration st"
  "build_calibration (st\<lparr>ls_compacted_summary := u\<rparr>) = build_calibration st"
  "build_calibration (st\<lparr>ls_compaction_failed := d\<rparr>) = build_calibration st"
  by (simp_all add: build_calibration_def)

lemma round_start_CompactedAgain:
  assumes "round_start parse config overhead sys raw compactor st = (CompactedAgain, st')"
  shows "compacted parse config overhead sys raw st'" "\<not> ls_compaction_failed st"
    "ls_micro_compact_frontier st' = min (max (ls_micro_compact_frontier (snd (round_view parse config overhead sys raw st))) (boundary_of raw)) (length raw)"
    "ls_compact_requested st \<or> over config overhead st (fst (round_view parse config overhead sys raw st))"
proof -
  have cal: "build_calibration (snd (round_view parse config overhead sys raw st)) = build_calibration st"
    "ls_compaction_failed (snd (round_view parse config overhead sys raw st)) = ls_compaction_failed st"
    "ls_compact_requested (snd (round_view parse config overhead sys raw st)) = ls_compact_requested st"
    by (simp_all add: round_view_def Let_def calibration_kept)
  obtain ms st1 where v: "round_view parse config overhead sys raw st = (ms, st1)" by fastforce
  have run: "round_compact parse config overhead sys raw compactor ms st1 = (CompactedAgain, st')"
    using assms v by (simp add: round_start_def)
  show "\<not> ls_compaction_failed st" "ls_compact_requested st \<or> over config overhead st (fst (round_view parse config overhead sys raw st))"
    using run cal v by (auto simp: round_compact_def over_def Let_def split: if_splits option.splits)
  show "ls_micro_compact_frontier st' = min (max (ls_micro_compact_frontier (snd (round_view parse config overhead sys raw st))) (boundary_of raw)) (length raw)"
    using run v by (auto simp: round_compact_def boundary_of_def Let_def split: if_splits option.splits)
  show "compacted parse config overhead sys raw st'"
    using run boundary_le [of raw]
    by (auto simp: round_compact_def compacted_def over_def compacted_view_def boundary_of_def calibration_kept Let_def is_blank_nonempty
        split: if_splits option.splits)
qed


text \<open>In such a state the next round sends, unless the frontier advances.\<close>

lemma compacted_view_repair:
  assumes "system_only sys" "well_paired (drop (boundary_of raw) raw)"
  shows "repair (compacted_view parse sys raw summary frontier) = compacted_view parse sys raw summary frontier"
proof -
  have "well_paired (build_request_tail parse raw (boundary_of raw) frontier)" using well_paired_shape [OF request_tail_shape] assms(2) by blast
  then show ?thesis by (simp add: compacted_view_def repair_assemble [OF assms(1)] repair_noop)
qed

lemma compacted_round:
  assumes "compacted parse config overhead sys raw st" "system_only sys" "well_paired (drop (boundary_of raw) raw)"
  shows "round_view parse config overhead sys raw st =
      (compacted_view parse sys raw (ls_compacted_summary st) (ls_micro_compact_frontier st), st) \<or>
    ls_micro_compact_frontier st < advanced_of raw \<and> ls_micro_compact_frontier (snd (round_view parse config overhead sys raw st)) = advanced_of raw"
proof -
  have "build_view parse sys raw (boundary_of raw) (ls_compacted_summary st) = compacted_view parse sys raw (ls_compacted_summary st)"
    using assms(1) by (auto simp: build_view_def compacted_view_def compacted_def fun_eq_iff)
  then show ?thesis using assms(1) boundary_le [of raw]
    by (auto simp: round_view_def compacted_def Let_def advanced_of_def compacted_view_repair [OF assms(2,3)])
qed

lemma compacted_settles:
  assumes "compacted parse config overhead sys raw st" "system_only sys" "well_paired (drop (boundary_of raw) raw)" "\<not> ls_micro_compact_frontier st < advanced_of raw"
  shows "fst (round_start parse config overhead sys raw compactor st) \<noteq> CompactedAgain"
proof
  assume "fst (round_start parse config overhead sys raw compactor st) = CompactedAgain"
  then have again: "round_start parse config overhead sys raw compactor st = (CompactedAgain, snd (round_start parse config overhead sys raw compactor st))" by (metis prod.collapse)
  have "round_view parse config overhead sys raw st = (compacted_view parse sys raw (ls_compacted_summary st) (ls_micro_compact_frontier st), st)"
    using compacted_round [OF assms(1-3)] assms(4) by blast
  then show False using round_start_CompactedAgain(2,4) [OF again] assms(1) by (auto simp: compacted_def)
qed

text \<open>
  C15: Compacting ends. When the calls of the last exchange are answered and the prompt consists of system
  messages, the loop compacts at most twice before it sends a request, whatever the compactor returns.
\<close>

theorem compaction_settles:
  assumes "system_only sys" "well_paired (drop (length (fst (split_for_compaction raw))) raw)"
    and "round_start parse config overhead sys raw c1 st = (CompactedAgain, st1)"
    and "round_start parse config overhead sys raw c2 st1 = (CompactedAgain, st2)"
  shows "\<exists>ms. fst (round_start parse config overhead sys raw c3 st2) = Send ms"
proof -
  note paired = assms(2) [folded boundary_of_def]
  note first = round_start_CompactedAgain [OF assms(3)] and second = round_start_CompactedAgain [OF assms(4)]
  have "ls_micro_compact_frontier st1 < advanced_of raw" using compacted_settles [OF first(1) assms(1) paired, of c2] assms(4) by auto
  then have "ls_micro_compact_frontier (snd (round_view parse config overhead sys raw st1)) = advanced_of raw"
    using compacted_round [OF first(1) assms(1) paired] second(2,4) first(1) by (auto simp: compacted_def)
  then have "\<not> ls_micro_compact_frontier st2 < advanced_of raw" using second(3) advanced_le [of raw] by simp
  then show ?thesis using compacted_settles [OF second(1) assms(1) paired, of c3] by (metis next_action.exhaust)
qed


section \<open>What stays verbatim\<close>

lemma filter_upt_ge: "filter (\<lambda>i. n \<le> i) [0..<m] = [n..<m]"
  by (induction m) simp_all

lemma positions_length: "length (filter P (drop n xs)) = length (filter (\<lambda>i. n \<le> i) (positions P xs))"
proof -
  have "filter P (drop n xs) = map ((!) xs) (filter (\<lambda>i. P (xs ! i)) [n..<length xs])"
  proof (cases "n \<le> length xs")
    case True
    then have "drop n xs = map ((!) xs) [n..<length xs]" by (intro nth_equalityI) simp_all
    then show ?thesis by (simp add: filter_map o_def)
  qed simp
  moreover have "filter (\<lambda>i. n \<le> i) (positions P xs) = filter (\<lambda>i. P (xs ! i)) (filter (\<lambda>i. n \<le> i) [0..<length xs])"
    by (simp add: positions_def conj_commute)
  ultimately show ?thesis by (simp add: filter_upt_ge)
qed

lemma filter_ge_nth: "sorted_wrt (<) (ps :: nat list) \<Longrightarrow> k < length ps \<Longrightarrow> filter (\<lambda>i. ps ! k \<le> i) ps = drop k ps"
proof (induction ps arbitrary: k)
  case (Cons p ps)
  then show ?case
  proof (cases k)
    case 0
    then show ?thesis using Cons.prems by (auto simp: filter_id_conv less_imp_le)
  next
    case (Suc j)
    then have "p < ps ! j" using Cons.prems by simp
    then show ?thesis using Cons Suc by (simp add: not_le)
  qed
qed simp

lemma advance_frontier_keeps:
  assumes "advance_frontier ms keep = Some n" "0 < n"
  shows "length (filter is_tool (drop n ms)) = keep"
proof -
  let ?ps = "positions is_tool ms"
  have "keep < length ?ps" "0 < keep" "n = ?ps ! (length ?ps - keep)"
    using assms by (auto simp: advance_frontier_def Let_def split: if_splits)
  moreover have "sorted_wrt (<) ?ps" by (simp add: positions_def sorted_wrt_filter)
  ultimately show ?thesis using filter_ge_nth [of ?ps "length ?ps - keep"] by (simp add: positions_length)
qed

text \<open>
  Compaction keeps the conversation. The tail that is sent has the messages of the history from the
  boundary on, one for one; only results of tools before the frontier may differ, and then in their
  content alone, the role and the id of the call stay. From the frontier on nothing differs, and a frontier
  that has advanced leaves exactly the last three results of tools untouched.
\<close>

theorem view_keeps_conversation:
  assumes "boundary \<le> frontier" "frontier \<le> length raw"
  shows "list_all2 same_shape (drop boundary raw) (build_request_tail parse raw boundary frontier) \<and>
    drop (frontier - boundary) (build_request_tail parse raw boundary frontier) = drop frontier raw \<and>
    (advance_frontier raw micro_compact_keep_tool_results = Some frontier \<and> 0 < frontier \<longrightarrow> length (filter is_tool (drop frontier raw)) = 3)"
proof -
  have "drop (frontier - boundary) (build_request_tail parse raw boundary frontier) = drop frontier raw"
    using assms by (simp add: build_request_tail_def Let_def min_def max_def compact_frontier_segment_def)
  then show ?thesis using request_tail_shape advance_frontier_keeps by (auto simp: micro_compact_keep_tool_results_def)
qed

section \<open>Examples\<close>

definition sample_call :: "string \<Rightarrow> chat_tool_call" where
  "sample_call i = \<lparr>tc_id = i, tc_type = ''function'', tc_name = ''bash'', tc_arguments = ''{}''\<rparr>"

definition sample_config :: "nat \<Rightarrow> loop_config" where
  "sample_config window = \<lparr>lc_context_window = window, lc_max_tokens = 0\<rparr>"

definition sample_loop :: "string \<Rightarrow> loop_state" where
  "sample_loop summary =
     \<lparr>ls_compact_requested = False, ls_compaction_failed = False, ls_compacted_summary = summary, ls_compaction_boundary = 0,
      ls_micro_compact_frontier = 0, ls_last_measured_prompt_tokens = None, ls_last_request_chars = None, ls_micro_compact_attempted = False\<rparr>"

definition interrupted_chat :: "chat_message list" where
  "interrupted_chat = [msg_assistant_with_tools [sample_call ''x''], msg_user ''g'']"

theorem request_well_formed_witness:
  "\<exists>ms. fst (round_start (\<lambda>_. None) (sample_config 50) 0 [] interrupted_chat None (sample_loop ''s'')) = Send ms \<and>
     results_matched ms \<and> calls_answered ms \<and> (\<exists>pre post. ms = pre @ msg_user continue_note # post \<and> system_only pre)"
proof -
  let ?r = "round_start (\<lambda>_. None) (sample_config 50) 0 [] interrupted_chat None (sample_loop ''s'')"
  have "case fst ?r of Send ms \<Rightarrow> True | CompactedAgain \<Rightarrow> False" by code_simp
  then obtain ms where ms: "fst ?r = Send ms" by (cases "fst ?r") auto
  have "ls_compacted_summary (sample_loop ''s'') \<noteq> []" by (simp add: sample_loop_def)
  then show ?thesis using request_well_formed [of "\<lambda>_. None" "sample_config 50" 0 "[]" interrupted_chat None "sample_loop ''s''" ms "snd ?r"] ms
    by (metis empty_iff empty_set prod.collapse)
qed

definition busy_chat :: "string \<Rightarrow> string list \<Rightarrow> chat_message list" where
  "busy_chat content ids = msg_assistant_with_tools (map sample_call ids) # map (\<lambda>i. msg_tool i content) ids"

text \<open>The bound is met: here markers are longer than the results they replace.\<close>

theorem compaction_settles_witness:
  "let chat = busy_chat ''r'' [''1'', ''2'', ''3'', ''4'', ''5'', ''6''];
       go = round_start (\<lambda>_. None) (sample_config 55) 0 [] chat (Some (Some ''s''));
       st = (sample_loop [])\<lparr>ls_compact_requested := True\<rparr> in
   fst (go st) = CompactedAgain \<and> fst (go (snd (go st))) = CompactedAgain \<and> (\<exists>ms. fst (go (snd (go (snd (go st))))) = Send ms)"
proof -
  let ?chat = "busy_chat ''r'' [''1'', ''2'', ''3'', ''4'', ''5'', ''6'']" and ?st = "(sample_loop [])\<lparr>ls_compact_requested := True\<rparr>"
  let ?go = "round_start (\<lambda>_. None) (sample_config 55) 0 [] ?chat (Some (Some ''s''))"
  have first: "fst (?go ?st) = CompactedAgain" by code_simp
  have second: "fst (?go (snd (?go ?st))) = CompactedAgain" by code_simp
  have "well_paired (drop (length (fst (split_for_compaction ?chat))) ?chat)" by code_simp
  then have "\<exists>ms. fst (?go (snd (?go (snd (?go ?st))))) = Send ms"
    using first second compaction_settles [of "[]" ?chat "\<lambda>_. None" "sample_config 55" 0 "Some (Some ''s'')" ?st "snd (?go ?st)" "Some (Some ''s'')"
      "snd (?go (snd (?go ?st)))" "Some (Some ''s'')"] by (metis empty_iff empty_set prod.collapse)
  then show ?thesis using first second by (simp add: Let_def)
qed

text \<open>
  Without that condition the loop may never send. The call of the last exchange was interrupted; the
  view fits, but with the result that the repair adds it does not, so every round summarizes the same history again.
\<close>

theorem compaction_can_loop:
  "((\<lambda>st. snd (round_start (\<lambda>_. None) (sample_config 50) 0 [] interrupted_chat (Some (Some ''s'')) st)) ^^ n) (sample_loop ''s'') = sample_loop ''s'' \<and>
   fst (round_start (\<lambda>_. None) (sample_config 50) 0 [] interrupted_chat (Some (Some ''s'')) (sample_loop ''s'')) = CompactedAgain"
proof -
  have "round_start (\<lambda>_. None) (sample_config 50) 0 [] interrupted_chat (Some (Some ''s'')) (sample_loop ''s'') = (CompactedAgain, sample_loop ''s'')"
    by code_simp
  then show ?thesis by (induction n) simp_all
qed

text \<open>
  The frontier counts results of tools and not exchanges: of four results that the model has not seen, the
  first is sent as a marker only.
\<close>

theorem unseen_result_dropped:
  "let chat = busy_chat (replicate 40 CHR ''r'') [''1'', ''2'', ''3'', ''4''] in
   filter is_assistant (drop 1 chat) = [] \<and> chat ! 1 = msg_tool ''1'' (replicate 40 CHR ''r'') \<and>
   fst (round_view (\<lambda>_. None) (sample_config 50) 0 [] chat (sample_loop [])) ! 1 = msg_tool ''1'' ''[Previous: used bash]''"
  by code_simp


text \<open>
  A result that comes after a later message of the assistant is kept as paired, and its call is answered by
  the repair as well: it is sent twice, the second time after a message without that call.
\<close>

theorem late_result_sent_twice:
  "repair [msg_assistant_with_tools [sample_call ''x''], msg_assistant ''b'', msg_tool ''x'' ''r''] =
     [msg_assistant_with_tools [sample_call ''x''], msg_tool ''x'' interrupted_tool_result, msg_assistant ''b'', msg_tool ''x'' ''r'']"
  by code_simp

end
