(* ===== verification/Spec2Isabelle.thy ===== *)
theory Spec2Isabelle
  imports Node_Units Tool_Gate Permission_Bridge Agent_Cancel Agent_Fallback Task_Dependencies Chat_Pairing
begin

text \<open>
  A model of the core of Wgenty Code, a coding agent (sources under \<open>src/src/\<close>). An agent works in
  a session of turns; within a turn it works on nodes, which a work graph routes through compiling,
  testing, verification and human review. It changes files through tools, every call of which passes
  a gate; it spawns sub-agents through a coordinator; it keeps tasks; and what it sends to the model is
  a view of its history.

  \<^bold>\<open>How the parts interact.\<close> The loop of an agent (\<open>agent/runtime/loop_.rs\<close>) builds a request from the
  history, and runs the tool calls of the answer through a port (\<open>daemon/run_loop.rs\<close> for the root,
  \<open>teams/\<close> for sub-agents, \<open>cli/headless_runtime.rs\<close>). A port asks the guardian and the permission
  policy, and where they demand it the user, through the bridge; a call that may run reaches the
  registry, which captures the files it edits in the checkpoint store and runs it. Tools of the session
  call the node runtime, which uses the session coordinator, the work state, the router and the
  verification gate. Sub-agents are reserved, joined and cancelled by the agent coordinator on top of
  the agent store and the task groups, within the contracts of the org graph.

  \<^bold>\<open>Shared theories.\<close>

  \<^item> \<open>Prelude\<close>: fixed-width arithmetic, results, the state-and-error monad of the handlers with the
    rules that carry a preorder on states (locale \<open>state_preorder\<close>) or a triple through it, association lists.
  \<^item> \<open>Rust_Strings\<close>, \<open>Rust_Paths\<close>: Rust's strings as bytes of UTF-8 and their characters, JSON values, paths.

  \<^bold>\<open>Work graph and session.\<close>

  \<^item> \<open>Org_Contract\<close> (\<open>org_graph/contract.rs\<close>, \<open>registry.rs\<close>): the authority of each role.
  \<^item> \<open>Work_Graph_Plan\<close> (\<open>org_graph/work_graph_plan.rs\<close>): composition and adaptation of plans;
    composition is total and implements its contract.
  \<^item> \<open>Work_State\<close> (\<open>org_graph/work_state.rs\<close>, \<open>audit.rs\<close>): the guarded record of a node's work;
    anchored results cannot be forged through it.
  \<^item> \<open>Work_Graph_Route\<close> (\<open>exec_session/work_graph.rs\<close>): the router completes on evidence only.
  \<^item> \<open>Session_Coordinator\<close> (\<open>exec_session/session.rs\<close>, \<open>node.rs\<close>, \<open>coordinator.rs\<close>, \<open>git.rs\<close>):
    turns, nodes, persistence and rollback.
  \<^item> \<open>Verify_Gate\<close> (\<open>exec_session/verify_gate.rs\<close>, \<open>hooks.rs\<close>, \<open>verification_profile.rs\<close>): a verification
    succeeds by executed commands and declared files alone.
  \<^item> \<open>Node_Runtime\<close> (\<open>exec_session/node_runtime.rs\<close>): every handler. \<open>Node_Lifecycle\<close>, \<open>Node_Recovery\<close>,
    \<open>Node_Rollback\<close>, \<open>Node_Verify\<close> and \<open>Node_Units\<close> prove what a pass, a beginning, a rollback, a
    verification and a run of units do, that the retry loop ends and that audit trails only grow.
  \<^item> \<open>Decompose\<close> (\<open>exec_session/decompose.rs\<close>): proposals, the split of the budget, the units.
  \<^item> \<open>Root_Cause_Dispatch\<close> (\<open>exec_session/runtime_store.rs\<close>): one diagnosing child per failed attempt.
  \<^item> \<open>Session_Tools\<close> (\<open>exec_session/node_tools.rs\<close> and its neighbours): the tools a model calls, and the
    invariant of a session under any sequence of them.

  \<^bold>\<open>Files, permissions and tools.\<close>

  \<^item> \<open>Checkpoint_Store\<close>, \<open>Checkpoint_Undo\<close> (\<open>tools/checkpoint_store.rs\<close>, \<open>checkpoint.rs\<close>): undo gives
    every file back.
  \<^item> \<open>Shell_Risk\<close>, \<open>Permission_Policy\<close> (\<open>permissions/policy.rs\<close>): the splitter and risk classifier of
    shell commands against a reference definition, containment in the workspace, closed defaults.
  \<^item> \<open>Guardian\<close> (\<open>runtime/guardian.rs\<close>): critical commands.
  \<^item> \<open>Apply_Patch\<close> (\<open>tools/filesystem/apply_patch.rs\<close>): the format loses nothing, a patch is applied as a whole.
  \<^item> \<open>Tool_Gate\<close> (the ports, \<open>tools/mod.rs\<close>): what reaches a tool; no critical command ever does.
  \<^item> \<open>Permission_Bridge\<close> (\<open>teams/permission_bridge.rs\<close>): requests, answers, timeouts and cancellations
    interleaved; nothing is approved without its answer.

  \<^bold>\<open>Agents.\<close>

  \<^item> \<open>Task_Group\<close> (\<open>agent/task_group.rs\<close>): batches of results, delivered once and complete.
  \<^item> \<open>Agent_Store\<close>, \<open>Agent_Directory\<close> (\<open>agent/store.rs\<close>): the hierarchy and what each agent sees of it.
  \<^item> \<open>Result_Mailbox\<close> (\<open>teams/subagent_mailbox.rs\<close>): what a parent gets of a result; none is lost.
  \<^item> \<open>Agent_Coordinator\<close> (\<open>agent/coordinator.rs\<close>): every operation. \<open>Agent_Lifecycle\<close>: the invariant of its
    state over all reachable states, permits and contracts. \<open>Agent_Scopes\<close>: reservations, outcomes and
    finalization. \<open>Agent_Cancel\<close>: cancelling a subtree ends.
  \<^item> \<open>Agent_Fallback\<close> (\<open>agent/fallback.rs\<close>): one fallback per key, for calls that do not overlap.
  \<^item> \<open>Task_Tracker\<close>, \<open>Task_Dependencies\<close> (\<open>tasks/\<close>): tasks that block one another. The search for a cycle
    is exact, no interleaving of calls makes one, and a blocked task waits.
  \<^item> \<open>Chat_View\<close>, \<open>Chat_Pairing\<close> (\<open>agent/runtime/compaction.rs\<close>, \<open>api/types.rs\<close>, the first part of a round in
    \<open>loop_.rs\<close>): tool calls and results are paired in every request, compaction keeps the conversation and ends.

  \<^bold>\<open>Conventions.\<close> The state of a component is a record, an operation a function on it, or a value of the
  monad of \<open>Prelude\<close> where the code threads state and errors; every error is a value, a panic is a
  value of its own where the code can reach it. Where the code takes a lock more than once, the parts
  between are steps of a relation, and invariants hold for all interleavings. Clocks, random ids, git,
  the command executor, the disk, JSON parsing, path resolution by the operating system and the answers
  of a user or a model are parameters; hypotheses state what is documented of them, and witnesses show that
  they can hold. Counters that may overflow are words; sizes of texts are natural numbers. Fuel stands
  for the recursion over the hierarchy of agents only; the theorems ask for fuel above the depth
  limit, which is enough since no agent is deeper. Other loops are total functions.

  \<^bold>\<open>Not modelled.\<close> Streaming from and to a model, prompts and provider formats (\<open>api/\<close>, \<open>prompts/\<close>): I/O with
  a language model. The loops of sub-agents, traces and health checks (\<open>teams/\<close>) around it. Memory and
  retrieval (\<open>context/\<close>): heuristics over floating-point scores. The daemon, web and terminal interfaces,
  MCP, plugins and the sandbox: I/O and operating-system services. In the coordinator, interleavings
  inside an operation that waits, reservations excepted. Texts of messages and time stamps where nothing
  depends on them.
\<close>

end
